(* ===== verification/Prelude.thy ===== *)
theory Prelude
  imports Main "HOL-Library.Char_ord" "HOL-Library.List_Lexorder" "HOL-Library.Product_Lexorder"
    "HOL-Library.Multiset"
begin

section \<open>Shared vocabulary of the development\<close>

text \<open>
  What every component of the model uses: results that carry an error, Go slices with their
  nil value, Go strings as lists of bytes, and the lemmas on lists and sorting that the
  component proofs share.

  \<^item> An operation that returns \<open>(T, error)\<close> in the source returns \<open>'e + 'a\<close> here, \<open>Inl\<close> the
    error; one that returns only an error returns \<open>'e option\<close>, \<open>None\<close> for the nil error.
  \<^item> A slice is \<open>'a list option\<close>: \<open>None\<close> is the nil slice, which has no element but encodes
    as the JSON value null, unlike the empty slice \<open>Some []\<close>.
  \<^item> A string is a list of bytes (\<open>char\<close> is the type of bytes), compared lexicographically
    byte by byte as Go compares strings; \<open>len\<close> of the source is \<open>length\<close>.
\<close>

named_theorems result_simps \<open>inversion of the error monad\<close>
named_theorems slice_simps \<open>elements of slices built by the slice operations\<close>

subsection \<open>Results\<close>

definition bindR :: "'e + 'a \<Rightarrow> ('a \<Rightarrow> 'e + 'b) \<Rightarrow> 'e + 'b" where
  "bindR x f = (case x of Inl e \<Rightarrow> Inl e | Inr v \<Rightarrow> f v)"

definition guardR :: "'e option \<Rightarrow> 'e + 'a \<Rightarrow> 'e + 'a" where
  "guardR g x = (case g of Some e \<Rightarrow> Inl e | None \<Rightarrow> x)"

text \<open>A loop that runs a step on every element and returns at its first error.\<close>

fun mapR :: "('a \<Rightarrow> 'e + 'b) \<Rightarrow> 'a list \<Rightarrow> 'e + 'b list" where
  "mapR f [] = Inr []"
| "mapR f (x # xs) = bindR (f x) (\<lambda>y. bindR (mapR f xs) (\<lambda>ys. Inr (y # ys)))"

text \<open>The first error of a sequence of checks, each on one element.\<close>

fun firstError :: "('a \<Rightarrow> 'e option) \<Rightarrow> 'a list \<Rightarrow> 'e option" where
  "firstError f [] = None"
| "firstError f (x # xs) = (case f x of Some e \<Rightarrow> Some e | None \<Rightarrow> firstError f xs)"

fun okR :: "'e + 'a \<Rightarrow> bool" where
  "okR (Inl e) = False"
| "okR (Inr v) = True"

lemma bindR_simps [simp]:
  "bindR (Inl e) f = Inl e"
  "bindR (Inr v) f = f v"
  by (simp_all add: bindR_def)

lemma bindR_eq_Inr [result_simps]: "bindR x f = Inr y \<longleftrightarrow> (\<exists>v. x = Inr v \<and> f v = Inr y)"
  by (cases x) auto

lemma bindR_eq_Inl [result_simps]:
  "bindR x f = Inl e \<longleftrightarrow> x = Inl e \<or> (\<exists>v. x = Inr v \<and> f v = Inl e)"
  by (cases x) auto

lemma guardR_simps [simp]:
  "guardR None x = x"
  "guardR (Some e) x = Inl e"
  by (simp_all add: guardR_def)

lemma guardR_eq_Inr [result_simps]: "guardR g x = Inr y \<longleftrightarrow> g = None \<and> x = Inr y"
  by (cases g) auto

lemma okR_iff: "okR x \<longleftrightarrow> (\<exists>v. x = Inr v)"
  by (cases x) auto

lemma mapR_Inr_iff: "mapR f xs = Inr ys \<longleftrightarrow> list_all2 (\<lambda>x y. f x = Inr y) xs ys"
  by (induction xs arbitrary: ys) (auto simp: result_simps list_all2_Cons1)

lemma mapR_total:
  assumes "\<And>x. x \<in> set xs \<Longrightarrow> f x = Inr (g x)"
  shows "mapR f xs = Inr (map g xs)"
  using assms by (induction xs) auto

lemma firstError_None_iff [simp]: "firstError f xs = None \<longleftrightarrow> (\<forall>x\<in>set xs. f x = None)"
  by (induction xs) (auto split: option.splits)

lemma firstError_mem: "firstError f xs = Some e \<Longrightarrow> \<exists>x\<in>set xs. f x = Some e"
  by (induction xs) (auto split: option.splits)

subsection \<open>Slices\<close>

type_synonym 'a slice = "'a list option"

definition elems :: "'a slice \<Rightarrow> 'a list" where
  "elems s = (case s of None \<Rightarrow> [] | Some xs \<Rightarrow> xs)"

text \<open>\<open>append(s, xs...)\<close> of Go: appending nothing to the nil slice leaves it nil.\<close>

definition appendS :: "'a slice \<Rightarrow> 'a list \<Rightarrow> 'a slice" where
  "appendS s xs = (if xs = [] then s else Some (elems s @ xs))"

text \<open>\<open>slices.Sort\<close>, \<open>slices.Compact\<close> and \<open>slices.DeleteFunc\<close> keep the nil slice nil.\<close>

definition sortS :: "'a::linorder slice \<Rightarrow> 'a slice" where
  "sortS s = map_option sort s"

definition compactS :: "'a slice \<Rightarrow> 'a slice" where
  "compactS s = map_option remdups_adj s"

definition deleteS :: "('a \<Rightarrow> bool) \<Rightarrow> 'a slice \<Rightarrow> 'a slice" where
  "deleteS p s = map_option (filter (\<lambda>x. \<not> p x)) s"

text \<open>\<open>slices.IndexFunc\<close> and \<open>slices.Index\<close>, \<open>None\<close> for the index -1.\<close>

fun indexFunc :: "('a \<Rightarrow> bool) \<Rightarrow> 'a list \<Rightarrow> nat option" where
  "indexFunc p [] = None"
| "indexFunc p (x # xs) = (if p x then Some 0 else map_option Suc (indexFunc p xs))"

lemma elems_simps [simp]:
  "elems None = []"
  "elems (Some xs) = xs"
  by (simp_all add: elems_def)

lemma elems_appendS [simp, slice_simps]: "elems (appendS s xs) = elems s @ xs"
  by (simp add: appendS_def)

lemma elems_sortS [simp, slice_simps]: "elems (sortS s) = sort (elems s)"
  by (cases s) (simp_all add: sortS_def)

lemma elems_compactS [simp, slice_simps]: "elems (compactS s) = remdups_adj (elems s)"
  by (cases s) (simp_all add: compactS_def)

lemma elems_deleteS [simp, slice_simps]: "elems (deleteS p s) = filter (\<lambda>x. \<not> p x) (elems s)"
  by (cases s) (simp_all add: deleteS_def)

lemma indexFunc_Some:
  "indexFunc p xs = Some i \<Longrightarrow> i < length xs \<and> p (xs ! i) \<and> (\<forall>j<i. \<not> p (xs ! j))"
proof (induction xs arbitrary: i)
  case Nil
  then show ?case by simp
next
  case (Cons x xs)
  show ?case
  proof (cases "p x")
    case True
    with Cons.prems show ?thesis by simp
  next
    case False
    with Cons.prems obtain k where k: "indexFunc p xs = Some k" and i: "i = Suc k"
      by auto
    from Cons.IH [OF k] have IH: "k < length xs" "p (xs ! k)" "\<forall>j<k. \<not> p (xs ! j)"
      by auto
    have "\<not> p ((x # xs) ! j)" if "j < i" for j
      using that False IH(3) i by (cases j) auto
    with IH i show ?thesis by simp
  qed
qed

lemma indexFunc_None_iff [simp]: "indexFunc p xs = None \<longleftrightarrow> (\<forall>x\<in>set xs. \<not> p x)"
  by (induction xs) auto

subsection \<open>Sorting\<close>

text \<open>
  \<open>slices.SortFunc\<close> is not stable, and \<open>sort_key\<close> is: on keys that differ both give the one
  sorted list, which is what the next lemma states.
\<close>

lemma sort_key_unique:
  assumes "mset xs = mset ys" and "inj_on k (set xs)"
  shows "sort_key k xs = sort_key k ys"
proof (rule properties_for_sort_key)
  show "mset (sort_key k ys) = mset xs"
    using assms(1) by simp
  show "sorted (map k (sort_key k ys))"
    by simp
  fix x
  have sety: "set ys = set xs"
    using assms(1) by (rule mset_eq_setD [symmetric])
  have eq: "filter (\<lambda>y. k x = k y) zs = filter (\<lambda>y. x = y) zs" if "set zs \<subseteq> set xs" "x \<in> set xs" for zs x
    using that assms(2) by (intro filter_cong) (auto dest: inj_onD)
  assume x: "x \<in> set (sort_key k ys)"
  then have x': "x \<in> set xs"
    using sety by simp
  have c: "filter ((=) x) zs = replicate (count (mset zs) x) x" for zs
    by (induction zs) auto
  show "filter (\<lambda>y. k x = k y) (sort_key k ys) = filter (\<lambda>y. k x = k y) xs"
    using eq [of "sort_key k ys" x] eq [of xs x] x' sety assms(1)
    by (simp add: c)
qed

lemma sort_cong_mset: "mset xs = mset ys \<Longrightarrow> sort xs = sort ys"
  by (rule properties_for_sort [symmetric]) simp_all

lemma sorted_distinct_remdups_adj: "sorted xs \<Longrightarrow> distinct (remdups_adj xs)"
  by (induction xs rule: remdups_adj.induct) auto

lemma sorted_remdups_adj': "sorted xs \<Longrightarrow> sorted (remdups_adj xs)"
  by (induction xs rule: remdups_adj.induct) auto

lemma remdups_adj_sort_eq:
  fixes xs ys :: "'a::linorder list"
  assumes "set xs = set ys"
  shows "remdups_adj (sort xs) = remdups_adj (sort ys)"
proof (rule sorted_distinct_set_unique)
  show "set (remdups_adj (sort xs)) = set (remdups_adj (sort ys))"
    using assms by simp
qed (simp_all add: sorted_distinct_remdups_adj sorted_remdups_adj')

lemma remdups_adj_sort_id: "sorted xs \<Longrightarrow> distinct xs \<Longrightarrow> remdups_adj (sort xs) = xs"
  by (simp add: sorted_sort_id remdups_adj_distinct)

lemma index_of_distinct:
  "distinct xs \<Longrightarrow> i < length xs \<Longrightarrow> j < length xs \<Longrightarrow> xs ! i = xs ! j \<longleftrightarrow> i = j"
  by (simp add: nth_eq_iff_index_eq)

subsection \<open>Encodings\<close>

text \<open>
  The contract every durable text format of the program promises: what was written is read
  back, and, for a canonical format, every text that reads is the one written for its value.
\<close>

locale encoding =
  fixes enc :: "'a \<Rightarrow> 'b" and dec :: "'b \<Rightarrow> 'a option" and valid :: "'a \<Rightarrow> bool"
  assumes dec_enc: "valid x \<Longrightarrow> dec (enc x) = Some x"
begin

lemma enc_inj: "valid x \<Longrightarrow> valid y \<Longrightarrow> enc x = enc y \<Longrightarrow> x = y"
  by (metis dec_enc option.inject)

lemma enc_inj_on: "inj_on enc {x. valid x}"
  by (rule inj_onI) (auto intro: enc_inj)

end

locale canonical_encoding = encoding +
  assumes dec_sound: "dec y = Some x \<Longrightarrow> valid x \<and> enc x = y"
begin

lemma dec_iff: "dec y = Some x \<longleftrightarrow> valid x \<and> enc x = y"
  using dec_sound [of y x] dec_enc [of x] by auto

lemma dec_inj: "dec y = Some x \<Longrightarrow> dec z = Some x \<Longrightarrow> y = z"
  using dec_sound [of y x] dec_sound [of z x] by auto

lemma dec_None_iff: "dec y = None \<longleftrightarrow> (\<forall>x. valid x \<longrightarrow> enc x \<noteq> y)"
  by (metis dec_iff not_None_eq)

end

end
