(* ===== verification/GoStd.thy ===== *)
theory GoStd
  imports Prelude
begin

section \<open>The parts of the Go standard library the source uses on strings\<close>

text \<open>
  \<^item> \<open>encoding/hex\<close>: \<open>EncodeToString\<close> and \<open>DecodeString\<close>;
  \<^item> \<open>unicode/utf8\<close>: \<open>ValidString\<close> and the width of the encoding at the head of a string;
  \<^item> \<open>strconv\<close> and \<open>fmt\<close>: decimal numerals, with a minimum width padded with zeros;
  \<^item> \<open>strings\<close>: \<open>Cut\<close>, \<open>CutPrefix\<close>, \<open>CutSuffix\<close>, \<open>TrimRight\<close>, \<open>Join\<close>.
\<close>

subsection \<open>Bytes\<close>

abbreviation byte_of :: "char \<Rightarrow> nat" where
  "byte_of c \<equiv> of_char c"

abbreviation byte_chr :: "nat \<Rightarrow> char" where
  "byte_chr n \<equiv> char_of n"

lemma byte_of_less [simp]: "byte_of c < 256"
  by (metis char_of_nat less_numeral_extra(3) nat_of_char_less_256)

subsection \<open>Hexadecimal\<close>

definition hex_digit :: "nat \<Rightarrow> char" where
  "hex_digit n = (if n < 10 then byte_chr (48 + n) else byte_chr (87 + n))"

definition hex_value :: "char \<Rightarrow> nat option" where
  "hex_value c =
     (let b = byte_of c in
      if 48 \<le> b \<and> b \<le> 57 then Some (b - 48)
      else if 97 \<le> b \<and> b \<le> 102 then Some (b - 87)
      else if 65 \<le> b \<and> b \<le> 70 then Some (b - 55)
      else None)"

definition hex_encode :: "string \<Rightarrow> string" where
  "hex_encode bs = concat (map (\<lambda>c. [hex_digit (byte_of c div 16), hex_digit (byte_of c mod 16)]) bs)"

fun hex_decode :: "string \<Rightarrow> string option" where
  "hex_decode [] = Some []"
| "hex_decode [c] = None"
| "hex_decode (c # d # r) =
     (case (hex_value c, hex_value d, hex_decode r) of
        (Some x, Some y, Some bs) \<Rightarrow> Some (byte_chr (16 * x + y) # bs)
      | _ \<Rightarrow> None)"

definition lower_hex :: "char \<Rightarrow> bool" where
  "lower_hex c \<longleftrightarrow> (48 \<le> byte_of c \<and> byte_of c \<le> 57) \<or> (97 \<le> byte_of c \<and> byte_of c \<le> 102)"

subsection \<open>UTF-8\<close>

definition cont_byte :: "char \<Rightarrow> bool" where
  "cont_byte c \<longleftrightarrow> 128 \<le> byte_of c \<and> byte_of c \<le> 191"

text \<open>The range the second byte of a sequence must lie in, by its first byte.\<close>

definition second_ok :: "nat \<Rightarrow> char \<Rightarrow> bool" where
  "second_ok b c =
     (if b = 224 then 160 \<le> byte_of c \<and> byte_of c \<le> 191
      else if b = 237 then 128 \<le> byte_of c \<and> byte_of c \<le> 159
      else if b = 240 then 144 \<le> byte_of c \<and> byte_of c \<le> 191
      else if b = 244 then 128 \<le> byte_of c \<and> byte_of c \<le> 143
      else cont_byte c)"

text \<open>The length of the sequence a first byte announces, 0 where no sequence starts with it.\<close>

definition rune_need :: "nat \<Rightarrow> nat" where
  "rune_need b =
     (if b < 128 then 1
      else if 194 \<le> b \<and> b \<le> 223 then 2
      else if 224 \<le> b \<and> b \<le> 239 then 3
      else if 240 \<le> b \<and> b \<le> 244 then 4
      else 0)"

definition tail_ok :: "nat \<Rightarrow> string \<Rightarrow> bool" where
  "tail_ok b t = (case t of [] \<Rightarrow> True | c # cs \<Rightarrow> second_ok b c \<and> list_all cont_byte cs)"

text \<open>The number of bytes of the valid encoding at the head of a string, 0 for none.\<close>

definition rune_size :: "string \<Rightarrow> nat" where
  "rune_size s = (case s of [] \<Rightarrow> 0 | c # r \<Rightarrow>
     (let n = rune_need (byte_of c) in
      if n \<noteq> 0 \<and> n \<le> length s \<and> tail_ok (byte_of c) (take (n - 1) r) then n else 0))"

function utf8_valid :: "string \<Rightarrow> bool" where
  "utf8_valid s =
     (if s = [] then True
      else if rune_size s = 0 then False
      else utf8_valid (drop (rune_size s) s))"
  by pat_completeness auto
termination
  by (relation "measure length") auto

declare utf8_valid.simps [simp del]

subsection \<open>Decimal numerals\<close>

fun decimal :: "nat \<Rightarrow> string" where
  "decimal n = (if n < 10 then [byte_chr (48 + n)] else decimal (n div 10) @ [byte_chr (48 + n mod 10)])"

declare decimal.simps [simp del]

definition decimal_padded :: "nat \<Rightarrow> nat \<Rightarrow> string" where
  "decimal_padded w n = replicate (w - length (decimal n)) (CHR ''0'') @ decimal n"

definition is_digit :: "char \<Rightarrow> bool" where
  "is_digit c \<longleftrightarrow> 48 \<le> byte_of c \<and> byte_of c \<le> 57"

definition digit_value :: "char \<Rightarrow> nat" where
  "digit_value c = byte_of c - 48"

definition digits_value :: "string \<Rightarrow> nat" where
  "digits_value s = foldl (\<lambda>n c. 10 * n + digit_value c) 0 s"

text \<open>
  \<open>strconv.Atoi\<close>: an optional sign and at least one digit. The callers bound the length of
  the text, far below the width at which a 64-bit integer overflows.
\<close>

definition atoi :: "string \<Rightarrow> int option" where
  "atoi s = (case s of [] \<Rightarrow> None | c # r \<Rightarrow>
     (let ds = (if c = CHR ''-'' \<or> c = CHR ''+'' then r else s) in
      if ds = [] \<or> \<not> list_all is_digit ds then None
      else Some (if c = CHR ''-'' then - int (digits_value ds) else int (digits_value ds))))"

subsection \<open>Strings\<close>

definition has_prefix :: "string \<Rightarrow> string \<Rightarrow> bool" where
  "has_prefix s p \<longleftrightarrow> take (length p) s = p"

definition cut_prefix :: "string \<Rightarrow> string \<Rightarrow> string option" where
  "cut_prefix s p = (if has_prefix s p then Some (drop (length p) s) else None)"

definition cut_suffix :: "string \<Rightarrow> string \<Rightarrow> string option" where
  "cut_suffix s p =
     (if length p \<le> length s \<and> drop (length s - length p) s = p
      then Some (take (length s - length p) s) else None)"

text \<open>\<open>strings.Cut\<close>: the text before and after the first separator, and whether it is there.\<close>

fun cut_at :: "string \<Rightarrow> string \<Rightarrow> string \<times> string \<times> bool" where
  "cut_at sep [] = (if sep = [] then ([], [], True) else ([], [], False))"
| "cut_at sep (c # r) =
     (if has_prefix (c # r) sep then ([], drop (length sep) (c # r), True)
      else (case cut_at sep r of (b, a, found) \<Rightarrow> (c # b, a, found)))"

definition trim_right :: "char \<Rightarrow> string \<Rightarrow> string" where
  "trim_right c s = rev (dropWhile (\<lambda>x. x = c) (rev s))"

fun join :: "string \<Rightarrow> string list \<Rightarrow> string" where
  "join sep [] = []"
| "join sep [s] = s"
| "join sep (s # t # ss) = s @ sep @ join sep (t # ss)"

subsection \<open>Hexadecimal: round trips\<close>

lemma byte_of_chr [simp]: "n < 256 \<Longrightarrow> byte_of (byte_chr n) = n"
  by (simp add: of_char_of)

lemma hex_value_digit [simp]: "n < 16 \<Longrightarrow> hex_value (hex_digit n) = Some n"
  by (auto simp: hex_value_def hex_digit_def Let_def)

lemma hex_encode_simps [simp]:
  "hex_encode [] = []"
  "hex_encode (c # bs) = hex_digit (byte_of c div 16) # hex_digit (byte_of c mod 16) # hex_encode bs"
  by (simp_all add: hex_encode_def)

lemma byte_div_16 [simp]: "byte_of c div 16 < 16"
proof -
  have "byte_of c < 256" by (rule byte_of_less)
  then show ?thesis by linarith
qed

lemma length_hex_encode [simp]: "length (hex_encode bs) = 2 * length bs"
  by (induction bs) auto

lemma hex_decode_encode [simp]: "hex_decode (hex_encode bs) = Some bs"
proof (induction bs)
  case Nil
  then show ?case by simp
next
  case (Cons c bs)
  then show ?case by simp
qed

lemma lower_hex_digit [simp]: "n < 16 \<Longrightarrow> lower_hex (hex_digit n)"
  by (auto simp: lower_hex_def hex_digit_def)

lemma hex_encode_lower: "list_all lower_hex (hex_encode bs)"
  by (induction bs) auto

lemma hex_digit_value: "lower_hex c \<Longrightarrow> \<exists>v<16. hex_value c = Some v \<and> hex_digit v = c"
proof -
  assume "lower_hex c"
  then consider (d) "48 \<le> byte_of c" "byte_of c \<le> 57" | (l) "97 \<le> byte_of c" "byte_of c \<le> 102"
    by (auto simp: lower_hex_def)
  then show ?thesis
  proof cases
    case d
    then have "hex_value c = Some (byte_of c - 48)" "hex_digit (byte_of c - 48) = c"
      by (auto simp: hex_value_def hex_digit_def Let_def)
    with d show ?thesis by (intro exI [of _ "byte_of c - 48"]) auto
  next
    case l
    then have "hex_value c = Some (byte_of c - 87)" "hex_digit (byte_of c - 87) = c"
      by (auto simp: hex_value_def hex_digit_def Let_def)
    with l show ?thesis by (intro exI [of _ "byte_of c - 87"]) auto
  qed
qed

lemma hex_canonical:
  "even (length s) \<and> list_all lower_hex s \<longleftrightarrow> (\<exists>bs. hex_decode s = Some bs \<and> hex_encode bs = s)"
proof
  assume "even (length s) \<and> list_all lower_hex s"
  then show "\<exists>bs. hex_decode s = Some bs \<and> hex_encode bs = s"
  proof (induction s rule: hex_decode.induct)
    case (3 c d r)
    then obtain bs where bs: "hex_decode r = Some bs" "hex_encode bs = r"
      by auto
    from 3 obtain x where x: "x < 16" "hex_value c = Some x" "hex_digit x = c"
      using hex_digit_value by (metis list.pred_inject(2))
    from 3 obtain y where y: "y < 16" "hex_value d = Some y" "hex_digit y = d"
      using hex_digit_value by (metis list.pred_inject(2))
    from x(1) y(1) have "16 * x + y < 256" by simp
    with bs x y show ?case by (auto simp: div_mult_self3)
  qed auto
next
  assume "\<exists>bs. hex_decode s = Some bs \<and> hex_encode bs = s"
  then obtain bs where "hex_encode bs = s" by blast
  then show "even (length s) \<and> list_all lower_hex s"
    using hex_encode_lower [of bs] by (auto simp flip: \<open>hex_encode bs = s\<close>)
qed

subsection \<open>Decimal: round trips\<close>

lemma decimal_neq_Nil [simp]: "decimal n \<noteq> []"
  by (subst decimal.simps) simp

lemma is_digit_chr [simp]: "n < 10 \<Longrightarrow> is_digit (byte_chr (48 + n))"
  by (simp add: is_digit_def)

lemma decimal_digits: "list_all is_digit (decimal n)"
proof (induction n rule: decimal.induct)
  case (1 n)
  then show ?case by (subst decimal.simps) auto
qed

lemma digits_value_append [simp]:
  "digits_value (s @ [c]) = 10 * digits_value s + digit_value c"
  by (simp add: digits_value_def)

lemma digits_value_decimal [simp]: "digits_value (decimal n) = n"
proof (induction n rule: decimal.induct)
  case (1 n)
  show ?case
  proof (cases "n < 10")
    case True
    then show ?thesis by (subst decimal.simps) (simp add: digits_value_def digit_value_def)
  next
    case False
    with "1.IH" show ?thesis
      by (subst decimal.simps) (simp add: digit_value_def)
  qed
qed

lemma digits_value_zeros [simp]: "digits_value (replicate k (CHR ''0'') @ s) = digits_value s"
  by (induction k) (simp_all add: digits_value_def digit_value_def)

lemma decimal_length_bound: "n < 10 ^ k \<Longrightarrow> 0 < k \<Longrightarrow> length (decimal n) \<le> k"
proof (induction k arbitrary: n)
  case 0
  then show ?case by simp
next
  case (Suc k)
  show ?case
  proof (cases "n < 10")
    case True
    then show ?thesis by (subst decimal.simps) simp
  next
    case False
    with Suc.prems have k: "0 < k" by (cases k) auto
    have "n div 10 < 10 ^ k" using Suc.prems(1) by auto
    with k have "length (decimal (n div 10)) \<le> k" by (rule Suc.IH [rotated -1])
    with False show ?thesis by (subst decimal.simps) simp
  qed
qed

lemma length_decimal_padded: "n < 10 ^ w \<Longrightarrow> 0 < w \<Longrightarrow> length (decimal_padded w n) = w"
  using decimal_length_bound [of n w] by (simp add: decimal_padded_def)

lemma digits_value_bound: "list_all is_digit s \<Longrightarrow> digits_value s < 10 ^ length s"
proof (induction s rule: rev_induct)
  case Nil
  then show ?case by (simp add: digits_value_def)
next
  case (snoc c s)
  then have "digits_value s < 10 ^ length s" by simp
  moreover have "digit_value c < 10" using snoc.prems by (auto simp: digit_value_def is_digit_def)
  ultimately show ?case by simp
qed

lemma ten_split: "10 * a + c = 10 * b + d \<Longrightarrow> c < 10 \<Longrightarrow> d < 10 \<Longrightarrow> c = d \<and> a = b" for a b c d :: nat
  by (metis add.commute div_mult_self2 div_less mod_mult_self2 mod_less add_0_left zero_neq_numeral)

lemma digits_inj:
  "list_all is_digit s \<Longrightarrow> list_all is_digit t \<Longrightarrow> length s = length t \<Longrightarrow>
   digits_value s = digits_value t \<Longrightarrow> s = t"
proof (induction s arbitrary: t rule: rev_induct)
  case Nil
  then show ?case by simp
next
  case (snoc c s)
  then obtain t' d where t: "t = t' @ [d]" by (cases t rule: rev_cases) auto
  have c: "digit_value c < 10" "digit_value d < 10"
    using snoc.prems t by (auto simp: digit_value_def is_digit_def)
  have eq: "10 * digits_value s + digit_value c = 10 * digits_value t' + digit_value d"
    using snoc.prems t by simp
  from ten_split [OF this c] have v: "digit_value c = digit_value d" "digits_value s = digits_value t'"
    by simp_all
  have "48 \<le> byte_of c" "48 \<le> byte_of d"
    using snoc.prems t by (simp_all add: is_digit_def)
  with v(1) have "byte_of c = byte_of d"
    unfolding digit_value_def by linarith
  then have "c = d" by simp
  moreover have "s = t'" using snoc.IH [of t'] snoc.prems t v(2) by simp
  ultimately show ?case using t by simp
qed

lemma decimal_padded_unique:
  assumes "list_all is_digit s" and "length s = w" and "0 < w"
  shows "decimal_padded w (digits_value s) = s"
proof (rule digits_inj)
  have b: "digits_value s < 10 ^ w" using digits_value_bound [OF assms(1)] assms(2) by simp
  show "length (decimal_padded w (digits_value s)) = length s"
    using length_decimal_padded [OF b assms(3)] assms(2) by simp
  show "digits_value (decimal_padded w (digits_value s)) = digits_value s"
    by (simp add: decimal_padded_def)
  show "list_all is_digit (decimal_padded w (digits_value s))"
    by (simp add: decimal_padded_def decimal_digits) (simp add: list_all_iff is_digit_def)
  show "list_all is_digit s" by (rule assms(1))
qed

lemma decimal_padded_digits: "list_all is_digit (decimal_padded w n)"
  by (simp add: decimal_padded_def decimal_digits) (simp add: list_all_iff is_digit_def)

lemma digits_value_padded [simp]: "digits_value (decimal_padded w n) = n"
  by (simp add: decimal_padded_def)

end
