(* ===== verification/Diagnostics.thy ===== *)
theory Diagnostics
  imports GoStd
begin

section \<open>Diagnostics\<close>

text \<open>
  The error values of the program, \<open>internal/diagnostics/diagnostic.go\<close>: a failure carries the
  diagnostics a refusal reports. Every refusal of the model is one of these, with the message
  of the source. The second part is the order diagnostics are reported in.
\<close>

record SourceLocation =
  Path :: string
  Document :: int
  Line :: int
  Column :: int

record ObjectIdentity =
  APIVersion :: string
  ObjectKind :: string
  ObjectName :: string

record Diagnostic =
  Severity :: string
  Code :: string
  Message :: string
  Source :: "SourceLocation option"
  DiagnosedObject :: "ObjectIdentity option"
  Field :: string
  Remediation :: string

record Failure =
  FailureDiagnostics :: "Diagnostic list"
  Usage :: bool

type_synonym 'a result = "Failure + 'a"

definition NewFailureWithRemediation :: "string \<Rightarrow> string \<Rightarrow> string \<Rightarrow> string \<Rightarrow> Failure" where
  "NewFailureWithRemediation code message path remediation =
     \<lparr>FailureDiagnostics =
        [\<lparr>Severity = ''error'', Code = code, Message = message,
          Source = (if path \<noteq> [] then Some \<lparr>Path = path, Document = 0, Line = 0, Column = 0\<rparr> else None),
          DiagnosedObject = None, Field = [], Remediation = remediation\<rparr>],
      Usage = False\<rparr>"

definition NewFailure :: "string \<Rightarrow> string \<Rightarrow> string \<Rightarrow> Failure" where
  "NewFailure code message path = NewFailureWithRemediation code message path []"

subsection \<open>The order of diagnostics\<close>

definition compareStrings :: "string \<Rightarrow> string \<Rightarrow> int" where
  "compareStrings a b = (if a < b then -1 else if a > b then 1 else 0)"

text \<open>The first comparison that decides.\<close>

fun firstNonzero :: "int list \<Rightarrow> int" where
  "firstNonzero [] = 0"
| "firstNonzero (c # cs) = (if c \<noteq> 0 then c else firstNonzero cs)"

definition compareSources :: "SourceLocation \<Rightarrow> SourceLocation \<Rightarrow> int" where
  "compareSources a b =
     firstNonzero [compareStrings (Path a) (Path b), Document a - Document b,
       Line a - Line b, Column a - Column b]"

definition compareObjects :: "ObjectIdentity \<Rightarrow> ObjectIdentity \<Rightarrow> int" where
  "compareObjects a b =
     firstNonzero [compareStrings (APIVersion a) (APIVersion b),
       compareStrings (ObjectKind a) (ObjectKind b), compareStrings (ObjectName a) (ObjectName b)]"

text \<open>A missing source sorts last, a missing object first.\<close>

fun missingLast :: "('b \<Rightarrow> 'b \<Rightarrow> int) \<Rightarrow> 'b option \<Rightarrow> 'b option \<Rightarrow> int" where
  "missingLast c None None = 0"
| "missingLast c None (Some y) = 1"
| "missingLast c (Some x) None = -1"
| "missingLast c (Some x) (Some y) = c x y"

fun missingFirst :: "('b \<Rightarrow> 'b \<Rightarrow> int) \<Rightarrow> 'b option \<Rightarrow> 'b option \<Rightarrow> int" where
  "missingFirst c None None = 0"
| "missingFirst c None (Some y) = -1"
| "missingFirst c (Some x) None = 1"
| "missingFirst c (Some x) (Some y) = c x y"

definition CompareDiagnostics :: "Diagnostic \<Rightarrow> Diagnostic \<Rightarrow> int" where
  "CompareDiagnostics a b =
     firstNonzero
       [missingLast compareSources (Source a) (Source b),
        compareStrings (Code a) (Code b),
        missingFirst compareObjects (DiagnosedObject a) (DiagnosedObject b),
        compareStrings (Field a) (Field b),
        compareStrings (Message a) (Message b)]"

text \<open>\<open>slices.SortStableFunc\<close> with that comparison, as an insertion sort, which is stable.\<close>

fun insertDiagnostic :: "Diagnostic \<Rightarrow> Diagnostic list \<Rightarrow> Diagnostic list" where
  "insertDiagnostic d [] = [d]"
| "insertDiagnostic d (e # es) =
     (if CompareDiagnostics d e \<le> 0 then d # e # es else e # insertDiagnostic d es)"

definition SortDiagnostics :: "Diagnostic list \<Rightarrow> Diagnostic list" where
  "SortDiagnostics ds = foldr insertDiagnostic ds []"

subsection \<open>The comparison is a linear preorder\<close>

text \<open>
  A comparison function is lawful when swapping its arguments swaps its sign and when it is
  transitive; sorting by it then gives a sorted list.
\<close>

definition lawful_cmp :: "('a \<Rightarrow> 'a \<Rightarrow> int) \<Rightarrow> bool" where
  "lawful_cmp c \<longleftrightarrow>
     (\<forall>x y. (c x y < 0 \<longleftrightarrow> 0 < c y x)) \<and>
     (\<forall>x y z. c x y \<le> 0 \<longrightarrow> c y z \<le> 0 \<longrightarrow> c x z \<le> 0)"

lemma lawful_cmpI:
  assumes "\<And>x y. c x y < 0 \<longleftrightarrow> 0 < c y x" and "\<And>x y z. c x y \<le> 0 \<Longrightarrow> c y z \<le> 0 \<Longrightarrow> c x z \<le> 0"
  shows "lawful_cmp c"
  using assms unfolding lawful_cmp_def by blast

lemma lawful_swap: "lawful_cmp c \<Longrightarrow> c x y < 0 \<longleftrightarrow> 0 < c y x"
  by (simp add: lawful_cmp_def)

lemma lawful_trans: "lawful_cmp c \<Longrightarrow> c x y \<le> 0 \<Longrightarrow> c y z \<le> 0 \<Longrightarrow> c x z \<le> 0"
  unfolding lawful_cmp_def by blast

lemma lawful_zero: "lawful_cmp c \<Longrightarrow> c x y = 0 \<longleftrightarrow> c y x = 0"
  using lawful_swap [of c x y] lawful_swap [of c y x] by linarith

lemma lawful_string: "lawful_cmp (\<lambda>a b. compareStrings (f a) (f b))"
  by (rule lawful_cmpI) (auto simp: compareStrings_def split: if_splits)

lemma lawful_diff: "lawful_cmp (\<lambda>a b. f a - f b)"
  by (rule lawful_cmpI) auto

lemma lawful_const: "lawful_cmp (\<lambda>a b. 0)"
  by (rule lawful_cmpI) auto

text \<open>Comparing first by one lawful comparison and then by another is lawful.\<close>

lemma lawful_lex:
  assumes c: "lawful_cmp c" and d: "lawful_cmp d"
  shows "lawful_cmp (\<lambda>x y. if c x y \<noteq> 0 then c x y else d x y)"
proof (rule lawful_cmpI)
  fix x y z
  note s = lawful_swap [OF c, of x y] lawful_swap [OF c, of y x] lawful_swap [OF d, of x y]
  show "(if c x y \<noteq> 0 then c x y else d x y) < 0 \<longleftrightarrow> 0 < (if c y x \<noteq> 0 then c y x else d y x)"
    using s lawful_zero [OF c, of x y] by auto
  assume xy: "(if c x y \<noteq> 0 then c x y else d x y) \<le> 0" and yz: "(if c y z \<noteq> 0 then c y z else d y z) \<le> 0"
  have "c x y \<le> 0" "c y z \<le> 0" using xy yz by (auto split: if_splits)
  then have xz: "c x z \<le> 0" by (rule lawful_trans [OF c])
  show "(if c x z \<noteq> 0 then c x z else d x z) \<le> 0"
  proof (cases "c x z = 0")
    case True
    then have zx: "c z x \<le> 0" using lawful_zero [OF c, of x z] by simp
    from \<open>c y z \<le> 0\<close> zx have "c y x \<le> 0" by (rule lawful_trans [OF c])
    moreover from zx \<open>c x y \<le> 0\<close> have "c z y \<le> 0" by (rule lawful_trans [OF c])
    ultimately have "c x y = 0" "c y z = 0"
      using \<open>c x y \<le> 0\<close> \<open>c y z \<le> 0\<close> lawful_swap [OF c, of x y] lawful_swap [OF c, of y z] by linarith+
    with xy yz have "d x y \<le> 0" "d y z \<le> 0" by simp_all
    then have "d x z \<le> 0" by (rule lawful_trans [OF d])
    with True show ?thesis by simp
  next
    case False
    with xz show ?thesis by simp
  qed
qed

lemma lawful_first:
  assumes "\<forall>c\<in>set cs. lawful_cmp c"
  shows "lawful_cmp (\<lambda>x y. firstNonzero (map (\<lambda>c. c x y) cs))"
  using assms
proof (induction cs)
  case Nil
  then show ?case by (simp add: lawful_const)
next
  case (Cons c cs)
  then have "lawful_cmp (\<lambda>x y. if c x y \<noteq> 0 then c x y else firstNonzero (map (\<lambda>c. c x y) cs))"
    by (intro lawful_lex) auto
  then show ?case by simp
qed

lemma lawful_sources: "lawful_cmp compareSources"
proof -
  have "compareSources = (\<lambda>x y. firstNonzero (map (\<lambda>c. c x y)
      [\<lambda>a b. compareStrings (Path a) (Path b), \<lambda>a b. Document a - Document b,
       \<lambda>a b. Line a - Line b, \<lambda>a b. Column a - Column b]))"
    by (simp add: compareSources_def fun_eq_iff)
  moreover have "lawful_cmp \<dots>"
    by (rule lawful_first) (auto simp: lawful_string lawful_diff)
  ultimately show ?thesis by (simp only:)
qed

lemma lawful_objects: "lawful_cmp compareObjects"
proof -
  have "compareObjects = (\<lambda>x y. firstNonzero (map (\<lambda>c. c x y)
      [\<lambda>a b. compareStrings (APIVersion a) (APIVersion b),
       \<lambda>a b. compareStrings (ObjectKind a) (ObjectKind b),
       \<lambda>a b. compareStrings (ObjectName a) (ObjectName b)]))"
    by (simp add: compareObjects_def fun_eq_iff)
  moreover have "lawful_cmp \<dots>"
    by (rule lawful_first) (auto simp: lawful_string)
  ultimately show ?thesis by (simp only:)
qed

lemma lawful_missingLast:
  assumes c: "lawful_cmp c"
  shows "lawful_cmp (\<lambda>a b. missingLast c (f a) (f b))"
proof (rule lawful_cmpI)
  fix x y z
  show "missingLast c (f x) (f y) < 0 \<longleftrightarrow> 0 < missingLast c (f y) (f x)"
    by (cases "f x"; cases "f y") (simp_all add: lawful_swap [OF c])
  assume "missingLast c (f x) (f y) \<le> 0" "missingLast c (f y) (f z) \<le> 0"
  then show "missingLast c (f x) (f z) \<le> 0"
    by (cases "f x"; cases "f y"; cases "f z") (auto intro: lawful_trans [OF c])
qed

lemma lawful_missingFirst:
  assumes c: "lawful_cmp c"
  shows "lawful_cmp (\<lambda>a b. missingFirst c (f a) (f b))"
proof (rule lawful_cmpI)
  fix x y z
  show "missingFirst c (f x) (f y) < 0 \<longleftrightarrow> 0 < missingFirst c (f y) (f x)"
    by (cases "f x"; cases "f y") (simp_all add: lawful_swap [OF c])
  assume "missingFirst c (f x) (f y) \<le> 0" "missingFirst c (f y) (f z) \<le> 0"
  then show "missingFirst c (f x) (f z) \<le> 0"
    by (cases "f x"; cases "f y"; cases "f z") (auto intro: lawful_trans [OF c])
qed

lemma lawful_diagnostics: "lawful_cmp CompareDiagnostics"
proof -
  have "CompareDiagnostics = (\<lambda>x y. firstNonzero (map (\<lambda>c. c x y)
      [\<lambda>a b. missingLast compareSources (Source a) (Source b),
       \<lambda>a b. compareStrings (Code a) (Code b),
       \<lambda>a b. missingFirst compareObjects (DiagnosedObject a) (DiagnosedObject b),
       \<lambda>a b. compareStrings (Field a) (Field b),
       \<lambda>a b. compareStrings (Message a) (Message b)]))"
    by (simp add: CompareDiagnostics_def fun_eq_iff)
  moreover have "lawful_cmp \<dots>"
    by (rule lawful_first)
      (auto simp: lawful_string lawful_missingLast lawful_missingFirst lawful_sources lawful_objects)
  ultimately show ?thesis by (simp only:)
qed

lemma mset_insertDiagnostic [simp]: "mset (insertDiagnostic d ds) = add_mset d (mset ds)"
  by (induction ds) auto

lemma mset_SortDiagnostics [simp]: "mset (SortDiagnostics ds) = mset ds"
  unfolding SortDiagnostics_def by (induction ds) auto

lemma sorted_insertDiagnostic:
  assumes "sorted_wrt (\<lambda>a b. CompareDiagnostics a b \<le> 0) ds"
  shows "sorted_wrt (\<lambda>a b. CompareDiagnostics a b \<le> 0) (insertDiagnostic d ds)"
  using assms
proof (induction ds)
  case Nil
  then show ?case by simp
next
  case (Cons e es)
  have set: "set (insertDiagnostic d es) = insert d (set es)"
    by (metis mset_insertDiagnostic set_mset_add_mset_insert set_mset_mset)
  show ?case
  proof (cases "CompareDiagnostics d e \<le> 0")
    case True
    then show ?thesis using Cons.prems lawful_trans [OF lawful_diagnostics, of d e] by auto
  next
    case False
    then have "CompareDiagnostics e d \<le> 0"
      using lawful_swap [OF lawful_diagnostics, of e d] by linarith
    with False Cons set show ?thesis by auto
  qed
qed

lemma sorted_SortDiagnostics: "sorted_wrt (\<lambda>a b. CompareDiagnostics a b \<le> 0) (SortDiagnostics ds)"
  unfolding SortDiagnostics_def by (induction ds) (simp_all add: sorted_insertDiagnostic)

end
