(* ===== verification/Json.thy ===== *)
theory Json
  imports GoStd
begin

section \<open>JSON as encoding/json reads and writes it\<close>

text \<open>
  The model of the parts of \<open>encoding/json\<close> that the source relies on: the scanner and
  decoder of one value (with its nesting limit, its number grammar, its string escapes and
  the replacement of invalid UTF-8), and the encoder's escaping and layout. A decoded number
  keeps its literal, as \<open>Decoder.UseNumber\<close> makes it.

  An object is the list of its members in the order of the text; \<open>to_any\<close> gives the Go value
  \<open>map[string]any\<close> it decodes into, in which a repeated key holds its last value and which
  \<open>json.Marshal\<close> writes in the order of its keys.
\<close>

datatype json =
    JNull
  | JBool bool
  | JNum string
  | JStr string
  | JArr "json list"
  | JObj "(string \<times> json) list"

abbreviation quote_char :: char where "quote_char \<equiv> CHR 0x22"
abbreviation backslash :: char where "backslash \<equiv> CHR 0x5C"

definition is_ws :: "char \<Rightarrow> bool" where
  "is_ws c \<longleftrightarrow> c = CHR 0x20 \<or> c = CHR 0x09 \<or> c = CHR 0x0D \<or> c = CHR 0x0A"

definition skip_ws :: "string \<Rightarrow> string" where
  "skip_ws s = dropWhile is_ws s"

subsection \<open>Strings\<close>

definition replacement :: string where
  "replacement = [CHR 0xEF, CHR 0xBF, CHR 0xBD]"

text \<open>The four hexadecimal digits of an escape, and the code point they spell.\<close>

definition hex4 :: "string \<Rightarrow> nat option" where
  "hex4 s = (case s of
     a # b # c # d # _ \<Rightarrow>
       (case (hex_value a, hex_value b, hex_value c, hex_value d) of
          (Some w, Some x, Some y, Some z) \<Rightarrow> Some (4096 * w + 256 * x + 16 * y + z)
        | _ \<Rightarrow> None)
   | _ \<Rightarrow> None)"

definition is_surrogate :: "nat \<Rightarrow> bool" where
  "is_surrogate r \<longleftrightarrow> 55296 \<le> r \<and> r < 57344"

definition utf8_encode :: "nat \<Rightarrow> string" where
  "utf8_encode r =
     (if r < 128 then [byte_chr r]
      else if r < 2048 then [byte_chr (192 + r div 64), byte_chr (128 + r mod 64)]
      else if is_surrogate r \<or> 1114111 < r then replacement
      else if r < 65536 then
        [byte_chr (224 + r div 4096), byte_chr (128 + r div 64 mod 64), byte_chr (128 + r mod 64)]
      else [byte_chr (240 + r div 262144), byte_chr (128 + r div 4096 mod 64),
            byte_chr (128 + r div 64 mod 64), byte_chr (128 + r mod 64)])"

text \<open>
  The escape after \<open>\u\<close>: a surrogate joins the low surrogate of a following escape, and one
  that does not is replaced. The result is the bytes written and the text left to read.
\<close>

definition unicode_escape :: "string \<Rightarrow> (string \<times> nat) option" where
  "unicode_escape s = (case hex4 s of
     None \<Rightarrow> None
   | Some r \<Rightarrow>
       if is_surrogate r then
         (case drop 4 s of
            b # u # t \<Rightarrow>
              if b = backslash \<and> u = CHR ''u'' then
                (case hex4 t of
                   Some r2 \<Rightarrow>
                     if r < 56320 \<and> 56320 \<le> r2 \<and> r2 < 57344
                     then Some (utf8_encode ((r - 55296) * 1024 + (r2 - 56320) + 65536), 10)
                     else Some (replacement, 4)
                 | None \<Rightarrow> Some (replacement, 4))
              else Some (replacement, 4)
          | _ \<Rightarrow> Some (replacement, 4))
       else Some (utf8_encode r, 4))"

definition simple_escape :: "char \<Rightarrow> char option" where
  "simple_escape c =
     (if c = quote_char \<or> c = backslash \<or> c = CHR ''/'' then Some c
      else if c = CHR ''b'' then Some (CHR 0x08)
      else if c = CHR ''f'' then Some (CHR 0x0C)
      else if c = CHR ''n'' then Some (CHR 0x0A)
      else if c = CHR ''r'' then Some (CHR 0x0D)
      else if c = CHR ''t'' then Some (CHR 0x09)
      else None)"

text \<open>The text after the opening quote: the decoded bytes and what follows the closing quote.\<close>

function p_chars :: "string \<Rightarrow> (string \<times> string) option" where
  "p_chars [] = None"
| "p_chars (c # r) =
     (if c = quote_char then Some ([], r)
      else if c = backslash then
        (case r of
           [] \<Rightarrow> None
         | e # t \<Rightarrow>
             if e = CHR ''u'' then
               (case unicode_escape t of
                  None \<Rightarrow> None
                | Some (bs, n) \<Rightarrow> map_option (\<lambda>(s, u). (bs @ s, u)) (p_chars (drop n t)))
             else
               (case simple_escape e of
                  None \<Rightarrow> None
                | Some d \<Rightarrow> map_option (\<lambda>(s, u). (d # s, u)) (p_chars t)))
      else if byte_of c < 32 then None
      else
        (let n = rune_size (c # r) in
         if n = 0 then map_option (\<lambda>(s, u). (replacement @ s, u)) (p_chars r)
         else map_option (\<lambda>(s, u). (c # take (n - 1) r @ s, u)) (p_chars (drop (n - 1) r))))"
  by pat_completeness auto
termination
  by (relation "measure length") auto

subsection \<open>Numbers\<close>

definition span_digits :: "string \<Rightarrow> string \<times> string" where
  "span_digits s = (takeWhile is_digit s, dropWhile is_digit s)"

definition p_int :: "string \<Rightarrow> (string \<times> string) option" where
  "p_int s = (case s of
     [] \<Rightarrow> None
   | c # r \<Rightarrow>
       if c = CHR ''0'' then Some ([c], r)
       else if is_digit c then Some (span_digits s)
       else None)"

definition p_frac :: "string \<Rightarrow> (string \<times> string) option" where
  "p_frac s = (case s of
     c # r \<Rightarrow>
       if c = CHR ''.'' then
         (case span_digits r of (ds, t) \<Rightarrow> if ds = [] then None else Some (c # ds, t))
       else Some ([], s)
   | [] \<Rightarrow> Some ([], s))"

definition p_exp :: "string \<Rightarrow> (string \<times> string) option" where
  "p_exp s = (case s of
     c # r \<Rightarrow>
       if c = CHR ''e'' \<or> c = CHR ''E'' then
         (case (case r of
                  d # t \<Rightarrow> if d = CHR ''+'' \<or> d = CHR ''-'' then ([c, d], t) else ([c], r)
                | [] \<Rightarrow> ([c], r)) of (pre, u) \<Rightarrow>
            (case span_digits u of (ds, t) \<Rightarrow> if ds = [] then None else Some (pre @ ds, t)))
       else Some ([], s)
   | [] \<Rightarrow> Some ([], s))"

definition p_number :: "string \<Rightarrow> (string \<times> string) option" where
  "p_number s =
     (case (case s of c # r \<Rightarrow> if c = CHR ''-'' then ([c], r) else ([], s) | [] \<Rightarrow> ([], s)) of
        (sign, t) \<Rightarrow>
          (case p_int t of
             None \<Rightarrow> None
           | Some (i, u) \<Rightarrow>
               (case p_frac u of
                  None \<Rightarrow> None
                | Some (f, v) \<Rightarrow>
                    (case p_exp v of
                       None \<Rightarrow> None
                     | Some (e, w) \<Rightarrow> Some (sign @ i @ f @ e, w)))))"

subsection \<open>Values\<close>

text \<open>The scanner's nesting limit. The first argument of the parser is fuel, see \<open>parse_value\<close>.\<close>

abbreviation maxNestingDepth :: nat where "maxNestingDepth \<equiv> 10000"

fun p_value :: "nat \<Rightarrow> nat \<Rightarrow> string \<Rightarrow> (json \<times> string) option"
  and p_elems :: "nat \<Rightarrow> nat \<Rightarrow> string \<Rightarrow> (json list \<times> string) option"
  and p_members :: "nat \<Rightarrow> nat \<Rightarrow> string \<Rightarrow> ((string \<times> json) list \<times> string) option" where
  "p_value 0 d s = None"
| "p_value (Suc n) d s =
     (case skip_ws s of
        [] \<Rightarrow> None
      | c # r \<Rightarrow>
          if c = CHR ''{'' then
            (if maxNestingDepth \<le> d then None
             else (case skip_ws r of
                     [] \<Rightarrow> None
                   | e # t \<Rightarrow>
                       if e = CHR ''}'' then Some (JObj [], t)
                       else map_option (\<lambda>(ms, u). (JObj ms, u)) (p_members n (Suc d) r)))
          else if c = CHR ''['' then
            (if maxNestingDepth \<le> d then None
             else (case skip_ws r of
                     [] \<Rightarrow> None
                   | e # t \<Rightarrow>
                       if e = CHR '']'' then Some (JArr [], t)
                       else map_option (\<lambda>(vs, u). (JArr vs, u)) (p_elems n (Suc d) r)))
          else if c = quote_char then map_option (\<lambda>(x, u). (JStr x, u)) (p_chars r)
          else if has_prefix (c # r) ''true'' then Some (JBool True, drop 4 (c # r))
          else if has_prefix (c # r) ''false'' then Some (JBool False, drop 5 (c # r))
          else if has_prefix (c # r) ''null'' then Some (JNull, drop 4 (c # r))
          else map_option (\<lambda>(x, u). (JNum x, u)) (p_number (c # r)))"
| "p_elems 0 d s = None"
| "p_elems (Suc n) d s =
     (case p_value n d s of
        None \<Rightarrow> None
      | Some (v, r) \<Rightarrow>
          (case skip_ws r of
             [] \<Rightarrow> None
           | c # t \<Rightarrow>
               if c = CHR '']'' then Some ([v], t)
               else if c = CHR '','' then map_option (\<lambda>(vs, u). (v # vs, u)) (p_elems n d t)
               else None))"
| "p_members 0 d s = None"
| "p_members (Suc n) d s =
     (case skip_ws s of
        [] \<Rightarrow> None
      | q # r \<Rightarrow>
          if q \<noteq> quote_char then None
          else
            (case p_chars r of
               None \<Rightarrow> None
             | Some (k, r1) \<Rightarrow>
                 (case skip_ws r1 of
                    [] \<Rightarrow> None
                  | c # r2 \<Rightarrow>
                      if c \<noteq> CHR '':'' then None
                      else
                        (case p_value n d r2 of
                           None \<Rightarrow> None
                         | Some (v, r3) \<Rightarrow>
                             (case skip_ws r3 of
                                [] \<Rightarrow> None
                              | e # t \<Rightarrow>
                                  if e = CHR ''}'' then Some ([(k, v)], t)
                                  else if e = CHR '','' then
                                    map_option (\<lambda>(ms, u). ((k, v) # ms, u)) (p_members n d t)
                                  else None)))))"

text \<open>
  \<open>Decoder.Decode\<close> of the first value of a text: the value and the text after it
  (\<open>data[decoder.InputOffset():]\<close>). Every call of the parser that does not shorten its text
  goes from \<open>p_elems\<close> or \<open>p_members\<close> to \<open>p_value\<close>, so two units of fuel for each byte are
  enough: \<open>p_value_fuel\<close> below.
\<close>

definition parse_value :: "string \<Rightarrow> (json \<times> string) option" where
  "parse_value s = p_value (2 * length s + 2) 0 s"

subsection \<open>Encoding\<close>

definition hex_low4 :: "nat \<Rightarrow> string" where
  "hex_low4 b = [hex_digit (b div 16), hex_digit (b mod 16)]"

text \<open>\<open>appendString\<close> with HTML escaping, the bytes between the quotes.\<close>

definition enc_ascii :: "char \<Rightarrow> string" where
  "enc_ascii c =
     (if c = quote_char \<or> c = backslash then [backslash, c]
      else if c = CHR 0x08 then [backslash, CHR ''b'']
      else if c = CHR 0x0C then [backslash, CHR ''f'']
      else if c = CHR 0x0A then [backslash, CHR ''n'']
      else if c = CHR 0x0D then [backslash, CHR ''r'']
      else if c = CHR 0x09 then [backslash, CHR ''t'']
      else if byte_of c < 32 \<or> c = CHR ''<'' \<or> c = CHR ''>'' \<or> c = CHR ''&''
        then [backslash, CHR ''u'', CHR ''0'', CHR ''0''] @ hex_low4 (byte_of c)
      else [c])"

definition is_line_separator :: "string \<Rightarrow> bool" where
  "is_line_separator s \<longleftrightarrow> s = [CHR 0xE2, CHR 0x80, CHR 0xA8] \<or> s = [CHR 0xE2, CHR 0x80, CHR 0xA9]"

function enc_chars :: "string \<Rightarrow> string" where
  "enc_chars [] = []"
| "enc_chars (c # r) =
     (if byte_of c < 128 then enc_ascii c @ enc_chars r
      else
        (let n = rune_size (c # r) in
         if n = 0 then [backslash] @ ''ufffd'' @ enc_chars r
         else if is_line_separator (take n (c # r))
           then [backslash] @ (if (c # r) ! 2 = CHR 0xA8 then ''u2028'' else ''u2029'')
                @ enc_chars (drop (n - 1) r)
         else c # take (n - 1) r @ enc_chars (drop (n - 1) r)))"
  by pat_completeness auto
termination
  by (relation "measure length") auto

definition enc_string :: "string \<Rightarrow> string" where
  "enc_string s = [quote_char] @ enc_chars s @ [quote_char]"

fun print_json :: "json \<Rightarrow> string"
  and print_elems :: "json list \<Rightarrow> string"
  and print_members :: "(string \<times> json) list \<Rightarrow> string" where
  "print_json JNull = ''null''"
| "print_json (JBool b) = (if b then ''true'' else ''false'')"
| "print_json (JNum s) = s"
| "print_json (JStr s) = enc_string s"
| "print_json (JArr vs) = ''['' @ print_elems vs @ '']''"
| "print_json (JObj ms) = ''{'' @ print_members ms @ ''}''"
| "print_elems [] = []"
| "print_elems (v # vs) = print_json v @ (if vs = [] then [] else '','' @ print_elems vs)"
| "print_members [] = []"
| "print_members (m # ms) =
     enc_string (fst m) @ '':'' @ print_json (snd m) @ (if ms = [] then [] else '','' @ print_members ms)"

subsection \<open>Go maps\<close>

text \<open>Assignment into a map kept in the order of its keys.\<close>

fun insert_member :: "string \<Rightarrow> 'a \<Rightarrow> (string \<times> 'a) list \<Rightarrow> (string \<times> 'a) list" where
  "insert_member k v [] = [(k, v)]"
| "insert_member k v ((k', v') # ms) =
     (if k = k' then (k, v) # ms
      else if k < k' then (k, v) # (k', v') # ms
      else (k', v') # insert_member k v ms)"

definition members_map :: "(string \<times> 'a) list \<Rightarrow> (string \<times> 'a) list" where
  "members_map ms = foldl (\<lambda>m (k, v). insert_member k v m) [] ms"

fun to_any :: "json \<Rightarrow> json" where
  "to_any (JArr vs) = JArr (map to_any vs)"
| "to_any (JObj ms) = JObj (members_map (map (\<lambda>(k, v). (k, to_any v)) ms))"
| "to_any v = v"

end
