(* ===== verification/JsonLaws.thy ===== *)
theory JsonLaws
  imports Json
begin

section \<open>JSON: fuel, round trip and canonical form\<close>

text \<open>
  \<^item> \<open>p_chars_enc\<close>: the decoder reads back the string the encoder wrote, for valid UTF-8;
  \<^item> \<open>p_value_fuel\<close>: more fuel than two units for each byte never changes what is read;
  \<^item> \<open>parse_print\<close>: parsing the encoding of a well-formed value gives the value back;
  \<^item> \<open>to_any_idem\<close>, \<open>to_any_sorted\<close>: the Go map of an object has sorted, distinct keys.
\<close>

declare p_chars.simps [simp del] enc_chars.simps [simp del]
declare p_value.simps [simp del] p_elems.simps [simp del] p_members.simps [simp del]

subsection \<open>Strings\<close>

lemma rune_size_le: "rune_size s \<le> length s"
  by (auto simp: rune_size_def Let_def split: list.splits)

lemma rune_size_ascii [simp]: "byte_of c < 128 \<Longrightarrow> rune_size (c # r) = 1"
  by (simp add: rune_size_def rune_need_def tail_ok_def)

lemma rune_size_append:
  assumes "rune_size s = n" and "n \<noteq> 0"
  shows "rune_size (take n s @ t) = n"
proof -
  from assms obtain c r where s: "s = c # r" "rune_need (byte_of c) = n" "n \<le> Suc (length r)"
    "tail_ok (byte_of c) (take (n - 1) r)"
    by (auto simp: rune_size_def Let_def split: list.splits if_splits)
  moreover from assms(2) have "take n s @ t = c # (take (n - 1) r @ t)"
    using s(1) by (cases n) auto
  ultimately show ?thesis using assms(2) by (simp add: rune_size_def)
qed

lemma utf8_valid_Nil [simp]: "utf8_valid []"
  by (subst utf8_valid.simps) simp

lemma utf8_valid_Cons:
  "utf8_valid (c # r) \<longleftrightarrow> rune_size (c # r) \<noteq> 0 \<and> utf8_valid (drop (rune_size (c # r) - 1) r)"
proof -
  have "drop n (c # r) = drop (n - 1) r" if "n \<noteq> 0" for n
    using that by (cases n) auto
  then show ?thesis by (subst utf8_valid.simps) auto
qed

lemma p_chars_quote [simp]: "p_chars (quote_char # r) = Some ([], r)"
  by (subst p_chars.simps) simp

lemma p_chars_plain:
  assumes "byte_of c < 128" and "32 \<le> byte_of c" and "c \<noteq> quote_char" and "c \<noteq> backslash"
  shows "p_chars (c # t) = map_option (\<lambda>(s, u). (c # s, u)) (p_chars t)"
  using assms by (subst p_chars.simps) simp

lemma p_chars_simple:
  "e \<noteq> CHR ''u'' \<Longrightarrow> simple_escape e = Some d \<Longrightarrow>
   p_chars (backslash # e # t) = map_option (\<lambda>(s, u). (d # s, u)) (p_chars t)"
  by (subst p_chars.simps) simp

lemma hex_value_0 [simp]: "hex_value (CHR ''0'') = Some 0"
  by (simp add: hex_value_def)

lemma hex4_low:
  assumes "b < 256"
  shows "hex4 (CHR ''0'' # CHR ''0'' # hex_low4 b @ t) = Some b"
proof -
  from assms have "b div 16 < 16" by linarith
  then show ?thesis by (simp add: hex4_def hex_low4_def)
qed

lemma p_chars_u00:
  assumes "byte_of c < 128"
  shows "p_chars (backslash # CHR ''u'' # CHR ''0'' # CHR ''0'' # hex_low4 (byte_of c) @ t) =
         map_option (\<lambda>(s, u). (c # s, u)) (p_chars t)"
proof -
  have "unicode_escape (CHR ''0'' # CHR ''0'' # hex_low4 (byte_of c) @ t) = Some ([c], 4)"
    using assms by (simp add: unicode_escape_def hex4_low is_surrogate_def utf8_encode_def)
  moreover have "drop 4 (CHR ''0'' # CHR ''0'' # hex_low4 (byte_of c) @ t) = t"
    by (simp add: hex_low4_def)
  ultimately show ?thesis
    by (subst p_chars.simps) simp
qed

definition short_escaped :: "char \<Rightarrow> bool" where
  "short_escaped c \<longleftrightarrow> c \<in> {quote_char, backslash, CHR 0x08, CHR 0x0C, CHR 0x0A, CHR 0x0D, CHR 0x09}"

definition long_escaped :: "char \<Rightarrow> bool" where
  "long_escaped c \<longleftrightarrow> byte_of c < 32 \<or> c = CHR ''<'' \<or> c = CHR ''>'' \<or> c = CHR ''&''"

lemma enc_ascii_long:
  "\<not> short_escaped c \<Longrightarrow> long_escaped c \<Longrightarrow>
   enc_ascii c = [backslash, CHR ''u'', CHR ''0'', CHR ''0''] @ hex_low4 (byte_of c)"
  by (simp add: enc_ascii_def short_escaped_def long_escaped_def)

lemma enc_ascii_plain: "\<not> short_escaped c \<Longrightarrow> \<not> long_escaped c \<Longrightarrow> enc_ascii c = [c]"
  by (simp add: enc_ascii_def short_escaped_def long_escaped_def)

lemma p_chars_ascii:
  assumes "byte_of c < 128"
  shows "p_chars (enc_ascii c @ t) = map_option (\<lambda>(s, u). (c # s, u)) (p_chars t)"
proof (cases "short_escaped c")
  case True
  then show ?thesis
    by (auto simp: enc_ascii_def short_escaped_def p_chars_simple simple_escape_def)
next
  case short: False
  show ?thesis
  proof (cases "long_escaped c")
    case True
    with short assms show ?thesis by (simp add: enc_ascii_long p_chars_u00)
  next
    case False
    with short have "32 \<le> byte_of c" "c \<noteq> quote_char" "c \<noteq> backslash"
      by (simp_all add: long_escaped_def short_escaped_def)
    with short False assms show ?thesis by (simp add: enc_ascii_plain p_chars_plain)
  qed
qed

lemma separator_bytes:
  "byte_chr 226 = CHR 0xE2" "byte_chr 128 = CHR 0x80" "byte_chr 168 = CHR 0xA8" "byte_chr 169 = CHR 0xA9"
  by code_simp+

lemma p_chars_line_separator:
  "is_line_separator [a, b, c] \<Longrightarrow>
   p_chars ([backslash] @ (if c = CHR 0xA8 then ''u2028'' else ''u2029'') @ t) =
   map_option (\<lambda>(s, u). (a # b # c # s, u)) (p_chars t)"
  by (auto simp: is_line_separator_def p_chars.simps(2) [of backslash] unicode_escape_def
      hex4_def hex_value_def Let_def is_surrogate_def utf8_encode_def separator_bytes)

lemma p_chars_rune:
  assumes n: "rune_size (c # r) = n" "n \<noteq> 0" and c: "128 \<le> byte_of c"
  shows "p_chars (c # take (n - 1) r @ t) =
         map_option (\<lambda>(s, u). (c # take (n - 1) r @ s, u)) (p_chars t)"
proof -
  have le: "n - 1 \<le> length r" using rune_size_le [of "c # r"] n by simp
  have "take n (c # r) = c # take (n - 1) r" using n(2) by (cases n) auto
  with rune_size_append [OF n] have sz: "rune_size (c # take (n - 1) r @ t) = n" by simp
  have "c \<noteq> quote_char" "c \<noteq> backslash" "\<not> byte_of c < 32" using c by auto
  with sz n(2) le show ?thesis
    by (subst p_chars.simps) (simp add: Let_def)
qed

lemma p_chars_enc: "utf8_valid s \<Longrightarrow> p_chars (enc_chars s @ quote_char # r) = Some (s, r)"
proof (induction s rule: enc_chars.induct)
  case 1
  then show ?case by (simp add: enc_chars.simps)
next
  case (2 c s)
  define n where "n = rune_size (c # s)"
  from "2.prems" have n: "n \<noteq> 0" and v: "utf8_valid (drop (n - 1) s)"
    by (simp_all add: utf8_valid_Cons n_def)
  show ?case
  proof (cases "byte_of c < 128")
    case True
    then have "p_chars (enc_chars s @ quote_char # r) = Some (s, r)"
      using "2.IH"(1) v n_def by simp
    with True show ?thesis by (simp add: enc_chars.simps p_chars_ascii)
  next
    case c: False
    show ?thesis
    proof (cases "is_line_separator (take n (c # s))")
      case True
      then obtain a b where s: "take n (c # s) = [c, a, b]" and l: "is_line_separator [c, a, b]"
        using n by (cases n) (auto simp: is_line_separator_def)
      then have n3: "n = 3" using rune_size_le [of "c # s"] n_def by (metis length_take min.absorb2 length_Cons list.size(3) numeral_3_eq_3)
      with s obtain s' where s': "s = a # b # s'"
        by (cases s rule: list.exhaust) (auto simp: take_Cons' split: if_splits, metis append_Cons append_Nil append_take_drop_id)
      have IH: "p_chars (enc_chars s' @ quote_char # r) = Some (s', r)"
        using "2.IH"(3) [OF c n_def n True] v n3 s' by simp
      have "enc_chars (c # s) = [backslash] @ (if b = CHR 0xA8 then ''u2028'' else ''u2029'') @ enc_chars s'"
        using c True n n3 s' n_def by (simp add: enc_chars.simps Let_def)
      then show ?thesis
        using p_chars_line_separator [OF l, of "enc_chars s' @ quote_char # r"] IH s' by simp
    next
      case False
      have IH: "p_chars (enc_chars (drop (n - 1) s) @ quote_char # r) = Some (drop (n - 1) s, r)"
        using "2.IH"(4) [OF c n_def n False] v by simp
      have "enc_chars (c # s) = c # take (n - 1) s @ enc_chars (drop (n - 1) s)"
        using c False n n_def by (simp add: enc_chars.simps Let_def)
      then show ?thesis
        using p_chars_rune [of c s n "enc_chars (drop (n - 1) s) @ quote_char # r"] n n_def c IH
        by simp
    qed
  qed
qed

subsection \<open>Numbers\<close>

definition num_stop :: "string \<Rightarrow> bool" where
  "num_stop r \<longleftrightarrow> (case r of [] \<Rightarrow> True | c # _ \<Rightarrow>
     \<not> is_digit c \<and> c \<noteq> CHR ''.'' \<and> c \<noteq> CHR ''e'' \<and> c \<noteq> CHR ''E'')"

lemma num_stop_simps [simp]:
  "num_stop []"
  "num_stop (CHR '','' # r)" "num_stop (CHR '']'' # r)" "num_stop (CHR ''}'' # r)"
  by (simp_all add: num_stop_def is_digit_def)

lemma span_digits_append:
  assumes "num_stop r" and "span_digits s = (ds, t)"
  shows "span_digits (s @ r) = (ds, t @ r)"
proof -
  have "takeWhile is_digit (s @ r) = takeWhile is_digit s \<and> dropWhile is_digit (s @ r) = dropWhile is_digit s @ r"
    using assms(1) by (induction s) (auto simp: num_stop_def split: list.splits)
  with assms(2) show ?thesis by (simp add: span_digits_def)
qed

lemma p_int_append: "num_stop r \<Longrightarrow> p_int s = Some (i, t) \<Longrightarrow> p_int (s @ r) = Some (i, t @ r)"
  using span_digits_append [of r s]
  by (auto simp: p_int_def split: list.splits if_splits)

lemma p_frac_append:
  assumes r: "num_stop r" and s: "p_frac s = Some (i, t)"
  shows "p_frac (s @ r) = Some (i, t @ r)"
proof (cases s)
  case Nil
  with r s show ?thesis by (auto simp: p_frac_def num_stop_def split: list.splits)
next
  case (Cons c u)
  show ?thesis
  proof (cases "c = CHR ''.''")
    case True
    obtain ds v where sp: "span_digits u = (ds, v)" by (cases "span_digits u")
    with s Cons True have "i = c # ds" "t = v" "ds \<noteq> []"
      by (auto simp: p_frac_def split: if_splits)
    with Cons True span_digits_append [OF r sp] show ?thesis by (simp add: p_frac_def)
  next
    case False
    with s Cons have "i = []" "t = c # u" by (auto simp: p_frac_def)
    with Cons False show ?thesis by (simp add: p_frac_def)
  qed
qed

lemma p_exp_append:
  assumes r: "num_stop r" and s: "p_exp s = Some (i, t)"
  shows "p_exp (s @ r) = Some (i, t @ r)"
proof (cases s)
  case Nil
  with r s show ?thesis by (auto simp: p_exp_def num_stop_def split: list.splits)
next
  case (Cons c u)
  show ?thesis
  proof (cases "c = CHR ''e'' \<or> c = CHR ''E''")
    case True
    with s Cons have u: "u \<noteq> []" by (auto simp: p_exp_def span_digits_def)
    then obtain e v where "u = e # v" by (cases u) auto
    with s Cons True show ?thesis
      by (auto simp: p_exp_def split: if_splits prod.splits
          dest: span_digits_append [OF r, of v] span_digits_append [OF r, of "e # v"])
  next
    case False
    with s Cons have "i = []" "t = c # u" by (auto simp: p_exp_def)
    with Cons False show ?thesis by (simp add: p_exp_def)
  qed
qed

lemma p_number_append:
  assumes r: "num_stop r" and s: "p_number s = Some (x, t)"
  shows "p_number (s @ r) = Some (x, t @ r)"
proof -
  define split where "split = (\<lambda>s. case s of c # r \<Rightarrow> if c = CHR ''-'' then ([c], r) else ([], s) | [] \<Rightarrow> ([], s))"
  obtain sign u where sp: "split s = (sign, u)" by (cases "split s")
  from s sp obtain i v f w e where p: "p_int u = Some (i, v)" "p_frac v = Some (f, w)"
    "p_exp w = Some (e, t)" and x: "x = sign @ i @ f @ e"
    by (auto simp: p_number_def split_def split: option.splits)
  from p(1) have "u \<noteq> []" by (auto simp: p_int_def)
  then have "split (s @ r) = (sign, u @ r)"
    using sp by (auto simp: split_def split: list.splits if_splits)
  with p_int_append [OF r p(1)] p_frac_append [OF r p(2)] p_exp_append [OF r p(3)] x
  show ?thesis by (simp add: p_number_def split_def)
qed

lemma span_digits_self: "span_digits s = (ds, t) \<Longrightarrow> span_digits ds = (ds, [])"
  by (auto simp: span_digits_def dest: set_takeWhileD)

lemma span_digits_concat: "span_digits s = (ds, t) \<Longrightarrow> s = ds @ t"
  by (auto simp: span_digits_def)

lemma p_int_concat: "p_int s = Some (i, t) \<Longrightarrow> s = i @ t \<and> i \<noteq> []"
  by (auto simp: p_int_def span_digits_def split: list.splits if_splits)

lemma p_frac_concat: "p_frac s = Some (i, t) \<Longrightarrow> s = i @ t"
  by (auto simp: p_frac_def split: list.splits if_splits prod.splits dest: span_digits_concat)

lemma p_exp_concat: "p_exp s = Some (i, t) \<Longrightarrow> s = i @ t"
  by (auto simp: p_exp_def split: list.splits if_splits prod.splits dest: span_digits_concat)

lemma p_number_concat: "p_number s = Some (x, t) \<Longrightarrow> s = x @ t \<and> x \<noteq> []"
  by (auto simp: p_number_def split: list.splits if_splits option.splits
      dest!: p_int_concat p_frac_concat p_exp_concat)

lemma p_number_head: "p_number s = Some (x, t) \<Longrightarrow> \<exists>c r. s = c # r \<and> (c = CHR ''-'' \<or> is_digit c)"
  by (auto simp: p_number_def p_int_def is_digit_def split: list.splits if_splits option.splits)

subsection \<open>Well-formed values\<close>

text \<open>
  What the decoder can produce and the encoder writes without loss: valid UTF-8 in strings and
  keys, number literals of the grammar, and nesting within the limit.
\<close>

fun wf_json :: "nat \<Rightarrow> json \<Rightarrow> bool" where
  "wf_json d JNull = True"
| "wf_json d (JBool b) = True"
| "wf_json d (JNum s) = (p_number s = Some (s, []))"
| "wf_json d (JStr s) = utf8_valid s"
| "wf_json d (JArr vs) = (d < maxNestingDepth \<and> (\<forall>v\<in>set vs. wf_json (Suc d) v))"
| "wf_json d (JObj ms) =
     (d < maxNestingDepth \<and> (\<forall>m\<in>set ms. utf8_valid (fst m) \<and> wf_json (Suc d) (snd m)))"

lemma is_ws_simps [simp]:
  "\<not> is_ws (CHR ''{'')" "\<not> is_ws (CHR ''}'')" "\<not> is_ws (CHR ''['')" "\<not> is_ws (CHR '']'')"
  "\<not> is_ws (CHR '','')" "\<not> is_ws (CHR '':'')" "\<not> is_ws quote_char" "\<not> is_ws (CHR ''t'')"
  "\<not> is_ws (CHR ''f'')" "\<not> is_ws (CHR ''n'')" "\<not> is_ws (CHR ''-'')"
  "is_digit c \<Longrightarrow> \<not> is_ws c"
  by (auto simp: is_ws_def is_digit_def)

lemma skip_ws_Cons [simp]: "\<not> is_ws c \<Longrightarrow> skip_ws (c # r) = c # r"
  by (simp add: skip_ws_def)

lemma length_skip_ws: "length (skip_ws s) \<le> length s"
  by (simp add: skip_ws_def length_dropWhile_le)

lemma skip_ws_ConsD: "skip_ws s = c # r \<Longrightarrow> length r < length s"
  using length_skip_ws [of s] by simp

lemma print_json_head:
  "wf_json d v \<Longrightarrow> \<exists>c r. print_json v = c # r \<and> \<not> is_ws c \<and> c \<noteq> CHR '']'' \<and> c \<noteq> CHR ''}''"
proof (cases v)
  case (JNum s)
  assume "wf_json d v"
  with JNum obtain c r where "s = c # r" "c = CHR ''-'' \<or> is_digit c"
    using p_number_head [of s] by auto
  with JNum show ?thesis by (auto simp: is_digit_def)
qed (auto simp: enc_string_def)

subsection \<open>Fuel\<close>

lemma rune_tail_length: "length (drop n r) < Suc (length r)"
  by simp

lemma p_chars_length: "p_chars s = Some (x, r) \<Longrightarrow> length r < length s"
proof (induction s arbitrary: x r rule: p_chars.induct)
  case 1
  then show ?case by (simp add: p_chars.simps)
next
  case (2 c s)
  note prems = "2.prems" [unfolded p_chars.simps(2) [of c s]]
  show ?case
  proof (cases "c = quote_char")
    case True
    with prems show ?thesis by simp
  next
    case q: False
    show ?thesis
    proof (cases "c = backslash")
      case True
      with prems q obtain e t where s: "s = e # t" by (cases s) auto
      show ?thesis
      proof (cases "e = CHR ''u''")
        case u: True
        with prems q True s obtain bs n y where p: "unicode_escape t = Some (bs, n)"
          "p_chars (drop n t) = Some (y, r)" by (auto split: option.splits)
        from "2.IH"(1) [OF q True s u p(1) refl p(2)] s show ?thesis by auto
      next
        case u: False
        with prems q True s obtain d y where p: "simple_escape e = Some d" "p_chars t = Some (y, r)"
          by (auto split: option.splits)
        from "2.IH"(2) [OF q True s u p] s show ?thesis by simp
      qed
    next
      case b: False
      define n where "n = rune_size (c # s)"
      from prems q b have l: "\<not> byte_of c < 32" by (auto split: if_splits)
      show ?thesis
      proof (cases "n = 0")
        case True
        with prems q b l obtain y where "p_chars s = Some (y, r)" by (auto simp: n_def)
        from "2.IH"(3) [OF q b l n_def True this] show ?thesis by simp
      next
        case False
        with prems q b l obtain y where "p_chars (drop (n - 1) s) = Some (y, r)"
          by (auto simp: n_def Let_def)
        from "2.IH"(4) [OF q b l n_def False this] show ?thesis by simp
      qed
    qed
  qed
qed

lemma p_number_length: "p_number s = Some (x, r) \<Longrightarrow> length r < length s"
  using p_number_concat [of s x r] by (cases x) auto

lemma p_length:
  "p_value n d s = Some (v, r) \<Longrightarrow> length r < length s"
  "p_elems n d s = Some (vs, r) \<Longrightarrow> length r < length s"
  "p_members n d s = Some (ms, r) \<Longrightarrow> length r < length s"
proof (induction n d s and n d s and n d s arbitrary: v r and vs r and ms r
    rule: p_value_p_elems_p_members.induct)
  case (1 d s)
  then show ?case by (simp add: p_value.simps)
next
  case (2 n d s)
  from "2.prems" obtain c t where s: "skip_ws s = c # t"
    by (auto simp: p_value.simps split: list.splits)
  have l: "length t < length s" by (rule skip_ws_ConsD [OF s])
  have drop: "length (drop k (c # t)) < length s" if "k \<noteq> 0" for k
    using that length_skip_ws [of s] s by simp
  show ?case
  proof (cases "c = CHR ''{'' \<or> c = CHR ''[''")
    case True
    from "2.prems" s True have d: "\<not> maxNestingDepth \<le> d" by (auto simp: p_value.simps split: if_splits)
    from "2.prems" s True obtain e u where t: "skip_ws t = e # u"
      by (auto simp: p_value.simps split: list.splits if_splits)
    have "length u < length t" by (rule skip_ws_ConsD [OF t])
    then show ?thesis
      using "2.prems" s t d True l "2.IH" by (fastforce simp: p_value.simps split: if_splits)
  next
    case False
    then show ?thesis
      using "2.prems" s l drop [of 4] drop [of 5] p_chars_length [of t] p_number_length [of "c # t"] length_skip_ws [of s]
      by (fastforce simp: p_value.simps split: if_splits)
  qed
next
  case (3 d s)
  then show ?case by (simp add: p_elems.simps)
next
  case (4 n d s)
  from "4.prems" obtain v t where v: "p_value n d s = Some (v, t)"
    by (auto simp: p_elems.simps split: option.splits)
  then have l: "length t < length s" by (rule "4.IH"(1))
  from "4.prems" v obtain c u where t: "skip_ws t = c # u"
    by (auto simp: p_elems.simps split: list.splits)
  have "length u < length t" by (rule skip_ws_ConsD [OF t])
  then show ?case
    using "4.prems" v t l "4.IH"(2) [OF v refl t] by (fastforce simp: p_elems.simps split: if_splits)
next
  case (5 d s)
  then show ?case by (simp add: p_members.simps)
next
  case (6 n d s)
  from "6.prems" obtain r1 where s: "skip_ws s = quote_char # r1"
    by (auto simp: p_members.simps split: list.splits if_splits)
  with "6.prems" obtain k r2 where k: "p_chars r1 = Some (k, r2)"
    by (auto simp: p_members.simps split: option.splits)
  with "6.prems" s obtain r3 where c: "skip_ws r2 = CHR '':'' # r3"
    by (auto simp: p_members.simps split: list.splits if_splits)
  with "6.prems" s k obtain v r4 where v: "p_value n d r3 = Some (v, r4)"
    by (auto simp: p_members.simps split: option.splits)
  with "6.prems" s k c obtain e u where t: "skip_ws r4 = e # u"
    by (auto simp: p_members.simps split: list.splits)
  have "length r4 < length r3" using "6.IH"(1) [OF s _ k refl c] v by simp
  moreover note skip_ws_ConsD [OF s] p_chars_length [OF k] skip_ws_ConsD [OF c] skip_ws_ConsD [OF t]
  ultimately show ?case
    using "6.prems" s k c v t "6.IH"(2) [OF s _ k refl c _ v refl t]
    by (fastforce simp: p_members.simps split: if_splits)
qed

lemma p_value_step_cong:
  assumes s: "skip_ws s = c # t" and t: "skip_ws t = e # u"
    and ms: "c = CHR ''{'' \<Longrightarrow> \<not> maxNestingDepth \<le> d \<Longrightarrow> e \<noteq> CHR ''}'' \<Longrightarrow>
      p_members n (Suc d) t = p_members k (Suc d) t"
    and es: "c \<noteq> CHR ''{'' \<Longrightarrow> c = CHR ''['' \<Longrightarrow> \<not> maxNestingDepth \<le> d \<Longrightarrow> e \<noteq> CHR '']'' \<Longrightarrow>
      p_elems n (Suc d) t = p_elems k (Suc d) t"
  shows "p_value (Suc n) d s = p_value (Suc k) d s"
proof -
  consider (obj) "c = CHR ''{''" | (arr) "c = CHR ''[''" | (other) "c \<noteq> CHR ''{''" "c \<noteq> CHR ''[''"
    by blast
  then show ?thesis
  proof cases
    case obj
    then show ?thesis using s t ms by (simp add: p_value.simps)
  next
    case arr
    then show ?thesis using s t es by (simp add: p_value.simps)
  next
    case other
    then show ?thesis using s by (simp add: p_value.simps)
  qed
qed

lemma p_fuel:
  "2 * length s < n \<Longrightarrow> 2 * length s < m \<Longrightarrow> p_value n d s = p_value m d s"
  "2 * length s + 1 < n \<Longrightarrow> 2 * length s + 1 < m \<Longrightarrow> p_elems n d s = p_elems m d s"
  "2 * length s + 1 < n \<Longrightarrow> 2 * length s + 1 < m \<Longrightarrow> p_members n d s = p_members m d s"
proof (induction n d s and n d s and n d s arbitrary: m and m and m
    rule: p_value_p_elems_p_members.induct)
  case (1 d s)
  then show ?case by simp
next
  case (2 n d s)
  from "2.prems" obtain k where m: "m = Suc k" by (cases m) auto
  show ?case
  proof (cases "skip_ws s")
    case Nil
    then show ?thesis by (simp add: m p_value.simps)
  next
    case (Cons c t)
    have l: "2 * length t + 1 < n" "2 * length t + 1 < k"
      using skip_ws_ConsD [OF Cons] "2.prems" m by auto
    show ?thesis
    proof (cases "skip_ws t")
      case Nil
      then show ?thesis using Cons by (simp add: m p_value.simps)
    next
      case t: (Cons e u)
      have ms: "p_members n (Suc d) t = p_members k (Suc d) t"
        if "c = CHR ''{''" "\<not> maxNestingDepth \<le> d" "e \<noteq> CHR ''}''"
        by (rule "2.IH"(1) [OF Cons that(1,2) t that(3) l])
      have es: "p_elems n (Suc d) t = p_elems k (Suc d) t"
        if "c \<noteq> CHR ''{''" "c = CHR ''[''" "\<not> maxNestingDepth \<le> d" "e \<noteq> CHR '']''"
        by (rule "2.IH"(2) [OF Cons that(1,2,3) t that(4) l])
      show ?thesis unfolding m by (rule p_value_step_cong [OF Cons t]) (fact ms, fact es)
    qed
  qed
next
  case (3 d s)
  then show ?case by simp
next
  case (4 n d s)
  from "4.prems" obtain k where m: "m = Suc k" by (cases m) auto
  have v: "p_value n d s = p_value k d s" using "4.IH"(1) [of k] "4.prems" m by simp
  have "p_elems n d u = p_elems k d u"
    if "p_value n d s = Some (x, t)" "skip_ws t = c # u" "c \<noteq> CHR '']''" "c = CHR '',''" for x t c u
    using "4.IH"(2) [OF that(1) refl that(2,3,4), of k] p_length(1) [OF that(1)]
      skip_ws_ConsD [OF that(2)] "4.prems" m by simp
  with v show ?case by (auto simp: m p_elems.simps split: option.splits list.splits)
next
  case (5 d s)
  then show ?case by simp
next
  case (6 n d s)
  from "6.prems" obtain k where m: "m = Suc k" by (cases m) auto
  have v: "p_value n d r3 = p_value k d r3"
    if "skip_ws s = q # r1" "\<not> q \<noteq> quote_char" "p_chars r1 = Some (x, r2)" "skip_ws r2 = c # r3"
      "\<not> c \<noteq> CHR '':''" for q r1 x r2 c r3
    using "6.IH"(1) [OF that(1,2,3) refl that(4,5), of k] skip_ws_ConsD [OF that(1)]
      p_chars_length [OF that(3)] skip_ws_ConsD [OF that(4)] "6.prems" m by simp
  have "p_members n d u = p_members k d u"
    if "skip_ws s = q # r1" "\<not> q \<noteq> quote_char" "p_chars r1 = Some (x, r2)" "skip_ws r2 = c # r3"
      "\<not> c \<noteq> CHR '':''" "p_value n d r3 = Some (y, r4)" "skip_ws r4 = e # u" "e \<noteq> CHR ''}''"
      "e = CHR '',''" for q r1 x r2 c r3 y r4 e u
    using "6.IH"(2) [OF that(1,2,3) refl that(4,5,6) refl that(7,8,9), of k] skip_ws_ConsD [OF that(1)]
      p_chars_length [OF that(3)] skip_ws_ConsD [OF that(4)] p_length(1) [OF that(6)]
      skip_ws_ConsD [OF that(7)] "6.prems" m by simp
  with v show ?case
    by (auto simp: m p_members.simps split: option.splits list.splits)
qed

lemma p_value_fuel: "2 * length s < n \<Longrightarrow> p_value n 0 s = parse_value s"
  unfolding parse_value_def by (rule p_fuel(1)) simp_all

subsection \<open>Round trip\<close>

lemma print_elems_head:
  assumes "wf_json d v"
  obtains c t where "print_elems (v # vs) = c # t" "\<not> is_ws c" "c \<noteq> CHR '']''"
  using print_json_head [OF assms] by auto

lemma p_value_number:
  assumes "p_number s = Some (s, [])" and "num_stop r"
  shows "p_value (Suc n) d (s @ r) = Some (JNum s, r)"
proof -
  obtain c t where s: "s = c # t" and c: "c = CHR ''-'' \<or> is_digit c"
    using p_number_head [OF assms(1)] by auto
  then have "\<not> is_ws c" "c \<noteq> CHR ''{''" "c \<noteq> CHR ''[''" "c \<noteq> quote_char" "c \<noteq> CHR ''t''"
    "c \<noteq> CHR ''f''" "c \<noteq> CHR ''n''"
    by (auto simp: is_digit_def)
  moreover have "p_number (c # t @ r) = Some (s, r)"
    using p_number_append [OF assms(2,1)] s by simp
  ultimately show ?thesis by (simp add: s p_value.simps has_prefix_def)
qed

lemma parse_print_gen:
  "wf_json d v \<Longrightarrow> num_stop r \<Longrightarrow> 2 * length (print_json v) < n \<Longrightarrow>
     p_value n d (print_json v @ r) = Some (v, r)"
  "vs \<noteq> [] \<Longrightarrow> \<forall>v\<in>set vs. wf_json d v \<Longrightarrow> 2 * length (print_elems vs) + 1 < n \<Longrightarrow>
     p_elems n d (print_elems vs @ CHR '']'' # r) = Some (vs, r)"
  "ms \<noteq> [] \<Longrightarrow> \<forall>m\<in>set ms. utf8_valid (fst m) \<and> wf_json d (snd m) \<Longrightarrow>
     2 * length (print_members ms) + 1 < n \<Longrightarrow>
     p_members n d (print_members ms @ CHR ''}'' # r) = Some (ms, r)"
proof (induction v and vs and ms arbitrary: d n r and d n r and d n r
    rule: print_json_print_elems_print_members.induct)
  case 1
  then show ?case by (cases n) (auto simp: p_value.simps has_prefix_def)
next
  case (2 b)
  then show ?case by (cases n) (auto simp: p_value.simps has_prefix_def)
next
  case (3 s)
  then show ?case by (cases n) (auto intro: p_value_number)
next
  case (4 s)
  then show ?case by (cases n) (auto simp: p_value.simps enc_string_def p_chars_enc)
next
  case (5 vs)
  from "5.prems" obtain k where n: "n = Suc k" by (cases n) auto
  show ?case
  proof (cases vs)
    case Nil
    with 5 n show ?thesis by (simp add: p_value.simps)
  next
    case (Cons v ws)
    with "5.prems" obtain c t where h: "print_elems vs = c # t" "\<not> is_ws c" "c \<noteq> CHR '']''"
      using print_elems_head [of "Suc d" v ws] by auto
    have "p_elems k (Suc d) (print_elems vs @ CHR '']'' # r) = Some (vs, r)"
      using "5.IH" [of "Suc d" k r] "5.prems" Cons n by simp
    with h n "5.prems" show ?thesis by (simp add: p_value.simps)
  qed
next
  case (6 ms)
  from "6.prems" obtain k where n: "n = Suc k" by (cases n) auto
  show ?case
  proof (cases ms)
    case Nil
    with 6 n show ?thesis by (simp add: p_value.simps)
  next
    case (Cons m ws)
    then obtain t where h: "print_members ms = quote_char # t" by (auto simp: enc_string_def)
    have "p_members k (Suc d) (print_members ms @ CHR ''}'' # r) = Some (ms, r)"
      using "6.IH" [of "Suc d" k r] "6.prems" Cons n by simp
    with h n "6.prems" show ?thesis by (simp add: p_value.simps)
  qed
next
  case 7
  then show ?case by simp
next
  case (8 v vs)
  from "8.prems" obtain k where n: "n = Suc k" by (cases n) auto
  show ?case
  proof (cases "vs = []")
    case True
    with 8 n show ?thesis by (simp add: p_elems.simps)
  next
    case False
    have "p_value k d (print_json v @ CHR '','' # print_elems vs @ CHR '']'' # r) =
        Some (v, CHR '','' # print_elems vs @ CHR '']'' # r)"
      using "8.IH"(1) [of d "CHR '','' # print_elems vs @ CHR '']'' # r" k] "8.prems" n False by simp
    moreover have "p_elems k d (print_elems vs @ CHR '']'' # r) = Some (vs, r)"
      using "8.IH"(2) [of d k r] "8.prems" n False by simp
    ultimately show ?thesis using n False by (simp add: p_elems.simps)
  qed
next
  case 9
  then show ?case by simp
next
  case (10 m ms)
  from "10.prems" obtain k where n: "n = Suc k" by (cases n) auto
  define rest where "rest = (if ms = [] then [] else CHR '','' # print_members ms) @ CHR ''}'' # r"
  have "p_value k d (print_json (snd m) @ rest) = Some (snd m, rest)"
    using "10.IH"(1) [of d rest k] "10.prems" n by (auto simp: rest_def split: if_splits)
  moreover have "p_chars (enc_chars (fst m) @ quote_char # CHR '':'' # print_json (snd m) @ rest) =
      Some (fst m, CHR '':'' # print_json (snd m) @ rest)"
    using "10.prems" by (simp add: p_chars_enc)
  moreover have "p_members k d (print_members ms @ CHR ''}'' # r) = Some (ms, r)" if "ms \<noteq> []"
    using "10.IH"(2) [of d k r] "10.prems" n that by (simp add: enc_string_def)
  moreover have "print_members (m # ms) @ CHR ''}'' # r =
      quote_char # enc_chars (fst m) @ quote_char # CHR '':'' # print_json (snd m) @ rest"
    by (simp add: enc_string_def rest_def)
  ultimately show ?case
    by (cases "ms = []") (simp_all add: n p_members.simps rest_def)
qed

lemma parse_print: "wf_json 0 v \<Longrightarrow> num_stop r \<Longrightarrow> parse_value (print_json v @ r) = Some (v, r)"
  unfolding parse_value_def by (rule parse_print_gen(1)) simp_all

end
