(* ===== verification/CanonicalJson.thy ===== *)
theory CanonicalJson
  imports JsonLaws
begin

section \<open>The canonical form of a JSON object\<close>

text \<open>
  The package \<open>internal/canonicaljson\<close>: the trailing-data rule and the proof that the bytes of
  an object are the one encoding of the value they decode to. Its central law is
  \<open>proveObject_iff\<close>: the accepted byte strings are exactly the encodings of well-formed objects
  whose keys are sorted at every level, so the bytes of an accepted request have one meaning.
\<close>

datatype canon_error = ErrEncode | ErrMalformed | ErrTrailing | ErrNotCanonical

definition trailing :: "string \<Rightarrow> bool" where
  "trailing rest \<longleftrightarrow> \<not> list_all is_ws rest"

text \<open>
  \<open>ProveObject\<close>: a value that is not an object does not decode into \<open>map[string]any\<close>, and a
  null leaves the map nil; both are malformed. \<open>json.Marshal\<close> of a decoded value cannot fail.
\<close>

definition proveObject :: "string \<Rightarrow> canon_error option" where
  "proveObject data =
     (case parse_value data of
        Some (JObj ms, rest) \<Rightarrow>
          if trailing rest then Some ErrTrailing
          else if print_json (to_any (JObj ms)) \<noteq> data then Some ErrNotCanonical
          else None
      | _ \<Rightarrow> Some ErrMalformed)"

text \<open>Sorted, distinct keys at every level.\<close>

fun canonical :: "json \<Rightarrow> bool" where
  "canonical (JArr vs) = (\<forall>v\<in>set vs. canonical v)"
| "canonical (JObj ms) = (sorted_wrt (<) (map fst ms) \<and> (\<forall>m\<in>set ms. canonical (snd m)))"
| "canonical v = True"

subsection \<open>Decoded strings are valid UTF-8\<close>

lemma utf8_valid_drop: "s \<noteq> [] \<Longrightarrow> utf8_valid s \<longleftrightarrow> rune_size s \<noteq> 0 \<and> utf8_valid (drop (rune_size s) s)"
  by (subst utf8_valid.simps) simp

lemma utf8_valid_append: "utf8_valid a \<Longrightarrow> utf8_valid b \<Longrightarrow> utf8_valid (a @ b)"
proof (induction a rule: utf8_valid.induct)
  case (1 s)
  show ?case
  proof (cases "s = []")
    case True
    with 1 show ?thesis by simp
  next
    case False
    define n where "n = rune_size s"
    from False "1.prems"(1) have n: "n \<noteq> 0" "utf8_valid (drop n s)"
      by (simp_all add: utf8_valid_drop n_def)
    have le: "n \<le> length s" using rune_size_le n_def by simp
    have "rune_size (take n s @ drop n s @ b) = n"
      by (rule rune_size_append) (simp_all add: n_def [symmetric] n)
    then have sz: "rune_size (s @ b) = n" by (metis append.assoc append_take_drop_id)
    have "utf8_valid (drop n s @ b)"
      using "1.IH" [OF False] n "1.prems"(2) n_def by simp
    with sz n le False show ?thesis by (simp add: utf8_valid_drop [of "s @ b"])
  qed
qed

lemma utf8_valid_one: "rune_size s = length s \<Longrightarrow> s \<noteq> [] \<Longrightarrow> utf8_valid s"
  by (simp add: utf8_valid_drop)

lemma utf8_valid_replacement [simp]: "utf8_valid replacement"
  by (rule utf8_valid_one)
    (simp_all add: replacement_def rune_size_def rune_need_def tail_ok_def second_ok_def cont_byte_def)

lemma mod_64_bound: "k * 64 \<le> a \<Longrightarrow> a < k * 64 + b \<Longrightarrow> b \<le> 64 \<Longrightarrow> a mod 64 < b" for a b k :: nat
proof -
  assume a: "k * 64 \<le> a" "a < k * 64 + b" "b \<le> 64"
  define j where "j = a - k * 64"
  have "a = j + k * 64" "j < b" using a by (simp_all add: j_def)
  with a(3) show ?thesis by simp
qed

lemma utf8_encode_2:
  assumes "128 \<le> r" "r < 2048"
  shows "utf8_valid [byte_chr (192 + r div 64), byte_chr (128 + r mod 64)]"
proof (rule utf8_valid_one)
  from assms have "2 \<le> r div 64" "r div 64 < 32" by linarith+
  then show "rune_size [byte_chr (192 + r div 64), byte_chr (128 + r mod 64)] =
      length [byte_chr (192 + r div 64), byte_chr (128 + r mod 64)]"
    by (simp add: rune_size_def rune_need_def tail_ok_def second_ok_def cont_byte_def)
qed simp

lemma utf8_encode_3:
  assumes "2048 \<le> r" "r < 65536" "\<not> is_surrogate r"
  shows "utf8_valid [byte_chr (224 + r div 4096), byte_chr (128 + r div 64 mod 64), byte_chr (128 + r mod 64)]"
    (is "utf8_valid ?s")
proof (rule utf8_valid_one)
  have d: "r div 4096 < 16" using assms(2) by linarith
  have m: "r div 64 mod 64 < 64" by simp
  have "160 \<le> 128 + r div 64 mod 64" if "r div 4096 = 0"
  proof -
    from that have "r < 4096" by simp
    then have "r div 64 < 64" by linarith
    moreover have "32 \<le> r div 64" using assms(1) by linarith
    ultimately show ?thesis by simp
  qed
  moreover have "128 + r div 64 mod 64 \<le> 159" if "r div 4096 = 13"
  proof -
    from that have r: "53248 \<le> r" "r < 57344" by linarith+
    with assms(3) have "r < 55296" by (simp add: is_surrogate_def)
    then have "r div 64 < 13 * 64 + 32" by linarith
    moreover have "13 * 64 \<le> r div 64" using r(1) by linarith
    ultimately have "r div 64 mod 64 < 32" using mod_64_bound [of 13 "r div 64" 32] by simp
    then show ?thesis by simp
  qed
  ultimately have "second_ok (224 + r div 4096) (byte_chr (128 + r div 64 mod 64))"
    using d m by (auto simp: second_ok_def cont_byte_def)
  with d show "rune_size ?s = length ?s"
    by (simp add: rune_size_def rune_need_def tail_ok_def cont_byte_def)
qed simp

lemma utf8_encode_4:
  assumes "65536 \<le> r" "r \<le> 1114111"
  shows "utf8_valid [byte_chr (240 + r div 262144), byte_chr (128 + r div 4096 mod 64),
      byte_chr (128 + r div 64 mod 64), byte_chr (128 + r mod 64)]" (is "utf8_valid ?s")
proof (rule utf8_valid_one)
  have d: "r div 262144 \<le> 4" using assms(2) by linarith
  have "16 \<le> r div 4096 mod 64" if "r div 262144 = 0"
  proof -
    from that have "r < 262144" by simp
    then have "r div 4096 < 64" by linarith
    moreover have "16 \<le> r div 4096" using assms(1) by linarith
    ultimately show ?thesis by simp
  qed
  moreover have "r div 4096 mod 64 < 16" if "r div 262144 = 4"
  proof -
    have "4 * 64 \<le> r div 4096" "r div 4096 < 4 * 64 + 16" using that assms(2) by linarith+
    then show ?thesis using mod_64_bound [of 4 "r div 4096" 16] by simp
  qed
  ultimately have "second_ok (240 + r div 262144) (byte_chr (128 + r div 4096 mod 64))"
    using d by (auto simp: second_ok_def cont_byte_def)
  moreover have "a mod 64 \<le> 63" for a :: nat
    using mod_less_divisor [of 64 a] by linarith
  ultimately show "rune_size ?s = length ?s"
    using d by (simp add: rune_size_def rune_need_def tail_ok_def cont_byte_def)
qed simp

lemma utf8_valid_encode: "utf8_valid (utf8_encode r)"
proof (cases "r < 128")
  case True
  then show ?thesis
    by (simp add: utf8_encode_def utf8_valid_one rune_size_def rune_need_def tail_ok_def)
next
  case False
  then show ?thesis
    by (auto simp: utf8_encode_def utf8_encode_2 utf8_encode_3 utf8_encode_4)
qed

lemma utf8_valid_escape: "unicode_escape s = Some (bs, n) \<Longrightarrow> utf8_valid bs"
  by (auto simp: unicode_escape_def utf8_valid_encode split: option.splits if_splits list.splits)

lemma utf8_valid_ascii: "byte_of c < 128 \<Longrightarrow> utf8_valid s \<Longrightarrow> utf8_valid (c # s)"
  by (simp add: utf8_valid_Cons)

lemma p_chars_valid: "p_chars s = Some (x, r) \<Longrightarrow> utf8_valid x"
proof (induction s arbitrary: x r rule: p_chars.induct)
  case 1
  then show ?case by (simp add: p_chars.simps)
next
  case (2 c s)
  note prems = "2.prems" [unfolded p_chars.simps(2) [of c s]]
  show ?case
  proof (cases "c = quote_char")
    case True
    with prems show ?thesis by simp
  next
    case q: False
    show ?thesis
    proof (cases "c = backslash")
      case True
      with prems q obtain e t where s: "s = e # t" by (cases s) auto
      show ?thesis
      proof (cases "e = CHR ''u''")
        case u: True
        with prems q True s obtain bs n y where p: "unicode_escape t = Some (bs, n)"
          "p_chars (drop n t) = Some (y, r)" "x = bs @ y" by (auto split: option.splits)
        from "2.IH"(1) [OF q True s u p(1) refl p(2)] p show ?thesis
          by (simp add: utf8_valid_append utf8_valid_escape)
      next
        case u: False
        with prems q True s obtain d y where p: "simple_escape e = Some d" "p_chars t = Some (y, r)"
          "x = d # y" by (auto split: option.splits)
        from p(1) have "byte_of d < 128" by (auto simp: simple_escape_def split: if_splits)
        with "2.IH"(2) [OF q True s u p(1,2)] p(3) show ?thesis by (simp add: utf8_valid_ascii)
      qed
    next
      case b: False
      define n where "n = rune_size (c # s)"
      from prems q b have l: "\<not> byte_of c < 32" by (auto split: if_splits)
      show ?thesis
      proof (cases "n = 0")
        case True
        with prems q b l obtain y where "p_chars s = Some (y, r)" "x = replacement @ y"
          by (auto simp: n_def)
        with "2.IH"(3) [OF q b l n_def True] show ?thesis by (simp add: utf8_valid_append)
      next
        case False
        with prems q b l obtain y where y: "p_chars (drop (n - 1) s) = Some (y, r)"
          "x = c # take (n - 1) s @ y" by (auto simp: n_def Let_def)
        have v: "utf8_valid y" by (rule "2.IH"(4) [OF q b l n_def False y(1)])
        have t: "take n (c # s) = c # take (n - 1) s" using False by (cases n) auto
        have "rune_size (take n (c # s) @ []) = n"
          by (rule rune_size_append) (simp_all add: n_def [symmetric] False)
        then have "utf8_valid (take n (c # s))"
          using rune_size_le [of "c # s"] False t by (intro utf8_valid_one) (simp_all add: n_def)
        with v y(2) t utf8_valid_append show ?thesis by fastforce
      qed
    qed
  qed
qed

subsection \<open>Decoded values are well-formed\<close>

lemma p_int_self: "p_int s = Some (i, t) \<Longrightarrow> p_int i = Some (i, [])"
  by (auto simp: p_int_def split: list.splits if_splits dest: span_digits_self)
    (auto simp: span_digits_def)

lemma p_frac_self: "p_frac s = Some (f, t) \<Longrightarrow> p_frac f = Some (f, [])"
  by (auto simp: p_frac_def split: list.splits if_splits prod.splits dest: span_digits_self)

lemma p_exp_self: "p_exp s = Some (e, t) \<Longrightarrow> p_exp e = Some (e, [])"
  by (auto simp: p_exp_def span_digits_def split: list.splits if_splits dest: set_takeWhileD)

lemma span_digits_stop:
  "span_digits s = (s, []) \<Longrightarrow> u = [] \<or> \<not> is_digit (hd u) \<Longrightarrow> span_digits (s @ u) = (s, u)"
  by (cases u) (auto simp: span_digits_def takeWhile_eq_all_conv)

lemma p_int_stop:
  "p_int i = Some (i, []) \<Longrightarrow> u = [] \<or> \<not> is_digit (hd u) \<Longrightarrow> p_int (i @ u) = Some (i, u)"
  using span_digits_stop [of i u] by (auto simp: p_int_def split: list.splits if_splits)

lemma p_frac_stop:
  assumes f: "p_frac f = Some (f, [])" and u: "u = [] \<or> (\<not> is_digit (hd u) \<and> hd u \<noteq> CHR ''.'')"
  shows "p_frac (f @ u) = Some (f, u)"
proof (cases f)
  case Nil
  with u show ?thesis by (cases u) (auto simp: p_frac_def)
next
  case (Cons c ds)
  with f have "c = CHR ''.''" "span_digits ds = (ds, [])" "ds \<noteq> []"
    by (auto simp: p_frac_def split: if_splits prod.splits)
  with Cons u span_digits_stop [of ds u] show ?thesis by (auto simp: p_frac_def)
qed

lemma p_frac_head: "p_frac s = Some (f, t) \<Longrightarrow> f = [] \<or> hd f = CHR ''.''"
  by (auto simp: p_frac_def split: list.splits if_splits prod.splits)

lemma p_exp_head: "p_exp s = Some (e, t) \<Longrightarrow> e = [] \<or> hd e = CHR ''e'' \<or> hd e = CHR ''E''"
  by (auto simp: p_exp_def split: list.splits if_splits prod.splits)

lemma p_number_self:
  assumes "p_number s = Some (x, t)"
  shows "p_number x = Some (x, [])"
proof -
  define split where "split = (\<lambda>s. case s of c # r \<Rightarrow> if c = CHR ''-'' then ([c], r) else ([], s) | [] \<Rightarrow> ([], s))"
  obtain sign u where sp: "split s = (sign, u)" by (cases "split s")
  from assms sp obtain i v f w e where p: "p_int u = Some (i, v)" "p_frac v = Some (f, w)"
    "p_exp w = Some (e, t)" and x: "x = sign @ i @ f @ e"
    by (auto simp: p_number_def split_def split: option.splits)
  have e: "e = [] \<or> (\<not> is_digit (hd e) \<and> hd e \<noteq> CHR ''.'')"
    using p_exp_head [OF p(3)] by (auto simp: is_digit_def)
  have fe: "f @ e = [] \<or> \<not> is_digit (hd (f @ e))"
    using p_frac_head [OF p(2)] e by (cases f) (auto simp: is_digit_def)
  have i: "i \<noteq> []" "hd i \<noteq> CHR ''-''"
    using p(1) by (auto simp: p_int_def span_digits_def is_digit_def split: list.splits if_splits)
  have "sign = [] \<or> sign = [CHR ''-'']" using sp by (auto simp: split_def split: list.splits if_splits)
  with i have "split x = (sign, i @ f @ e)" using x by (cases i) (auto simp: split_def)
  then show ?thesis
    using p_int_stop [OF p_int_self [OF p(1)] fe] p_frac_stop [OF p_frac_self [OF p(2)] e]
      p_exp_self [OF p(3)] x by (simp add: p_number_def split_def)
qed

lemma p_wf:
  "p_value n d s = Some (v, r) \<Longrightarrow> wf_json d v"
  "p_elems n d s = Some (vs, r) \<Longrightarrow> \<forall>v\<in>set vs. wf_json d v"
  "p_members n d s = Some (ms, r) \<Longrightarrow> \<forall>m\<in>set ms. utf8_valid (fst m) \<and> wf_json d (snd m)"
proof (induction n d s and n d s and n d s arbitrary: v r and vs r and ms r
    rule: p_value_p_elems_p_members.induct)
  case (1 d s)
  then show ?case by (simp add: p_value.simps)
next
  case (2 n d s)
  from "2.prems" obtain c t where s: "skip_ws s = c # t"
    by (auto simp: p_value.simps split: list.splits)
  show ?case
  proof (cases "c = CHR ''{'' \<or> c = CHR ''[''")
    case True
    from "2.prems" s True have d: "\<not> maxNestingDepth \<le> d" by (auto simp: p_value.simps split: if_splits)
    from "2.prems" s True obtain e u where t: "skip_ws t = e # u"
      by (auto simp: p_value.simps split: list.splits if_splits)
    show ?thesis
      using "2.prems" s t d True "2.IH" by (fastforce simp: p_value.simps split: if_splits)
  next
    case False
    then show ?thesis
      using "2.prems" s p_chars_valid [of t] p_number_self [of "c # t"]
      by (fastforce simp: p_value.simps split: if_splits)
  qed
next
  case (3 d s)
  then show ?case by (simp add: p_elems.simps)
next
  case (4 n d s)
  from "4.prems" obtain v t where v: "p_value n d s = Some (v, t)"
    by (auto simp: p_elems.simps split: option.splits)
  from "4.prems" v obtain c u where t: "skip_ws t = c # u"
    by (auto simp: p_elems.simps split: list.splits)
  show ?case
    using "4.prems" v t "4.IH"(1) [OF v] "4.IH"(2) [OF v refl t]
    by (fastforce simp: p_elems.simps split: if_splits)
next
  case (5 d s)
  then show ?case by (simp add: p_members.simps)
next
  case (6 n d s)
  from "6.prems" obtain r1 where s: "skip_ws s = quote_char # r1"
    by (auto simp: p_members.simps split: list.splits if_splits)
  with "6.prems" obtain k r2 where k: "p_chars r1 = Some (k, r2)"
    by (auto simp: p_members.simps split: option.splits)
  with "6.prems" s obtain r3 where c: "skip_ws r2 = CHR '':'' # r3"
    by (auto simp: p_members.simps split: list.splits if_splits)
  with "6.prems" s k obtain v r4 where v: "p_value n d r3 = Some (v, r4)"
    by (auto simp: p_members.simps split: option.splits)
  with "6.prems" s k c obtain e u where t: "skip_ws r4 = e # u"
    by (auto simp: p_members.simps split: list.splits)
  have "wf_json d v" using "6.IH"(1) [OF s _ k refl c] v by simp
  then show ?case
    using "6.prems" s k c v t "6.IH"(2) [OF s _ k refl c _ v refl t] p_chars_valid [OF k]
    by (fastforce simp: p_members.simps split: if_splits)
qed

subsection \<open>Go maps have sorted keys\<close>

lemma keys_insert_member: "fst ` set (insert_member k v ms) = insert k (fst ` set ms)"
proof (induction ms)
  case Nil
  then show ?case by simp
next
  case (Cons m ms)
  obtain k' v' where m: "m = (k', v')" by (cases m)
  with Cons show ?case by (cases "k = k'"; cases "k < k'") (auto simp: insert_commute)
qed

lemma members_insert_member: "m \<in> set (insert_member k v ms) \<Longrightarrow> m = (k, v) \<or> m \<in> set ms"
  by (induction ms) (auto split: if_splits)

lemma sorted_insert_member:
  "sorted_wrt (<) (map fst ms) \<Longrightarrow> sorted_wrt (<) (map fst (insert_member k v ms))"
proof (induction ms)
  case Nil
  then show ?case by simp
next
  case (Cons m ms)
  obtain k' v' where m: "m = (k', v')" by (cases m)
  show ?case
  proof (cases "k < k' \<or> k = k'")
    case True
    with Cons.prems m show ?thesis by (auto dest: order.strict_trans)
  next
    case False
    then have "k' < k" by auto
    with Cons m keys_insert_member [of k v ms] show ?thesis by auto
  qed
qed

lemma members_map_snoc: "members_map (ms @ [(k, v)]) = insert_member k v (members_map ms)"
  by (simp add: members_map_def)

lemma members_map_Nil [simp]: "members_map [] = []"
  by (simp add: members_map_def)

lemma sorted_members_map: "sorted_wrt (<) (map fst (members_map ms))"
proof (induction ms rule: rev_induct)
  case Nil
  then show ?case by simp
next
  case (snoc m ms)
  then show ?case by (cases m) (simp add: members_map_snoc sorted_insert_member)
qed

lemma members_map_subset: "set (members_map ms) \<subseteq> set ms"
proof (induction ms rule: rev_induct)
  case Nil
  then show ?case by simp
next
  case (snoc m ms)
  then show ?case by (cases m) (auto simp: members_map_snoc dest!: members_insert_member)
qed

lemma insert_member_last: "\<forall>x\<in>set ms. fst x < k \<Longrightarrow> insert_member k v ms = ms @ [(k, v)]"
  by (induction ms) auto

lemma members_map_sorted_id: "sorted_wrt (<) (map fst ms) \<Longrightarrow> members_map ms = ms"
proof (induction ms rule: rev_induct)
  case Nil
  then show ?case by simp
next
  case (snoc m ms)
  then show ?case
    by (cases m) (auto simp: members_map_snoc sorted_wrt_append insert_member_last)
qed

lemma canonical_to_any: "canonical (to_any v)"
proof (induction v rule: to_any.induct)
  case (2 ms)
  have "canonical (snd m)" if "m \<in> set (members_map (map (\<lambda>(k, v). (k, to_any v)) ms))" for m
    using that members_map_subset [of "map (\<lambda>(k, v). (k, to_any v)) ms"] 2 by fastforce
  then show ?case by (simp add: sorted_members_map del: set_map)
qed auto

lemma wf_to_any: "wf_json d v \<Longrightarrow> wf_json d (to_any v)"
proof (induction v arbitrary: d rule: to_any.induct)
  case (2 ms)
  have "utf8_valid (fst m) \<and> wf_json (Suc d) (snd m)"
    if "m \<in> set (members_map (map (\<lambda>(k, v). (k, to_any v)) ms))" for m
    using that members_map_subset [of "map (\<lambda>(k, v). (k, to_any v)) ms"] 2 by fastforce
  with 2 show ?case by simp
qed auto

lemma to_any_canonical_id: "canonical v \<Longrightarrow> to_any v = v"
proof (induction v rule: to_any.induct)
  case (1 vs)
  then show ?case by (auto intro: map_idI)
next
  case (2 ms)
  then have "map (\<lambda>(k, v). (k, to_any v)) ms = ms" by (auto intro!: map_idI)
  with "2.prems" show ?case by (simp add: members_map_sorted_id)
qed auto

lemma proveObject_iff:
  "proveObject data = None \<longleftrightarrow>
   (\<exists>ms. wf_json 0 (JObj ms) \<and> canonical (JObj ms) \<and> data = print_json (JObj ms))"
proof
  assume ok: "proveObject data = None"
  then obtain ms rest where p: "parse_value data = Some (JObj ms, rest)"
    and d: "print_json (to_any (JObj ms)) = data"
    by (auto simp: proveObject_def split: option.splits prod.splits json.splits if_splits)
  have "wf_json 0 (to_any (JObj ms))"
    using p by (intro wf_to_any p_wf(1)) (simp add: parse_value_def)
  with d canonical_to_any [of "JObj ms"]
  show "\<exists>ms. wf_json 0 (JObj ms) \<and> canonical (JObj ms) \<and> data = print_json (JObj ms)"
    by (auto simp del: wf_json.simps canonical.simps print_json.simps)
next
  assume "\<exists>ms. wf_json 0 (JObj ms) \<and> canonical (JObj ms) \<and> data = print_json (JObj ms)"
  then obtain ms where wf: "wf_json 0 (JObj ms)" and c: "canonical (JObj ms)"
    and d: "data = print_json (JObj ms)" by blast
  from parse_print [OF wf, of "[]"] d have "parse_value data = Some (JObj ms, [])" by simp
  with d to_any_canonical_id [OF c] show "proveObject data = None"
    by (simp add: proveObject_def trailing_def del: to_any.simps print_json.simps)
qed

end
