(* ===== verification/States.thy ===== *)
theory States
  imports Diagnostics CanonicalJson
begin

section \<open>Operation, block and effect states, and mutation evidence\<close>

text \<open>
  \<open>internal/reconciliation/state.go\<close> and \<open>evidence.go\<close>. The states of the source are string
  types with named values, and a value read from a record need not be one of them: they are
  strings here too, with the source's validity tests.

  The transition tables map what an attempt or an observation reported to the durable effect
  and block states, \<open>NextOperationState\<close> derives the operation's state from its blocks, and
  the evidence functions write and read the record that guards the context.
\<close>

type_synonym Verb = string
type_synonym OperationState = string
type_synonym BlockState = string
type_synonym EffectState = string
type_synonym Outcome = string

abbreviation Apply :: Verb where "Apply \<equiv> ''apply''"
abbreviation Destroy :: Verb where "Destroy \<equiv> ''destroy''"

abbreviation OperationRunning :: OperationState where "OperationRunning \<equiv> ''running''"
abbreviation OperationPaused :: OperationState where "OperationPaused \<equiv> ''paused''"
abbreviation OperationFailed :: OperationState where "OperationFailed \<equiv> ''failed''"
abbreviation OperationUnknown :: OperationState where "OperationUnknown \<equiv> ''unknown''"
abbreviation OperationDone :: OperationState where "OperationDone \<equiv> ''done''"

abbreviation BlockPending :: BlockState where "BlockPending \<equiv> ''pending''"
abbreviation BlockRunning :: BlockState where "BlockRunning \<equiv> ''running''"
abbreviation BlockFailed :: BlockState where "BlockFailed \<equiv> ''failed''"
abbreviation BlockUnknown :: BlockState where "BlockUnknown \<equiv> ''unknown''"
abbreviation BlockDone :: BlockState where "BlockDone \<equiv> ''done''"

abbreviation EffectNoEffect :: EffectState where "EffectNoEffect \<equiv> ''no-effect''"
abbreviation EffectPartial :: EffectState where "EffectPartial \<equiv> ''partial''"
abbreviation EffectCompleted :: EffectState where "EffectCompleted \<equiv> ''completed''"
abbreviation EffectInconclusive :: EffectState where "EffectInconclusive \<equiv> ''inconclusive''"
abbreviation EffectUnknown :: EffectState where "EffectUnknown \<equiv> ''unknown''"

abbreviation OutcomeChanged :: Outcome where "OutcomeChanged \<equiv> ''changed''"
abbreviation OutcomeUnchanged :: Outcome where "OutcomeUnchanged \<equiv> ''unchanged''"
abbreviation OutcomeFailed :: Outcome where "OutcomeFailed \<equiv> ''failed''"
abbreviation OutcomeCanceled :: Outcome where "OutcomeCanceled \<equiv> ''canceled''"
abbreviation OutcomeUnknown :: Outcome where "OutcomeUnknown \<equiv> ''unknown''"

definition stateError :: "string \<Rightarrow> Failure" where
  "stateError message = NewFailure ''lifecycle.state'' message []"

definition planError :: "string \<Rightarrow> Failure" where
  "planError message = NewFailure ''lifecycle.state'' message []"

abbreviation AuthorizationDataLoss :: string where "AuthorizationDataLoss \<equiv> ''data-loss''"

definition ValidAuthorization :: "string \<Rightarrow> bool" where
  "ValidAuthorization token \<longleftrightarrow> token = AuthorizationDataLoss"

definition ValidOperationState :: "OperationState \<Rightarrow> bool" where
  "ValidOperationState v \<longleftrightarrow>
     v \<in> set [OperationRunning, OperationPaused, OperationFailed, OperationUnknown, OperationDone]"

definition ValidBlockState :: "BlockState \<Rightarrow> bool" where
  "ValidBlockState v \<longleftrightarrow>
     v \<in> set [BlockPending, BlockRunning, BlockFailed, BlockUnknown, BlockDone]"

definition ValidEffectState :: "EffectState \<Rightarrow> bool" where
  "ValidEffectState v \<longleftrightarrow>
     v \<in> set [EffectNoEffect, EffectPartial, EffectCompleted, EffectInconclusive, EffectUnknown]"

definition ValidOutcome :: "Outcome \<Rightarrow> bool" where
  "ValidOutcome v \<longleftrightarrow>
     v \<in> set [OutcomeChanged, OutcomeUnchanged, OutcomeFailed, OutcomeCanceled, OutcomeUnknown]"

definition AttemptTransition :: "Outcome \<Rightarrow> (EffectState \<times> BlockState) result" where
  "AttemptTransition outcome =
     (if outcome = OutcomeChanged \<or> outcome = OutcomeUnchanged then Inr (EffectCompleted, BlockDone)
      else if outcome = OutcomeFailed then Inr (EffectUnknown, BlockFailed)
      else if outcome = OutcomeCanceled \<or> outcome = OutcomeUnknown then Inr (EffectUnknown, BlockUnknown)
      else Inl (stateError ''lifecycle attempt outcome is not recognized''))"

definition ResolutionTransition :: "EffectState \<Rightarrow> (EffectState \<times> BlockState) result" where
  "ResolutionTransition observed =
     (if observed = EffectCompleted then Inr (EffectCompleted, BlockDone)
      else if observed = EffectNoEffect then Inr (EffectNoEffect, BlockFailed)
      else if observed = EffectPartial then Inr (EffectPartial, BlockFailed)
      else if observed = EffectInconclusive then Inr (EffectInconclusive, BlockFailed)
      else if observed = EffectUnknown then Inr (EffectUnknown, BlockUnknown)
      else Inl (stateError ''lifecycle resolution evidence is not recognized''))"

definition ResolutionOutcome :: "EffectState \<Rightarrow> Outcome \<Rightarrow> Outcome" where
  "ResolutionOutcome resolved proved =
     (if resolved = EffectCompleted then
        (if proved = OutcomeChanged \<or> proved = OutcomeUnchanged then proved else OutcomeChanged)
      else if resolved = EffectNoEffect \<or> resolved = EffectPartial \<or> resolved = EffectInconclusive
        then OutcomeFailed
      else OutcomeUnknown)"

text \<open>The loop over the block states: how many are done, whether one is unknown or failed.\<close>

fun countStates :: "BlockState list \<Rightarrow> nat \<Rightarrow> bool \<Rightarrow> bool \<Rightarrow> (nat \<times> bool \<times> bool) result" where
  "countStates [] n unknown failed = Inr (n, unknown, failed)"
| "countStates (s # ss) n unknown failed =
     (if \<not> ValidBlockState s then Inl (stateError ''lifecycle block state is not recognized'')
      else if s = BlockDone then countStates ss (Suc n) unknown failed
      else if s = BlockUnknown then countStates ss n True failed
      else if s = BlockFailed then countStates ss n unknown True
      else countStates ss n unknown failed)"

definition NextOperationState :: "BlockState list \<Rightarrow> bool \<Rightarrow> OperationState result" where
  "NextOperationState states boundary =
     bindR (countStates states 0 False False) (\<lambda>(finished, unknown, failed).
       if unknown then Inr OperationUnknown
       else if failed then Inr OperationFailed
       else if finished = length states then Inr OperationDone
       else if boundary then Inr OperationPaused
       else Inr OperationRunning)"

subsection \<open>Mutation evidence\<close>

abbreviation maxEvidenceBytes :: nat where "maxEvidenceBytes \<equiv> 65536"

abbreviation MutationNone :: string where "MutationNone \<equiv> ''none''"
abbreviation MutationPending :: string where "MutationPending \<equiv> ''pending''"
abbreviation MutationFailed :: string where "MutationFailed \<equiv> ''failed''"
abbreviation MutationUnknown :: string where "MutationUnknown \<equiv> ''unknown''"
abbreviation MutationApplied :: string where "MutationApplied \<equiv> ''applied''"
abbreviation OwnershipNone :: string where "OwnershipNone \<equiv> ''none''"
abbreviation OwnershipRetained :: string where "OwnershipRetained \<equiv> ''retained''"

record Evidence =
  Mutation :: string
  Ownership :: string

definition PristineEvidence :: Evidence where
  "PristineEvidence = \<lparr>Mutation = MutationNone, Ownership = OwnershipNone\<rparr>"

definition ValidEvidence :: "Evidence \<Rightarrow> bool" where
  "ValidEvidence e \<longleftrightarrow>
     Mutation e \<in> set [MutationNone, MutationPending, MutationFailed, MutationUnknown, MutationApplied] \<and>
     (Ownership e = OwnershipNone \<or> Ownership e = OwnershipRetained)"

text \<open>The recognized states are plain words, which the verb \<open>%q\<close> writes between quotes.\<close>

definition quoted :: "string \<Rightarrow> string" where
  "quoted s = [quote_char] @ s @ [quote_char]"

definition EvidenceBytes :: "Evidence \<Rightarrow> string result" where
  "EvidenceBytes e =
     (if \<not> ValidEvidence e then Inl (stateError ''context mutation evidence is not a recognized state'')
      else Inr (''{'' @ quoted ''version'' @ '':1,'' @ quoted ''operation'' @ '':'' @ quoted (Mutation e)
            @ '','' @ quoted ''ownership'' @ '':'' @ quoted (Ownership e) @ ''}'' @ [CHR 0x0A]))"

text \<open>
  The members of the record, one token at a time as \<open>Decoder.Token\<close> reads them: a comma before
  every member but the first, a key not seen before, a colon and a scalar of the member's
  type. The result is the evidence, the keys seen and the text from the closing brace on.
\<close>

definition evidenceMember :: "string \<Rightarrow> json \<Rightarrow> Evidence \<Rightarrow> Evidence option" where
  "evidenceMember key v e =
     (if key = ''version'' then (case v of JNum n \<Rightarrow> if n = ''1'' then Some e else None | _ \<Rightarrow> None)
      else if key = ''operation'' then (case v of JStr s \<Rightarrow> Some (e\<lparr>Mutation := s\<rparr>) | _ \<Rightarrow> None)
      else if key = ''ownership'' then (case v of JStr s \<Rightarrow> Some (e\<lparr>Ownership := s\<rparr>) | _ \<Rightarrow> None)
      else None)"

definition memberStart :: "bool \<Rightarrow> string \<Rightarrow> string option" where
  "memberStart first s =
     (case skip_ws s of
        [] \<Rightarrow> None
      | c # r \<Rightarrow>
          if first then (if c = quote_char then Some r else None)
          else if c = CHR '','' then
            (case skip_ws r of q # t \<Rightarrow> if q = quote_char then Some t else None | [] \<Rightarrow> None)
          else None)"

definition evidenceToken :: "bool \<Rightarrow> string list \<Rightarrow> Evidence \<Rightarrow> string \<Rightarrow> (string \<times> Evidence \<times> string) option" where
  "evidenceToken first seen e s =
     (case memberStart first s of
        None \<Rightarrow> None
      | Some r \<Rightarrow>
          (case p_chars r of
             None \<Rightarrow> None
           | Some (key, r1) \<Rightarrow>
               if key \<in> set seen then None
               else
                 (case skip_ws r1 of
                    c # r2 \<Rightarrow>
                      if c \<noteq> CHR '':'' then None
                      else
                        (case parse_value r2 of
                           None \<Rightarrow> None
                         | Some (v, r3) \<Rightarrow> map_option (\<lambda>e'. (key, e', r3)) (evidenceMember key v e))
                  | [] \<Rightarrow> None)))"

lemma memberStart_length: "memberStart first s = Some r \<Longrightarrow> length r < length s"
  by (auto simp: memberStart_def split: list.splits if_splits dest!: skip_ws_ConsD)

lemma evidenceToken_length: "evidenceToken first seen e s = Some (k, e', r) \<Longrightarrow> length r < length s"
  by (auto simp: evidenceToken_def parse_value_def split: option.splits if_splits list.splits
      dest!: memberStart_length p_chars_length skip_ws_ConsD p_length(1))

function evidenceMembers :: "bool \<Rightarrow> string list \<Rightarrow> Evidence \<Rightarrow> string \<Rightarrow> (Evidence \<times> string list \<times> string) option" where
  "evidenceMembers first seen e s =
     (case skip_ws s of
        [] \<Rightarrow> None
      | c # r \<Rightarrow>
          if c = CHR ''}'' then Some (e, seen, r)
          else if c = CHR '']'' then None
          else
            (case evidenceToken first seen e s of
               None \<Rightarrow> None
             | Some (k, e', t) \<Rightarrow> evidenceMembers False (k # seen) e' t))"
  by pat_completeness auto
termination
  by (relation "measure (\<lambda>(_, _, _, s). length s)") (auto dest: evidenceToken_length)

declare evidenceMembers.simps [simp del]

definition ReadEvidence :: "string \<Rightarrow> Evidence option" where
  "ReadEvidence data =
     (if data = [] \<or> length data > maxEvidenceBytes then None
      else
        (case skip_ws data of
           c # r \<Rightarrow>
             if c \<noteq> CHR ''{'' then None
             else
               (case evidenceMembers True [] \<lparr>Mutation = [], Ownership = []\<rparr> r of
                  None \<Rightarrow> None
                | Some (e, seen, rest) \<Rightarrow>
                    if length seen \<noteq> 3 \<or> skip_ws rest \<noteq> [] \<or> \<not> ValidEvidence e then None else Some e)
         | [] \<Rightarrow> None))"

definition EvidenceFor :: "Verb \<Rightarrow> OperationState \<Rightarrow> Evidence result" where
  "EvidenceFor verb state =
     (if verb \<noteq> Apply \<and> verb \<noteq> Destroy then Inl (stateError ''lifecycle verb is not recognized'')
      else if \<not> ValidOperationState state then Inl (stateError ''lifecycle operation state is not recognized'')
      else if verb = Destroy \<and> state = OperationDone then Inr PristineEvidence
      else if state = OperationDone then Inr \<lparr>Mutation = MutationApplied, Ownership = OwnershipRetained\<rparr>
      else if state = OperationFailed then Inr \<lparr>Mutation = MutationFailed, Ownership = OwnershipRetained\<rparr>
      else if state = OperationUnknown then Inr \<lparr>Mutation = MutationUnknown, Ownership = OwnershipRetained\<rparr>
      else Inr \<lparr>Mutation = MutationPending, Ownership = OwnershipRetained\<rparr>)"

subsection \<open>The operation's state\<close>

lemma countStates_spec:
  "countStates ss n u f =
     (if list_all ValidBlockState ss
      then Inr (n + count_list ss BlockDone, u \<or> BlockUnknown \<in> set ss, f \<or> BlockFailed \<in> set ss)
      else Inl (stateError ''lifecycle block state is not recognized''))"
  by (induction ss arbitrary: n u f) auto

lemma count_list_all: "count_list xs x = length xs \<longleftrightarrow> (\<forall>y\<in>set xs. y = x)"
proof (induction xs)
  case Nil
  then show ?case by simp
next
  case (Cons y ys)
  have "count_list ys x \<le> length ys" by (rule count_le_length)
  with Cons show ?case by auto
qed

lemma NextOperationState_spec:
  "NextOperationState ss b =
     (if \<not> list_all ValidBlockState ss then Inl (stateError ''lifecycle block state is not recognized'')
      else if BlockUnknown \<in> set ss then Inr OperationUnknown
      else if BlockFailed \<in> set ss then Inr OperationFailed
      else if \<forall>s\<in>set ss. s = BlockDone then Inr OperationDone
      else if b then Inr OperationPaused else Inr OperationRunning)"
  by (simp add: NextOperationState_def countStates_spec count_list_all)

lemma skip_ws_simps [simp]:
  "skip_ws [] = []"
  "is_ws c \<Longrightarrow> skip_ws (c # r) = skip_ws r"
  by (simp_all add: skip_ws_def)

lemma NextOperationState_mset:
  "mset xs = mset ys \<Longrightarrow> NextOperationState xs b = NextOperationState ys b"
  using mset_eq_setD [of xs ys] by (simp add: NextOperationState_spec list_all_iff)

subsection \<open>Evidence is read back\<close>

definition plain_char :: "char \<Rightarrow> bool" where
  "plain_char c \<longleftrightarrow> 32 \<le> byte_of c \<and> byte_of c < 128 \<and> c \<noteq> quote_char \<and> c \<noteq> backslash"

lemma p_chars_word: "list_all plain_char w \<Longrightarrow> p_chars (w @ quote_char # r) = Some (w, r)"
  by (induction w) (auto simp: plain_char_def p_chars_plain)

lemma parse_value_Suc: "parse_value s = p_value (Suc (2 * length s + 1)) 0 s"
  by (simp add: parse_value_def)

lemma parse_quoted: "list_all plain_char w \<Longrightarrow> parse_value (quoted w @ r) = Some (JStr w, r)"
  unfolding parse_value_Suc by (simp add: p_value.simps quoted_def p_chars_word)

lemma parse_number:
  assumes "p_number s = Some (s, [])" and "num_stop r"
  shows "parse_value (s @ r) = Some (JNum s, r)"
  unfolding parse_value_Suc by (rule p_value_number [OF assms])

lemma evidenceMembers_step:
  assumes s: "s = (if first then [] else '','') @ quoted key @ '':'' @ t"
    and key: "list_all plain_char key" "key \<notin> set seen"
    and v: "parse_value t = Some (v, r)" "evidenceMember key v e = Some e'"
  shows "evidenceMembers first seen e s = evidenceMembers False (key # seen) e' r"
proof -
  have "evidenceToken first seen e s = Some (key, e', r)"
    using s key v by (simp add: evidenceToken_def memberStart_def quoted_def p_chars_word)
  moreover have "skip_ws s = s" "hd s = (if first then quote_char else CHR '','')" "s \<noteq> []"
    using s by (auto simp: quoted_def)
  ultimately show ?thesis
    by (subst evidenceMembers.simps) (cases first; auto split: list.splits)
qed

lemma evidenceMembers_end: "evidenceMembers first seen e (CHR ''}'' # r) = Some (e, seen, r)"
  by (subst evidenceMembers.simps) simp

lemma plain_words:
  "list_all plain_char ''version''" "list_all plain_char ''operation''" "list_all plain_char ''ownership''"
  "ValidEvidence e \<Longrightarrow> list_all plain_char (Mutation e)" "ValidEvidence e \<Longrightarrow> list_all plain_char (Ownership e)"
  by (auto simp: plain_char_def ValidEvidence_def)

lemma p_number_1: "p_number ''1'' = Some (''1'', [])"
  by code_simp

lemma ReadEvidence_Bytes:
  assumes v: "ValidEvidence e" and b: "EvidenceBytes e = Inr data"
  shows "ReadEvidence data = Some e"
proof -
  let ?fin = "''}'' @ [CHR 0x0A]"
  let ?own = "quoted (Ownership e) @ ?fin"
  let ?op = "quoted (Mutation e) @ '','' @ quoted ''ownership'' @ '':'' @ ?own"
  have data: "data = ''{'' @ quoted ''version'' @ '':'' @ ''1'' @ '','' @ quoted ''operation'' @ '':'' @ ?op"
    using v b by (simp add: EvidenceBytes_def)
  let ?e0 = "\<lparr>Mutation = [], Ownership = []\<rparr>"
  let ?e1 = "\<lparr>Mutation = Mutation e, Ownership = []\<rparr>"
  have "evidenceMembers True [] ?e0 (quoted ''version'' @ '':'' @ ''1'' @ '','' @ quoted ''operation'' @ '':'' @ ?op) =
      evidenceMembers False [''version''] ?e0 ('','' @ quoted ''operation'' @ '':'' @ ?op)"
    using parse_number [OF p_number_1, of "'','' @ quoted ''operation'' @ '':'' @ ?op"]
    by (intro evidenceMembers_step [where v = "JNum ''1''"]) (simp_all add: plain_words evidenceMember_def del: list.pred_inject)
  also have "\<dots> = evidenceMembers False [''operation'', ''version''] ?e1 ('','' @ quoted ''ownership'' @ '':'' @ ?own)"
    using parse_quoted [OF plain_words(4) [OF v]]
    by (intro evidenceMembers_step [where v = "JStr (Mutation e)"]) (simp_all add: plain_words evidenceMember_def del: list.pred_inject)
  also have "\<dots> = evidenceMembers False [''ownership'', ''operation'', ''version''] e ?fin"
    using parse_quoted [OF plain_words(5) [OF v]]
    by (intro evidenceMembers_step [where v = "JStr (Ownership e)"]) (simp_all add: plain_words evidenceMember_def del: list.pred_inject)
  finally have m: "evidenceMembers True [] ?e0 (quoted ''version'' @ '':'' @ ''1'' @ '','' @ quoted ''operation'' @ '':'' @ ?op) =
      Some (e, [''ownership'', ''operation'', ''version''], [CHR 0x0A])"
    by (simp add: evidenceMembers_end)
  have "length (Mutation e) \<le> 7" "length (Ownership e) \<le> 8"
    using v by (auto simp: ValidEvidence_def)
  then have len: "length data \<le> maxEvidenceBytes" by (simp add: data quoted_def)
  have ws: "skip_ws [CHR 0x0A] = []" by (simp add: skip_ws_def is_ws_def)
  show ?thesis
    using m len v ws by (simp add: ReadEvidence_def data)
qed

lemma ReadEvidence_valid: "ReadEvidence data = Some e \<Longrightarrow> ValidEvidence e"
  by (auto simp: ReadEvidence_def split: if_splits list.splits option.splits)

end
