(* ===== verification/Identity.thy ===== *)
theory Identity
  imports States Sha256
begin

section \<open>Identities\<close>

text \<open>
  \<open>internal/reconciliation/identity.go\<close> and the segment and digest tests of \<open>plan.go\<close>: block
  identities and how a long one is shortened, the allocation of operation and run identities
  from entropy, and the fixed-width numbering of attempts.

  Entropy is a capability of the operating system: a function from the state of the world and
  the number of bytes asked for to the bytes it wrote, whether it failed, and the next state.
  The set of taken identities is the caller's. Both may be missing (a nil function).
\<close>

abbreviation MaxAttempt :: int where "MaxAttempt \<equiv> 999999"
abbreviation operationIDPrefix :: string where "operationIDPrefix \<equiv> ''op-''"
abbreviation runIDPrefix :: string where "runIDPrefix \<equiv> ''run-''"
abbreviation allocationAttempts :: nat where "allocationAttempts \<equiv> 16"
abbreviation operationEntropy :: nat where "operationEntropy \<equiv> 16"
abbreviation numberDigits :: nat where "numberDigits \<equiv> 6"
abbreviation minAttemptOrRestart :: int where "minAttemptOrRestart \<equiv> 1"
abbreviation MaxBlockPrefix :: nat where "MaxBlockPrefix \<equiv> 46"
abbreviation blockHashDigits :: nat where "blockHashDigits \<equiv> 16"
abbreviation maxIdentifier :: nat where "maxIdentifier \<equiv> 63"

definition alphanumeric :: "char \<Rightarrow> bool" where
  "alphanumeric c \<longleftrightarrow> (97 \<le> byte_of c \<and> byte_of c \<le> 122) \<or> (48 \<le> byte_of c \<and> byte_of c \<le> 57)"

text \<open>
  Go ranges over the runes of the string; a rune of several bytes is neither alphanumeric nor
  a hyphen, and neither is any of its bytes, so the test on bytes agrees with it.
\<close>

definition ValidSegment :: "string \<Rightarrow> bool" where
  "ValidSegment v \<longleftrightarrow>
     v \<noteq> [] \<and> length v \<le> maxIdentifier \<and>
     (\<forall>i<length v. alphanumeric (v ! i) \<or> (v ! i = CHR ''-'' \<and> i \<noteq> 0 \<and> i \<noteq> length v - 1))"

definition validDigest :: "string \<Rightarrow> bool" where
  "validDigest v =
     (if length v \<noteq> 64 then False
      else (case hex_decode v of None \<Rightarrow> False | Some bs \<Rightarrow> hex_encode bs = v))"

definition BlockIdentity :: "string \<Rightarrow> string \<Rightarrow> string" where
  "BlockIdentity prefix tail =
     (let identity = prefix @ tail in
      if length identity \<le> maxIdentifier then identity
      else
        (let token = take blockHashDigits (sha256_hex identity);
             head = trim_right (CHR ''-'') (take (maxIdentifier - blockHashDigits - 1) identity)
         in if head \<noteq> [] then head @ ''-'' @ token else token))"

subsection \<open>Allocation\<close>

type_synonym 'w Entropy = "'w \<Rightarrow> nat \<Rightarrow> string \<times> bool \<times> 'w"

text \<open>The bytes still missing are asked for until none is; a read of no byte is a failure.\<close>

function readFull :: "'w Entropy \<Rightarrow> nat \<Rightarrow> 'w \<Rightarrow> string result \<times> 'w" where
  "readFull entropy missing w =
     (if missing = 0 then (Inr [], w)
      else
        (case entropy w missing of (bs, failed, w') \<Rightarrow>
           if bs = [] \<or> failed then (Inl (stateError ''entropy source returned no bytes''), w')
           else
             (case readFull entropy (missing - length bs) w' of
                (Inl e, w'') \<Rightarrow> (Inl e, w'')
              | (Inr got, w'') \<Rightarrow> (Inr (take missing bs @ got), w''))))"
  by pat_completeness auto
termination
  by (relation "measure (\<lambda>(_, missing, _). missing)") auto

declare readFull.simps [simp del]

fun allocateLoop :: "nat \<Rightarrow> string \<Rightarrow> 'w Entropy \<Rightarrow> (string \<Rightarrow> bool) \<Rightarrow> 'w \<Rightarrow> string result \<times> 'w" where
  "allocateLoop 0 prefix entropy taken w =
     (Inl (stateError ''operation identity allocation exhausted its collision attempts''), w)"
| "allocateLoop (Suc n) prefix entropy taken w =
     (case readFull entropy operationEntropy w of
        (Inl e, w') \<Rightarrow> (Inl (stateError ''operation identity requires operating-system entropy''), w')
      | (Inr buffer, w') \<Rightarrow>
          (let candidate = prefix @ hex_encode buffer in
           if \<not> taken candidate then (Inr candidate, w')
           else allocateLoop n prefix entropy taken w'))"

definition allocateIdentity ::
    "string \<Rightarrow> 'w Entropy option \<Rightarrow> (string \<Rightarrow> bool) option \<Rightarrow> 'w \<Rightarrow> string result \<times> 'w" where
  "allocateIdentity prefix entropy taken w =
     (case (entropy, taken) of
        (Some e, Some t) \<Rightarrow> allocateLoop allocationAttempts prefix e t w
      | _ \<Rightarrow> (Inl (stateError ''operation identity allocation is not configured''), w))"

definition AllocateOperationID ::
    "'w Entropy option \<Rightarrow> (string \<Rightarrow> bool) option \<Rightarrow> 'w \<Rightarrow> string result \<times> 'w" where
  "AllocateOperationID entropy taken w = allocateIdentity operationIDPrefix entropy taken w"

definition AllocateRunID ::
    "'w Entropy option \<Rightarrow> (string \<Rightarrow> bool) option \<Rightarrow> 'w \<Rightarrow> string result \<times> 'w" where
  "AllocateRunID entropy taken w = allocateIdentity runIDPrefix entropy taken w"

definition validIdentity :: "string \<Rightarrow> string \<Rightarrow> bool" where
  "validIdentity prefix v =
     (if \<not> has_prefix v prefix \<or> length v \<noteq> length prefix + 2 * operationEntropy then False
      else (case hex_decode (drop (length prefix) v) of
              None \<Rightarrow> False
            | Some bs \<Rightarrow> hex_encode bs = drop (length prefix) v))"

definition ValidOperationID :: "string \<Rightarrow> bool" where
  "ValidOperationID v = validIdentity operationIDPrefix v"

definition ValidRunID :: "string \<Rightarrow> bool" where
  "ValidRunID v = validIdentity runIDPrefix v"

subsection \<open>Numbers\<close>

definition FormatNumber :: "int \<Rightarrow> string result" where
  "FormatNumber v =
     (if v < minAttemptOrRestart \<or> v > MaxAttempt
      then Inl (stateError ''lifecycle attempt or resolution numbering is exhausted'')
      else Inr (decimal_padded numberDigits (nat v)))"

definition ParseNumber :: "string \<Rightarrow> int result" where
  "ParseNumber s =
     (if length s \<noteq> numberDigits then Inl (stateError ''lifecycle attempt or resolution number is malformed'')
      else
        (case atoi s of
           None \<Rightarrow> Inl (stateError ''lifecycle attempt or resolution number is malformed'')
         | Some n \<Rightarrow>
             if n < minAttemptOrRestart \<or> n > MaxAttempt
             then Inl (stateError ''lifecycle attempt or resolution number is malformed'')
             else
               (case FormatNumber n of
                  Inl e \<Rightarrow> Inl (stateError ''lifecycle attempt or resolution number is not canonical'')
                | Inr formatted \<Rightarrow>
                    if formatted \<noteq> s
                    then Inl (stateError ''lifecycle attempt or resolution number is not canonical'')
                    else Inr n)))"

subsection \<open>Digests and identities\<close>

lemma validDigest_iff: "validDigest v \<longleftrightarrow> length v = 64 \<and> list_all lower_hex v"
  using hex_canonical [of v] by (auto simp: validDigest_def split: option.splits)

lemma validDigest_sha256: "validDigest (sha256_hex m)"
  by (simp add: validDigest_iff sha256_hex_lower)

lemma validIdentity_iff:
  "validIdentity prefix v \<longleftrightarrow>
   (\<exists>h. v = prefix @ h \<and> length h = 2 * operationEntropy \<and> list_all lower_hex h)"
proof
  assume v: "validIdentity prefix v"
  then have p: "take (length prefix) v = prefix" and l: "length v = length prefix + 2 * operationEntropy"
    by (auto simp: validIdentity_def has_prefix_def split: if_splits)
  from v have "list_all lower_hex (drop (length prefix) v)"
    using hex_canonical [of "drop (length prefix) v"]
    by (auto simp: validIdentity_def split: if_splits option.splits)
  with p l show "\<exists>h. v = prefix @ h \<and> length h = 2 * operationEntropy \<and> list_all lower_hex h"
    by (intro exI [of _ "drop (length prefix) v"]) (metis append_take_drop_id add_diff_cancel_left' length_drop)
next
  assume "\<exists>h. v = prefix @ h \<and> length h = 2 * operationEntropy \<and> list_all lower_hex h"
  then obtain h where h: "v = prefix @ h" "length h = 2 * operationEntropy" "list_all lower_hex h"
    by blast
  then show "validIdentity prefix v"
    using hex_canonical [of h] by (auto simp: validIdentity_def has_prefix_def)
qed

lemma readFull_length: "readFull entropy missing w = (Inr bs, w') \<Longrightarrow> length bs = missing"
proof (induction entropy missing w arbitrary: bs w' rule: readFull.induct)
  case (1 entropy missing w)
  show ?case
  proof (cases "missing = 0")
    case True
    with "1.prems" show ?thesis by (simp add: readFull.simps)
  next
    case False
    obtain cs failed v where e: "entropy w missing = (cs, failed, v)" by (cases "entropy w missing")
    with "1.prems" False have ok: "\<not> (cs = [] \<or> failed)"
      by (auto simp: readFull.simps [of entropy missing w] split: if_splits)
    with "1.prems" False e obtain got where m: "readFull entropy (missing - length cs) v = (Inr got, w')"
      and bs: "bs = take missing cs @ got"
      by (auto simp: readFull.simps [of entropy missing w] split: prod.splits sum.splits)
    from "1.IH" [OF False e [symmetric] refl ok m] bs show ?thesis by simp
  qed
qed

lemma allocateLoop_sound:
  "allocateLoop n prefix entropy taken w = (Inr i, w') \<Longrightarrow> validIdentity prefix i \<and> \<not> taken i"
proof (induction n arbitrary: w)
  case 0
  then show ?case by simp
next
  case (Suc n)
  from Suc.prems obtain buffer v where b: "readFull entropy operationEntropy w = (Inr buffer, v)"
    by (auto split: prod.splits sum.splits)
  have "length buffer = operationEntropy" using b by (rule readFull_length)
  then have "validIdentity prefix (prefix @ hex_encode buffer)"
    by (auto simp: validIdentity_iff hex_encode_lower)
  with Suc b show ?case by (auto simp: Let_def split: if_splits)
qed

subsection \<open>Shortened block identities\<close>

lemma lower_hex_alphanumeric: "lower_hex c \<Longrightarrow> alphanumeric c"
  by (auto simp: lower_hex_def alphanumeric_def)

lemma length_trim_right: "length (trim_right c s) \<le> length s"
  using length_dropWhile_le [of "\<lambda>x. x = c" "rev s"] by (simp add: trim_right_def)

lemma trim_right_prefix: "\<exists>n. trim_right c s = take n s"
  unfolding trim_right_def by (metis dropWhile_eq_drop rev_drop rev_rev_ident)

lemma BlockIdentity_length: "length (BlockIdentity prefix tail) \<le> maxIdentifier"
proof -
  let ?id = "prefix @ tail"
  have "length (trim_right (CHR ''-'') (take 46 ?id)) \<le> 46"
    by (rule order_trans [OF length_trim_right]) simp
  then show ?thesis by (auto simp: BlockIdentity_def Let_def)
qed

lemma ValidSegment_append:
  assumes h: "\<forall>c\<in>set h. alphanumeric c \<or> c = CHR ''-''" "h \<noteq> []" "alphanumeric (hd h)"
    and t: "t \<noteq> []" "\<forall>c\<in>set t. alphanumeric c" and l: "length h + 1 + length t \<le> maxIdentifier"
  shows "ValidSegment (h @ ''-'' @ t)"
proof -
  let ?v = "h @ ''-'' @ t"
  have "alphanumeric (?v ! i) \<or> (?v ! i = CHR ''-'' \<and> i \<noteq> 0 \<and> i \<noteq> length ?v - 1)"
    if i: "i < length ?v" for i
  proof (cases "i < length h")
    case True
    then have m: "?v ! i \<in> set h" by (simp add: nth_append)
    have "i \<noteq> length ?v - 1" using True t(1) by simp
    moreover have "alphanumeric (?v ! 0)" using h(2,3) by (simp add: nth_append hd_conv_nth)
    ultimately show ?thesis using m h(1) by (cases "i = 0") auto
  next
    case False
    show ?thesis
    proof (cases "i = length h")
      case True
      then show ?thesis using h(2) t(1) by (simp add: nth_append)
    next
      case F: False
      with False i have "?v ! i = t ! (i - length h - 1)" "i - length h - 1 < length t"
        by (auto simp: nth_append)
      with t(2) show ?thesis by (metis nth_mem)
    qed
  qed
  with l show ?thesis by (simp add: ValidSegment_def)
qed

lemma ValidSegment_alphanumeric:
  "t \<noteq> [] \<Longrightarrow> \<forall>c\<in>set t. alphanumeric c \<Longrightarrow> length t \<le> maxIdentifier \<Longrightarrow> ValidSegment t"
  by (auto simp: ValidSegment_def)

lemma hd_trim_right: "trim_right c s \<noteq> [] \<Longrightarrow> hd (trim_right c s) = hd s"
  using trim_right_prefix [of c s] by (metis hd_take not_gr_zero take_0)

lemma BlockIdentity_valid:
  assumes c: "\<forall>c\<in>set (prefix @ tail). alphanumeric c \<or> c = CHR ''-''"
    and first: "alphanumeric (hd (prefix @ tail))" and last: "alphanumeric (last (prefix @ tail))"
    and ne: "prefix @ tail \<noteq> []"
  shows "ValidSegment (BlockIdentity prefix tail)"
proof (cases "length (prefix @ tail) \<le> maxIdentifier")
  case True
  let ?v = "prefix @ tail"
  have "alphanumeric (?v ! i) \<or> (?v ! i = CHR ''-'' \<and> i \<noteq> 0 \<and> i \<noteq> length ?v - 1)" if "i < length ?v" for i
    using that c first last ne by (metis hd_conv_nth last_conv_nth nth_mem)
  with True ne have "ValidSegment ?v" unfolding ValidSegment_def by blast
  with True show ?thesis by (simp add: BlockIdentity_def)
next
  case False
  let ?id = "prefix @ tail"
  let ?token = "take blockHashDigits (sha256_hex ?id)"
  let ?head = "trim_right (CHR ''-'') (take 46 ?id)"
  have tok: "?token \<noteq> []" "\<forall>c\<in>set ?token. alphanumeric c" "length ?token = 16"
    using sha256_hex_lower [of ?id] length_sha256_hex [of ?id]
    by (auto simp: list_all_iff lower_hex_alphanumeric simp del: length_sha256_hex dest: in_set_takeD)
  have "length ?head \<le> 46" by (rule order_trans [OF length_trim_right]) simp
  moreover have "\<forall>c\<in>set ?head. alphanumeric c \<or> c = CHR ''-''"
    using trim_right_prefix [of "CHR ''-''" "take 46 ?id"] c by (metis in_set_takeD)
  moreover have "alphanumeric (hd ?head)" if "?head \<noteq> []"
    using hd_trim_right [OF that] first hd_take [of 46 ?id] by (simp del: take_append)
  ultimately have "ValidSegment (if ?head \<noteq> [] then ?head @ ''-'' @ ?token else ?token)"
    using ValidSegment_append [of ?head ?token] ValidSegment_alphanumeric [of ?token] tok by auto
  moreover have "BlockIdentity prefix tail = (if ?head \<noteq> [] then ?head @ ''-'' @ ?token else ?token)"
    using False by (simp add: BlockIdentity_def Let_def del: take_append)
  ultimately show ?thesis by simp
qed

subsection \<open>Numbers: a canonical encoding\<close>

lemma atoi_padded: "0 < n \<Longrightarrow> n < 10 ^ w \<Longrightarrow> 0 < w \<Longrightarrow> atoi (decimal_padded w n) = Some (int n)"
proof -
  assume n: "0 < n" "n < 10 ^ w" "0 < w"
  have ds: "list_all is_digit (decimal_padded w n)" by (rule decimal_padded_digits)
  have len: "length (decimal_padded w n) = w" using n by (intro length_decimal_padded)
  then obtain c r where s: "decimal_padded w n = c # r" using n(3) by (cases "decimal_padded w n") auto
  with ds have "c \<noteq> CHR ''-''" "c \<noteq> CHR ''+''" by (auto simp: is_digit_def)
  with s ds show ?thesis
    using digits_value_padded [of w n] by (simp add: atoi_def)
qed

lemma ParseNumber_Format:
  assumes "FormatNumber n = Inr s"
  shows "ParseNumber s = Inr n"
proof -
  from assms have r: "1 \<le> n" "n \<le> MaxAttempt" and s: "s = decimal_padded 6 (nat n)"
    by (auto simp: FormatNumber_def split: if_splits)
  then have b: "nat n < 10 ^ 6" by simp
  have "length s = 6" using b unfolding s by (intro length_decimal_padded) simp_all
  moreover have "atoi s = Some n"
    using atoi_padded [of "nat n" 6] b r unfolding s by simp
  ultimately show ?thesis using r s by (simp add: ParseNumber_def FormatNumber_def)
qed

lemma ParseNumber_sound:
  assumes "ParseNumber s = Inr n"
  shows "FormatNumber n = Inr s"
  using assms by (auto simp: ParseNumber_def split: if_splits option.splits sum.splits)

interpretation number_format: canonical_encoding
  "\<lambda>n. projr (FormatNumber n)" "\<lambda>s. case ParseNumber s of Inl e \<Rightarrow> None | Inr n \<Rightarrow> Some n"
  "\<lambda>n. okR (FormatNumber n)"
proof
  fix n
  assume "okR (FormatNumber n)"
  then show "(case ParseNumber (projr (FormatNumber n)) of Inl e \<Rightarrow> None | Inr n \<Rightarrow> Some n) = Some n"
    by (auto simp: okR_iff ParseNumber_Format)
next
  fix s n
  assume "(case ParseNumber s of Inl e \<Rightarrow> None | Inr n \<Rightarrow> Some n) = Some n"
  then have "FormatNumber n = Inr s" by (auto split: sum.splits intro: ParseNumber_sound)
  then show "okR (FormatNumber n) \<and> projr (FormatNumber n) = s" by simp
qed

end
