(* ===== verification/Plan.thy ===== *)
theory Plan
  imports Identity
begin

section \<open>The frozen plan: data, validation and ordering\<close>

text \<open>
  \<open>internal/reconciliation/plan.go\<close>, definitions only; the theorems are in \<open>Waves\<close> (the graph
  measurement) and \<open>Planning\<close> (what a constructed plan guarantees).

  A Go map is iterated in an order the language leaves open. \<open>waves\<close> ranges over its map of
  known blocks, so the model takes the order as an argument: \<open>NewPlanOrdered\<close> is given a
  function \<open>rng\<close> that picks the order in which the keys of that map are visited, and
  \<open>NewPlan\<close> is the instance that visits them in the order of the definitions.
  \<open>Planning.NewPlanOrdered_rng\<close> shows that the order never matters.

  The loop of \<open>waves\<close> and the walk of \<open>cycleOf\<close> take one unit of fuel for each turn, as many
  as there are blocks (one more for the walk); \<open>Waves.waves_ok\<close> and \<open>Waves.waves_cycle\<close>
  show that both end before the fuel does.
\<close>

abbreviation MaxBlocks :: nat where "MaxBlocks \<equiv> 256"
abbreviation MaxGroups :: nat where "MaxGroups \<equiv> 32"
abbreviation MaxMachines :: nat where "MaxMachines \<equiv> 512"
abbreviation MaxImpacts :: nat where "MaxImpacts \<equiv> 128"
abbreviation MaxExclusive :: nat where "MaxExclusive \<equiv> 8"
abbreviation MaxRequestBytes :: nat where "MaxRequestBytes \<equiv> 262144"
abbreviation MaxPlanRequestBytes :: nat where "MaxPlanRequestBytes \<equiv> 4194304"
abbreviation maxDescription :: nat where "maxDescription \<equiv> 200"

type_synonym Stage = string

abbreviation StageController :: Stage where "StageController \<equiv> ''controller''"
abbreviation StageInfrastructureServices :: Stage where
  "StageInfrastructureServices \<equiv> ''infrastructure-services''"
abbreviation StageSubstrates :: Stage where "StageSubstrates \<equiv> ''substrates''"
abbreviation StageMachines :: Stage where "StageMachines \<equiv> ''machines''"
abbreviation StageClusters :: Stage where "StageClusters \<equiv> ''clusters''"
abbreviation StageAddOns :: Stage where "StageAddOns \<equiv> ''add-ons''"

definition Stages :: "Stage list" where
  "Stages = [StageController, StageInfrastructureServices, StageSubstrates, StageMachines,
             StageClusters, StageAddOns]"

definition ValidStage :: "Stage \<Rightarrow> bool" where
  "ValidStage v \<longleftrightarrow> v \<in> set Stages"

record Group =
  GroupID :: string
  GroupDescription :: string
  Machines :: "string slice"

record ObjectRef =
  RefKind :: string
  RefObject :: string
  RefFamily :: string

record BlockDefinition =
  ID :: string
  Description :: string
  BlockStage :: Stage
  Requires :: "ObjectRef list"
  Dependencies :: "string slice"
  Prerequisites :: "string slice"
  Family :: string
  Exclusive :: "string slice"
  Throttle :: string
  Impacts :: "string slice"
  Consumes :: "string slice"
  Groups :: "Group slice"
  Kind :: string
  Object :: string
  Implementation :: string
  ContentDigest :: string
  Request :: string

record Block =
  Def :: BlockDefinition
  RequestDigest :: string

record Plan =
  PlanVerb :: Verb
  Blocks :: "Block slice"

abbreviation blocks :: "Plan \<Rightarrow> Block list" where
  "blocks p \<equiv> elems (Blocks p)"

abbreviation blockID :: "Block \<Rightarrow> string" where
  "blockID b \<equiv> ID (Def b)"

abbreviation dependencies :: "Block \<Rightarrow> string list" where
  "dependencies b \<equiv> elems (Dependencies (Def b))"

subsection \<open>Encoding and digests\<close>

text \<open>\<open>json.Marshal\<close> of a struct: its members in order, those omitted when empty left out.\<close>

definition enc_object :: "(string \<times> string) list \<Rightarrow> string" where
  "enc_object fs = ''{'' @ join '','' (map (\<lambda>(k, v). enc_string k @ '':'' @ v) fs) @ ''}''"

definition enc_array :: "string slice \<Rightarrow> string" where
  "enc_array s = (case s of None \<Rightarrow> ''null'' | Some vs \<Rightarrow> ''['' @ join '','' vs @ '']'')"

definition enc_strings :: "string slice \<Rightarrow> string" where
  "enc_strings s = enc_array (map_option (map enc_string) s)"

definition omit_empty :: "bool \<Rightarrow> string \<times> string \<Rightarrow> (string \<times> string) list" where
  "omit_empty present f = (if present then [f] else [])"

text \<open>
  \<open>json.Marshal\<close> of a \<open>RawMessage\<close>: the text without the white space outside its strings and
  with the characters of HTML escaped, provided it is one JSON value. An empty request stands
  for the nil message, which encodes as null.
\<close>

definition is_html :: "char \<Rightarrow> bool" where
  "is_html c \<longleftrightarrow> c = CHR ''<'' \<or> c = CHR ''>'' \<or> c = CHR ''&''"

definition html_escape :: "char \<Rightarrow> string" where
  "html_escape c = [backslash, CHR ''u'', CHR ''0'', CHR ''0''] @ hex_low4 (byte_of c)"

text \<open>Whether the scanner is inside a string, and after a backslash in it, once it read a byte.\<close>

definition scan_quoted :: "bool \<Rightarrow> bool \<Rightarrow> char \<Rightarrow> bool" where
  "scan_quoted q e c = (if \<not> e \<and> c = quote_char then \<not> q else q)"

definition scan_escaped :: "bool \<Rightarrow> bool \<Rightarrow> char \<Rightarrow> bool" where
  "scan_escaped q e c \<longleftrightarrow> \<not> e \<and> q \<and> c = backslash"

fun compact_text :: "bool \<Rightarrow> bool \<Rightarrow> string \<Rightarrow> string" where
  "compact_text q e [] = []"
| "compact_text q e (c # r) =
     (if \<not> q \<and> is_ws c then compact_text q e r
      else if is_html c then html_escape c @ compact_text (scan_quoted q e c) (scan_escaped q e c) r
      else if is_line_separator (take 3 (c # r)) then
        [backslash] @ (if (c # r) ! 2 = CHR 0xA8 then ''u2028'' else ''u2029'')
          @ compact_text (scan_quoted q e c) (scan_escaped q e c) (drop 2 r)
      else c # compact_text (scan_quoted q e c) (scan_escaped q e c) r)"

definition marshal_raw :: "string \<Rightarrow> string option" where
  "marshal_raw s =
     (if s = [] then Some ''null''
      else (case parse_value s of
              Some (v, rest) \<Rightarrow> if trailing rest then None else Some (compact_text False False s)
            | None \<Rightarrow> None))"

definition enc_group :: "Group \<Rightarrow> string" where
  "enc_group g = enc_object
     [(''id'', enc_string (GroupID g)), (''description'', enc_string (GroupDescription g)),
      (''machines'', enc_strings (Machines g))]"

definition enc_definition_fields :: "BlockDefinition \<Rightarrow> string \<Rightarrow> (string \<times> string) list" where
  "enc_definition_fields d request =
     [(''id'', enc_string (ID d)), (''description'', enc_string (Description d)),
      (''stage'', enc_string (BlockStage d)), (''dependencies'', enc_strings (Dependencies d))]
     @ omit_empty (elems (Prerequisites d) \<noteq> []) (''prerequisites'', enc_strings (Prerequisites d))
     @ omit_empty (elems (Exclusive d) \<noteq> []) (''exclusive'', enc_strings (Exclusive d))
     @ omit_empty (Throttle d \<noteq> []) (''throttle'', enc_string (Throttle d))
     @ [(''impacts'', enc_strings (Impacts d)), (''consumes'', enc_strings (Consumes d)),
        (''groups'', enc_array (map_option (map enc_group) (Groups d))),
        (''kind'', enc_string (Kind d)), (''object'', enc_string (Object d)),
        (''implementation'', enc_string (Implementation d)),
        (''contentDigest'', enc_string (ContentDigest d)), (''request'', request)]"

definition enc_block :: "Block \<Rightarrow> string option" where
  "enc_block b =
     map_option (\<lambda>request. enc_object
       (enc_definition_fields (Def b) request @ [(''requestDigest'', enc_string (RequestDigest b))]))
       (marshal_raw (Request (Def b)))"

fun enc_blocks :: "Block list \<Rightarrow> string list option" where
  "enc_blocks [] = Some []"
| "enc_blocks (b # bs) =
     (case (enc_block b, enc_blocks bs) of (Some x, Some xs) \<Rightarrow> Some (x # xs) | _ \<Rightarrow> None)"

definition enc_block_slice :: "Block slice \<Rightarrow> string option" where
  "enc_block_slice s = (case s of None \<Rightarrow> Some (enc_array None)
     | Some bs \<Rightarrow> map_option (\<lambda>xs. enc_array (Some xs)) (enc_blocks bs))"

definition Digest :: "Plan \<Rightarrow> string result" where
  "Digest p =
     (case enc_block_slice (Blocks p) of
        None \<Rightarrow> Inl (planError ''lifecycle plan cannot be canonically represented'')
      | Some bs \<Rightarrow> Inr (sha256_hex (enc_object
          [(''domain'', enc_string ''bootwright.reconciliation.plan-v1''),
           (''verb'', enc_string (PlanVerb p)), (''blocks'', bs)])))"

text \<open>A request is rejected unless its bytes have exactly one meaning.\<close>

definition canonicalRequest :: "string \<Rightarrow> Failure option" where
  "canonicalRequest request =
     (if request = [] \<or> length request > MaxRequestBytes \<or> hd request \<noteq> CHR ''{''
      then Some (planError ''lifecycle block request must be a bounded JSON object'')
      else (case proveObject request of
              None \<Rightarrow> None
            | Some ErrMalformed \<Rightarrow> Some (planError ''lifecycle block request is malformed'')
            | Some ErrTrailing \<Rightarrow> Some (planError ''lifecycle block request contains trailing data'')
            | Some _ \<Rightarrow> Some (planError ''lifecycle block request is not canonical'')))"

definition requestDigest :: "BlockDefinition \<Rightarrow> string result" where
  "requestDigest d =
     guardR (canonicalRequest (Request d))
       (case marshal_raw (Request d) of
          None \<Rightarrow> Inl (planError ''lifecycle block request cannot be canonically represented'')
        | Some request \<Rightarrow> Inr (sha256_hex (enc_object
            [(''domain'', enc_string ''bootwright.reconciliation.request-v1''),
             (''kind'', enc_string (Kind d)), (''object'', enc_string (Object d)),
             (''implementation'', enc_string (Implementation d)),
             (''contentDigest'', enc_string (ContentDigest d)), (''request'', request)])))"

subsection \<open>Validation\<close>

definition safeDescription :: "string \<Rightarrow> bool" where
  "safeDescription v \<longleftrightarrow>
     v \<noteq> [] \<and> length v \<le> maxDescription \<and> utf8_valid v \<and>
     list_all (\<lambda>c. \<not> (byte_of c < 32 \<or> byte_of c = 127)) v"

definition unique :: "string list \<Rightarrow> bool" where
  "unique vs = distinct vs"

definition uniqueSorted :: "string list \<Rightarrow> bool" where
  "uniqueSorted vs \<longleftrightarrow> sorted vs \<and> unique vs"

definition validateGroup :: "Group \<Rightarrow> Failure option" where
  "validateGroup g =
     (if \<not> ValidSegment (GroupID g) \<or> \<not> safeDescription (GroupDescription g)
      then Some (planError ''lifecycle group requires a safe identity and description'')
      else if elems (Machines g) = [] \<or> length (elems (Machines g)) > MaxMachines
           \<or> \<not> uniqueSorted (elems (Machines g))
      then Some (planError ''lifecycle group requires a bounded unique ordered Machine set'')
      else None)"

text \<open>The checks of \<open>validateDefinition\<close>, in the source's order; the first that fails refuses.\<close>

definition definitionChecks :: "BlockDefinition \<Rightarrow> (bool \<times> string) list" where
  "definitionChecks d =
     [(ValidSegment (ID d), ''lifecycle block identity is not a safe segment''),
      (safeDescription (Description d), ''lifecycle block requires a safe single-line description''),
      (ValidStage (BlockStage d), ''lifecycle block requires a recognized stage''),
      (Kind d \<noteq> [] \<and> Object d \<noteq> [] \<and> Implementation d \<noteq> [],
       ''lifecycle block requires its kind, object and implementation identity''),
      (validDigest (ContentDigest d), ''lifecycle block requires its implementation content digest''),
      (length (elems (Dependencies d)) \<le> MaxBlocks, ''lifecycle block exceeds its dependency limit''),
      (length (elems (Impacts d)) \<le> MaxImpacts, ''lifecycle block exceeds its impact limit''),
      (length (elems (Groups d)) \<le> MaxGroups, ''lifecycle block exceeds its group limit''),
      (length (elems (Exclusive d)) \<le> MaxExclusive \<and> uniqueSorted (elems (Exclusive d)),
       ''lifecycle block exclusive resources must be bounded, unique and ordered''),
      (list_all safeDescription (elems (Exclusive d)),
       ''lifecycle block exclusive resources must be safe single-line text''),
      (Throttle d = [] \<or> safeDescription (Throttle d),
       ''lifecycle block throttle must be safe single-line text''),
      (ID d \<notin> set (elems (Dependencies d)), ''lifecycle block cannot depend on itself''),
      (uniqueSorted (elems (Dependencies d)), ''lifecycle block dependencies must be unique and ordered''),
      (length (elems (Prerequisites d)) \<le> MaxBlocks \<and> uniqueSorted (elems (Prerequisites d)),
       ''lifecycle block prerequisites must be bounded, unique and ordered''),
      (list_all ValidSegment (elems (Prerequisites d)),
       ''lifecycle block prerequisite is not a safe segment''),
      (uniqueSorted (elems (Consumes d)), ''lifecycle block authorizations must be unique and ordered''),
      (list_all ValidAuthorization (elems (Consumes d)),
       ''lifecycle block consumes an unrecognized authorization''),
      (list_all safeDescription (elems (Impacts d)),
       ''lifecycle block impacts must be safe single-line text'')]"

definition validateDefinition :: "BlockDefinition \<Rightarrow> Failure option" where
  "validateDefinition d =
     (case firstError (\<lambda>(ok, message). if ok then None else Some (planError message)) (definitionChecks d) of
        Some e \<Rightarrow> Some e
      | None \<Rightarrow>
          (case firstError validateGroup (elems (Groups d)) of
             Some e \<Rightarrow> Some e
           | None \<Rightarrow>
               if \<not> unique (map GroupID (elems (Groups d)))
               then Some (planError ''lifecycle group identities must be unique within their block'')
               else canonicalRequest (Request d)))"

subsection \<open>Copies\<close>

text \<open>
  The model's values are not shared, so a clone is the value itself, with the requirements and
  the family a frozen block does not carry cleared.
\<close>

definition clone :: "BlockDefinition \<Rightarrow> BlockDefinition" where
  "clone d = d\<lparr>Requires := [], Family := []\<rparr>"

definition cloneBlock :: "Block \<Rightarrow> Block" where
  "cloneBlock b = b\<lparr>Def := clone (Def b)\<rparr>"

definition orEmpty :: "'a slice \<Rightarrow> 'a slice" where
  "orEmpty s = (case s of None \<Rightarrow> Some [] | Some xs \<Rightarrow> Some xs)"

definition deliberate :: "BlockDefinition \<Rightarrow> BlockDefinition" where
  "deliberate d =
     d\<lparr>Dependencies := orEmpty (Dependencies d),
       Prerequisites := (if elems (Prerequisites d) = [] then None else Prerequisites d),
       Impacts := orEmpty (Impacts d),
       Consumes := orEmpty (Consumes d),
       Groups := orEmpty (Groups d)\<rparr>"

subsection \<open>Requirements\<close>

text \<open>The appends that build the map from an API object to the blocks that realize it.\<close>

definition realizations :: "BlockDefinition list \<Rightarrow> (ObjectRef \<times> string) list" where
  "realizations ds = concat (map (\<lambda>d.
     (\<lparr>RefKind = Kind d, RefObject = Object d, RefFamily = []\<rparr>, ID d)
     # (if Family d \<noteq> []
        then [(\<lparr>RefKind = Kind d, RefObject = Object d, RefFamily = Family d\<rparr>, ID d)] else [])) ds)"

definition realized :: "(ObjectRef \<times> string) list \<Rightarrow> ObjectRef \<Rightarrow> string list" where
  "realized rs r = map snd (filter (\<lambda>(ref, i). ref = r) rs)"

definition unrealized :: "ObjectRef \<Rightarrow> Failure" where
  "unrealized r =
     planError (''lifecycle block requires '' @ RefKind r @ ''/'' @ RefObject r
       @ (if RefFamily r \<noteq> [] then '' from its '' @ RefFamily r @ '' family'' else [])
       @ '', which no block in this plan realizes'')"

fun addDependencies :: "string \<Rightarrow> string list \<Rightarrow> string slice \<Rightarrow> string slice" where
  "addDependencies own [] deps = deps"
| "addDependencies own (i # is) deps =
     addDependencies own is
       (if i \<noteq> own \<and> i \<notin> set (elems deps) then appendS deps [i] else deps)"

fun resolveLoop :: "(ObjectRef \<times> string) list \<Rightarrow> string \<Rightarrow> ObjectRef list \<Rightarrow> string slice \<Rightarrow> string slice result" where
  "resolveLoop rs own [] deps = Inr deps"
| "resolveLoop rs own (r # reqs) deps =
     (if realized rs r = [] then Inl (unrealized r)
      else resolveLoop rs own reqs (addDependencies own (realized rs r) deps))"

definition resolveOne :: "(ObjectRef \<times> string) list \<Rightarrow> BlockDefinition \<Rightarrow> BlockDefinition result" where
  "resolveOne rs d =
     bindR (resolveLoop rs (ID d) (Requires d) (Dependencies d)) (\<lambda>deps.
       Inr (d\<lparr>Dependencies := compactS (sortS deps), Requires := [], Family := []\<rparr>))"

definition resolveRequirements :: "BlockDefinition list \<Rightarrow> BlockDefinition list result" where
  "resolveRequirements ds = mapR (resolveOne (realizations ds)) ds"

definition checkPrerequisites :: "Verb \<Rightarrow> BlockDefinition list \<Rightarrow> Failure option" where
  "checkPrerequisites verb ds =
     firstError (\<lambda>d.
       if elems (Prerequisites d) \<noteq> [] \<and> verb \<noteq> Apply
       then Some (planError ''only an apply plan carries prerequisites'')
       else if list_ex (\<lambda>p. p \<in> set (map ID ds)) (elems (Prerequisites d))
       then Some (planError ''lifecycle block prerequisite is a block of its own plan'')
       else None) ds"

subsection \<open>Waves\<close>

record WaveState =
  remaining :: "string \<Rightarrow> int"
  dependents :: "string \<Rightarrow> string list"
  depth :: "string \<Rightarrow> nat"
  ready :: "string list"
  measured :: nat

definition waveStart :: WaveState where
  "waveStart = \<lparr>remaining = (\<lambda>_. 0), dependents = (\<lambda>_. []), depth = (\<lambda>_. 0), ready = [], measured = 0\<rparr>"

definition knownDeps :: "(string \<rightharpoonup> BlockDefinition) \<Rightarrow> string \<Rightarrow> string list" where
  "knownDeps known i = (case known i of None \<Rightarrow> [] | Some d \<Rightarrow> elems (Dependencies d))"

text \<open>The loop over the dependencies of one block, and the loop over the known blocks.\<close>

fun noteDependencies :: "(string \<rightharpoonup> BlockDefinition) \<Rightarrow> string \<Rightarrow> string list \<Rightarrow> WaveState \<Rightarrow> WaveState result" where
  "noteDependencies known i [] w = Inr w"
| "noteDependencies known i (d # ds) w =
     (if known d = None
      then Inl (planError ''lifecycle block depends on a block the plan does not contain'')
      else noteDependencies known i ds
        (w\<lparr>dependents := (dependents w)(d := dependents w d @ [i])\<rparr>))"

fun noteBlocks :: "(string \<rightharpoonup> BlockDefinition) \<Rightarrow> string list \<Rightarrow> WaveState \<Rightarrow> WaveState result" where
  "noteBlocks known [] w = Inr w"
| "noteBlocks known (i # is) w =
     bindR (noteDependencies known i (knownDeps known i) (w\<lparr>depth := (depth w)(i := 0)\<rparr>)) (\<lambda>w'.
       noteBlocks known is
         (w'\<lparr>remaining := (remaining w')(i := int (length (knownDeps known i))),
             ready := (if knownDeps known i = [] then ready w' @ [i] else ready w')\<rparr>))"

text \<open>What measuring one block does to one of its dependents.\<close>

definition settleDependent :: "string \<Rightarrow> string \<Rightarrow> WaveState \<Rightarrow> WaveState" where
  "settleDependent i j w =
     (let left = remaining w j - 1 in
      w\<lparr>depth := (depth w)(j := max (depth w j) (depth w i + 1)),
        remaining := (remaining w)(j := left),
        ready := (if left = 0 then ready w @ [j] else ready w)\<rparr>)"

fun measureLoop :: "nat \<Rightarrow> WaveState \<Rightarrow> WaveState" where
  "measureLoop 0 w = w"
| "measureLoop (Suc n) w =
     (case ready w of
        [] \<Rightarrow> w
      | i # r \<Rightarrow>
          measureLoop n (fold (settleDependent i) (dependents w i)
            (w\<lparr>ready := r, measured := Suc (measured w)\<rparr>)))"

text \<open>
  The walk that names a cycle. \<open>None\<close> is the panic of indexing a list at -1 or of walking out
  of fuel; \<open>Waves.cycle_walk\<close> shows that it does not happen.
\<close>

fun cycleWalk :: "nat \<Rightarrow> (string \<rightharpoonup> BlockDefinition) \<Rightarrow> (string \<Rightarrow> int) \<Rightarrow> string list \<Rightarrow> string \<Rightarrow> string list option" where
  "cycleWalk fuel known rem path i =
     (case indexFunc ((=) i) path of
        Some k \<Rightarrow> Some (drop k path @ [i])
      | None \<Rightarrow>
          (case fuel of
             0 \<Rightarrow> None
           | Suc n \<Rightarrow>
               (case List.find (\<lambda>d. rem d > 0) (sort (knownDeps known i)) of
                  None \<Rightarrow> Some (path @ [i])
                | Some d \<Rightarrow> cycleWalk n known rem (path @ [i]) d)))"

definition cycleOf :: "string list \<Rightarrow> (string \<rightharpoonup> BlockDefinition) \<Rightarrow> (string \<Rightarrow> int) \<Rightarrow> string list option" where
  "cycleOf ids known rem =
     (case List.find (\<lambda>i. rem i > 0) (sort ids) of
        None \<Rightarrow> None
      | Some i \<Rightarrow> cycleWalk (Suc (length ids)) known rem [] i)"

definition cycleFailure :: "string list \<Rightarrow> Failure" where
  "cycleFailure c =
     NewFailureWithRemediation ''lifecycle.state''
       (''lifecycle plan dependencies form a cycle: '' @ join '' -> '' c) []
       ''remove one of the references that order these blocks after one another''"

definition waves :: "string list \<Rightarrow> (string \<rightharpoonup> BlockDefinition) \<Rightarrow> (string \<Rightarrow> nat) result" where
  "waves ids known =
     bindR (noteBlocks known ids waveStart) (\<lambda>w0.
       let w = measureLoop (length ids) w0 in
       if measured w \<noteq> length ids
       then Inl (cycleFailure (case cycleOf ids known (remaining w) of None \<Rightarrow> [] | Some c \<Rightarrow> c))
       else Inr (depth w))"

subsection \<open>Order\<close>

definition bothName :: "BlockDefinition \<Rightarrow> BlockDefinition \<Rightarrow> Failure" where
  "bothName earlier d =
     NewFailureWithRemediation ''lifecycle.state''
       (Kind earlier @ '' '' @ Object earlier @ '' and '' @ Kind d @ '' '' @ Object d
         @ '' both name the block '' @ ID d) []
       ''rename one of the two objects so their block identities differ''"

fun knownBlocks :: "(string \<rightharpoonup> BlockDefinition) \<Rightarrow> BlockDefinition list \<Rightarrow> (string \<rightharpoonup> BlockDefinition) result" where
  "knownBlocks known [] = Inr known"
| "knownBlocks known (d # ds) =
     guardR (validateDefinition d)
       (case known (ID d) of
          Some earlier \<Rightarrow>
            if Kind earlier = Kind d \<and> Object earlier = Object d
            then Inl (planError ''lifecycle plan repeats a block identity'')
            else Inl (bothName earlier d)
        | None \<Rightarrow> knownBlocks (known(ID d \<mapsto> d)) ds)"

definition orderBlocks :: "(string list \<Rightarrow> string list) \<Rightarrow> BlockDefinition list \<Rightarrow> BlockDefinition list result" where
  "orderBlocks rng ds =
     bindR (knownBlocks Map.empty ds) (\<lambda>known.
     bindR (waves (rng (map ID ds)) known) (\<lambda>wave.
       Inr (sort_key (\<lambda>d. (wave (ID d), ID d)) ds)))"

subsection \<open>Plans\<close>

fun requestBytesExceed :: "nat \<Rightarrow> BlockDefinition list \<Rightarrow> bool" where
  "requestBytesExceed n [] = False"
| "requestBytesExceed n (d # ds) =
     (let total = n + length (Request d) in
      if total > MaxPlanRequestBytes then True else requestBytesExceed total ds)"

definition freezeBlock :: "BlockDefinition \<Rightarrow> Block result" where
  "freezeBlock d =
     bindR (requestDigest d) (\<lambda>digest.
       Inr \<lparr>Def = deliberate (clone d), RequestDigest = digest\<rparr>)"

definition NewPlanOrdered :: "(string list \<Rightarrow> string list) \<Rightarrow> Verb \<Rightarrow> BlockDefinition list \<Rightarrow> Plan result" where
  "NewPlanOrdered rng verb ds =
     (if verb \<noteq> Apply \<and> verb \<noteq> Destroy then Inl (planError ''lifecycle plan verb is not recognized'')
      else if length ds > MaxBlocks then Inl (planError ''lifecycle plan exceeds its block limit'')
      else if requestBytesExceed 0 ds
        then Inl (planError ''lifecycle plan exceeds its 4 MiB aggregate request limit'')
      else
        bindR (resolveRequirements ds) (\<lambda>resolved.
        guardR (checkPrerequisites verb resolved)
        (bindR (orderBlocks rng resolved) (\<lambda>ordered.
        bindR (mapR freezeBlock ordered) (\<lambda>bs.
          Inr \<lparr>PlanVerb = verb, Blocks = Some bs\<rparr>)))))"

definition NewPlan :: "Verb \<Rightarrow> BlockDefinition list \<Rightarrow> Plan result" where
  "NewPlan = NewPlanOrdered (\<lambda>ids. ids)"

text \<open>Removal: every edge turned around, through the one construction of plans.\<close>

definition dependentsOf :: "Block list \<Rightarrow> string \<Rightarrow> string slice" where
  "dependentsOf bs i =
     appendS None (concat (map (\<lambda>b. map (\<lambda>_. blockID b) (filter ((=) i) (dependencies b))) bs))"

definition Inverse :: "Plan \<Rightarrow> Plan result" where
  "Inverse p =
     (if list_ex (\<lambda>b. elems (Prerequisites (Def b)) \<noteq> []) (blocks p)
      then Inl (planError ''lifecycle plan with prerequisites cannot be inverted without the plans that hold them'')
      else NewPlan Destroy
        (map (\<lambda>b. (clone (Def b))\<lparr>Dependencies := dependentsOf (blocks p) (blockID b)\<rparr>) (blocks p)))"

definition Retain :: "Plan \<Rightarrow> string list \<Rightarrow> Plan result" where
  "Retain p ids =
     NewPlan (PlanVerb p)
       (map (\<lambda>b. (clone (Def b))\<lparr>Dependencies := deleteS (\<lambda>i. i \<notin> set ids) (Dependencies (Def b))\<rparr>)
         (filter (\<lambda>b. blockID b \<in> set ids) (blocks p)))"

definition findBlock :: "Plan \<Rightarrow> string \<Rightarrow> Block option" where
  "findBlock p i = map_option cloneBlock (List.find (\<lambda>b. blockID b = i) (blocks p))"

subsection \<open>The schedule of a plan\<close>

record Schedule =
  Waves :: "string \<rightharpoonup> nat"
  Count :: nat
  Widest :: nat

text \<open>What the loop over the blocks keeps for each wave, and the schedule so far.\<close>

record ScheduleState =
  population :: "nat \<Rightarrow> nat"
  heldKeys :: "nat \<Rightarrow> string set"
  throttledIn :: "nat \<Rightarrow> string \<Rightarrow> nat"
  waveCount :: nat
  widest :: nat

definition scheduleBlock :: "int \<Rightarrow> (string \<Rightarrow> nat) \<Rightarrow> Block \<Rightarrow> ScheduleState \<Rightarrow> ScheduleState" where
  "scheduleBlock throttle wave b s =
     (let d = Def b; w = wave (ID d); s1 = s\<lparr>waveCount := max (waveCount s) (w + 1)\<rparr> in
      if list_ex (\<lambda>k. k \<in> heldKeys s w) (elems (Exclusive d)) \<or>
         (Throttle d \<noteq> [] \<and> throttle > 0 \<and> int (throttledIn s w (Throttle d)) \<ge> throttle)
      then s1
      else
        s1\<lparr>heldKeys := (heldKeys s)(w := heldKeys s w \<union> set (elems (Exclusive d))),
           throttledIn := (if Throttle d = [] then throttledIn s
             else (throttledIn s)(w := (throttledIn s w)(Throttle d := Suc (throttledIn s w (Throttle d))))),
           population := (population s)(w := Suc (population s w)),
           widest := max (widest s) (Suc (population s w))\<rparr>)"

definition scheduleStart :: ScheduleState where
  "scheduleStart = \<lparr>population = (\<lambda>_. 0), heldKeys = (\<lambda>_. {}), throttledIn = (\<lambda>_ _. 0), waveCount = 0, widest = 0\<rparr>"

definition planKnown :: "Plan \<Rightarrow> (string \<rightharpoonup> BlockDefinition)" where
  "planKnown p = fold (\<lambda>b m. m(blockID b \<mapsto> Def b)) (blocks p) Map.empty"

definition ScheduleOf :: "(string list \<Rightarrow> string list) \<Rightarrow> Plan \<Rightarrow> int \<Rightarrow> Schedule" where
  "ScheduleOf rng p throttle =
     (case waves (rng (remdups (map blockID (blocks p)))) (planKnown p) of
        Inl e \<Rightarrow> \<lparr>Waves = Map.empty, Count = 0, Widest = 0\<rparr>
      | Inr wave \<Rightarrow>
          (let s = fold (scheduleBlock throttle wave) (blocks p) scheduleStart in
           \<lparr>Waves = (\<lambda>i. if i \<in> set (map blockID (blocks p)) then Some (wave i) else None),
            Count = waveCount s, Widest = widest s\<rparr>))"

end
