(* ===== verification/Waves.thy ===== *)
theory Waves
  imports Plan
begin

section \<open>The measurement of the dependency graph\<close>

text \<open>
  What \<open>waves\<close> and \<open>cycleOf\<close> of \<open>internal/reconciliation/plan.go\<close> compute. The locale
  \<open>dep_graph\<close> is their contract with the callers, \<open>order\<close> and \<open>ScheduleOf\<close>: the identities
  are those of the map of known blocks, visited once each, in any order. It is interpreted on
  the map \<open>ScheduleOf\<close> builds at the end of the theory, and on the one \<open>order\<close> builds in
  \<open>Planning\<close>.

  \<^item> \<open>waves_eq\<close>: an unknown dependency is an error; otherwise every block that can be
    measured is (\<open>settled\<close>, a least fixed point), each one wave past the deepest block it
    waits for, and the rest contains the cycle that the error names.
  \<^item> \<open>waves_order_irrelevant\<close>: the result does not depend on the order of the visit.
  \<^item> \<open>waves_ok_iff\<close>: success is exactly the absence of a cycle.
\<close>

definition unknownDependency :: Failure where
  "unknownDependency = planError ''lifecycle block depends on a block the plan does not contain''"

text \<open>A list that walks dependency edges, and one that comes back to where it started.\<close>

definition dep_path :: "(string \<rightharpoonup> BlockDefinition) \<Rightarrow> string list \<Rightarrow> bool" where
  "dep_path known c \<longleftrightarrow> (\<forall>k. Suc k < length c \<longrightarrow> c ! Suc k \<in> set (knownDeps known (c ! k)))"

definition dep_cycle :: "(string \<rightharpoonup> BlockDefinition) \<Rightarrow> string list \<Rightarrow> bool" where
  "dep_cycle known c \<longleftrightarrow> 2 \<le> length c \<and> hd c = last c \<and> dep_path known c"

definition wave_equation :: "(string \<rightharpoonup> BlockDefinition) \<Rightarrow> (string \<Rightarrow> nat) \<Rightarrow> string \<Rightarrow> bool" where
  "wave_equation known f i \<longleftrightarrow>
     f i = (if knownDeps known i = [] then 0 else Suc (Max (f ` set (knownDeps known i))))"

definition dep_rel :: "(string \<rightharpoonup> BlockDefinition) \<Rightarrow> (string \<times> string) set" where
  "dep_rel known = {(i, d). d \<in> set (knownDeps known i)}"

subsection \<open>Building the tables\<close>

lemma noteDependencies_eq:
  "noteDependencies known i ds w =
     (if \<exists>d\<in>set ds. known d = None then Inl unknownDependency
      else Inr (w\<lparr>dependents := (\<lambda>d. dependents w d @ replicate (count (mset ds) d) i)\<rparr>))"
proof (induction ds arbitrary: w)
  case Nil
  then show ?case by simp
next
  case (Cons x ds)
  have "(\<lambda>d. ((dependents w)(x := dependents w x @ [i])) d @ replicate (count (mset ds) d) i)
      = (\<lambda>d. dependents w d @ replicate (count (mset (x # ds)) d) i)"
    by (rule ext) simp
  then show ?case
    using Cons.IH by (auto simp: unknownDependency_def)
qed

definition notedFrom :: "(string \<rightharpoonup> BlockDefinition) \<Rightarrow> string list \<Rightarrow> WaveState \<Rightarrow> WaveState" where
  "notedFrom known is w =
     w\<lparr>remaining := (\<lambda>j. if j \<in> set is then int (length (knownDeps known j)) else remaining w j),
       dependents := (\<lambda>d. dependents w d
         @ concat (map (\<lambda>i. replicate (count (mset (knownDeps known i)) d) i) is)),
       depth := (\<lambda>j. if j \<in> set is then 0 else depth w j),
       ready := ready w @ filter (\<lambda>i. knownDeps known i = []) is\<rparr>"

lemma noteBlocks_eq:
  "noteBlocks known is w =
     (if \<exists>i\<in>set is. \<exists>d\<in>set (knownDeps known i). known d = None then Inl unknownDependency
      else Inr (notedFrom known is w))"
proof (induction "is" arbitrary: w)
  case Nil
  then show ?case by (simp add: notedFrom_def)
next
  case (Cons i "is")
  show ?case
  proof (cases "\<exists>d\<in>set (knownDeps known i). known d = None")
    case True
    then show ?thesis by (simp add: noteDependencies_eq)
  next
    case False
    let ?w = "w\<lparr>remaining := (remaining w)(i := int (length (knownDeps known i))),
                dependents := (\<lambda>d. dependents w d @ replicate (count (mset (knownDeps known i)) d) i),
                depth := (depth w)(i := 0),
                ready := (if knownDeps known i = [] then ready w @ [i] else ready w)\<rparr>"
    have "noteBlocks known (i # is) w = noteBlocks known is ?w"
      using False by (cases w) (auto simp: noteDependencies_eq)
    moreover have "notedFrom known is ?w = notedFrom known (i # is) w"
      unfolding notedFrom_def by (cases w) (auto simp: fun_eq_iff)
    ultimately show ?thesis
      using False Cons.IH [of ?w] by simp
  qed
qed

subsection \<open>One turn of the loop\<close>

lemma settle_other [simp]:
  "dependents (settleDependent i j w) = dependents w"
  "measured (settleDependent i j w) = measured w"
  by (simp_all add: settleDependent_def Let_def)

lemma settle_fold_other [simp]:
  "dependents (fold (settleDependent i) js w) = dependents w"
  "measured (fold (settleDependent i) js w) = measured w"
  by (induction js arbitrary: w) simp_all

lemma settle_fold_remaining:
  "remaining (fold (settleDependent i) js w) j = remaining w j - int (count (mset js) j)"
  by (induction js arbitrary: w) (auto simp: settleDependent_def Let_def)

lemma settle_fold_depth:
  "i \<notin> set js \<Longrightarrow> depth (fold (settleDependent i) js w) j =
     (if j \<in> set js then max (depth w j) (depth w i + 1) else depth w j)"
  by (induction js arbitrary: w) (auto simp: settleDependent_def Let_def)

lemma settle_fold_ready:
  assumes "\<And>j. j \<in> set js \<Longrightarrow> int (count (mset js) j) \<le> remaining w j"
  shows "\<exists>r. ready (fold (settleDependent i) js w) = ready w @ r \<and> distinct r \<and>
           set r = {j \<in> set js. remaining w j = int (count (mset js) j)}"
  using assms
proof (induction js arbitrary: w)
  case Nil
  then show ?case by simp
next
  case (Cons j js)
  let ?w = "settleDependent i j w"
  have rem: "remaining ?w k = remaining w k - (if k = j then 1 else 0)" for k
    by (simp add: settleDependent_def Let_def)
  have pre: "int (count (mset js) k) \<le> remaining ?w k" if "k \<in> set js" for k
    using Cons.prems [of k] that by (auto simp: rem split: if_splits)
  obtain r where r: "ready (fold (settleDependent i) js ?w) = ready ?w @ r" "distinct r"
    "set r = {k \<in> set js. remaining ?w k = int (count (mset js) k)}"
    using Cons.IH [OF pre] by blast
  show ?case
  proof (cases "remaining w j = 1")
    case True
    have c0: "count (mset js) j = 0"
      using Cons.prems [of j] True by simp
    then have nj: "j \<notin> set js"
      by (metis count_mset_0_iff)
    have ready: "ready ?w = ready w @ [j]"
      using True by (simp add: settleDependent_def Let_def)
    have "set (j # r) = {k \<in> set (j # js). remaining w k = int (count (mset (j # js)) k)}"
    proof (rule set_eqI)
      fix k
      show "k \<in> set (j # r) \<longleftrightarrow> k \<in> {k \<in> set (j # js). remaining w k = int (count (mset (j # js)) k)}"
        using nj True c0 by (cases "k = j") (simp_all add: r(3) rem)
    qed
    moreover have "distinct (j # r)"
      using r nj by simp
    ultimately show ?thesis
      using r(1) ready by (intro exI [of _ "j # r"]) simp
  next
    case False
    have ready: "ready ?w = ready w"
      using False by (simp add: settleDependent_def Let_def)
    have "remaining w j \<noteq> int (count (mset (j # js)) j)" if "j \<notin> set js"
      using that False by (simp add: count_mset_0_iff [THEN iffD2])
    then have "k \<in> set r \<longleftrightarrow> k \<in> {k \<in> set (j # js). remaining w k = int (count (mset (j # js)) k)}" for k
      by (cases "k = j") (auto simp: r(3) rem)
    then have "set r = {k \<in> set (j # js). remaining w k = int (count (mset (j # js)) k)}"
      by (intro set_eqI) simp
    then show ?thesis
      using r(1,2) ready by (intro exI [of _ r]) simp
  qed
qed

subsection \<open>The contract\<close>

locale dep_graph =
  fixes ids :: "string list" and known :: "string \<rightharpoonup> BlockDefinition"
  assumes distinct_ids: "distinct ids" and dom_known: "dom known = set ids"
begin

abbreviation deps :: "string \<Rightarrow> string list" where
  "deps \<equiv> knownDeps known"

text \<open>The blocks a measurement can reach: those whose dependencies all are measured.\<close>

inductive_set settled :: "string set" where
  settle: "i \<in> set ids \<Longrightarrow> (\<And>d. d \<in> set (deps i) \<Longrightarrow> d \<in> settled) \<Longrightarrow> i \<in> settled"

lemma settled_ids: "i \<in> settled \<Longrightarrow> i \<in> set ids"
  by (auto elim: settled.cases)

lemma deps_outside: "i \<notin> set ids \<Longrightarrow> deps i = []"
  using dom_known by (auto simp: knownDeps_def split: option.splits)

lemma dep_owner: "d \<in> set (deps i) \<Longrightarrow> i \<in> set ids"
  using deps_outside [of i] by (cases "i \<in> set ids") simp_all

lemma known_None: "known d = None \<longleftrightarrow> d \<notin> set ids"
  using dom_known by auto

definition closed :: bool where
  "closed \<longleftrightarrow> (\<forall>i\<in>set ids. set (deps i) \<subseteq> set ids)"

definition tables :: WaveState where
  "tables = notedFrom known ids waveStart"

lemma noteBlocks_ids:
  "noteBlocks known ids waveStart = (if closed then Inr tables else Inl unknownDependency)"
  by (auto simp: noteBlocks_eq closed_def tables_def known_None)

text \<open>The invariant of the loop: \<open>D\<close> lists the blocks measured so far.\<close>

definition loop_inv :: "string list \<Rightarrow> WaveState \<Rightarrow> bool" where
  "loop_inv D w \<longleftrightarrow>
     dependents w = dependents tables \<and> measured w = length D \<and>
     distinct (D @ ready w) \<and> set (D @ ready w) \<subseteq> settled \<and>
     (\<forall>i. remaining w i = int (length (filter (\<lambda>d. d \<notin> set D) (deps i)))) \<and>
     (\<forall>i\<in>set ids. i \<in> set (D @ ready w) \<longleftrightarrow> remaining w i = 0) \<and>
     (\<forall>i. depth w i = Max (insert 0 ((\<lambda>d. Suc (depth w d)) ` (set (deps i) \<inter> set D))))"

lemma loop_depth:
  "loop_inv D w \<Longrightarrow> depth w i = Max (insert 0 ((\<lambda>d. Suc (depth w d)) ` (set (deps i) \<inter> set D)))"
  unfolding loop_inv_def by blast

lemma count_dependents:
  "count (mset (dependents tables d)) j = count (mset (deps j)) d"
proof -
  have "count (mset (concat (map (\<lambda>i. replicate (count (mset (deps i)) d) i) xs))) j
      = (if j \<in> set xs then count (mset (deps j)) d else 0)" if "distinct xs" for xs
    using that by (induction xs) auto
  then show ?thesis
    using distinct_ids deps_outside [of j] by (simp add: tables_def notedFrom_def waveStart_def)
qed

lemma mem_dependents: "j \<in> set (dependents tables d) \<longleftrightarrow> d \<in> set (deps j)"
  by (metis count_dependents count_mset_0_iff)

lemma loop_start: "loop_inv [] tables"
  using distinct_ids deps_outside
  by (auto simp: loop_inv_def tables_def notedFrom_def waveStart_def intro: settled.intros)

lemma count_filter_insert:
  "length (filter (\<lambda>d. d \<notin> insert x D) xs)
     = length (filter (\<lambda>d. d \<notin> D) xs) - (if x \<in> D then 0 else count (mset xs) x)"
  "x \<notin> D \<Longrightarrow> count (mset xs) x \<le> length (filter (\<lambda>d. d \<notin> D) xs)"
proof -
  have "length (filter (\<lambda>d. d \<notin> D) xs) = length (filter (\<lambda>d. d \<notin> insert x D) xs)
      + (if x \<in> D then 0 else count (mset xs) x)"
    by (induction xs) auto
  then show "length (filter (\<lambda>d. d \<notin> insert x D) xs)
     = length (filter (\<lambda>d. d \<notin> D) xs) - (if x \<in> D then 0 else count (mset xs) x)"
   "x \<notin> D \<Longrightarrow> count (mset xs) x \<le> length (filter (\<lambda>d. d \<notin> D) xs)"
    by (simp_all split: if_splits)
qed

lemma filter_notin_empty: "filter (\<lambda>d. d \<notin> set D) xs = [] \<longleftrightarrow> set xs \<subseteq> set D"
  by (auto simp: filter_empty_conv)

lemma max_insert_zero:
  "finite A \<Longrightarrow> Max (insert 0 (insert x A)) = max (Max (insert 0 A)) (x :: nat)"
  by (cases "A = {}") (simp_all add: max.commute max.left_commute)

lemma loop_step:
  assumes inv: "loop_inv D w" and ready: "ready w = i # r"
  shows "loop_inv (D @ [i]) (fold (settleDependent i) (dependents w i)
           (w\<lparr>ready := r, measured := Suc (measured w)\<rparr>))"
    (is "loop_inv _ (fold _ ?js ?w)")
proof -
  let ?w' = "fold (settleDependent i) ?js ?w"
  have rem: "remaining w j = int (length (filter (\<lambda>d. d \<notin> set D) (deps j)))" for j
    using inv by (simp add: loop_inv_def)
  have i: "i \<in> settled" "i \<notin> set D" "i \<notin> set r"
    using inv ready by (auto simp: loop_inv_def)
  have js: "mset ?js = mset (dependents tables i)" "j \<in> set ?js \<longleftrightarrow> i \<in> set (deps j)" for j
    using inv by (auto simp: loop_inv_def mem_dependents)
  have rem_pos: "int (count (mset ?js) j) \<le> remaining w j" for j
    using count_filter_insert(2) [OF i(2)] by (simp add: js count_dependents rem)
  have counted: "j \<in> set ids \<Longrightarrow> j \<in> set (D @ i # r) \<longleftrightarrow> remaining w j = 0" for j
    using inv ready by (auto simp: loop_inv_def)
  have ndep: "j \<notin> set ?js" if "j \<in> set (D @ i # r)" for j
  proof -
    have "j \<in> set ids"
      using that inv ready settled_ids by (auto simp: loop_inv_def)
    then have "set (deps j) \<subseteq> set D"
      using counted that by (simp add: rem filter_notin_empty)
    then show ?thesis
      using i(2) by (auto simp: js)
  qed
  have rem': "remaining ?w' j = int (length (filter (\<lambda>d. d \<notin> set (D @ [i])) (deps j)))" for j
    using count_filter_insert [of i "set D" "deps j"] i(2)
    by (simp add: settle_fold_remaining js count_dependents rem of_nat_diff)
  obtain q where q: "ready ?w' = r @ q" "distinct q"
    "set q = {j \<in> set ?js. remaining w j = int (count (mset ?js) j)}"
    using settle_fold_ready [of ?js ?w i] rem_pos by auto
  have q': "set q = {j \<in> set ?js. remaining ?w' j = 0}"
    using q(3) by (auto simp: settle_fold_remaining)
  have depth_same: "depth ?w' j = depth w j" if "j \<in> set (D @ i # r)" for j
    using ndep [OF that] ndep [of i] by (simp add: settle_fold_depth)
  have depth': "depth ?w' j = Max (insert 0 ((\<lambda>d. Suc (depth ?w' d)) ` (set (deps j) \<inter> set (D @ [i]))))" for j
  proof -
    let ?A = "(\<lambda>d. Suc (depth w d)) ` (set (deps j) \<inter> set D)"
    have img: "(\<lambda>d. Suc (depth ?w' d)) ` (set (deps j) \<inter> set (D @ [i]))
        = (\<lambda>d. Suc (depth w d)) ` (set (deps j) \<inter> set (D @ [i]))"
      using depth_same by (intro image_cong) auto
    have old: "depth w j = Max (insert 0 ?A)"
      using inv by (rule loop_depth)
    have new: "depth ?w' j = (if i \<in> set (deps j) then max (depth w j) (Suc (depth w i)) else depth w j)"
      using ndep [of i] js(2) [of j] by (simp add: settle_fold_depth)
    show ?thesis
    proof (cases "i \<in> set (deps j)")
      case True
      then have "set (deps j) \<inter> set (D @ [i]) = insert i (set (deps j) \<inter> set D)"
        by auto
      then show ?thesis
        unfolding img new old using True
        by (simp only: image_insert if_True) (rule max_insert_zero [symmetric], simp)
    next
      case False
      then have "set (deps j) \<inter> set (D @ [i]) = set (deps j) \<inter> set D"
        by auto
      then show ?thesis
        unfolding img new using False old by simp
    qed
  qed
  have settle_q: "set q \<subseteq> settled"
  proof
    fix j assume "j \<in> set q"
    then have "set (deps j) \<subseteq> set (D @ [i])" "i \<in> set (deps j)"
      by (auto simp: q' rem' js filter_empty_conv)
    moreover have "j \<in> set ids"
      using \<open>i \<in> set (deps j)\<close> by (rule dep_owner)
    moreover have "set (D @ [i]) \<subseteq> settled"
      using inv ready by (auto simp: loop_inv_def)
    ultimately show "j \<in> settled"
      by (blast intro: settled.intros)
  qed
  have disj: "set q \<inter> set (D @ i # r) = {}"
    using ndep q' by auto
  have counted': "j \<in> set ((D @ [i]) @ ready ?w') \<longleftrightarrow> remaining ?w' j = 0" if "j \<in> set ids" for j
  proof (cases "j \<in> set ?js")
    case True
    then show ?thesis
      using ndep q' by (auto simp: q(1))
  next
    case False
    then have "remaining ?w' j = remaining w j"
      by (simp add: settle_fold_remaining count_mset_0_iff [THEN iffD2])
    then show ?thesis
      using counted [OF that] False q' by (auto simp: q(1))
  qed
  have "distinct ((D @ [i]) @ ready ?w')" "set ((D @ [i]) @ ready ?w') \<subseteq> settled"
    using inv ready q(1,2) disj settle_q by (auto simp: loop_inv_def)
  moreover have "dependents ?w' = dependents tables" "measured ?w' = length (D @ [i])"
    using inv by (simp_all add: loop_inv_def)
  ultimately show ?thesis
    unfolding loop_inv_def using rem' counted' depth' by blast
qed

text \<open>With one unit of fuel for each block, the loop ends because no block is ready.\<close>

lemma loop_end:
  assumes "loop_inv D w" and "length ids \<le> n + length D"
  shows "\<exists>D'. loop_inv D' (measureLoop n w) \<and> ready (measureLoop n w) = []"
  using assms
proof (induction n arbitrary: D w)
  case 0
  have "set (D @ ready w) \<subseteq> set ids" "distinct (D @ ready w)"
    using 0(1) settled_ids by (auto simp: loop_inv_def)
  then have "length (D @ ready w) \<le> length ids"
    by (metis card_mono distinct_card distinct_ids finite_set)
  with 0(2) have "ready w = []"
    by (cases "ready w") auto
  with 0(1) show ?case by auto
next
  case (Suc n)
  show ?case
  proof (cases "ready w")
    case Nil
    with Suc.prems show ?thesis by auto
  next
    case (Cons i r)
    show ?thesis
      using Suc.IH [OF loop_step [OF Suc.prems(1) Cons]] Suc.prems(2) Cons by simp
  qed
qed

definition final :: WaveState where
  "final = measureLoop (length ids) tables"

lemma final_remaining: "i \<in> set ids \<Longrightarrow> remaining final i = 0 \<longleftrightarrow> i \<in> settled"
  and final_remaining_nonneg: "remaining final i \<ge> 0"
  and final_measured: "measured final = card settled"
  and final_depth: "i \<in> settled \<Longrightarrow> depth final i =
        (if deps i = [] then 0 else Suc (Max (depth final ` set (deps i))))"
  and final_remaining_eq: "remaining final i = int (length (filter (\<lambda>d. d \<notin> settled) (deps i)))"
  and final_depth_outside: "i \<notin> set ids \<Longrightarrow> depth final i = 0"
proof -
  obtain D where inv: "loop_inv D final" and empty: "ready final = []"
    using loop_end [OF loop_start] by (auto simp: final_def)
  have rem: "remaining final j = int (length (filter (\<lambda>d. d \<notin> set D) (deps j)))" for j
    using inv by (simp add: loop_inv_def)
  have mem: "j \<in> set ids \<Longrightarrow> j \<in> set D \<longleftrightarrow> set (deps j) \<subseteq> set D" for j
    using inv empty by (simp add: loop_inv_def filter_notin_empty)
  have "settled \<subseteq> set D"
  proof
    fix j assume "j \<in> settled"
    then show "j \<in> set D"
      by induction (use mem in auto)
  qed
  then have D: "set D = settled" "distinct D" "measured final = length D"
    using inv empty by (auto simp: loop_inv_def)
  show "remaining final i = 0 \<longleftrightarrow> i \<in> settled" if "i \<in> set ids"
    using inv empty that D by (simp add: loop_inv_def)
  show "remaining final i \<ge> 0" by (simp add: rem)
  show "remaining final i = int (length (filter (\<lambda>d. d \<notin> settled) (deps i)))"
    by (simp add: rem D(1))
  show "measured final = card settled"
    using D by (metis distinct_card)
  have depth: "depth final j = Max (insert 0 ((\<lambda>d. Suc (depth final d)) ` (set (deps j) \<inter> set D)))" for j
    using inv by (rule loop_depth)
  show "depth final i = 0" if "i \<notin> set ids"
    using that depth [of i] by (simp add: deps_outside)
  show "depth final i = (if deps i = [] then 0 else Suc (Max (depth final ` set (deps i))))"
    if "i \<in> settled"
  proof -
    have "set (deps i) \<subseteq> set D"
      using mem [OF settled_ids [OF that]] that D(1) by blast
    then have sub: "set (deps i) \<inter> set D = set (deps i)"
      by blast
    show ?thesis
    proof (cases "deps i = []")
      case True
      with depth [of i] show ?thesis by simp
    next
      case False
      have "Max ((\<lambda>d. Suc (depth final d)) ` set (deps i)) = Suc (Max (depth final ` set (deps i)))"
        using mono_Max_commute [of Suc "depth final ` set (deps i)"] False
        by (simp add: image_image mono_Suc)
      then show ?thesis
        using depth [of i] False sub by simp
    qed
  qed
qed

subsection \<open>Naming a cycle\<close>

lemma unsettled_step:
  assumes "closed" and "i \<in> set ids - settled"
  shows "\<exists>d. List.find (\<lambda>d. remaining final d > 0) (sort (deps i)) = Some d \<and> d \<in> set (deps i) \<and> d \<in> set ids - settled"
proof -
  have "\<exists>d\<in>set (deps i). d \<notin> settled"
    using assms(2) by (auto intro: settled.intros)
  then obtain d where d: "d \<in> set (deps i)" "d \<in> set ids - settled"
    using assms by (auto simp: closed_def)
  then have "remaining final d > 0"
    using final_remaining [of d] final_remaining_nonneg [of d] by auto
  then obtain e where e: "List.find (\<lambda>d. remaining final d > 0) (sort (deps i)) = Some e"
    using d(1) by (cases "List.find (\<lambda>d. remaining final d > 0) (sort (deps i))")
      (auto simp: find_None_iff)
  then have "e \<in> set (deps i)" "remaining final e > 0"
    by (auto simp: find_Some_iff) (metis nth_mem set_sort length_sort)
  then show ?thesis
    using e assms final_remaining [of e] by (auto simp: closed_def)
qed

lemma dep_path_snoc:
  "dep_path known (p @ [i]) \<longleftrightarrow> dep_path known p \<and> (p \<noteq> [] \<longrightarrow> i \<in> set (deps (last p)))"
proof (cases p rule: rev_cases)
  case Nil
  then show ?thesis by (simp add: dep_path_def)
next
  case (snoc q x)
  have "dep_path known (p @ [i]) \<longleftrightarrow> dep_path known p \<and> (p @ [i]) ! length p \<in> set (deps (p ! (length p - 1)))"
    unfolding dep_path_def snoc by (auto simp: nth_append less_Suc_eq)
  then show ?thesis
    by (simp add: snoc nth_append)
qed

lemma dep_path_drop: "dep_path known p \<Longrightarrow> dep_path known (drop k p)"
  by (auto simp: dep_path_def)

lemma cycleWalk_cycle:
  assumes "closed" and "i \<in> set ids - settled" and "set p \<subseteq> set ids - settled" and "distinct p"
    and "dep_path known (p @ [i])" and "length ids < n + length p"
  shows "\<exists>c. cycleWalk n known (remaining final) p i = Some c \<and> dep_cycle known c \<and> set c \<subseteq> set ids - settled"
  using assms(2-)
proof (induction n arbitrary: p i)
  case 0
  have "length p \<le> length ids"
    using 0(2,3) by (metis Diff_subset card_mono distinct_card distinct_ids finite_set order_trans)
  with 0(5) show ?case by simp
next
  case (Suc n)
  show ?case
  proof (cases "indexFunc ((=) i) p")
    case (Some k)
    then have k: "k < length p" "p ! k = i"
      by (auto dest: indexFunc_Some)
    have "dep_path known (drop k p @ [i])"
      using dep_path_drop [OF Suc.prems(4), of k] k by simp
    moreover have "hd (drop k p @ [i]) = i"
      using k by (simp add: hd_append hd_drop_conv_nth)
    moreover have "2 \<le> length (drop k p @ [i])"
      using k by simp
    moreover have "set (drop k p @ [i]) \<subseteq> set ids - settled"
      using Suc.prems(1,2) set_drop_subset [of k p] by auto
    ultimately show ?thesis
      using Some by (simp add: dep_cycle_def)
  next
    case None
    obtain d where d: "List.find (\<lambda>d. remaining final d > 0) (sort (deps i)) = Some d"
      "d \<in> set (deps i)" "d \<in> set ids - settled"
      using unsettled_step [OF assms(1) Suc.prems(1)] by blast
    have "\<exists>c. cycleWalk n known (remaining final) (p @ [i]) d = Some c \<and> dep_cycle known c \<and> set c \<subseteq> set ids - settled"
    proof (rule Suc.IH [OF d(3)])
      show "set (p @ [i]) \<subseteq> set ids - settled"
        using Suc.prems(1,2) by simp
      show "distinct (p @ [i])"
        using Suc.prems(3) None by auto
      show "dep_path known ((p @ [i]) @ [d])"
        using Suc.prems(4) d(2) by (subst dep_path_snoc) simp
      show "length ids < n + length (p @ [i])"
        using Suc.prems(5) by simp
    qed
    with None d(1) show ?thesis by (simp del: indexFunc_None_iff)
  qed
qed

lemma cycle_walk:
  assumes "closed" and "settled \<noteq> set ids"
  shows "\<exists>c. cycleOf ids known (remaining final) = Some c \<and> dep_cycle known c \<and> set c \<subseteq> set ids - settled"
proof -
  obtain j where j: "j \<in> set ids" "j \<notin> settled"
    using assms(2) settled_ids by auto
  then have "remaining final j > 0"
    using final_remaining [of j] final_remaining_nonneg [of j] by auto
  then obtain i where i: "List.find (\<lambda>i. remaining final i > 0) (sort ids) = Some i"
    using j(1) by (cases "List.find (\<lambda>i. remaining final i > 0) (sort ids)") (auto simp: find_None_iff)
  then have "i \<in> set ids" "remaining final i > 0"
    by (auto simp: find_Some_iff) (metis nth_mem set_sort length_sort)
  then have "i \<in> set ids - settled"
    using final_remaining [of i] by auto
  then have "\<exists>c. cycleWalk (Suc (length ids)) known (remaining final) [] i = Some c \<and> dep_cycle known c \<and> set c \<subseteq> set ids - settled"
    by (intro cycleWalk_cycle assms(1)) (auto simp: dep_path_def)
  with i show ?thesis by (simp add: cycleOf_def)
qed

subsection \<open>The result\<close>

lemma measured_all: "measured final = length ids \<longleftrightarrow> settled = set ids"
proof -
  have "settled \<subseteq> set ids" using settled_ids by auto
  then show ?thesis
    using distinct_card [OF distinct_ids] by (metis card_subset_eq final_measured finite_set)
qed

lemma waves_eq:
  "waves ids known =
     (if \<not> closed then Inl unknownDependency
      else if settled = set ids then Inr (depth final)
      else Inl (cycleFailure (the (cycleOf ids known (remaining final)))))"
proof (cases "closed \<and> settled \<noteq> set ids")
  case True
  then obtain c where "cycleOf ids known (remaining final) = Some c"
    using cycle_walk by blast
  with True show ?thesis
    by (simp add: waves_def noteBlocks_ids Let_def final_def [symmetric] measured_all)
next
  case False
  then show ?thesis
    by (auto simp: waves_def noteBlocks_ids Let_def final_def [symmetric] measured_all)
qed

lemma depth_less: "i \<in> settled \<Longrightarrow> d \<in> set (deps i) \<Longrightarrow> depth final d < depth final i"
  using final_depth [of i] Max_ge [of "depth final ` set (deps i)" "depth final d"]
  by (cases "deps i = []") (simp_all add: less_Suc_eq_le)

lemma settled_acyclic:
  assumes "closed"
  shows "settled = set ids \<longleftrightarrow> acyclic (dep_rel known)"
proof
  assume all: "settled = set ids"
  have "depth final d < depth final i" if "(i, d) \<in> dep_rel known" for i d
    using that deps_outside [of i] depth_less [of i d] all by (cases "i \<in> set ids") (auto simp: dep_rel_def)
  then have "dep_rel known \<subseteq> (measure (depth final))\<inverse>"
    by auto
  then show "acyclic (dep_rel known)"
    using acyclic_subset wf_acyclic [OF wf_measure, of "depth final"] by (metis acyclic_converse)
next
  assume "acyclic (dep_rel known)"
  moreover have "finite (dep_rel known)"
  proof (rule finite_subset)
    show "dep_rel known \<subseteq> set ids \<times> set ids"
    proof (rule subrelI)
      fix i d assume "(i, d) \<in> dep_rel known"
      then have "d \<in> set (deps i)" by (simp add: dep_rel_def)
      moreover from this have "i \<in> set ids"
        by (rule dep_owner)
      ultimately show "(i, d) \<in> set ids \<times> set ids"
        using assms by (auto simp: closed_def)
    qed
  qed simp
  ultimately have "wf ((dep_rel known)\<inverse>)"
    by (simp add: finite_acyclic_wf)
  then have "i \<in> set ids \<Longrightarrow> i \<in> settled" for i
  proof (induction i rule: wf_induct_rule)
    case (less i)
    show ?case
    proof (rule settled.intros [OF less.prems])
      fix d assume d: "d \<in> set (deps i)"
      then show "d \<in> settled"
        using less.prems assms by (intro less.IH) (auto simp: dep_rel_def closed_def)
    qed
  qed
  then show "settled = set ids"
    using settled_ids by auto
qed

lemma depth_unique:
  assumes "\<And>i. i \<in> settled \<Longrightarrow> wave_equation known f i" and "i \<in> settled"
  shows "f i = depth final i"
  using assms(2)
proof induction
  case (settle i)
  have "i \<in> settled"
    using settle by (blast intro: settled.intros)
  moreover have "f ` set (deps i) = depth final ` set (deps i)"
    using settle by (intro image_cong) auto
  ultimately show ?case
    using assms(1) [of i] final_depth [of i] by (simp add: wave_equation_def)
qed

lemma waves_unknown: "\<not> closed \<Longrightarrow> waves ids known = Inl unknownDependency"
  by (simp add: waves_eq)

lemma waves_ok:
  "(\<exists>f. waves ids known = Inr f) \<longleftrightarrow> closed \<and> acyclic (dep_rel known)"
  by (auto simp: waves_eq settled_acyclic [symmetric])

lemma waves_depth:
  assumes "waves ids known = Inr f"
  shows "wave_equation known f i"
proof (cases "i \<in> set ids")
  case True
  with assms show ?thesis
    unfolding wave_equation_def by (auto simp: waves_eq final_depth split: if_splits)
next
  case False
  with assms show ?thesis
    by (auto simp: waves_eq wave_equation_def deps_outside final_depth_outside split: if_splits)
qed

lemma waves_cycle:
  assumes "closed" and "\<not> acyclic (dep_rel known)"
  shows "\<exists>c. waves ids known = Inl (cycleFailure c) \<and> dep_cycle known c"
  using assms cycle_walk by (auto simp: waves_eq settled_acyclic)

end

subsection \<open>The order of the visit\<close>

lemma settled_mono:
  assumes "dep_graph ids known" and "dep_graph ids' known" and "set ids = set ids'"
  shows "dep_graph.settled ids known \<subseteq> dep_graph.settled ids' known"
proof
  fix i assume i: "i \<in> dep_graph.settled ids known"
  show "i \<in> dep_graph.settled ids' known"
  proof (rule dep_graph.settled.induct [OF assms(1) i])
    fix j assume "j \<in> set ids" "\<And>d. d \<in> set (knownDeps known j) \<Longrightarrow> d \<in> dep_graph.settled ids' known"
    then show "j \<in> dep_graph.settled ids' known"
      using assms(3) by (metis dep_graph.settled.intros [OF assms(2)])
  qed
qed

lemma waves_order_irrelevant:
  assumes g: "dep_graph ids known" "dep_graph ids' known"
  shows "waves ids known = waves ids' known"
proof -
  have sets: "set ids = set ids'"
    using assms by (simp add: dep_graph_def)
  have msets: "mset ids = mset ids'"
    using assms sets by (simp add: dep_graph_def set_eq_iff_mset_eq_distinct)
  have S: "dep_graph.settled ids known = dep_graph.settled ids' known"
    using settled_mono [OF g sets] settled_mono [OF g(2,1)] sets by auto
  have C: "dep_graph.closed ids known = dep_graph.closed ids' known"
    by (simp add: dep_graph.closed_def [OF g(1)] dep_graph.closed_def [OF g(2)] sets)
  have R: "remaining (dep_graph.final ids known) = remaining (dep_graph.final ids' known)"
    by (rule ext) (simp add: dep_graph.final_remaining_eq [OF g(1)] dep_graph.final_remaining_eq [OF g(2)] S)
  have cyc: "cycleOf ids known r = cycleOf ids' known r" for r
    by (simp only: cycleOf_def sort_cong_mset [OF msets] mset_eq_length [OF msets])
  have D: "depth (dep_graph.final ids known) = depth (dep_graph.final ids' known)"
    if all: "dep_graph.settled ids known = set ids"
  proof
    fix i
    show "depth (dep_graph.final ids known) i = depth (dep_graph.final ids' known) i"
    proof (cases "i \<in> set ids")
      case True
      have eq: "wave_equation known (depth (dep_graph.final ids known)) j"
        if "j \<in> dep_graph.settled ids' known" for j
        using that dep_graph.final_depth [OF g(1), of j] S unfolding wave_equation_def by auto
      have "i \<in> dep_graph.settled ids' known"
        using True all S by simp
      from dep_graph.depth_unique [OF g(2) eq this] show ?thesis .
    next
      case False
      then show ?thesis
        using sets by (simp add: dep_graph.final_depth_outside [OF g(1)] dep_graph.final_depth_outside [OF g(2)])
    qed
  qed
  show ?thesis
    unfolding dep_graph.waves_eq [OF g(1)] dep_graph.waves_eq [OF g(2)]
    using S C R cyc D sets by simp
qed

subsection \<open>The graph of a plan's schedule\<close>

lemma planKnown_eq:
  "planKnown p = map_of (map (\<lambda>b. (blockID b, Def b)) (rev (blocks p)))"
proof -
  have "fold (\<lambda>b m. m(blockID b \<mapsto> Def b)) bs m
      = m ++ map_of (map (\<lambda>b. (blockID b, Def b)) (rev bs))" for bs m
    by (induction bs arbitrary: m) simp_all
  then show ?thesis
    by (simp add: planKnown_def)
qed

lemma dom_planKnown: "dom (planKnown p) = set (map blockID (blocks p))"
  by (simp add: planKnown_eq dom_map_of_conv_image_fst image_image)

interpretation schedule_graph: dep_graph "remdups (map blockID (blocks p))" "planKnown p" for p
  by unfold_locales (simp_all add: dom_planKnown)

end
