(* ===== verification/Planning.thy ===== *)
theory Planning
  imports Waves
begin

section \<open>What a constructed plan guarantees\<close>

text \<open>
  The theorems about \<open>NewPlan\<close>, \<open>Inverse\<close> and \<open>Retain\<close> of
  \<open>internal/reconciliation/plan.go\<close>. The central fact is \<open>NewPlanOrdered_eq\<close>: whatever order
  the map of known blocks is visited in, a plan is either refused or is the one list of frozen
  blocks sorted by wave and identity. From it follow the independence of the order of the
  definitions, the topological order, the rebuild of a frozen plan from its own definitions,
  and the success and the edges of a removal plan.
\<close>

subsection \<open>Valid definitions\<close>

lemma validateDefinition_None:
  "validateDefinition d = None \<longleftrightarrow>
     (\<forall>c\<in>set (definitionChecks d). fst c) \<and> (\<forall>g\<in>set (elems (Groups d)). validateGroup g = None) \<and>
     unique (map GroupID (elems (Groups d))) \<and> canonicalRequest (Request d) = None"
proof -
  let ?check = "\<lambda>(ok, message). if ok then None else Some (planError message)"
  have a: "firstError ?check cs = None \<longleftrightarrow> (\<forall>c\<in>set cs. fst c)" for cs
    by (auto split: if_splits)
  have b: "(\<forall>g\<in>set (elems (Groups d)). validateGroup g = None)
      \<longleftrightarrow> firstError validateGroup (elems (Groups d)) = None"
    by simp
  show ?thesis
    unfolding validateDefinition_def a [symmetric] b
    by (cases "firstError ?check (definitionChecks d)";
        cases "firstError validateGroup (elems (Groups d))") (simp_all del: firstError_None_iff)
qed

lemma valid_dependencies:
  assumes "validateDefinition d = None"
  shows "ID d \<notin> set (elems (Dependencies d))" "sorted (elems (Dependencies d))"
    "distinct (elems (Dependencies d))" "canonicalRequest (Request d) = None"
  using assms
  by (simp_all add: validateDefinition_None definitionChecks_def uniqueSorted_def unique_def)

text \<open>Validation reads the elements of the lists, never whether an empty one is nil.\<close>

lemma validate_deliberate: "validateDefinition (deliberate (clone d)) = validateDefinition d"
proof -
  have e: "elems (orEmpty s) = elems s" for s :: "'a slice"
    by (cases s) (simp_all add: orEmpty_def)
  have "definitionChecks (deliberate (clone d)) = definitionChecks d"
    by (simp add: definitionChecks_def deliberate_def clone_def e)
  moreover have "elems (Groups (deliberate (clone d))) = elems (Groups d)"
    "Request (deliberate (clone d)) = Request d"
    by (simp_all add: deliberate_def clone_def e)
  ultimately show ?thesis
    by (simp only: validateDefinition_def)
qed

lemma marshal_raw_total: "canonicalRequest r = None \<Longrightarrow> \<exists>t. marshal_raw r = Some t"
  by (auto simp: canonicalRequest_def marshal_raw_def proveObject_def
      split: if_splits option.splits prod.splits json.splits canon_error.splits)

definition digestOf :: "BlockDefinition \<Rightarrow> string" where
  "digestOf d = (case requestDigest d of Inr x \<Rightarrow> x | Inl _ \<Rightarrow> [])"

definition frozen :: "BlockDefinition \<Rightarrow> Block" where
  "frozen d = \<lparr>Def = deliberate (clone d), RequestDigest = digestOf d\<rparr>"

lemma requestDigest_valid:
  "canonicalRequest (Request d) = None \<Longrightarrow> requestDigest d = Inr (digestOf d)"
  using marshal_raw_total [of "Request d"] by (auto simp: requestDigest_def digestOf_def)

lemma freezeBlock_valid: "validateDefinition d = None \<Longrightarrow> freezeBlock d = Inr (frozen d)"
  by (simp add: freezeBlock_def frozen_def requestDigest_valid valid_dependencies(4))

lemma digestOf_frozen: "digestOf (Def (frozen d)) = digestOf d"
proof -
  have "requestDigest (Def (frozen d)) = requestDigest d"
    by (simp add: frozen_def requestDigest_def deliberate_def clone_def cong: option.case_cong)
  then show ?thesis
    by (simp add: digestOf_def)
qed

lemma frozen_Def_frozen: "frozen (Def (frozen d)) = frozen d"
proof -
  have "deliberate (clone (deliberate (clone d))) = deliberate (clone d)"
    by (simp add: deliberate_def clone_def orEmpty_def split: option.splits)
  then show ?thesis
    using digestOf_frozen [of d] by (simp add: frozen_def)
qed

lemma ID_frozen [simp]: "ID (Def (frozen d)) = ID d"
  by (simp add: frozen_def deliberate_def clone_def)

lemma deps_frozen [simp]: "elems (Dependencies (Def (frozen d))) = elems (Dependencies d)"
  by (cases "Dependencies d") (simp_all add: frozen_def deliberate_def clone_def orEmpty_def)

subsection \<open>The map of known blocks\<close>

definition defMap :: "BlockDefinition list \<Rightarrow> string \<rightharpoonup> BlockDefinition" where
  "defMap ds = map_of (map (\<lambda>d. (ID d, d)) ds)"

lemma dom_defMap [simp]: "dom (defMap ds) = ID ` set ds"
  by (simp add: defMap_def dom_map_of_conv_image_fst image_image)

lemma defMap_mem: "distinct (map ID ds) \<Longrightarrow> d \<in> set ds \<Longrightarrow> defMap ds (ID d) = Some d"
  unfolding defMap_def by (rule map_of_is_SomeI) (auto simp: comp_def)

lemma defMap_perm:
  assumes "mset ds = mset ds'" and "distinct (map ID ds)"
  shows "defMap ds = defMap ds'"
  unfolding defMap_def
proof (rule map_of_eqI)
  show "set (map fst (map (\<lambda>d. (ID d, d)) ds)) = set (map fst (map (\<lambda>d. (ID d, d)) ds'))"
    using mset_eq_setD [OF assms(1)] by (simp add: image_image)
  have d': "distinct (map ID ds')"
    using assms by (metis mset_eq_imp_distinct_iff mset_map)
  show "\<forall>k\<in>set (map fst (map (\<lambda>d. (ID d, d)) ds)). map_of (map (\<lambda>d. (ID d, d)) ds) k = map_of (map (\<lambda>d. (ID d, d)) ds') k"
    using defMap_mem [OF assms(2)] defMap_mem [OF d'] mset_eq_setD [OF assms(1)]
    by (auto simp: defMap_def)
qed

lemma knownBlocks_ok:
  "knownBlocks m ds = Inr k \<longleftrightarrow>
     (\<forall>d\<in>set ds. validateDefinition d = None) \<and> distinct (map ID ds) \<and>
     (\<forall>d\<in>set ds. m (ID d) = None) \<and> k = m ++ defMap ds"
proof (induction ds arbitrary: m)
  case Nil
  then show ?case by (auto simp: defMap_def)
next
  case (Cons d ds)
  have add: "m(ID d \<mapsto> d) ++ defMap ds = m ++ defMap (d # ds)" if "ID d \<notin> ID ` set ds"
  proof -
    have "defMap ds (ID d) = None"
      using that by (metis dom_defMap domIff)
    then show ?thesis
      by (auto simp: defMap_def map_add_def fun_eq_iff split: option.splits)
  qed
  show ?case
  proof (cases "validateDefinition d = None \<and> m (ID d) = None")
    case True
    then have "knownBlocks m (d # ds) = Inr k \<longleftrightarrow> knownBlocks (m(ID d \<mapsto> d)) ds = Inr k"
      by simp
    also have "\<dots> \<longleftrightarrow> (\<forall>e\<in>set ds. validateDefinition e = None) \<and> distinct (map ID ds) \<and>
       (\<forall>e\<in>set ds. (m(ID d \<mapsto> d)) (ID e) = None) \<and> k = m(ID d \<mapsto> d) ++ defMap ds"
      by (rule Cons.IH)
    also have "(\<forall>e\<in>set ds. (m(ID d \<mapsto> d)) (ID e) = None) \<longleftrightarrow>
        ID d \<notin> ID ` set ds \<and> (\<forall>e\<in>set ds. m (ID e) = None)"
      by (auto simp: image_iff)
    finally show ?thesis
      using True add by (cases "ID d \<in> ID ` set ds") (auto simp: fun_upd_def)
  next
    case False
    then show ?thesis
      by (auto simp: result_simps split: option.splits if_splits)
  qed
qed

lemma knownDeps_defMap:
  "distinct (map ID ds) \<Longrightarrow> d \<in> set ds \<Longrightarrow> knownDeps (defMap ds) (ID d) = elems (Dependencies d)"
  by (simp add: knownDeps_def defMap_mem)

definition key_order :: "(string list \<Rightarrow> string list) \<Rightarrow> bool" where
  "key_order rng \<longleftrightarrow> (\<forall>xs. mset (rng xs) = mset xs)"

lemma defMap_graph:
  assumes "distinct (map ID ds)" and "mset xs = mset (map ID ds)"
  shows "dep_graph xs (defMap ds)"
proof
  show "distinct xs"
    using assms by (metis mset_eq_imp_distinct_iff)
  show "dom (defMap ds) = set xs"
    using mset_eq_setD [OF assms(2)] by simp
qed

subsection \<open>Requirements\<close>

definition requiredIDs :: "(ObjectRef \<times> string) list \<Rightarrow> ObjectRef list \<Rightarrow> string set" where
  "requiredIDs rs reqs = (\<Union>r\<in>set reqs. set (realized rs r))"

lemma set_realized: "set (realized rs r) = {i. (r, i) \<in> set rs}"
  by (force simp: realized_def)

lemma addDependencies_spec:
  "set (elems (addDependencies own is deps)) = set (elems deps) \<union> (set is - {own})"
  "addDependencies own is deps = None \<longleftrightarrow> deps = None \<and> set is \<subseteq> {own}"
  by (induction own "is" deps rule: addDependencies.induct) (auto simp: appendS_def split: if_splits)

lemma resolveLoop_Inr:
  "resolveLoop rs own reqs deps = Inr deps' \<Longrightarrow>
     (\<forall>r\<in>set reqs. realized rs r \<noteq> []) \<and>
     set (elems deps') = set (elems deps) \<union> (requiredIDs rs reqs - {own}) \<and>
     (deps' = None \<longleftrightarrow> deps = None \<and> requiredIDs rs reqs \<subseteq> {own})"
proof (induction reqs arbitrary: deps)
  case Nil
  then show ?case by (simp add: requiredIDs_def)
next
  case (Cons r reqs)
  from Cons.prems have r: "realized rs r \<noteq> []"
    and rest: "resolveLoop rs own reqs (addDependencies own (realized rs r) deps) = Inr deps'"
    by (auto split: if_splits)
  have U: "requiredIDs rs (r # reqs) = set (realized rs r) \<union> requiredIDs rs reqs"
    by (simp add: requiredIDs_def)
  show ?case
    using Cons.IH [OF rest] r unfolding U by (auto simp: addDependencies_spec)
qed

lemma resolveLoop_total:
  "\<forall>r\<in>set reqs. realized rs r \<noteq> [] \<Longrightarrow> \<exists>deps'. resolveLoop rs own reqs deps = Inr deps'"
  by (induction reqs arbitrary: deps) auto

lemma resolveLoop_Inl:
  "resolveLoop rs own reqs deps = Inl e \<Longrightarrow> \<exists>r\<in>set reqs. realized rs r = [] \<and> e = unrealized r"
  by (induction reqs arbitrary: deps) (auto split: if_splits)

lemma compactS_sortS_cong:
  fixes a b :: "'a::linorder slice"
  assumes "set (elems a) = set (elems b)" and "a = None \<longleftrightarrow> b = None"
  shows "compactS (sortS a) = compactS (sortS b)"
  using assms remdups_adj_sort_eq by (cases a; cases b) (auto simp: compactS_def sortS_def)

lemma compactS_sortS_id:
  "sorted (elems a) \<Longrightarrow> distinct (elems a) \<Longrightarrow> compactS (sortS a) = a"
  by (cases a) (simp_all add: compactS_def sortS_def remdups_adj_sort_id)

lemma resolveOne_cong:
  assumes "set rs = set rs'" and "resolveOne rs d = Inr d'"
  shows "resolveOne rs' d = Inr d'"
proof -
  have R: "set (realized rs r) = set (realized rs' r)" for r
    by (simp add: set_realized assms(1))
  have U: "requiredIDs rs reqs = requiredIDs rs' reqs" for reqs
    by (simp add: requiredIDs_def R)
  obtain deps where deps: "resolveLoop rs (ID d) (Requires d) (Dependencies d) = Inr deps"
    and d': "d' = d\<lparr>Dependencies := compactS (sortS deps), Requires := [], Family := []\<rparr>"
    using assms(2) by (auto simp: resolveOne_def result_simps)
  note ok = resolveLoop_Inr [OF deps]
  have "\<forall>r\<in>set (Requires d). realized rs' r \<noteq> []"
    using ok R by (metis set_empty)
  then obtain deps' where deps': "resolveLoop rs' (ID d) (Requires d) (Dependencies d) = Inr deps'"
    using resolveLoop_total by blast
  have "compactS (sortS deps') = compactS (sortS deps)"
    using resolveLoop_Inr [OF deps'] ok U by (intro compactS_sortS_cong) auto
  then show ?thesis
    using deps' d' by (simp add: resolveOne_def)
qed

lemma resolveOne_fields:
  assumes "resolveOne rs d = Inr d'"
  shows "ID d' = ID d" "Requires d' = []" "Family d' = []" "Request d' = Request d"
    "Prerequisites d' = Prerequisites d" "Kind d' = Kind d" "Object d' = Object d"
    "set (elems (Dependencies d')) = set (elems (Dependencies d)) \<union> (requiredIDs rs (Requires d) - {ID d})"
    "\<forall>r\<in>set (Requires d). realized rs r \<noteq> []"
  using assms resolveLoop_Inr by (auto simp: resolveOne_def result_simps)

lemma resolve_perm:
  assumes "mset ds = mset ds'" and "resolveRequirements ds = Inr rs"
  shows "\<exists>rs'. resolveRequirements ds' = Inr rs' \<and> mset rs' = mset rs"
proof -
  have sets: "set (realizations ds) = set (realizations ds')"
    using mset_eq_setD [OF assms(1)] by (simp add: realizations_def)
  define f where "f d = (case resolveOne (realizations ds) d of Inr x \<Rightarrow> x | Inl _ \<Rightarrow> d)" for d
  have ok: "resolveOne (realizations ds) d = Inr (f d)" if "d \<in> set ds" for d
    using assms(2) that
    by (auto simp: resolveRequirements_def mapR_Inr_iff list_all2_conv_all_nth in_set_conv_nth f_def)
  have rs: "rs = map f ds"
    using assms(2) mapR_total [of ds "resolveOne (realizations ds)" f] ok
    by (simp add: resolveRequirements_def)
  have "mapR (resolveOne (realizations ds')) ds' = Inr (map f ds')"
    using ok resolveOne_cong [OF sets] mset_eq_setD [OF assms(1)] by (intro mapR_total) auto
  then show ?thesis
    using rs assms(1) by (simp add: resolveRequirements_def)
qed

lemma requestBytes_sum:
  "n \<le> MaxPlanRequestBytes \<Longrightarrow>
   requestBytesExceed n ds \<longleftrightarrow> n + (\<Sum>d\<leftarrow>ds. length (Request d)) > MaxPlanRequestBytes"
  by (induction n ds rule: requestBytesExceed.induct) (auto simp: Let_def)

lemma checkPrerequisites_set:
  "set ds = set ds' \<Longrightarrow> checkPrerequisites v ds = None \<longleftrightarrow> checkPrerequisites v ds' = None"
  by (simp add: checkPrerequisites_def)

subsection \<open>The outcome of a construction\<close>

text \<open>What a list of resolved definitions must satisfy, and the blocks they then become.\<close>

definition plannable :: "Verb \<Rightarrow> BlockDefinition list \<Rightarrow> bool" where
  "plannable v rs \<longleftrightarrow>
     checkPrerequisites v rs = None \<and> (\<forall>d\<in>set rs. validateDefinition d = None) \<and>
     distinct (map ID rs) \<and> (\<forall>d\<in>set rs. set (elems (Dependencies d)) \<subseteq> ID ` set rs) \<and>
     acyclic (dep_rel (defMap rs))"

definition waveOf :: "BlockDefinition list \<Rightarrow> string \<Rightarrow> nat" where
  "waveOf rs = (case waves (map ID rs) (defMap rs) of Inr f \<Rightarrow> f | Inl _ \<Rightarrow> (\<lambda>_. 0))"

definition arranged :: "BlockDefinition list \<Rightarrow> BlockDefinition list" where
  "arranged rs = sort_key (\<lambda>d. (waveOf rs (ID d), ID d)) rs"

definition admissible :: "Verb \<Rightarrow> BlockDefinition list \<Rightarrow> bool" where
  "admissible v ds \<longleftrightarrow> (v = Apply \<or> v = Destroy) \<and> length ds \<le> MaxBlocks \<and>
     (\<Sum>d\<leftarrow>ds. length (Request d)) \<le> MaxPlanRequestBytes"

lemma closed_defMap:
  assumes "distinct (map ID rs)" and "mset xs = mset (map ID rs)"
  shows "dep_graph.closed xs (defMap rs) \<longleftrightarrow> (\<forall>d\<in>set rs. set (elems (Dependencies d)) \<subseteq> ID ` set rs)"
proof -
  have "set xs = ID ` set rs"
    using mset_eq_setD [OF assms(2)] by simp
  then show ?thesis
    using knownDeps_defMap [OF assms(1)] by (simp add: dep_graph.closed_def [OF defMap_graph [OF assms]])
qed

lemma orderBlocks_rng: "key_order rng \<Longrightarrow> orderBlocks rng ds = orderBlocks (\<lambda>xs. xs) ds"
proof (cases "knownBlocks Map.empty ds")
  case (Inr k)
  assume rng: "key_order rng"
  from Inr have k: "k = defMap ds" and d: "distinct (map ID ds)"
    by (auto simp: knownBlocks_ok)
  have "waves (rng (map ID ds)) (defMap ds) = waves (map ID ds) (defMap ds)"
    using rng by (intro waves_order_irrelevant defMap_graph d) (simp_all add: key_order_def)
  then show ?thesis
    by (simp add: orderBlocks_def Inr k)
qed (simp add: orderBlocks_def)

lemma orderBlocks_Inr:
  "orderBlocks (\<lambda>xs. xs) rs = Inr os \<longleftrightarrow>
     (\<forall>d\<in>set rs. validateDefinition d = None) \<and> distinct (map ID rs) \<and>
     (\<forall>d\<in>set rs. set (elems (Dependencies d)) \<subseteq> ID ` set rs) \<and> acyclic (dep_rel (defMap rs)) \<and>
     os = arranged rs"
proof (cases "(\<forall>d\<in>set rs. validateDefinition d = None) \<and> distinct (map ID rs)")
  case True
  then have known: "knownBlocks Map.empty rs = Inr (defMap rs)"
    by (simp add: knownBlocks_ok)
  have ok: "(\<exists>f. waves (map ID rs) (defMap rs) = Inr f) \<longleftrightarrow>
      (\<forall>d\<in>set rs. set (elems (Dependencies d)) \<subseteq> ID ` set rs) \<and> acyclic (dep_rel (defMap rs))"
    using True by (simp add: dep_graph.waves_ok [OF defMap_graph] closed_defMap)
  show ?thesis
  proof (cases "waves (map ID rs) (defMap rs)")
    case (Inl e)
    with ok show ?thesis by (auto simp: orderBlocks_def known)
  next
    case (Inr f)
    then have "arranged rs = sort_key (\<lambda>d. (f (ID d), ID d)) rs"
      by (simp add: arranged_def waveOf_def)
    with Inr ok True show ?thesis by (auto simp: orderBlocks_def known)
  qed
next
  case False
  then have "knownBlocks Map.empty rs \<noteq> Inr k" for k
    by (auto simp: knownBlocks_ok)
  then show ?thesis
    using False by (cases "knownBlocks Map.empty rs") (auto simp: orderBlocks_def)
qed

lemma NewPlanOrdered_rng:
  "key_order rng \<Longrightarrow> NewPlanOrdered rng v ds = NewPlan v ds"
  by (simp add: NewPlan_def NewPlanOrdered_def orderBlocks_rng cong: if_cong)

lemma mapR_freeze:
  "\<forall>d\<in>set ds. validateDefinition d = None \<Longrightarrow> mapR freezeBlock ds = Inr (map frozen ds)"
  by (intro mapR_total) (simp add: freezeBlock_valid)

lemma NewPlan_eq:
  "NewPlan v ds = Inr p \<longleftrightarrow>
     admissible v ds \<and> (\<exists>rs. resolveRequirements ds = Inr rs \<and> plannable v rs \<and>
       p = \<lparr>PlanVerb = v, Blocks = Some (map frozen (arranged rs))\<rparr>)"
proof -
  have freeze: "checkPrerequisites v rs = None \<and> (\<exists>os. orderBlocks (\<lambda>xs. xs) rs = Inr os \<and>
        (\<exists>bs. mapR freezeBlock os = Inr bs \<and> p = \<lparr>PlanVerb = v, Blocks = Some bs\<rparr>)) \<longleftrightarrow>
      plannable v rs \<and> p = \<lparr>PlanVerb = v, Blocks = Some (map frozen (arranged rs))\<rparr>" for rs
    using mapR_freeze [of "arranged rs"]
    by (auto simp: orderBlocks_Inr plannable_def arranged_def)
  show ?thesis
  proof (cases "admissible v ds")
    case True
    then have "NewPlan v ds = bindR (resolveRequirements ds) (\<lambda>rs. guardR (checkPrerequisites v rs)
        (bindR (orderBlocks (\<lambda>xs. xs) rs) (\<lambda>os. bindR (mapR freezeBlock os) (\<lambda>bs.
          Inr \<lparr>PlanVerb = v, Blocks = Some bs\<rparr>))))"
      by (auto simp: NewPlan_def NewPlanOrdered_def admissible_def requestBytes_sum)
    then have "NewPlan v ds = Inr p \<longleftrightarrow> (\<exists>rs. resolveRequirements ds = Inr rs \<and>
        checkPrerequisites v rs = None \<and> (\<exists>os. orderBlocks (\<lambda>xs. xs) rs = Inr os \<and>
          (\<exists>bs. mapR freezeBlock os = Inr bs \<and> p = \<lparr>PlanVerb = v, Blocks = Some bs\<rparr>)))"
      by (simp add: bindR_eq_Inr guardR_eq_Inr eq_commute [of p])
    then show ?thesis
      using True by (simp only: freeze simp_thms)
  next
    case False
    then have "NewPlan v ds \<noteq> Inr p"
      by (auto simp: NewPlan_def NewPlanOrdered_def admissible_def requestBytes_sum)
    with False show ?thesis by simp
  qed
qed

lemma plannable_waves:
  assumes "plannable v rs"
  shows "waves (map ID rs) (defMap rs) = Inr (waveOf rs)"
    and "d \<in> set rs \<Longrightarrow> i \<in> set (elems (Dependencies d)) \<Longrightarrow> waveOf rs i < waveOf rs (ID d)"
proof -
  have dist: "distinct (map ID rs)"
    using assms by (simp add: plannable_def)
  have "\<exists>f. waves (map ID rs) (defMap rs) = Inr f"
    using assms by (simp add: dep_graph.waves_ok [OF defMap_graph] closed_defMap plannable_def)
  then show w: "waves (map ID rs) (defMap rs) = Inr (waveOf rs)"
    by (auto simp: waveOf_def)
  assume d: "d \<in> set rs" and i: "i \<in> set (elems (Dependencies d))"
  have "wave_equation (defMap rs) (waveOf rs) (ID d)"
    using dep_graph.waves_depth [OF defMap_graph w] dist by simp
  then have "waveOf rs (ID d) = Suc (Max (waveOf rs ` set (elems (Dependencies d))))"
    using i knownDeps_defMap [OF dist d] by (cases "elems (Dependencies d)") (simp_all add: wave_equation_def)
  then show "waveOf rs i < waveOf rs (ID d)"
    using i by (simp add: less_Suc_eq_le)
qed

subsection \<open>Reordered definitions\<close>

lemma mset_arranged [simp]: "mset (arranged rs) = mset rs"
  by (simp add: arranged_def)

lemma set_arranged [simp]: "set (arranged rs) = set rs"
  by (simp add: arranged_def)

lemma inj_on_wave_key: "distinct (map ID rs) \<Longrightarrow> inj_on (\<lambda>d. (w d :: nat, ID d)) (set rs)"
  by (auto simp: distinct_map inj_on_def)

lemma waveOf_perm:
  assumes "mset rs = mset rs'" and "distinct (map ID rs)"
  shows "waveOf rs = waveOf rs'"
proof -
  have "waves (map ID rs) (defMap rs) = waves (map ID rs') (defMap rs)"
    using assms by (intro waves_order_irrelevant defMap_graph) simp_all
  then show ?thesis
    using defMap_perm [OF assms] by (simp add: waveOf_def)
qed

lemma arranged_perm:
  assumes "mset rs = mset rs'" and "distinct (map ID rs)"
  shows "arranged rs = arranged rs'"
  using sort_key_unique [OF assms(1) inj_on_wave_key [OF assms(2)]] waveOf_perm [OF assms]
  by (simp add: arranged_def)

lemma plannable_perm:
  assumes "mset rs = mset rs'" and "plannable v rs"
  shows "plannable v rs'"
proof -
  have d: "distinct (map ID rs)"
    using assms(2) by (simp add: plannable_def)
  have "distinct (map ID rs')"
    using d assms(1) by (metis mset_eq_imp_distinct_iff mset_map)
  then show ?thesis
    using assms(2) defMap_perm [OF assms(1) d] mset_eq_setD [OF assms(1)] checkPrerequisites_set [of rs rs' v]
    by (simp add: plannable_def)
qed

lemma admissible_perm: "mset ds = mset ds' \<Longrightarrow> admissible v ds = admissible v ds'"
  using mset_eq_length [of ds ds'] by (simp add: admissible_def flip: sum_mset_sum_list)

lemma NewPlan_perm:
  assumes "mset ds = mset ds'" and "NewPlan v ds = Inr p"
  shows "NewPlan v ds' = Inr p"
proof -
  obtain rs where rs: "resolveRequirements ds = Inr rs" "plannable v rs"
    and p: "p = \<lparr>PlanVerb = v, Blocks = Some (map frozen (arranged rs))\<rparr>" and adm: "admissible v ds"
    using assms(2) by (auto simp: NewPlan_eq)
  obtain rs' where rs': "resolveRequirements ds' = Inr rs'" "mset rs = mset rs'"
    using resolve_perm [OF assms(1) rs(1)] by metis
  have "arranged rs' = arranged rs"
    using arranged_perm [OF rs'(2)] rs(2) by (simp add: plannable_def)
  then show ?thesis
    using adm admissible_perm [OF assms(1)] rs' plannable_perm [OF rs'(2) rs(2)] p
    by (auto simp: NewPlan_eq)
qed

subsection \<open>The order of the blocks\<close>

lemma sorted_key_before:
  assumes "sorted (map k xs)" and "j < length xs" and "i < length xs" and "k (xs ! j) < k (xs ! i)"
  shows "j < i"
proof (rule ccontr)
  assume "\<not> j < i"
  then have "k (xs ! i) \<le> k (xs ! j)"
    using sorted_nth_mono [OF assms(1), of i j] assms(2,3) by simp
  with assms(4) show False by simp
qed

lemma arranged_topological:
  assumes "plannable v rs" and "n < length rs"
  shows "set (elems (Dependencies (arranged rs ! n))) \<subseteq> ID ` set (take n (arranged rs))"
proof
  let ?k = "\<lambda>d. (waveOf rs (ID d), ID d)"
  fix i assume i: "i \<in> set (elems (Dependencies (arranged rs ! n)))"
  have n: "n < length (arranged rs)"
    using assms(2) by (simp add: arranged_def)
  have d: "arranged rs ! n \<in> set rs"
    using nth_mem [OF n] by simp
  then have "i \<in> ID ` set (arranged rs)"
    using i assms(1) by (auto simp: plannable_def)
  then obtain m where m: "m < length (arranged rs)" "ID (arranged rs ! m) = i"
    by (metis imageE in_set_conv_nth)
  have "waveOf rs i < waveOf rs (ID (arranged rs ! n))"
    using plannable_waves(2) [OF assms(1) d i] .
  then have "?k (arranged rs ! m) < ?k (arranged rs ! n)"
    using m(2) by (simp add: less_prod_def)
  then have "m < n"
    using sorted_key_before [of ?k "arranged rs" m n] m(1) n by (simp add: arranged_def)
  then show "i \<in> ID ` set (take n (arranged rs))"
    using m n by (force simp: in_set_conv_nth)
qed

lemma NewPlan_topological:
  assumes "NewPlan v ds = Inr p"
  shows "distinct (map blockID (blocks p))"
    and "n < length (blocks p) \<Longrightarrow> set (dependencies (blocks p ! n)) \<subseteq> blockID ` set (take n (blocks p))"
proof -
  obtain rs where rs: "plannable v rs" and p: "p = \<lparr>PlanVerb = v, Blocks = Some (map frozen (arranged rs))\<rparr>"
    using assms by (auto simp: NewPlan_eq)
  have "distinct (map ID (arranged rs))"
    using rs by (metis mset_arranged mset_eq_imp_distinct_iff mset_map plannable_def)
  then show "distinct (map blockID (blocks p))"
    by (simp add: p comp_def)
  show "set (dependencies (blocks p ! n)) \<subseteq> blockID ` set (take n (blocks p))"
    if "n < length (blocks p)"
  proof -
    have n: "n < length rs" "n < length (arranged rs)"
      using that by (simp_all add: p arranged_def)
    have "dependencies (blocks p ! n) = elems (Dependencies (arranged rs ! n))"
      using n by (simp add: p)
    moreover have "blockID ` set (take n (blocks p)) = ID ` set (take n (arranged rs))"
      by (simp add: p take_map image_image)
    ultimately show ?thesis
      using arranged_topological [OF rs n(1)] by simp
  qed
qed

subsection \<open>Rebuilding a frozen plan\<close>

lemma cycleWalk_cong:
  assumes "knownDeps k = knownDeps k'"
  shows "cycleWalk n k r p i = cycleWalk n k' r p i"
proof (induction n arbitrary: p i)
  case 0
  show ?case
    by (subst (1 2) cycleWalk.simps) (simp only: nat.case)
next
  case (Suc n)
  have "cycleWalk n k r = cycleWalk n k' r"
    by (intro ext) (rule Suc.IH)
  then show ?case
    by (subst (1 2) cycleWalk.simps) (simp only: assms nat.case)
qed

lemma waves_cong:
  assumes "knownDeps k = knownDeps k'" and "dom k = dom k'"
  shows "waves ids k = waves ids k'"
proof -
  have "k d = None \<longleftrightarrow> k' d = None" for d
    using assms(2) by (metis domIff)
  then have "noteBlocks k ids waveStart = noteBlocks k' ids waveStart"
    by (simp only: noteBlocks_eq notedFrom_def assms(1))
  moreover have "cycleOf ids k = cycleOf ids k'"
    by (rule ext) (simp only: cycleOf_def cycleWalk_cong [OF assms(1)])
  ultimately show ?thesis
    by (simp only: waves_def)
qed

lemma knownDeps_map:
  assumes "distinct (map ID ds)" and "\<And>d. ID (f d) = ID d" and "\<And>d. elems (Dependencies (f d)) = elems (Dependencies d)"
  shows "knownDeps (defMap (map f ds)) = knownDeps (defMap ds)"
proof -
  have "defMap (map f ds) i = map_option f (defMap ds i)" for i
    using assms(2) by (simp add: defMap_def map_of_map comp_def) (induction ds; simp)
  then show ?thesis
    using assms(3) by (auto simp: knownDeps_def fun_eq_iff split: option.splits)
qed

lemma waveOf_map:
  assumes "distinct (map ID ds)" and "\<And>d. ID (f d) = ID d" and "\<And>d. elems (Dependencies (f d)) = elems (Dependencies d)"
  shows "waveOf (map f ds) = waveOf ds"
proof -
  have "waves (map ID ds) (defMap (map f ds)) = waves (map ID ds) (defMap ds)"
    using knownDeps_map [OF assms] assms(2) by (intro waves_cong) (simp_all add: image_image)
  then show ?thesis
    using assms(2) by (simp add: waveOf_def comp_def)
qed

lemma sorted_sort_key_id: "sorted (map k xs) \<Longrightarrow> sort_key k xs = xs"
  by (rule properties_for_sort_key) simp_all

definition plainDef :: "BlockDefinition \<Rightarrow> bool" where
  "plainDef d \<longleftrightarrow> Requires d = [] \<and> Family d = []"

lemma resolve_plain:
  assumes "\<forall>d\<in>set ds. plainDef d"
  shows "resolveRequirements ds = Inr (map (\<lambda>d. d\<lparr>Dependencies := compactS (sortS (Dependencies d))\<rparr>) ds)"
  unfolding resolveRequirements_def
  using assms by (intro mapR_total) (simp add: resolveOne_def plainDef_def)

definition planDefs :: "Plan \<Rightarrow> BlockDefinition list" where
  "planDefs p = map Def (blocks p)"

definition plan_edges :: "Plan \<Rightarrow> (string \<times> string) set" where
  "plan_edges p = {(i, d). \<exists>b\<in>set (blocks p). i = blockID b \<and> d \<in> set (dependencies b)}"

text \<open>Everything a later reader of a constructed plan may rely on.\<close>

definition built :: "Plan \<Rightarrow> bool" where
  "built p \<longleftrightarrow>
     Blocks p = Some (map frozen (planDefs p)) \<and> arranged (planDefs p) = planDefs p \<and>
     (\<forall>d\<in>set (planDefs p). plainDef d) \<and> plannable (PlanVerb p) (planDefs p) \<and>
     admissible (PlanVerb p) (planDefs p)"

lemma sum_requests_perm:
  "mset ds = mset ds' \<Longrightarrow> (\<Sum>d\<leftarrow>ds. length (Request d)) = (\<Sum>d\<leftarrow>ds'. length (Request d))"
  by (simp flip: sum_mset_sum_list)

lemma checkPrerequisites_None:
  "checkPrerequisites v ds = None \<longleftrightarrow> (\<forall>d\<in>set ds. (elems (Prerequisites d) \<noteq> [] \<longrightarrow> v = Apply) \<and>
     set (elems (Prerequisites d)) \<inter> ID ` set ds = {})"
  unfolding checkPrerequisites_def firstError_None_iff
  by (intro ball_cong refl) (auto simp: list_ex_iff)

lemma elems_frozen:
  "elems (Prerequisites (Def (frozen d))) = elems (Prerequisites d)"
  "Request (Def (frozen d)) = Request d"
  "plainDef (Def (frozen d))"
  "validateDefinition (Def (frozen d)) = validateDefinition d"
  using validate_deliberate [of d] by (auto simp: frozen_def deliberate_def clone_def plainDef_def)

lemma NewPlan_built:
  assumes "NewPlan v ds = Inr p"
  shows "built p \<and> PlanVerb p = v"
proof -
  obtain rs where rs: "resolveRequirements ds = Inr rs" "plannable v rs"
    and p: "p = \<lparr>PlanVerb = v, Blocks = Some (map frozen (arranged rs))\<rparr>" and adm: "admissible v ds"
    using assms by (auto simp: NewPlan_eq)
  let ?f = "\<lambda>d. Def (frozen d)"
  have P: "planDefs p = map ?f (arranged rs)"
    by (simp add: planDefs_def p)
  have plan: "plannable v (arranged rs)"
    using plannable_perm [OF _ rs(2)] by simp
  then have dist: "distinct (map ID (arranged rs))"
    by (simp add: plannable_def)
  have w: "waveOf (planDefs p) = waveOf rs"
    using waveOf_map [OF dist, of ?f] waveOf_perm [OF _ dist, of rs] by (simp add: P)
  have "sorted (map (\<lambda>d. (waveOf rs (ID d), ID d)) (planDefs p))"
    by (simp add: P comp_def) (simp add: arranged_def)
  then have arr: "arranged (planDefs p) = planDefs p"
    unfolding arranged_def w by (rule sorted_sort_key_id)
  have "dep_rel (defMap (planDefs p)) = dep_rel (defMap (arranged rs))"
    using knownDeps_map [OF dist, of ?f] by (simp add: dep_rel_def P)
  moreover have "checkPrerequisites v (planDefs p) = None"
    using plan by (simp add: plannable_def checkPrerequisites_None P elems_frozen image_image)
  ultimately have pl: "plannable v (planDefs p)"
    using plan by (simp add: plannable_def P elems_frozen image_image comp_def)
  have len: "length rs = length ds" "map (\<lambda>d. length (Request d)) rs = map (\<lambda>d. length (Request d)) ds"
    using rs(1) resolveOne_fields(4)
    by (auto simp: resolveRequirements_def mapR_Inr_iff list_all2_conv_all_nth intro!: nth_equalityI)
  have "length (arranged rs) = length rs"
    by (simp add: arranged_def)
  then have "admissible v (planDefs p)"
    using adm len sum_requests_perm [of "arranged rs" rs] by (simp add: admissible_def P elems_frozen comp_def)
  then show ?thesis
    using arr pl by (simp add: built_def P elems_frozen frozen_Def_frozen comp_def) (simp add: p)
qed

lemma resolve_built:
  assumes "built p"
  shows "resolveRequirements (planDefs p) = Inr (planDefs p)"
proof -
  have "d\<lparr>Dependencies := compactS (sortS (Dependencies d))\<rparr> = d" if "d \<in> set (planDefs p)" for d
    using assms that valid_dependencies(2,3) [of d] by (simp add: built_def plannable_def compactS_sortS_id)
  then show ?thesis
    using assms resolve_plain [of "planDefs p"] by (simp add: built_def map_idI)
qed

lemma NewPlan_rebuild:
  assumes "built p"
  shows "NewPlan (PlanVerb p) (planDefs p) = Inr p"
proof -
  have "p = \<lparr>PlanVerb = PlanVerb p, Blocks = Some (map frozen (arranged (planDefs p)))\<rparr>"
    using assms by (cases p) (simp add: built_def)
  then show ?thesis
    using assms resolve_built [OF assms] by (subst NewPlan_eq) (simp add: built_def)
qed

subsection \<open>Removal and narrowed plans\<close>

text \<open>
  \<open>Inverse\<close> and \<open>Retain\<close> both rebuild some blocks of a plan with other dependencies. Such a
  rebuild always succeeds when the new edges stay inside the blocks kept and have no cycle.
\<close>

definition rewire :: "(Block \<Rightarrow> string slice) \<Rightarrow> Block \<Rightarrow> BlockDefinition" where
  "rewire g b = (clone (Def b))\<lparr>Dependencies := g b\<rparr>"

lemma validate_deps:
  assumes "validateDefinition d = None" and "length (elems x) \<le> MaxBlocks" and "ID d \<notin> set (elems x)"
    and "sorted (elems x)" and "distinct (elems x)"
  shows "validateDefinition ((clone d)\<lparr>Dependencies := x\<rparr>) = None"
  using assms by (simp add: validateDefinition_None definitionChecks_def clone_def uniqueSorted_def unique_def)

lemma set_planDefs_ID: "ID ` set (planDefs p) = blockID ` set (blocks p)"
  by (simp add: planDefs_def image_image)

lemma dep_rel_defMap:
  assumes "distinct (map ID ds)"
  shows "dep_rel (defMap ds) = {(i, j). \<exists>d\<in>set ds. i = ID d \<and> j \<in> set (elems (Dependencies d))}"
proof -
  have "j \<in> set (knownDeps (defMap ds) i) \<longleftrightarrow> (\<exists>d\<in>set ds. i = ID d \<and> j \<in> set (elems (Dependencies d)))" for i j
  proof (cases "i \<in> ID ` set ds")
    case True
    then obtain d where d: "d \<in> set ds" "i = ID d" by auto
    then show ?thesis
      using assms knownDeps_defMap [OF assms d(1)] by (auto simp: distinct_map dest: inj_onD)
  next
    case False
    then have "defMap ds i = None"
      by (metis dom_defMap domIff)
    then show ?thesis
      using False by (auto simp: knownDeps_def)
  qed
  then show ?thesis
    by (simp add: dep_rel_def)
qed

lemma built_block:
  assumes "built p" and "b \<in> set (blocks p)"
  shows "validateDefinition (Def b) = None" "set (dependencies b) \<subseteq> blockID ` set (blocks p)"
    "elems (Prerequisites (Def b)) \<noteq> [] \<Longrightarrow> PlanVerb p = Apply"
    "set (elems (Prerequisites (Def b))) \<inter> blockID ` set (blocks p) = {}"
    "plainDef (Def b)"
proof -
  have d: "Def b \<in> set (planDefs p)"
    using assms(2) by (simp add: planDefs_def)
  have pl: "plannable (PlanVerb p) (planDefs p)" "\<forall>d\<in>set (planDefs p). plainDef d"
    using assms(1) by (auto simp: built_def)
  then show "validateDefinition (Def b) = None" "plainDef (Def b)"
    using d by (auto simp: plannable_def)
  show "set (dependencies b) \<subseteq> blockID ` set (blocks p)"
    using pl(1) d unfolding plannable_def set_planDefs_ID by blast
  have "checkPrerequisites (PlanVerb p) (planDefs p) = None"
    using pl(1) by (simp add: plannable_def)
  then show "elems (Prerequisites (Def b)) \<noteq> [] \<Longrightarrow> PlanVerb p = Apply"
    "set (elems (Prerequisites (Def b))) \<inter> blockID ` set (blocks p) = {}"
    using d unfolding checkPrerequisites_None set_planDefs_ID by auto
qed

lemma plan_edges_dep_rel: "built p \<Longrightarrow> plan_edges p = dep_rel (defMap (planDefs p))"
  by (subst dep_rel_defMap) (auto simp: built_def plannable_def plan_edges_def planDefs_def)

lemma built_acyclic: "built p \<Longrightarrow> acyclic (plan_edges p)"
  by (simp add: plan_edges_dep_rel built_def plannable_def)

lemma built_edges:
  assumes "built p" and "(i, j) \<in> plan_edges p"
  shows "i \<in> blockID ` set (blocks p)" "j \<in> blockID ` set (blocks p)" "i \<noteq> j"
proof -
  obtain b where b: "b \<in> set (blocks p)" "i = blockID b" "j \<in> set (dependencies b)"
    using assms(2) by (auto simp: plan_edges_def)
  show "i \<in> blockID ` set (blocks p)" using b by simp
  show "j \<in> blockID ` set (blocks p)"
    using built_block(2) [OF assms(1) b(1)] b(3) by blast
  show "i \<noteq> j"
    using valid_dependencies(1) [OF built_block(1) [OF assms(1) b(1)]] b(2,3) by auto
qed

lemma built_distinct: "built p \<Longrightarrow> distinct (map blockID (blocks p))"
  by (simp add: built_def plannable_def planDefs_def comp_def)

definition rewired :: "(Block \<Rightarrow> string slice) \<Rightarrow> Block \<Rightarrow> BlockDefinition" where
  "rewired g b = (clone (Def b))\<lparr>Dependencies := compactS (sortS (g b))\<rparr>"

lemma resolve_rewire: "resolveRequirements (map (rewire g) bs) = Inr (map (rewired g) bs)"
  by (subst resolve_plain) (auto simp: rewire_def rewired_def plainDef_def clone_def)

lemma rewired_simps [simp]:
  "ID (rewired g b) = blockID b"
  "set (elems (Dependencies (rewired g b))) = set (elems (g b))"
  "elems (Prerequisites (rewired g b)) = elems (Prerequisites (Def b))"
  "Request (rewire g b) = Request (Def b)"
  by (simp_all add: rewired_def rewire_def clone_def)

lemma rewired_valid:
  assumes "validateDefinition (Def b) = None" and "set (elems (g b)) \<subseteq> set ids" and "length ids \<le> MaxBlocks"
    and "blockID b \<notin> set (elems (g b))"
  shows "validateDefinition (rewired g b) = None"
  unfolding rewired_def
proof (rule validate_deps [OF assms(1)])
  have "distinct (elems (compactS (sortS (g b))))"
    by (simp add: sorted_distinct_remdups_adj)
  then have "length (elems (compactS (sortS (g b)))) = card (set (elems (g b)))"
    by (metis distinct_card elems_compactS elems_sortS remdups_adj_set set_sort)
  also have "\<dots> \<le> card (set ids)"
    using assms(2) by (rule card_mono [OF finite_set])
  also have "\<dots> \<le> MaxBlocks"
    using card_length [of ids] assms(3) by simp
  finally show "length (elems (compactS (sortS (g b)))) \<le> MaxBlocks" .
qed (use assms(4) in \<open>simp_all add: sorted_distinct_remdups_adj sorted_remdups_adj'\<close>)

lemma replan:
  fixes P :: "Block \<Rightarrow> bool"
  assumes p: "built p" and bs: "bs = filter P (blocks p)" and v: "v = Apply \<or> v = Destroy"
    and sub: "\<And>b. b \<in> set bs \<Longrightarrow> set (elems (g b)) \<subseteq> blockID ` set bs"
    and self: "\<And>b. b \<in> set bs \<Longrightarrow> blockID b \<notin> set (elems (g b))"
    and acyc: "acyclic {(i, j). \<exists>b\<in>set bs. i = blockID b \<and> j \<in> set (elems (g b))}"
    and pre: "v = PlanVerb p \<or> (\<forall>b\<in>set bs. elems (Prerequisites (Def b)) = [])"
  shows "\<exists>q. NewPlan v (map (rewire g) bs) = Inr q \<and> PlanVerb q = v \<and>
           blockID ` set (blocks q) = blockID ` set bs \<and>
           plan_edges q = {(i, j). \<exists>b\<in>set bs. i = blockID b \<and> j \<in> set (elems (g b))}"
proof -
  let ?rs = "map (rewired g) bs"
  have bsp: "set bs \<subseteq> set (blocks p)"
    by (simp add: bs)
  have valid: "validateDefinition (Def b) = None" if "b \<in> set bs" for b
    using built_block(1) [OF p] that bsp by blast
  have sum: "sum_list (map f (filter P xs)) \<le> sum_list (map f xs)" for f :: "Block \<Rightarrow> nat" and xs
    by (induction xs) auto
  have "admissible (PlanVerb p) (planDefs p)"
    using p by (simp add: built_def)
  then have "length (blocks p) \<le> MaxBlocks" "(\<Sum>b\<leftarrow>blocks p. length (Request (Def b))) \<le> MaxPlanRequestBytes"
    by (simp_all add: admissible_def planDefs_def comp_def)
  then have adm: "admissible v (map (rewire g) bs)"
    using v sum [of "\<lambda>b. length (Request (Def b))" "blocks p"]
      order_trans [OF length_filter_le, of "blocks p" MaxBlocks P]
    by (simp add: admissible_def comp_def bs)
  have dist: "distinct (map ID ?rs)"
    using built_distinct [OF p] by (simp add: comp_def bs distinct_map_filter)
  have "length (map blockID bs) \<le> MaxBlocks"
    using adm by (simp add: admissible_def)
  then have vals: "\<forall>d\<in>set ?rs. validateDefinition d = None"
    using rewired_valid [OF valid, of _ g "map blockID bs"] sub self by auto
  have "(elems (Prerequisites (Def b)) \<noteq> [] \<longrightarrow> v = Apply) \<and>
      set (elems (Prerequisites (Def b))) \<inter> blockID ` set bs = {}" if "b \<in> set bs" for b
    using built_block(3,4) [OF p, of b] bsp pre that by blast
  then have check: "checkPrerequisites v ?rs = None"
    unfolding checkPrerequisites_None by (simp add: image_image)
  have "plannable v ?rs"
    using check vals dist sub acyc unfolding plannable_def dep_rel_defMap [OF dist]
    by (simp add: image_image)
  then obtain q where q: "NewPlan v (map (rewire g) bs) = Inr q"
    and qb: "q = \<lparr>PlanVerb = v, Blocks = Some (map frozen (arranged ?rs))\<rparr>"
    using adm resolve_rewire [of g bs] by (auto simp: NewPlan_eq)
  have "blockID ` set (blocks q) = blockID ` set bs"
    by (simp add: qb image_image)
  moreover have "plan_edges q = {(i, j). \<exists>b\<in>set bs. i = blockID b \<and> j \<in> set (elems (g b))}"
    by (auto simp: plan_edges_def qb)
  ultimately show ?thesis
    using q qb by auto
qed

lemma dependentsOf_elems:
  "set (elems (dependentsOf bs i)) = {blockID b | b. b \<in> set bs \<and> i \<in> set (dependencies b)}"
  by (auto simp: dependentsOf_def)

lemma Inverse_spec:
  assumes p: "built p" and pre: "\<forall>b\<in>set (blocks p). elems (Prerequisites (Def b)) = []"
  shows "\<exists>q. Inverse p = Inr q \<and> PlanVerb q = Destroy \<and>
           blockID ` set (blocks q) = blockID ` set (blocks p) \<and> plan_edges q = (plan_edges p)\<inverse>"
proof -
  let ?g = "\<lambda>b. dependentsOf (blocks p) (blockID b)"
  have edge: "j \<in> set (elems (?g b)) \<longleftrightarrow> (j, blockID b) \<in> plan_edges p" for b j
    by (auto simp: dependentsOf_elems plan_edges_def)
  have E: "{(i, j). \<exists>b\<in>set (blocks p). i = blockID b \<and> j \<in> set (elems (?g b))} = (plan_edges p)\<inverse>"
    using built_edges(2) [OF p] unfolding edge by auto
  have "Inverse p = NewPlan Destroy (map (rewire ?g) (blocks p))"
    using pre by (simp add: Inverse_def rewire_def [abs_def] list_ex_iff)
  moreover have "\<exists>q. NewPlan Destroy (map (rewire ?g) (blocks p)) = Inr q \<and> PlanVerb q = Destroy \<and>
      blockID ` set (blocks q) = blockID ` set (blocks p) \<and>
      plan_edges q = {(i, j). \<exists>b\<in>set (blocks p). i = blockID b \<and> j \<in> set (elems (?g b))}"
  proof (rule replan [OF p, where P = "\<lambda>_. True"])
    show "blocks p = filter (\<lambda>_. True) (blocks p)" by simp
    show "acyclic {(i, j). \<exists>b\<in>set (blocks p). i = blockID b \<and> j \<in> set (elems (?g b))}"
      unfolding E using built_acyclic [OF p] by (simp add: acyclic_converse)
  qed (use pre built_edges(1) [OF p] in \<open>auto simp: edge dest: built_edges(3) [OF p]\<close>)
  ultimately show ?thesis
    unfolding E by simp
qed

lemma Retain_spec:
  assumes p: "built p"
  shows "\<exists>q. Retain p ids = Inr q \<and> PlanVerb q = PlanVerb p \<and>
           blockID ` set (blocks q) = blockID ` set (blocks p) \<inter> set ids \<and>
           plan_edges q = plan_edges p \<inter> (set ids \<times> set ids)"
proof -
  let ?bs = "filter (\<lambda>b. blockID b \<in> set ids) (blocks p)"
  let ?g = "\<lambda>b. deleteS (\<lambda>i. i \<notin> set ids) (Dependencies (Def b))"
  have E: "{(i, j). \<exists>b\<in>set ?bs. i = blockID b \<and> j \<in> set (elems (?g b))} = plan_edges p \<inter> (set ids \<times> set ids)"
    by (auto simp: plan_edges_def)
  have I: "blockID ` set ?bs = blockID ` set (blocks p) \<inter> set ids"
    by auto
  have "PlanVerb p = Apply \<or> PlanVerb p = Destroy"
    using p by (simp add: built_def admissible_def)
  moreover have "Retain p ids = NewPlan (PlanVerb p) (map (rewire ?g) ?bs)"
    by (simp add: Retain_def rewire_def [abs_def])
  moreover have "acyclic {(i, j). \<exists>b\<in>set ?bs. i = blockID b \<and> j \<in> set (elems (?g b))}"
    unfolding E using built_acyclic [OF p] by (rule acyclic_subset) blast
  moreover have "set (elems (?g b)) \<subseteq> blockID ` set ?bs" if "b \<in> set ?bs" for b
    unfolding I using built_block(2) [OF p, of b] that by auto
  moreover have "blockID b \<notin> set (elems (?g b))" if "b \<in> set ?bs" for b
    using valid_dependencies(1) [OF built_block(1) [OF p, of b]] that by auto
  ultimately show ?thesis
    using replan [OF p, of ?bs "\<lambda>b. blockID b \<in> set ids" "PlanVerb p" ?g] unfolding E I by simp
qed

subsection \<open>Requirements become edges\<close>

lemma realizations_mem:
  "(r, i) \<in> set (realizations ds) \<longleftrightarrow> (\<exists>d\<in>set ds. i = ID d \<and> RefKind r = Kind d \<and> RefObject r = Object d \<and>
     (RefFamily r = [] \<or> RefFamily r = Family d))"
  by (cases r) (auto simp: realizations_def)

lemma NewPlan_requirements:
  assumes "NewPlan v ds = Inr p" and "d \<in> set ds" and "r \<in> set (Requires d)"
  shows "\<exists>e\<in>set ds. (r, ID e) \<in> set (realizations ds)"
    and "(r, i) \<in> set (realizations ds) \<Longrightarrow> i \<noteq> ID d \<Longrightarrow> (ID d, i) \<in> plan_edges p"
proof -
  obtain rs where rs: "resolveRequirements ds = Inr rs"
    and p: "p = \<lparr>PlanVerb = v, Blocks = Some (map frozen (arranged rs))\<rparr>"
    using assms(1) by (auto simp: NewPlan_eq)
  obtain d' where d': "d' \<in> set rs" "resolveOne (realizations ds) d = Inr d'"
    using rs assms(2) by (fastforce simp: resolveRequirements_def mapR_Inr_iff list_all2_conv_all_nth in_set_conv_nth)
  note f = resolveOne_fields [OF d'(2)]
  have "realized (realizations ds) r \<noteq> []"
    using f(9) assms(3) by blast
  then have "set (realized (realizations ds) r) \<noteq> {}"
    by simp
  then show "\<exists>e\<in>set ds. (r, ID e) \<in> set (realizations ds)"
    by (auto simp: set_realized realizations_mem)
  show "(ID d, i) \<in> plan_edges p" if "(r, i) \<in> set (realizations ds)" "i \<noteq> ID d"
  proof -
    have "i \<in> requiredIDs (realizations ds) (Requires d)"
      using that(1) assms(3) by (auto simp: requiredIDs_def set_realized)
    then have "i \<in> set (elems (Dependencies d'))"
      using f(8) that(2) by simp
    then show ?thesis
      using d'(1) f(1) by (auto simp: plan_edges_def p intro!: bexI [of _ d'])
  qed
qed

end
