(* ===== verification/Samples.thy ===== *)
theory Samples
  imports Planning
begin

section \<open>A small plan\<close>

text \<open>
  Three definitions, given in no order: a cluster that requires the machine it runs on, a
  service the cluster depends on, and that machine. They are the concrete input of the
  examples beside the theorems about plans. Digests stay symbolic.
\<close>

definition sampleDefinition :: "string \<Rightarrow> Stage \<Rightarrow> string \<Rightarrow> ObjectRef list \<Rightarrow> string list \<Rightarrow> BlockDefinition" where
  "sampleDefinition i stage obj requires deps =
     \<lparr>ID = i, Description = ''block'', BlockStage = stage, Requires = requires, Dependencies = Some deps,
      Prerequisites = None, Family = [], Exclusive = None, Throttle = [], Impacts = None, Consumes = None,
      Groups = None, Kind = ''Machine'', Object = obj, Implementation = ''impl'',
      ContentDigest = replicate 64 CHR ''a'', Request = ''{}''\<rparr>"

definition sampleMachine :: BlockDefinition where
  "sampleMachine = sampleDefinition ''m1'' StageMachines ''m1'' [] []"

definition sampleService :: BlockDefinition where
  "sampleService = sampleDefinition ''dns'' StageInfrastructureServices ''dns'' [] [''m1'']"

definition sampleCluster :: BlockDefinition where
  "sampleCluster = sampleDefinition ''c1'' StageAddOns ''c1.addon''
     [\<lparr>RefKind = ''Machine'', RefObject = ''m1'', RefFamily = []\<rparr>] [''dns'']"

definition sampleResolved :: "BlockDefinition list" where
  "sampleResolved = [sampleDefinition ''c1'' StageAddOns ''c1.addon'' [] [''dns'', ''m1''], sampleService, sampleMachine]"

definition samplePlan :: Plan where
  "samplePlan = \<lparr>PlanVerb = Apply, Blocks = Some (map frozen (rev sampleResolved))\<rparr>"

definition sampleBase :: Plan where
  "sampleBase = \<lparr>PlanVerb = Apply, Blocks = Some [frozen sampleMachine]\<rparr>"

text \<open>What is left of the plan to add once a lineage holds the machine.\<close>

definition sampleAdded :: "BlockDefinition list" where
  "sampleAdded =
     [(Def (frozen sampleService))\<lparr>Dependencies := Some [], Prerequisites := Some [''m1'']\<rparr>,
      (Def (frozen (sampleDefinition ''c1'' StageAddOns ''c1.addon'' [] [''dns'', ''m1''])))
        \<lparr>Dependencies := Some [''dns''], Prerequisites := Some [''m1'']\<rparr>]"

lemma sample_resolve:
  "resolveRequirements [sampleCluster, sampleService, sampleMachine] = Inr sampleResolved"
  by code_simp

lemma sample_request: "canonicalRequest ''{}'' = None"
proof -
  have "proveObject (print_json (JObj [])) = None"
    unfolding proveObject_iff by (rule exI [of _ "[]"]) simp
  then show ?thesis
    by (simp add: canonicalRequest_def)
qed

lemma sampleDefinition_valid:
  assumes "ValidSegment i" "ValidStage stage" "obj \<noteq> []" "i \<notin> set deps" "sorted deps" "distinct deps" "length deps \<le> MaxBlocks"
  shows "validateDefinition (sampleDefinition i stage obj [] deps) = None"
proof -
  have desc: "safeDescription ''block''"
    by code_simp
  have "lower_hex CHR ''a''"
    by code_simp
  then have dig: "validDigest (replicate 64 CHR ''a'')"
    by (simp add: validDigest_iff list_all_iff)
  show ?thesis
    using assms desc dig sample_request
    by (simp add: validateDefinition_None definitionChecks_def sampleDefinition_def uniqueSorted_def unique_def)
qed

lemma sample_segments: "ValidSegment ''m1''" "ValidSegment ''dns''" "ValidSegment ''c1''"
  by code_simp+

lemma sample_valid: "\<forall>d\<in>set sampleResolved. validateDefinition d = None"
  using sample_segments
  by (simp add: sampleResolved_def sampleService_def sampleMachine_def sampleDefinition_valid ValidStage_def Stages_def)

lemma sample_waves:
  "map_sum (\<lambda>_. ()) (\<lambda>f. map f [''m1'', ''dns'', ''c1'']) (waves (map ID sampleResolved) (defMap sampleResolved)) = Inr [0, 1, 2]"
  by code_simp

lemma sample_plannable: "plannable Apply sampleResolved" and sample_waveOf:
  "waveOf sampleResolved ''m1'' = 0" "waveOf sampleResolved ''dns'' = 1" "waveOf sampleResolved ''c1'' = 2"
proof -
  obtain f where f: "waves (map ID sampleResolved) (defMap sampleResolved) = Inr f" "map f [''m1'', ''dns'', ''c1''] = [0, 1, 2]"
    using sample_waves by (cases "waves (map ID sampleResolved) (defMap sampleResolved)") auto
  then show "waveOf sampleResolved ''m1'' = 0" "waveOf sampleResolved ''dns'' = 1" "waveOf sampleResolved ''c1'' = 2"
    by (simp_all add: waveOf_def)
  have d: "distinct (map ID sampleResolved)"
    by code_simp
  have "checkPrerequisites Apply sampleResolved = None"
    by code_simp
  then show "plannable Apply sampleResolved"
    using f(1) d sample_valid dep_graph.waves_ok [OF defMap_graph [OF d refl]]
    by (auto simp: plannable_def closed_defMap [OF d refl])
qed

lemma sample_arranged: "arranged sampleResolved = rev sampleResolved"
proof -
  have "sorted (map (\<lambda>d. (waveOf sampleResolved (ID d), ID d)) (rev sampleResolved))"
    using sample_waveOf
    by (simp add: sampleResolved_def sampleService_def sampleMachine_def sampleDefinition_def)
  moreover have "mset (rev sampleResolved) = mset sampleResolved"
    by simp
  moreover have "distinct (map ID sampleResolved)"
    by code_simp
  ultimately show ?thesis
    unfolding arranged_def using inj_on_wave_key
    by (subst sort_key_unique [of _ "rev sampleResolved"]) (simp_all add: sorted_sort_key_id)
qed

lemma sample_plan:
  "NewPlan Apply [sampleCluster, sampleService, sampleMachine] = Inr samplePlan"
proof -
  have "admissible Apply [sampleCluster, sampleService, sampleMachine]"
    by (simp add: admissible_def sampleCluster_def sampleService_def sampleMachine_def sampleDefinition_def)
  then show ?thesis
    using sample_resolve sample_plannable by (simp add: NewPlan_eq samplePlan_def sample_arranged)
qed

lemma sample_built: "built samplePlan"
  using NewPlan_built [OF sample_plan] by simp

lemma sample_ids: "map blockID (blocks samplePlan) = [''m1'', ''dns'', ''c1'']"
  by (simp add: samplePlan_def sampleResolved_def sampleService_def sampleMachine_def sampleDefinition_def)

lemma sample_no_prerequisites: "\<forall>b\<in>set (blocks samplePlan). elems (Prerequisites (Def b)) = []"
  by (simp add: samplePlan_def sampleResolved_def sampleService_def sampleMachine_def sampleDefinition_def elems_frozen)

lemma sample_edges: "plan_edges samplePlan = {(''c1'', ''dns''), (''c1'', ''m1''), (''dns'', ''m1'')}"
  by (auto simp: plan_edges_def samplePlan_def sampleResolved_def sampleService_def sampleMachine_def sampleDefinition_def)

subsection \<open>The plan in two steps\<close>

lemma sample_machine_plannable: "plannable Apply [sampleMachine]"
proof -
  have d: "distinct (map ID [sampleMachine])" by simp
  have "\<exists>f. waves (map ID [sampleMachine]) (defMap [sampleMachine]) = Inr f"
  proof -
    have "map_sum (\<lambda>_. ()) (\<lambda>f. f ''m1'') (waves (map ID [sampleMachine]) (defMap [sampleMachine])) = Inr 0"
      by code_simp
    then show ?thesis
      by (cases "waves (map ID [sampleMachine]) (defMap [sampleMachine])") simp_all
  qed
  moreover have "checkPrerequisites Apply [sampleMachine] = None"
    by code_simp
  moreover have "validateDefinition sampleMachine = None"
    using sample_valid by (simp add: sampleResolved_def)
  ultimately show ?thesis
    using d dep_graph.waves_ok [OF defMap_graph [OF d refl]]
    by (simp add: plannable_def closed_defMap [OF d refl] sampleMachine_def sampleDefinition_def)
qed

lemma sample_base: "NewPlan Apply [sampleMachine] = Inr sampleBase"
proof -
  have "resolveRequirements [sampleMachine] = Inr [sampleMachine]"
    by code_simp
  moreover have "admissible Apply [sampleMachine]"
    by (simp add: admissible_def sampleMachine_def sampleDefinition_def)
  moreover have "arranged [sampleMachine] = [sampleMachine]"
    by (simp add: arranged_def)
  ultimately show ?thesis
    using sample_machine_plannable by (simp add: NewPlan_eq sampleBase_def)
qed

lemma sampleAdded_fields:
  "sampleAdded =
     [(sampleDefinition ''dns'' StageInfrastructureServices ''dns'' [] [])
        \<lparr>Prerequisites := Some [''m1''], Impacts := Some [], Consumes := Some [], Groups := Some []\<rparr>,
      (sampleDefinition ''c1'' StageAddOns ''c1.addon'' [] [''dns''])
        \<lparr>Prerequisites := Some [''m1''], Impacts := Some [], Consumes := Some [], Groups := Some []\<rparr>]"
  by (simp add: sampleAdded_def sampleService_def sampleDefinition_def frozen_def deliberate_def clone_def orEmpty_def)

lemma sampleAdded_valid: "\<forall>d\<in>set sampleAdded. validateDefinition d = None"
proof -
  have "ValidSegment ''m1''"
    by code_simp
  then have *: "validateDefinition (d\<lparr>Prerequisites := Some [''m1''], Impacts := Some [], Consumes := Some [], Groups := Some []\<rparr>) = None"
    if "validateDefinition d = None" for d
    using that by (simp add: validateDefinition_None definitionChecks_def uniqueSorted_def unique_def)
  have "validateDefinition (d\<lparr>Dependencies := x\<rparr>) = None"
    if "validateDefinition d = None" "plainDef d" "length (elems x) \<le> 1" "ID d \<notin> set (elems x)" for d x
  proof -
    have "sorted (elems x)" "distinct (elems x)"
      using that(3) by (cases "elems x"; simp)+
    then have "validateDefinition ((clone d)\<lparr>Dependencies := x\<rparr>) = None"
      using that by (intro validate_deps) simp_all
    moreover have "clone d = d"
      using that(2) by (simp add: clone_def plainDef_def)
    ultimately show ?thesis by simp
  qed
  from this [of sampleService "Some []"] this [of "hd sampleResolved" "Some [''dns'']"]
  have "validateDefinition (sampleDefinition ''dns'' StageInfrastructureServices ''dns'' [] []) = None"
    "validateDefinition (sampleDefinition ''c1'' StageAddOns ''c1.addon'' [] [''dns'']) = None"
    using sample_valid by (simp_all add: sampleResolved_def sampleService_def sampleDefinition_def plainDef_def)
  with * show ?thesis
    unfolding sampleAdded_fields by simp
qed

lemma sampleAdded_plan: "\<exists>q. NewPlan Apply sampleAdded = Inr q"
proof -
  have d: "distinct (map ID sampleAdded)"
    unfolding sampleAdded_fields by (simp add: sampleDefinition_def)
  have "\<exists>f. waves (map ID sampleAdded) (defMap sampleAdded) = Inr f"
  proof -
    have "map_sum (\<lambda>_. ()) (\<lambda>f. f ''c1'') (waves (map ID sampleAdded) (defMap sampleAdded)) = Inr 1"
      unfolding sampleAdded_fields by code_simp
    then show ?thesis
      by (cases "waves (map ID sampleAdded) (defMap sampleAdded)") simp_all
  qed
  moreover have "checkPrerequisites Apply sampleAdded = None"
    unfolding sampleAdded_fields by code_simp
  ultimately have "plannable Apply sampleAdded"
    using sampleAdded_valid d dep_graph.waves_ok [OF defMap_graph [OF d refl]]
    by (auto simp: plannable_def closed_defMap [OF d refl])
  moreover have "resolveRequirements sampleAdded = Inr sampleAdded"
    unfolding sampleAdded_fields by code_simp
  moreover have "admissible Apply sampleAdded"
    unfolding sampleAdded_fields by (simp add: admissible_def sampleDefinition_def)
  ultimately show ?thesis
    by (simp add: NewPlan_eq)
qed

end
