(* ===== verification/Stage.thy ===== *)
theory Stage
  imports Planning
begin

section \<open>Stages, selections and the blocks that may start\<close>

text \<open>
  \<open>internal/reconciliation/stage.go\<close>. The states of an operation's blocks are a map from
  identities, in which an absent or empty entry reads as pending. A selection gates which
  blocks an invocation starts; \<open>Bind\<close> closes the block it ends at under dependencies, a
  worklist whose termination is proved here and whose result is the reflexive transitive
  closure (\<open>Bind_closure\<close>). \<open>Startable\<close> and \<open>Deferrals\<close> divide the pending blocks of a built
  plan between them (\<open>startable_or_deferred\<close>), and while every block is pending or done some
  admitted block can start (\<open>startable_exists\<close>).
\<close>

type_synonym StageSelection = "Stage slice"
type_synonym BlockStates = "string \<rightharpoonup> BlockState"

definition stageIndex :: "Stage \<Rightarrow> int" where
  "stageIndex s = (case indexFunc ((=) s) Stages of Some i \<Rightarrow> int i | None \<Rightarrow> -1)"

fun parseStagesLoop :: "string list \<Rightarrow> StageSelection \<Rightarrow> StageSelection result" where
  "parseStagesLoop [] selection = Inr selection"
| "parseStagesLoop (v # vs) selection =
     (if \<not> ValidStage v then Inl (stateError ''lifecycle stage is not recognized'')
      else parseStagesLoop vs
        (if v \<notin> set (elems selection) then appendS selection [v] else selection))"

definition ParseStages :: "string list \<Rightarrow> StageSelection result" where
  "ParseStages vs = bindR (parseStagesLoop vs None) (\<lambda>s. Inr (map_option (sort_key stageIndex) s))"

definition Selects :: "StageSelection \<Rightarrow> Stage \<Rightarrow> bool" where
  "Selects s stage \<longleftrightarrow> elems s = [] \<or> stage \<in> set (elems s)"

record Selection =
  SelStages :: StageSelection
  SelUntil :: string
  within :: "string set"

definition ParseSelection :: "string list \<Rightarrow> string \<Rightarrow> Selection result" where
  "ParseSelection stages until =
     bindR (ParseStages stages) (\<lambda>parsed. Inr \<lparr>SelStages = parsed, SelUntil = until, within = {}\<rparr>)"

definition EmptySelection :: "Selection \<Rightarrow> bool" where
  "EmptySelection s \<longleftrightarrow> elems (SelStages s) = [] \<and> SelUntil s = []"

definition untilTarget :: "Block \<Rightarrow> bool" where
  "untilTarget b =
     (case cut_at ''.'' (Object (Def b)) of (cluster, tail, found) \<Rightarrow>
        BlockStage (Def b) = StageAddOns \<and> found \<and> ValidSegment cluster \<and> ValidSegment tail)"

text \<open>The search for the target: \<open>None\<close> when a second block matches.\<close>

fun findTarget :: "string \<Rightarrow> string \<Rightarrow> Block list \<Rightarrow> string option" where
  "findTarget until target [] = Some target"
| "findTarget until target (b # bs) =
     (if untilTarget b \<and> Object (Def b) = until
      then (if target \<noteq> [] then None else findTarget until (blockID b) bs)
      else findTarget until target bs)"

definition blockDeps :: "Plan \<Rightarrow> string \<Rightarrow> string list" where
  "blockDeps p i = (case findBlock p i of Some b \<Rightarrow> dependencies b | None \<Rightarrow> [])"

lemma blockDeps_outside: "i \<notin> blockID ` set (blocks p) \<Longrightarrow> blockDeps p i = []"
proof -
  assume "i \<notin> blockID ` set (blocks p)"
  then have "List.find (\<lambda>b. blockID b = i) (blocks p) = None"
    by (auto simp: find_None_iff)
  then show ?thesis
    by (simp add: blockDeps_def findBlock_def)
qed

function bindLoop :: "Plan \<Rightarrow> string set \<Rightarrow> string list \<Rightarrow> string set" where
  "bindLoop p seen [] = seen"
| "bindLoop p seen (x # queue) =
     (if x \<in> seen then bindLoop p seen queue
      else bindLoop p (insert x seen) (queue @ blockDeps p x))"
  by pat_completeness auto
termination
proof (relation "measures [\<lambda>(p, seen, q). card (blockID ` set (blocks p) - seen), \<lambda>(p, seen, q). length q]",
    goal_cases)
  case (3 p seen x queue)
  show ?case
  proof (cases "x \<in> blockID ` set (blocks p)")
    case True
    then have "card (blockID ` set (blocks p) - insert x seen) < card (blockID ` set (blocks p) - seen)"
      using 3 by (intro psubset_card_mono) auto
    then show ?thesis by simp
  next
    case False
    then have "blockID ` set (blocks p) - insert x seen = blockID ` set (blocks p) - seen"
      by auto
    with False show ?thesis by (simp add: blockDeps_outside)
  qed
qed auto

definition Bind :: "Selection \<Rightarrow> Plan \<Rightarrow> Selection \<times> bool" where
  "Bind s p =
     (let s0 = s\<lparr>within := {}\<rparr> in
      if SelUntil s = [] then (s0, True)
      else (case findTarget (SelUntil s) [] (blocks p) of
              None \<Rightarrow> (s0, False)
            | Some target \<Rightarrow>
                if target = [] then (s0, False)
                else (s0\<lparr>within := bindLoop p {} [target]\<rparr>, True)))"

definition Admits :: "Selection \<Rightarrow> Block \<Rightarrow> bool" where
  "Admits s b \<longleftrightarrow> Selects (SelStages s) (BlockStage (Def b)) \<and> (SelUntil s = [] \<or> blockID b \<in> within s)"

fun candidatesLoop :: "Block list \<Rightarrow> string list \<Rightarrow> string list" where
  "candidatesLoop [] objects = objects"
| "candidatesLoop (b # bs) objects =
     candidatesLoop bs (if untilTarget b \<and> Object (Def b) \<notin> set objects
                        then objects @ [Object (Def b)] else objects)"

definition UntilCandidates :: "Plan \<Rightarrow> string list" where
  "UntilCandidates p = sort (candidatesLoop (blocks p) [])"

definition Names :: "StageSelection \<Rightarrow> string list" where
  "Names s = elems s"

definition blockState :: "BlockStates \<Rightarrow> string \<Rightarrow> BlockState" where
  "blockState states i =
     (case states i of Some s \<Rightarrow> if s \<noteq> [] then s else BlockPending | None \<Rightarrow> BlockPending)"

definition waitingOn :: "Plan \<Rightarrow> BlockStates \<Rightarrow> Block \<Rightarrow> string" where
  "waitingOn p states b =
     (case List.find (\<lambda>c. blockID c \<in> set (dependencies b) \<and> blockState states (blockID c) \<noteq> BlockDone) (blocks p) of
        Some c \<Rightarrow> blockID c
      | None \<Rightarrow> [])"

definition Ready :: "Plan \<Rightarrow> BlockStates \<Rightarrow> Block list" where
  "Ready p states = map cloneBlock (filter (\<lambda>b.
     \<not> (blockState states (blockID b) \<noteq> BlockPending \<or> waitingOn p states b \<noteq> [])) (blocks p))"

definition Startable :: "Plan \<Rightarrow> BlockStates \<Rightarrow> Selection \<Rightarrow> Block list" where
  "Startable p states s = filter (Admits s) (Ready p states)"

abbreviation DeferredNotSelected :: string where "DeferredNotSelected \<equiv> ''not-selected''"
abbreviation DeferredWaiting :: string where "DeferredWaiting \<equiv> ''waits-on''"

record Deferral =
  Reason :: string
  DeferredOn :: string
  DeferralStage :: Stage

definition deferralOf :: "Plan \<Rightarrow> BlockStates \<Rightarrow> Selection \<Rightarrow> Block \<Rightarrow> Deferral option" where
  "deferralOf p states s b =
     (if blockState states (blockID b) \<noteq> BlockPending then None
      else if \<not> Admits s b
      then Some \<lparr>Reason = DeferredNotSelected, DeferredOn = [], DeferralStage = BlockStage (Def b)\<rparr>
      else (let blocking = waitingOn p states b in
            if blocking = [] then None
            else Some \<lparr>Reason = DeferredWaiting, DeferredOn = blocking,
                  DeferralStage = (case findBlock p blocking of Some d \<Rightarrow> BlockStage (Def d) | None \<Rightarrow> [])\<rparr>))"

definition Deferrals :: "Plan \<Rightarrow> BlockStates \<Rightarrow> Selection \<Rightarrow> string \<rightharpoonup> Deferral" where
  "Deferrals p states s =
     fold (\<lambda>b m. case deferralOf p states s b of None \<Rightarrow> m | Some d \<Rightarrow> m(blockID b \<mapsto> d))
       (blocks p) Map.empty"

definition subsetPlan :: "Plan \<Rightarrow> BlockStates \<Rightarrow> (BlockState \<Rightarrow> bool) \<Rightarrow> Plan" where
  "subsetPlan p states keep =
     \<lparr>PlanVerb = PlanVerb p,
      Blocks = Some (map cloneBlock (filter (\<lambda>b. keep (blockState states (blockID b))) (blocks p)))\<rparr>"

definition OwnedSubset :: "Plan \<Rightarrow> BlockStates \<Rightarrow> Plan" where
  "OwnedSubset p states = subsetPlan p states (\<lambda>s. s \<noteq> BlockPending)"

definition RemainingSubset :: "Plan \<Rightarrow> BlockStates \<Rightarrow> Plan" where
  "RemainingSubset p states = subsetPlan p states (\<lambda>s. s \<noteq> BlockDone)"

subsection \<open>Selections\<close>

lemma parseStagesLoop_Inr:
  "parseStagesLoop vs s = Inr s' \<Longrightarrow> list_all ValidStage vs \<and> set (elems s') = set (elems s) \<union> set vs \<and>
     (distinct (elems s) \<longrightarrow> distinct (elems s'))"
proof (induction vs arbitrary: s)
  case Nil
  then show ?case by simp
next
  case (Cons v vs)
  let ?s = "if v \<notin> set (elems s) then appendS s [v] else s"
  have v: "ValidStage v" and rest: "parseStagesLoop vs ?s = Inr s'"
    using Cons.prems by (auto split: if_splits)
  show ?case
    using Cons.IH [OF rest] v by (auto split: if_splits)
qed

lemma parseStagesLoop_total:
  "list_all ValidStage vs \<Longrightarrow> \<exists>s'. parseStagesLoop vs s = Inr s'"
  by (induction vs arbitrary: s) auto

lemma stageIndex_inj: "ValidStage a \<Longrightarrow> ValidStage b \<Longrightarrow> stageIndex a = stageIndex b \<Longrightarrow> a = b"
proof -
  assume v: "ValidStage a" "ValidStage b" and eq: "stageIndex a = stageIndex b"
  obtain i j where ij: "indexFunc ((=) a) Stages = Some i" "indexFunc ((=) b) Stages = Some j"
    using v by (cases "indexFunc ((=) a) Stages"; cases "indexFunc ((=) b) Stages")
      (auto simp: ValidStage_def)
  then have "i = j"
    using eq by (simp add: stageIndex_def)
  with indexFunc_Some [OF ij(1)] indexFunc_Some [OF ij(2)] show "a = b"
    by simp
qed

lemma ParseStages_Inr:
  assumes "ParseStages vs = Inr s"
  shows "list_all ValidStage vs" "set (elems s) = set vs" "distinct (elems s)"
    "sorted (map stageIndex (elems s))"
proof -
  obtain s0 where s0: "parseStagesLoop vs None = Inr s0" "s = map_option (sort_key stageIndex) s0"
    using assms by (auto simp: ParseStages_def result_simps)
  then have "elems s = sort_key stageIndex (elems s0)"
    by (cases s0) simp_all
  then show "list_all ValidStage vs" "set (elems s) = set vs" "distinct (elems s)"
    "sorted (map stageIndex (elems s))"
    using parseStagesLoop_Inr [OF s0(1)] by simp_all
qed

lemma ParseStages_ok: "(\<exists>s. ParseStages vs = Inr s) \<longleftrightarrow> list_all ValidStage vs"
  using parseStagesLoop_total [of vs None] ParseStages_Inr(1) by (auto simp: ParseStages_def)

subsection \<open>The closure a selection ends at\<close>

definition planRel :: "Plan \<Rightarrow> (string \<times> string) set" where
  "planRel p = {(i, d). d \<in> set (blockDeps p i)}"

lemma bindLoop_sound: "bindLoop p seen q \<subseteq> seen \<union> (planRel p)\<^sup>* `` set q"
proof (induction p seen q rule: bindLoop.induct)
  case (2 p seen x queue)
  show ?case
  proof (cases "x \<in> seen")
    case True
    with 2(1) show ?thesis by auto
  next
    case False
    have "(planRel p)\<^sup>* `` set (queue @ blockDeps p x) \<subseteq> (planRel p)\<^sup>* `` set (x # queue)"
      by (auto simp: planRel_def intro: converse_rtrancl_into_rtrancl)
    with 2(2) [OF False] False show ?thesis by fastforce
  qed
qed simp

lemma bindLoop_closed:
  "(\<And>x d. x \<in> seen \<Longrightarrow> (x, d) \<in> planRel p \<Longrightarrow> d \<in> seen \<union> set q) \<Longrightarrow>
   seen \<union> set q \<subseteq> bindLoop p seen q \<and> (\<forall>x d. x \<in> bindLoop p seen q \<longrightarrow> (x, d) \<in> planRel p \<longrightarrow> d \<in> bindLoop p seen q)"
proof (induction p seen q rule: bindLoop.induct)
  case (1 p seen)
  then show ?case by auto
next
  case (2 p seen x queue)
  show ?case
  proof (cases "x \<in> seen")
    case True
    with 2(1) [OF True] 2(3) show ?thesis by auto
  next
    case False
    have "d \<in> insert x seen \<union> set (queue @ blockDeps p x)" if "y \<in> insert x seen" "(y, d) \<in> planRel p" for y d
      using 2(3) [of y d] that by (auto simp: planRel_def)
    from 2(2) [OF False this] False show ?thesis by auto
  qed
qed

lemma bindLoop_closure: "bindLoop p {} [t] = (planRel p)\<^sup>* `` {t}"
proof
  show "bindLoop p {} [t] \<subseteq> (planRel p)\<^sup>* `` {t}"
    using bindLoop_sound [of p "{}" "[t]"] by simp
  have c: "t \<in> bindLoop p {} [t]"
    "\<And>x d. x \<in> bindLoop p {} [t] \<Longrightarrow> (x, d) \<in> planRel p \<Longrightarrow> d \<in> bindLoop p {} [t]"
    using bindLoop_closed [of "{}" p "[t]"] by auto
  have "(t, x) \<in> (planRel p)\<^sup>* \<Longrightarrow> x \<in> bindLoop p {} [t]" for x
    by (induction rule: rtrancl_induct) (use c in auto)
  then show "(planRel p)\<^sup>* `` {t} \<subseteq> bindLoop p {} [t]"
    by auto
qed

lemma findBlock_mem:
  assumes "distinct (map blockID (blocks p))" and "b \<in> set (blocks p)"
  shows "findBlock p (blockID b) = Some (cloneBlock b)"
proof -
  have "List.find (\<lambda>c. blockID c = blockID b) bs = Some b"
    if "distinct (map blockID bs)" "b \<in> set bs" for bs
    using that by (induction bs) (auto simp: rev_image_eqI)
  then show ?thesis
    using assms by (simp add: findBlock_def)
qed

lemma planRel_edges:
  assumes "distinct (map blockID (blocks p))"
  shows "planRel p = plan_edges p"
proof -
  have "d \<in> set (blockDeps p i) \<longleftrightarrow> (i, d) \<in> plan_edges p" for i d
  proof (cases "i \<in> blockID ` set (blocks p)")
    case True
    then obtain b where b: "b \<in> set (blocks p)" "i = blockID b" by auto
    have "(i, d) \<in> plan_edges p \<longleftrightarrow> d \<in> set (dependencies b)"
      using b assms by (auto simp: plan_edges_def distinct_map dest: inj_onD)
    then show ?thesis
      using findBlock_mem [OF assms b(1)] b(2) by (simp add: blockDeps_def cloneBlock_def clone_def)
  next
    case False
    then show ?thesis
      by (auto simp: blockDeps_outside plan_edges_def)
  qed
  then show ?thesis
    by (simp add: planRel_def)
qed

lemma findTarget_found:
  "findTarget u t bs = Some r \<Longrightarrow> r \<noteq> t \<Longrightarrow> \<exists>b\<in>set bs. untilTarget b \<and> Object (Def b) = u \<and> blockID b = r"
  by (induction bs arbitrary: t) (auto split: if_splits)

lemma findTarget_kept:
  "findTarget u t bs = Some r \<Longrightarrow> t \<noteq> [] \<Longrightarrow> r = t \<and> (\<forall>b\<in>set bs. \<not> (untilTarget b \<and> Object (Def b) = u))"
  by (induction bs arbitrary: t) (auto split: if_splits)

text \<open>The one target, and everything it depends on, directly or not.\<close>

lemma Bind_closure:
  assumes "built p" and "SelUntil s \<noteq> []" and "Bind s p = (s', True)"
  shows "\<exists>t\<in>set (blocks p). untilTarget t \<and> Object (Def t) = SelUntil s \<and>
           within s' = (plan_edges p)\<^sup>* `` {blockID t} \<and> SelStages s' = SelStages s \<and> SelUntil s' = SelUntil s"
proof -
  obtain r where r: "findTarget (SelUntil s) [] (blocks p) = Some r" "r \<noteq> []"
    and s': "s' = s\<lparr>within := bindLoop p {} [r]\<rparr>"
    using assms(2,3) by (auto simp: Bind_def Let_def split: option.splits if_splits)
  obtain t where "t \<in> set (blocks p)" "untilTarget t" "Object (Def t) = SelUntil s" "blockID t = r"
    using findTarget_found [OF r(1)] r(2) by auto
  moreover have "within s' = (plan_edges p)\<^sup>* `` {r}"
    unfolding s' planRel_edges [OF built_distinct [OF assms(1)], symmetric] bindLoop_closure [symmetric]
    by (simp del: bindLoop.simps)
  ultimately show ?thesis
    using s' by (auto simp del: bindLoop.simps)
qed

subsection \<open>Blocks that may start\<close>

lemma cloneBlock_built: "built p \<Longrightarrow> b \<in> set (blocks p) \<Longrightarrow> cloneBlock b = b"
  using built_block(5) [of p b] by (simp add: cloneBlock_def clone_def plainDef_def)

lemma built_ID_nonempty: "built p \<Longrightarrow> b \<in> set (blocks p) \<Longrightarrow> blockID b \<noteq> []"
  using built_block(1) [of p b]
  by (auto simp: validateDefinition_None definitionChecks_def ValidSegment_def)

text \<open>The blocks a selection may end at.\<close>

definition matching :: "string \<Rightarrow> Block list \<Rightarrow> Block list" where
  "matching u bs = filter (\<lambda>b. untilTarget b \<and> Object (Def b) = u) bs"

text \<open>The search finds the one block that matches, and refuses two.\<close>

lemma findTarget_matching:
  "\<forall>b\<in>set bs. blockID b \<noteq> [] \<Longrightarrow>
   findTarget u t bs =
     (case matching u bs of [] \<Rightarrow> Some t | [b] \<Rightarrow> if t = [] then Some (blockID b) else None | _ \<Rightarrow> None)"
  by (induction bs arbitrary: t) (auto simp: matching_def split: list.splits)

lemma Bind_found:
  assumes "built p" and "SelUntil s \<noteq> []"
  shows "snd (Bind s p) \<longleftrightarrow> (\<exists>!t. t \<in> set (blocks p) \<and> untilTarget t \<and> Object (Def t) = SelUntil s)"
proof -
  let ?ms = "matching (SelUntil s) (blocks p)"
  have ids: "\<forall>b\<in>set (blocks p). blockID b \<noteq> []" using built_ID_nonempty [OF assms(1)] by blast
  have d: "distinct ?ms"
    using built_distinct [OF assms(1)] by (auto simp: matching_def distinct_map)
  have "snd (Bind s p) \<longleftrightarrow> (\<exists>b. ?ms = [b])"
    using assms(2) ids findTarget_matching [OF ids, of "SelUntil s" "[]"]
    by (auto simp: Bind_def Let_def matching_def simp del: bindLoop.simps split: list.splits dest!: filter_eq_ConsD)
  also have "\<dots> \<longleftrightarrow> (\<exists>!t. t \<in> set ?ms)"
    using d by (cases ?ms; cases "tl ?ms") auto
  finally show ?thesis by (simp add: matching_def)
qed

lemma Bind_admits:
  assumes "built p" and "SelUntil s \<noteq> []" and "Bind s p = (s', True)"
    and t: "t \<in> set (blocks p)" "untilTarget t" "Object (Def t) = SelUntil s"
  shows "within s' = (plan_edges p)\<^sup>* `` {blockID t}"
    "Admits s' b \<longleftrightarrow> Selects (SelStages s) (BlockStage (Def b)) \<and> blockID b \<in> (plan_edges p)\<^sup>* `` {blockID t}"
proof -
  obtain u where u: "u \<in> set (blocks p)" "untilTarget u" "Object (Def u) = SelUntil s"
    "within s' = (plan_edges p)\<^sup>* `` {blockID u}" "SelStages s' = SelStages s" "SelUntil s' = SelUntil s"
    using Bind_closure [OF assms(1-3)] by blast
  have "u = t" using Bind_found [OF assms(1,2)] assms(3) u(1-3) t by auto
  then show "within s' = (plan_edges p)\<^sup>* `` {blockID t}"
    "Admits s' b \<longleftrightarrow> Selects (SelStages s) (BlockStage (Def b)) \<and> blockID b \<in> (plan_edges p)\<^sup>* `` {blockID t}"
    using u(4-6) assms(2) by (simp_all add: Admits_def)
qed

lemma waitingOn_Nil:
  assumes "built p" and "b \<in> set (blocks p)"
  shows "waitingOn p states b = [] \<longleftrightarrow> (\<forall>i\<in>set (dependencies b). blockState states i = BlockDone)"
proof (cases "List.find (\<lambda>c. blockID c \<in> set (dependencies b) \<and> blockState states (blockID c) \<noteq> BlockDone) (blocks p)")
  case None
  then have "\<forall>c\<in>set (blocks p). blockID c \<in> set (dependencies b) \<longrightarrow> blockState states (blockID c) = BlockDone"
    by (auto simp: find_None_iff)
  then have "\<forall>i\<in>set (dependencies b). blockState states i = BlockDone"
    using built_block(2) [OF assms] by auto
  with None show ?thesis by (simp add: waitingOn_def)
next
  case (Some c)
  then have c: "c \<in> set (blocks p)" "blockID c \<in> set (dependencies b)" "blockState states (blockID c) \<noteq> BlockDone"
    by (auto simp: find_Some_iff)
  then show ?thesis
    using built_ID_nonempty [OF assms(1) c(1)] Some by (auto simp: waitingOn_def)
qed

lemma mem_Ready:
  assumes "built p"
  shows "b \<in> set (Ready p states) \<longleftrightarrow> b \<in> set (blocks p) \<and> blockState states (blockID b) = BlockPending \<and>
           (\<forall>i\<in>set (dependencies b). blockState states i = BlockDone)"
proof -
  have "set (Ready p states) = {b \<in> set (blocks p). blockState states (blockID b) = BlockPending \<and> waitingOn p states b = []}"
    using cloneBlock_built [OF assms] by (auto simp: Ready_def image_iff)
  then show ?thesis
    using waitingOn_Nil [OF assms] by auto
qed

lemma Deferrals_block:
  assumes "distinct (map blockID (blocks p))" and "b \<in> set (blocks p)"
  shows "Deferrals p states s (blockID b) = deferralOf p states s b"
proof -
  let ?f = "\<lambda>b m. case deferralOf p states s b of None \<Rightarrow> m | Some d \<Rightarrow> m(blockID b \<mapsto> d)"
  have out: "fold ?f bs m i = m i" if "i \<notin> blockID ` set bs" for bs m i
    using that by (induction bs arbitrary: m) (auto split: option.splits)
  have "fold ?f bs m (blockID b) = (case deferralOf p states s b of None \<Rightarrow> m (blockID b) | Some d \<Rightarrow> Some d)"
    if "distinct (map blockID bs)" "b \<in> set bs" for bs m
    using that
  proof (induction bs arbitrary: m)
    case (Cons c bs)
    show ?case
    proof (cases "b = c")
      case True
      then show ?thesis
        using Cons.prems out [of "blockID c" bs] by (auto split: option.splits)
    next
      case False
      then have b: "b \<in> set bs"
        using Cons.prems by simp
      then have "blockID b \<in> blockID ` set bs"
        by simp
      then have "blockID b \<noteq> blockID c"
        using Cons.prems(1) by auto
      then show ?thesis
        using Cons b by (auto split: option.splits)
    qed
  qed simp
  from this [OF assms, of Map.empty] show ?thesis
    by (auto simp: Deferrals_def split: option.splits)
qed

lemma startable_or_deferred:
  assumes "built p" and "b \<in> set (blocks p)" and "blockState states (blockID b) = BlockPending"
  shows "b \<in> set (Startable p states s) \<longleftrightarrow> Deferrals p states s (blockID b) = None"
proof -
  have "b \<in> set (Startable p states s) \<longleftrightarrow> Admits s b \<and> waitingOn p states b = []"
    using assms waitingOn_Nil [OF assms(1,2)] by (auto simp: Startable_def mem_Ready)
  then show ?thesis
    using Deferrals_block [OF built_distinct [OF assms(1)] assms(2)] assms(3)
    by (simp add: deferralOf_def Let_def)
qed

text \<open>
  A selection that names no stage strands nothing: the closure it ends at contains what its
  blocks wait for, so while every block is pending or done some admitted block can start.
\<close>

lemma finite_plan_edges: "finite (plan_edges p)"
proof -
  have "plan_edges p = (\<Union>b\<in>set (blocks p). {blockID b} \<times> set (dependencies b))"
    by (auto simp: plan_edges_def)
  then show ?thesis
    by simp
qed

definition dependencyClosed :: "Plan \<Rightarrow> Selection \<Rightarrow> bool" where
  "dependencyClosed p s \<longleftrightarrow>
     elems (SelStages s) = [] \<and> (SelUntil s = [] \<or> (\<forall>i\<in>within s. \<forall>d. (i, d) \<in> plan_edges p \<longrightarrow> d \<in> within s))"

lemma Bind_dependencyClosed:
  assumes "built p" and "elems (SelStages s) = []" and "Bind s p = (s', True)"
  shows "dependencyClosed p s'"
proof (cases "SelUntil s = []")
  case True
  then show ?thesis
    using assms(2,3) by (auto simp: Bind_def Let_def dependencyClosed_def)
next
  case False
  then obtain t where "within s' = (plan_edges p)\<^sup>* `` {blockID t}" "SelStages s' = SelStages s"
    using Bind_closure [OF assms(1) False assms(3)] by blast
  then show ?thesis
    using assms(2) by (auto simp: dependencyClosed_def intro: rtrancl_into_rtrancl)
qed

lemma startable_exists:
  assumes p: "built p" and s: "dependencyClosed p s"
    and settled: "\<And>b. b \<in> set (blocks p) \<Longrightarrow> blockState states (blockID b) \<in> {BlockPending, BlockDone}"
    and b: "b \<in> set (blocks p)" "Admits s b" "blockState states (blockID b) = BlockPending"
  shows "Startable p states s \<noteq> []"
proof -
  have "wf ((plan_edges p)\<inverse>)"
    using built_acyclic [OF p] finite_plan_edges by (simp add: finite_acyclic_wf)
  then have "\<forall>b. blockID b = i \<longrightarrow> b \<in> set (blocks p) \<longrightarrow> Admits s b \<longrightarrow> blockState states (blockID b) = BlockPending
      \<longrightarrow> Startable p states s \<noteq> []" for i
  proof (induction i rule: wf_induct_rule)
    case (less i)
    show ?case
    proof (intro allI impI)
      fix b assume b: "blockID b = i" "b \<in> set (blocks p)" "Admits s b" "blockState states (blockID b) = BlockPending"
      show "Startable p states s \<noteq> []"
      proof (cases "\<forall>j\<in>set (dependencies b). blockState states j = BlockDone")
        case True
        then have "b \<in> set (Startable p states s)"
          using b mem_Ready [OF p] by (simp add: Startable_def)
        then show ?thesis by auto
      next
        case False
        then obtain j where j: "j \<in> set (dependencies b)" "blockState states j \<noteq> BlockDone" by auto
        obtain c where c: "c \<in> set (blocks p)" "j = blockID c"
          using built_block(2) [OF p b(2)] j(1) by auto
        have e: "(i, j) \<in> plan_edges p"
          using b(1,2) j(1) by (auto simp: plan_edges_def)
        have "Admits s c"
          using s b(1,3) e c(2) unfolding dependencyClosed_def Admits_def Selects_def by auto
        moreover have "blockState states (blockID c) = BlockPending"
          using settled [OF c(1)] j(2) c(2) by auto
        ultimately show ?thesis
          using less [of j] e c by simp
      qed
    qed
  qed
  with b show ?thesis by blast
qed

text \<open>Ownership: when blocks start only over finished dependencies, what started is closed.\<close>

lemma OwnedSubset_closed:
  assumes "built p"
    and "\<And>b. b \<in> set (blocks p) \<Longrightarrow> blockState states (blockID b) \<noteq> BlockPending \<Longrightarrow>
          \<forall>i\<in>set (dependencies b). blockState states i = BlockDone"
  shows "plan_edges (OwnedSubset p states) \<subseteq> (blockID ` set (blocks (OwnedSubset p states))) \<times> (blockID ` set (blocks (OwnedSubset p states)))"
proof -
  have S: "set (blocks (OwnedSubset p states)) = {b \<in> set (blocks p). blockState states (blockID b) \<noteq> BlockPending}"
    using cloneBlock_built [OF assms(1)] by (auto simp: OwnedSubset_def subsetPlan_def image_iff)
  show ?thesis
  proof (rule subrelI)
    fix i d assume "(i, d) \<in> plan_edges (OwnedSubset p states)"
    then obtain b where b: "b \<in> set (blocks (OwnedSubset p states))" "d \<in> set (dependencies b)" "i = blockID b"
      by (auto simp: plan_edges_def)
    then have bp: "b \<in> set (blocks p)" "blockState states d = BlockDone"
      using assms(2) [of b] by (auto simp: S)
    then obtain c where "c \<in> set (blocks p)" "d = blockID c"
      using built_block(2) [OF assms(1) bp(1)] b(2) by auto
    then show "(i, d) \<in> blockID ` set (blocks (OwnedSubset p states)) \<times> blockID ` set (blocks (OwnedSubset p states))"
      using b(1,3) bp(2) by (auto simp: S)
  qed
qed

end
