(* ===== verification/Records.thy ===== *)
theory Records
  imports Stage
begin

section \<open>The records of an operation\<close>

text \<open>
  \<open>internal/reconciliation/operationstore/records.go\<close>: the data an operation keeps, the bounds
  admission holds it to, and the validation every record passes before it is written and after
  it is read. A pointer is an option, a raw JSON message a slice of bytes.

  The release patterns are regular expressions in the source, matched here by splitting at the
  dots; the check of a timestamp, a parse of RFC 3339 whose UTC rendering must give the text
  back, is the grammar and the calendar that pass it: \<open>dddd-dd-ddTdd:dd:ddZ\<close> with a month, a
  day of that month and a time of day that exist.
\<close>

abbreviation MaxIndexBytes :: nat where "MaxIndexBytes \<equiv> 262144"
abbreviation MaxOperationBytes :: nat where "MaxOperationBytes \<equiv> 1048576"
abbreviation MaxPlanBytes :: nat where "MaxPlanBytes \<equiv> 6291456"
abbreviation MaxAttemptBytes :: nat where "MaxAttemptBytes \<equiv> 65536"
abbreviation MaxOperations :: nat where "MaxOperations \<equiv> 1024"
abbreviation MaxBindings :: nat where "MaxBindings \<equiv> 64"
abbreviation maxTimestamp :: nat where "maxTimestamp \<equiv> 32"
abbreviation maxRecordIdentifier :: nat where "maxRecordIdentifier \<equiv> 256"
abbreviation MaxEntries :: nat where "MaxEntries \<equiv> 8192"
abbreviation ReservedEntries :: nat where "ReservedEntries \<equiv> 1024"
abbreviation MaxBytes :: int where "MaxBytes \<equiv> 67108864"
abbreviation ReservedBytes :: int where "ReservedBytes \<equiv> 16777216"
abbreviation FirstPassBlockBytes :: int where "FirstPassBlockBytes \<equiv> 32768"
abbreviation OperationVersion :: int where "OperationVersion \<equiv> 1"
abbreviation maxRelease :: nat where "maxRelease \<equiv> 80"
abbreviation MaxWarnings :: nat where "MaxWarnings \<equiv> 16"
abbreviation MaxWarningMessage :: nat where "MaxWarningMessage \<equiv> 1024"
abbreviation maxWarningObject :: nat where "maxWarningObject \<equiv> 253"
abbreviation MaxFailureCode :: nat where "MaxFailureCode \<equiv> 64"
abbreviation MaxFailureText :: nat where "MaxFailureText \<equiv> 1024"

definition FirstPassEntries :: "Plan \<Rightarrow> nat" where
  "FirstPassEntries p = 7 + 6 * length (blocks p)"

definition AdmissionEntries :: "Plan \<Rightarrow> nat" where
  "AdmissionEntries p =
     (if PlanVerb p = Destroy then FirstPassEntries p + 1
      else 2 * FirstPassEntries p + ReservedEntries)"

definition AdmissionOperations :: "Plan \<Rightarrow> nat" where
  "AdmissionOperations p = (if PlanVerb p = Destroy then 1 else 2)"

definition AdmissionBytes :: "Plan \<Rightarrow> nat \<Rightarrow> int" where
  "AdmissionBytes p registration = (if PlanVerb p = Destroy then int registration else ReservedBytes)"

subsection \<open>Data\<close>

record Index =
  IndexVersion :: int
  Current :: string

record Executable =
  ExeVersion :: string
  Commit :: string

record Build =
  BuildAutomationDigest :: string
  BuildContentDigest :: string
  BuildExecutable :: Executable
  Modified :: bool

record Closure =
  ClosureDigest :: string
  Python :: string
  Ansible :: string

record Operation =
  OpVersion :: int
  OpID :: string
  OpVerb :: Verb
  OpContext :: string
  Revision :: string
  InputDigest :: string
  PlanDigest :: string
  AutomationDigest :: string
  OpExecutable :: Executable
  OpClosure :: "Closure option"
  OpSource :: string
  Replaces :: string
  Predecessor :: string
  Bindings :: "string slice"
  OpState :: OperationState
  LogFault :: bool
  Created :: string
  OpUpdated :: string

record BlockRecord =
  RecVersion :: int
  RecBlock :: string
  RecState :: BlockState
  Attempts :: int

record ObservationFailure =
  FailureCode :: string
  FailureMessage :: string
  FailureRemediation :: string

record WarningObject =
  WarnedKind :: string
  WarnedName :: string

record Warning =
  WarningCode :: string
  WarningMessage :: string
  WarningOn :: "WarningObject option"

record Attempt =
  AttVersion :: int
  AttBlock :: string
  Number :: int
  Resolution :: int
  Removal :: bool
  Phase :: string
  AttOutcome :: Outcome
  Effect :: EffectState
  AttEvidence :: "char slice"
  Preparation :: "char slice"
  AttFailure :: "ObservationFailure option"
  Warnings :: "Warning slice"
  AttBuild :: Build
  Started :: string
  AttUpdated :: string

definition BuildIdentity :: "Executable \<Rightarrow> string" where
  "BuildIdentity e =
     (if ExeVersion e = [] \<and> Commit e = [] then []
      else if ExeVersion e = [] then ''devel ('' @ Commit e @ '')''
      else if Commit e = [] then ExeVersion e
      else ExeVersion e @ '' ('' @ Commit e @ '')'')"

definition recordError :: "string \<Rightarrow> Failure" where
  "recordError message = NewFailure ''lifecycle.state'' message []"

subsection \<open>Validation\<close>

text \<open>The pattern \<open>0|[1-9][0-9]*\<close>.\<close>

definition numeral_text :: "string \<Rightarrow> bool" where
  "numeral_text s \<longleftrightarrow> s = ''0'' \<or> s \<noteq> [] \<and> hd s \<noteq> CHR ''0'' \<and> list_all is_digit s"

fun split_on :: "char \<Rightarrow> string \<Rightarrow> string list" where
  "split_on c [] = [[]]"
| "split_on c (x # xs) =
     (if x = c then [] # split_on c xs
      else (case split_on c xs of [] \<Rightarrow> [[x]] | s # ss \<Rightarrow> (x # s) # ss))"

definition closureABI :: "string \<Rightarrow> bool" where
  "closureABI s \<longleftrightarrow> length (split_on (CHR ''.'') s) = 2 \<and> list_all numeral_text (split_on (CHR ''.'') s)"

definition closureRelease :: "string \<Rightarrow> bool" where
  "closureRelease s \<longleftrightarrow> length (split_on (CHR ''.'') s) = 3 \<and> list_all numeral_text (split_on (CHR ''.'') s)"

definition leap_year :: "nat \<Rightarrow> bool" where
  "leap_year y \<longleftrightarrow> y mod 4 = 0 \<and> (y mod 100 \<noteq> 0 \<or> y mod 400 = 0)"

definition days_in :: "nat \<Rightarrow> nat \<Rightarrow> nat" where
  "days_in month year =
     (if month = 2 then (if leap_year year then 29 else 28)
      else if month \<in> set [4, 6, 9, 11] then 30 else 31)"

text \<open>Digits where the layout has digits, and the layout's own characters elsewhere.\<close>

definition matches_layout :: "string \<Rightarrow> bool" where
  "matches_layout s \<longleftrightarrow>
     list_all2 (\<lambda>l c. if l = CHR ''d'' then is_digit c else c = l) ''dddd-dd-ddTdd:dd:ddZ'' s"

definition canonical_timestamp :: "string \<Rightarrow> bool" where
  "canonical_timestamp s \<longleftrightarrow>
     matches_layout s \<and>
     (let field = (\<lambda>from n. digits_value (take n (drop from s)));
          year = field 0 4; month = field 5 2; day = field 8 2 in
      1 \<le> month \<and> month \<le> 12 \<and> 1 \<le> day \<and> day \<le> days_in month year \<and>
      field 11 2 < 24 \<and> field 14 2 < 60 \<and> field 17 2 < 60)"

definition validateTimestamps :: "string list \<Rightarrow> Failure option" where
  "validateTimestamps vs = firstError (\<lambda>v.
     if v = [] \<or> length v > maxTimestamp then Some (recordError ''lifecycle record timestamp is invalid'')
     else if \<not> canonical_timestamp v then Some (recordError ''lifecycle record timestamp is not canonical UTC'')
     else None) vs"

definition printable :: "string \<Rightarrow> nat \<Rightarrow> bool" where
  "printable v limit \<longleftrightarrow>
     \<not> (v = [] \<or> length v > limit) \<and> list_all (\<lambda>c. \<not> (byte_of c < 32 \<or> byte_of c > 126)) v"

definition validateIndex :: "Index \<Rightarrow> Failure option" where
  "validateIndex i =
     (if IndexVersion i \<noteq> 1 then Some (recordError ''lifecycle index version is unsupported'')
      else if Current i \<noteq> [] \<and> \<not> ValidOperationID (Current i)
      then Some (recordError ''lifecycle index names an invalid operation'')
      else None)"

definition canonical_digest :: "string \<Rightarrow> bool" where
  "canonical_digest v \<longleftrightarrow>
     (case hex_decode v of None \<Rightarrow> False | Some bs \<Rightarrow> length bs = 32 \<and> hex_encode bs = v)"

definition validateClosure :: "Closure option \<Rightarrow> Failure option" where
  "validateClosure closure =
     (case closure of
        None \<Rightarrow> Some (recordError ''lifecycle operation names no execution closure'')
      | Some c \<Rightarrow>
          if \<not> canonical_digest (ClosureDigest c)
          then Some (recordError ''lifecycle operation execution closure identity is invalid'')
          else if length (Python c) > maxRelease \<or> length (Ansible c) > maxRelease \<or>
             \<not> closureABI (Python c) \<or> \<not> closureRelease (Ansible c)
          then Some (recordError ''lifecycle operation execution closure releases are invalid'')
          else None)"

text \<open>The checks of \<open>validateOperation\<close> after the closure's, in the source's order.\<close>

definition operationChecks :: "Operation \<Rightarrow> (bool \<times> string) list" where
  "operationChecks op =
     [(ValidOperationID (OpID op), ''lifecycle operation identity is invalid''),
      (OpVerb op = Apply \<or> OpVerb op = Destroy, ''lifecycle operation verb is invalid''),
      (ValidOperationState (OpState op), ''lifecycle operation state is invalid''),
      (OpSource op = [] \<or> ValidOperationID (OpSource op), ''lifecycle operation source is invalid''),
      (\<not> (OpVerb op = Destroy \<and> OpSource op = []),
       ''a destroy operation requires the applied operation it removes''),
      (\<not> (Replaces op \<noteq> [] \<and> (OpVerb op \<noteq> Destroy \<or> \<not> ValidOperationID (Replaces op) \<or>
          Replaces op = OpID op \<or> Replaces op = OpSource op)),
       ''lifecycle operation replacement is invalid''),
      (\<not> (Predecessor op \<noteq> [] \<and> (OpVerb op \<noteq> Apply \<or> \<not> ValidOperationID (Predecessor op) \<or>
          Predecessor op = OpID op)),
       ''lifecycle operation predecessor is invalid''),
      (list_all (\<lambda>v. \<not> (v = [] \<or> length v > maxRecordIdentifier))
         [OpContext op, Revision op, InputDigest op, PlanDigest op, AutomationDigest op],
       ''lifecycle operation identity fields are incomplete''),
      (\<not> (length (ExeVersion (OpExecutable op)) > maxRecordIdentifier \<or>
          length (Commit (OpExecutable op)) > maxRecordIdentifier),
       ''lifecycle operation executable identity exceeds its bound''),
      (\<not> (Bindings op = None \<or> length (elems (Bindings op)) > MaxBindings \<or> \<not> sorted (elems (Bindings op))),
       ''lifecycle operation bindings must be a bounded ordered set''),
      (list_all (\<lambda>b. \<not> (b = [] \<or> length b > maxRecordIdentifier)) (elems (Bindings op)),
       ''lifecycle operation binding identity is invalid''),
      (length (remdups_adj (elems (Bindings op))) = length (elems (Bindings op)),
       ''lifecycle operation bindings must be unique'')]"

definition firstCheck :: "(bool \<times> string) list \<Rightarrow> Failure option" where
  "firstCheck checks = firstError (\<lambda>(ok, message). if ok then None else Some (recordError message)) checks"

text \<open>The first error of two checks made one after the other.\<close>

definition orElse :: "'e option \<Rightarrow> 'e option \<Rightarrow> 'e option" where
  "orElse a b = (case a of Some e \<Rightarrow> Some e | None \<Rightarrow> b)"

definition validateOperation :: "Operation \<Rightarrow> Failure option" where
  "validateOperation op =
     (if OpVersion op \<noteq> OperationVersion
      then Some (recordError ''lifecycle operation version is unsupported'')
      else orElse (validateClosure (OpClosure op))
        (orElse (firstCheck (operationChecks op)) (validateTimestamps [Created op, OpUpdated op])))"

definition validateRegistration :: "Operation \<Rightarrow> Failure option" where
  "validateRegistration op =
     (if OpVersion op \<noteq> OperationVersion
      then Some (recordError ''a lifecycle operation registers only at the current record version'')
      else validateOperation op)"

definition validateBlock :: "BlockRecord \<Rightarrow> Failure option" where
  "validateBlock r = firstCheck
     [(\<not> (RecVersion r \<noteq> 1 \<or> \<not> ValidSegment (RecBlock r)), ''lifecycle block record identity is invalid''),
      (ValidBlockState (RecState r), ''lifecycle block record state is invalid''),
      (\<not> (Attempts r < 0 \<or> Attempts r > MaxAttempt), ''lifecycle block attempt count is out of range'')]"

definition validateBuild :: "Build \<Rightarrow> Failure option" where
  "validateBuild b =
     (if \<not> list_all canonical_digest [BuildAutomationDigest b, BuildContentDigest b]
      then Some (recordError ''lifecycle attempt build digests are invalid'')
      else if length (ExeVersion (BuildExecutable b)) > maxRecordIdentifier \<or>
         length (Commit (BuildExecutable b)) > maxRecordIdentifier \<or>
         \<not> utf8_valid (ExeVersion (BuildExecutable b)) \<or> \<not> utf8_valid (Commit (BuildExecutable b))
      then Some (recordError ''lifecycle attempt build executable identity is invalid'')
      else None)"

definition validFailure :: "Attempt \<Rightarrow> ObservationFailure \<Rightarrow> bool" where
  "validFailure r f \<longleftrightarrow>
     Resolution r \<noteq> 0 \<and> Phase r = ''observed'' \<and> Effect r = EffectUnknown \<and>
     FailureCode f \<noteq> [] \<and> length (FailureCode f) \<le> MaxFailureCode \<and>
     FailureMessage f \<noteq> [] \<and> length (FailureMessage f) \<le> MaxFailureText \<and>
     length (FailureRemediation f) \<le> MaxFailureText \<and>
     utf8_valid (FailureCode f) \<and> utf8_valid (FailureMessage f) \<and> utf8_valid (FailureRemediation f)"

definition validWarning :: "Warning \<Rightarrow> bool" where
  "validWarning w \<longleftrightarrow>
     printable (WarningCode w) MaxFailureCode \<and> printable (WarningMessage w) MaxWarningMessage \<and>
     (case WarningOn w of None \<Rightarrow> True
      | Some obj \<Rightarrow> printable (WarnedKind obj) maxWarningObject \<and> printable (WarnedName obj) maxWarningObject)"

definition validWarnings :: "Attempt \<Rightarrow> bool" where
  "validWarnings r \<longleftrightarrow>
     (case Warnings r of
        None \<Rightarrow> True
      | Some ws \<Rightarrow>
          \<not> (Resolution r \<noteq> 0 \<or> ws = [] \<or> length ws > MaxWarnings) \<and> list_all validWarning ws)"

definition errorOf :: "'e + 'a \<Rightarrow> 'e option" where
  "errorOf r = (case r of Inl e \<Rightarrow> Some e | Inr _ \<Rightarrow> None)"

text \<open>A running attempt carries no evidence, which reads back as null or as nothing.\<close>

definition phaseCheck :: "Attempt \<Rightarrow> Failure option" where
  "phaseCheck r =
     (if Phase r = ''running'' then firstCheck
        [(\<not> (AttOutcome r \<noteq> [] \<or> Effect r \<noteq> [] \<or>
             \<not> (elems (AttEvidence r) = [] \<or> elems (AttEvidence r) = ''null'')),
          ''a running lifecycle attempt carries no outcome or evidence'')]
      else firstCheck
        [(ValidOutcome (AttOutcome r) \<and> ValidEffectState (Effect r),
          ''an observed lifecycle attempt requires its outcome and effect state''),
         (length (elems (AttEvidence r)) \<le> MaxAttemptBytes, ''lifecycle attempt evidence exceeds its bound'')])"

definition validateAttempt :: "Attempt \<Rightarrow> Failure option" where
  "validateAttempt r =
     orElse (firstCheck [(\<not> (AttVersion r \<noteq> 1 \<or> \<not> ValidSegment (AttBlock r)), ''lifecycle attempt identity is invalid'')])
     (orElse (errorOf (FormatNumber (Number r)))
     (orElse (if Resolution r \<noteq> 0 then errorOf (FormatNumber (Resolution r)) else None)
     (orElse (firstCheck
        [(Phase r = ''running'' \<or> Phase r = ''observed'', ''lifecycle attempt phase is invalid''),
         (length (elems (Preparation r)) \<le> MaxAttemptBytes, ''lifecycle attempt preparation exceeds its bound'')])
     (orElse (phaseCheck r)
     (orElse (firstCheck
        [(\<not> (Removal r \<and> Resolution r = 0), ''only a lifecycle resolution record can be a removal'' @ [CHR 0x27] @ ''s''),
         (case AttFailure r of None \<Rightarrow> True | Some f \<Rightarrow> validFailure r f, ''lifecycle attempt failure is invalid''),
         (validWarnings r, ''lifecycle attempt warnings are invalid'')])
     (orElse (validateBuild (AttBuild r)) (validateTimestamps [Started r, AttUpdated r])))))))"

subsection \<open>Laws\<close>

lemma orElse_None [simp]: "orElse a b = None \<longleftrightarrow> a = None \<and> b = None"
  by (cases a) (simp_all add: orElse_def)

lemma firstCheck_None [simp]: "firstCheck cs = None \<longleftrightarrow> (\<forall>c\<in>set cs. fst c)"
  by (auto simp: firstCheck_def split: prod.splits)

lemma canonical_digest_validDigest: "canonical_digest v = validDigest v"
proof -
  have l: "hex_encode bs = v \<Longrightarrow> length bs = 32 \<longleftrightarrow> length v = 64" for bs
    by (drule sym) simp
  show ?thesis
  proof (cases "hex_decode v")
    case None
    then show ?thesis by (simp add: canonical_digest_def validDigest_def)
  next
    case (Some bs)
    then show ?thesis
      using l [of bs] by (simp only: canonical_digest_def validDigest_def option.case if_not_P) argo
  qed
qed

lemma plain_digest: "length s = 64 \<Longrightarrow> list_all lower_hex s \<Longrightarrow> canonical_digest s"
  by (simp add: canonical_digest_validDigest validDigest_iff)

lemma plain_identity: "length r = 32 \<Longrightarrow> list_all lower_hex r \<Longrightarrow> ValidOperationID (''op-'' @ r)"
  unfolding ValidOperationID_def by (subst validIdentity_iff) simp

lemma days_in_bound: "days_in m y \<le> 31"
  by (simp add: days_in_def)

text \<open>A timestamp the records accept has the one layout, of twenty bytes.\<close>

lemma canonical_timestamp_length: "canonical_timestamp s \<Longrightarrow> length s = 20"
proof -
  assume "canonical_timestamp s"
  then have "matches_layout s" by (simp only: canonical_timestamp_def)
  from list_all2_lengthD [OF this [unfolded matches_layout_def]] show "length s = 20" by simp
qed

text \<open>What a validated operation guarantees of the lineage it is part of.\<close>

lemma validateOperation_references:
  assumes "validateOperation op = None"
  shows "ValidOperationID (OpID op)" "OpVerb op = Apply \<or> OpVerb op = Destroy"
    "OpVerb op = Destroy \<Longrightarrow> ValidOperationID (OpSource op)"
    "Predecessor op \<noteq> [] \<Longrightarrow> OpVerb op = Apply \<and> ValidOperationID (Predecessor op) \<and> Predecessor op \<noteq> OpID op"
    "Replaces op \<noteq> [] \<Longrightarrow> OpVerb op = Destroy \<and> Replaces op \<noteq> OpID op \<and> Replaces op \<noteq> OpSource op"
    "distinct (elems (Bindings op))" "sorted (elems (Bindings op))"
proof -
  have c: "\<forall>c\<in>set (operationChecks op). fst c"
    using assms by (auto simp: validateOperation_def split: if_splits)
  note c = c [unfolded operationChecks_def, simplified]
  show "ValidOperationID (OpID op)" "OpVerb op = Apply \<or> OpVerb op = Destroy"
    "OpVerb op = Destroy \<Longrightarrow> ValidOperationID (OpSource op)"
    "Predecessor op \<noteq> [] \<Longrightarrow> OpVerb op = Apply \<and> ValidOperationID (Predecessor op) \<and> Predecessor op \<noteq> OpID op"
    "Replaces op \<noteq> [] \<Longrightarrow> OpVerb op = Destroy \<and> Replaces op \<noteq> OpID op \<and> Replaces op \<noteq> OpSource op"
    "sorted (elems (Bindings op))"
    using c by auto
  have "length (remdups_adj (elems (Bindings op))) = length (elems (Bindings op))"
    using c by auto
  then show "distinct (elems (Bindings op))"
    using sorted_distinct_remdups_adj [OF \<open>sorted (elems (Bindings op))\<close>]
    by (metis card_distinct distinct_card remdups_adj_set)
qed

end
