(* ===== verification/Transitions.thy ===== *)
theory Transitions
  imports Records
begin

section \<open>What an invocation does to a held operation, and what authorizes it\<close>

text \<open>
  The pure rules of \<open>internal/reconciliation/lifecycle\<close>: the transition table of
  \<open>transitions.go\<close>, the action an operation's own records call for (\<open>attempts.go\<close>), the
  commands a refusal names (\<open>commands.go\<close>) and the comparison of the supplied authorizations
  with the tokens a frozen plan consumes (\<open>authorization.go\<close>).

  \<open>classify\<close> reads a requested verb and the standing of the operation the context holds;
  \<open>authorize\<close> accepts exactly the tokens the plan consumes (\<open>authorize_None_iff\<close>), so the flags
  that \<open>authorizing\<close> names pass it (\<open>authorizing_accepted\<close>).
\<close>

datatype transitionKind =
    transitionFresh
  | transitionContinue
  | transitionResolve
  | transitionFinalize
  | transitionReplaceRemoval
  | transitionSettle
  | transitionAdd
  | transitionRefuse

text \<open>The field \<open>held\<close> of the source is \<open>isHeld\<close>, the others carry the prefix of their record.\<close>

record standing =
  isHeld :: bool
  heldVerb :: Verb
  heldState :: OperationState
  heldPending :: bool
  heldUnknown :: bool
  additive :: bool

text \<open>A Go map of block states read at an absent key gives the empty string.\<close>

definition stateAt :: "BlockStates \<Rightarrow> string \<Rightarrow> BlockState" where
  "stateAt states i = (case states i of Some s \<Rightarrow> s | None \<Rightarrow> [])"

definition unproved :: "BlockState \<Rightarrow> bool" where
  "unproved s \<longleftrightarrow> s = BlockUnknown \<or> s = BlockRunning"

definition pendingRemains :: "Plan \<Rightarrow> BlockStates \<Rightarrow> bool" where
  "pendingRemains p states \<longleftrightarrow> list_ex (\<lambda>b. stateAt states (blockID b) \<noteq> BlockDone) (blocks p)"

definition standingOf :: "Operation \<Rightarrow> Plan \<Rightarrow> BlockStates \<Rightarrow> standing" where
  "standingOf op p states =
     \<lparr>isHeld = True, heldVerb = OpVerb op, heldState = OpState op, heldPending = pendingRemains p states,
      heldUnknown = list_ex (\<lambda>b. stateAt states (blockID b) = BlockUnknown) (blocks p), additive = False\<rparr>"

definition replaces :: "Verb \<Rightarrow> OperationState \<Rightarrow> bool" where
  "replaces verb state \<longleftrightarrow>
     verb = Apply \<and> state \<noteq> OperationDone \<or> verb = Destroy \<and> state = OperationFailed"

definition classify :: "Verb \<Rightarrow> standing \<Rightarrow> transitionKind" where
  "classify requested held =
     (if \<not> isHeld held then (if requested = Destroy then transitionSettle else transitionFresh)
      else
        (let incomplete = heldState held \<noteq> OperationDone in
         if \<not> heldPending held \<and> heldVerb held = requested \<and>
            heldState held \<in> set [OperationRunning, OperationUnknown, OperationFailed]
         then transitionFinalize
         else if requested = Destroy \<and> replaces (heldVerb held) (heldState held)
         then transitionReplaceRemoval
         else if incomplete \<and> heldVerb held \<noteq> requested then transitionRefuse
         else if incomplete \<and> heldUnknown held then transitionResolve
         else if incomplete then transitionContinue
         else if heldVerb held = Destroy \<and> heldPending held then transitionRefuse
         else if heldVerb held = requested \<and> requested = Apply \<and> additive held then transitionAdd
         else if heldVerb held = requested then transitionSettle
         else transitionFresh))"

definition chosenVerb :: "standing \<Rightarrow> Verb" where
  "chosenVerb held =
     (if \<not> isHeld held then Apply
      else if heldState held \<noteq> OperationDone then heldVerb held
      else if heldVerb held = Apply \<and> \<not> additive held then Destroy
      else Apply)"

definition nextAction :: "Operation \<Rightarrow> Plan \<Rightarrow> BlockStates \<Rightarrow> string" where
  "nextAction op p states =
     (case classify (OpVerb op) (standingOf op p states) of
        transitionSettle \<Rightarrow> ''none''
      | transitionRefuse \<Rightarrow> ''none''
      | transitionReplaceRemoval \<Rightarrow> Destroy
      | transitionResolve \<Rightarrow> ''resolve''
      | _ \<Rightarrow> ''continue-'' @ OpVerb op)"

record BlockResult =
  ResultID :: string
  ResultDescription :: string
  ResultStage :: string
  ResultState :: string

definition blockResults :: "Plan \<Rightarrow> BlockStates \<Rightarrow> BlockResult list" where
  "blockResults p states =
     map (\<lambda>b. let state = stateAt states (blockID b) in
       \<lparr>ResultID = blockID b, ResultDescription = Description (Def b), ResultStage = BlockStage (Def b),
        ResultState = (if state = [] then BlockPending else state)\<rparr>) (blocks p)"

subsection \<open>Commands\<close>

definition contextCommand :: "string \<Rightarrow> string \<Rightarrow> string list \<Rightarrow> string" where
  "contextCommand contextName verb flags =
     join '' '' ([''bootwright'', verb, ''--context'', contextName] @ flags)"

abbreviation DigestPlaceholder :: string where "DigestPlaceholder \<equiv> ''<digest bootwright plan prints>''"

text \<open>The tokens in the order the blocks first consume them.\<close>

fun requiredLoop :: "string list \<Rightarrow> string list \<Rightarrow> string list" where
  "requiredLoop [] required = required"
| "requiredLoop (t # ts) required =
     requiredLoop ts (if t \<notin> set required then required @ [t] else required)"

definition requiredTokens :: "Plan \<Rightarrow> string list" where
  "requiredTokens p = requiredLoop (concat (map (\<lambda>b. elems (Consumes (Def b))) (blocks p))) []"

definition boundFlags :: "Plan \<Rightarrow> (string \<Rightarrow> string) \<Rightarrow> string list" where
  "boundFlags p digest = concat (map (\<lambda>t. [''--authorize'', t @ ''='' @ digest t]) (requiredTokens p))"

abbreviation NUL :: char where "NUL \<equiv> CHR 0x00"

definition AuthorizationDigest :: "Plan \<Rightarrow> string \<Rightarrow> string" where
  "AuthorizationDigest p token =
     take 16 (sha256_hex (''bootwright.authorization-v1'' @ NUL # token @
       concat (map (\<lambda>b. NUL # blockID b @ NUL # Kind (Def b) @ NUL # Object (Def b) @ NUL # Implementation (Def b)
                        @ NUL # ContentDigest (Def b) @ NUL # RequestDigest b)
         (filter (\<lambda>b. token \<in> set (elems (Consumes (Def b)))) (blocks p)))))"

definition authorizing :: "Plan \<Rightarrow> string list" where
  "authorizing p = boundFlags p (AuthorizationDigest p)"

definition authorizingUnfixed :: "Plan \<Rightarrow> string list" where
  "authorizingUnfixed p = boundFlags p (\<lambda>_. DigestPlaceholder)"

definition resolutionRemedy :: "string \<Rightarrow> Verb \<Rightarrow> Plan \<Rightarrow> bool \<Rightarrow> string" where
  "resolutionRemedy contextName verb p partial =
     (if verb \<noteq> Apply then
        (if partial
         then ''run the destroy this result'' @ [CHR 0x27] @ ''s last diagnostic names, which converges it''
         else ''run the destroy this result'' @ [CHR 0x27] @ ''s last diagnostic names, which performs it'')
      else
        (let continuation = contextCommand contextName verb (authorizing p) in
         if partial then ''repeat '' @ continuation @ '' to converge it, or take back what it owns with ''
              @ contextCommand contextName Destroy []
         else ''repeat '' @ continuation @ '' to perform it''))"

definition ReopenBindings :: "string \<Rightarrow> string \<Rightarrow> string" where
  "ReopenBindings contextName again =
     (if again \<noteq> [] then ''repeat '' @ again @ '', which reopens this operation'' @ [CHR 0x27] @ ''s Secret bindings''
      else ''run '' @ contextCommand contextName ''status'' [] @ '' and repeat the command it names, which reopens this operation''
           @ [CHR 0x27] @ ''s Secret bindings'')"

definition reviewStatus :: "string \<Rightarrow> string" where
  "reviewStatus contextName = ''review its durable state with '' @ contextCommand contextName ''status'' []"

definition takeBackUnder :: "string \<Rightarrow> string \<Rightarrow> string" where
  "takeBackUnder contextName held =
     ''take back what this operation owns under '' @ held @ '' with '' @ contextCommand contextName Destroy []"

definition registeredWith :: "Executable \<Rightarrow> string" where
  "registeredWith e =
     (if BuildIdentity e \<noteq> [] then ''bootwright '' @ BuildIdentity e
      else ''the executable its operation.json records'')"

definition continuationCommand :: "string \<Rightarrow> Operation \<Rightarrow> Plan \<Rightarrow> BlockStates \<Rightarrow> string" where
  "continuationCommand contextName op p states =
     (let action = nextAction op p states in
      if action = ''none'' then []
      else if action = Destroy
      then contextCommand contextName action (authorizingUnfixed (RemainingSubset p states))
      else if \<not> pendingRemains p states then contextCommand contextName (OpVerb op) []
      else contextCommand contextName (OpVerb op) (authorizing p))"

subsection \<open>Authorization\<close>

definition failure :: "string \<Rightarrow> string \<Rightarrow> string \<Rightarrow> Failure" where
  "failure code message remediation = NewFailureWithRemediation code message [] remediation"

definition invocationFlags :: "Selection \<Rightarrow> string list \<Rightarrow> string list \<Rightarrow> string list" where
  "invocationFlags s auth unregistered =
     (if elems (SelStages s) \<noteq> [] then [''--stage'', join '','' (Names (SelStages s))] else [])
     @ (if SelUntil s \<noteq> [] then [''--until'', SelUntil s] else [])
     @ auth
     @ (if unregistered \<noteq> [] then [''--unregistered'', join '','' (remdups_adj (sort unregistered))] else [])"

definition suppliedToken :: "string \<Rightarrow> string" where
  "suppliedToken supplied = fst (cut_at ''='' supplied)"

definition suppliedDigest :: "string \<Rightarrow> string" where
  "suppliedDigest supplied = fst (snd (cut_at ''='' supplied))"

text \<open>The map from a token to the digest it was supplied with last; an absent one reads empty.\<close>

definition suppliedDigests :: "string list \<Rightarrow> string \<Rightarrow> string" where
  "suppliedDigests authorizations =
     fold (\<lambda>a m. m(suppliedToken a := suppliedDigest a)) authorizations (\<lambda>_. [])"

definition consumersOf :: "Plan \<Rightarrow> string \<Rightarrow> string list" where
  "consumersOf p token =
     concat (map (\<lambda>(index, b). map (\<lambda>_. ''step '' @ decimal (index + 1) @ '' ('' @ Description (Def b) @ '')'')
         (filter ((=) token) (elems (Consumes (Def b)))))
       (zip [0..<length (blocks p)] (blocks p)))"

definition authorize ::
  "string \<Rightarrow> Verb \<Rightarrow> Selection \<Rightarrow> Plan \<Rightarrow> string list \<Rightarrow> string list \<Rightarrow> bool \<Rightarrow> Failure option" where
  "authorize contextName verb s p authorizations unregistered unattended =
     (let required = requiredTokens p;
          digests = suppliedDigests authorizations;
          authFlags = concat (map (\<lambda>t. [''--authorize'', if unattended then t @ ''='' @ DigestPlaceholder else t]) required);
          passing = contextCommand contextName verb (invocationFlags s authFlags unregistered);
          supplied = remdups_adj (sort (map suppliedToken authorizations)) in
      orElse
        (firstError (\<lambda>t. if t \<notin> set required
             then Some (failure ''lifecycle.authorization''
               (''this plan requires no '' @ t @ '' authorization'')
               (''repeat '' @ passing @ '' without --authorize '' @ t))
             else None) supplied)
        (firstError (\<lambda>t.
             if t \<notin> set supplied
             then Some (failure ''lifecycle.authorization''
               (''this plan has '' @ t @ '' consequences that are not authorized: '' @ join '', '' (consumersOf p t))
               (''repeat it with the authorization: '' @ passing))
             else if digests t \<noteq> [] \<and> digests t \<noteq> AuthorizationDigest p t
             then Some (failure ''lifecycle.authorization''
               (''--authorize '' @ t @ ''='' @ digests t @ '' names steps this plan no longer holds: its '' @ t
                @ '' steps are now '' @ join '', '' (consumersOf p t))
               (''review them with '' @ contextCommand contextName ''plan'' [] @ '', then repeat '' @ passing))
             else if digests t = [] \<and> unattended
             then Some (failure ''lifecycle.authorization''
               (''an unattended '' @ verb @ '' must bind --authorize '' @ t @ '' to the steps it authorizes: ''
                @ join '', '' (consumersOf p t))
               (''review them with '' @ contextCommand contextName ''plan'' [] @ '', then repeat '' @ passing))
             else None) required))"

subsection \<open>The transition table\<close>

text \<open>The recognized verbs and states differ; proofs use only that, never their letters.\<close>

lemma verb_states_differ:
  "Apply \<noteq> Destroy" "OperationFailed \<noteq> OperationDone" "OperationRunning \<noteq> OperationDone" "OperationUnknown \<noteq> OperationDone"
  by simp_all

lemma classify_table:
  "classify requested h =
     (if \<not> isHeld h then (if requested = Destroy then transitionSettle else transitionFresh)
      else if heldState h = OperationDone then
        (if heldVerb h = Destroy \<and> heldPending h then transitionRefuse
         else if heldVerb h \<noteq> requested then transitionFresh
         else if requested = Apply \<and> additive h then transitionAdd
         else transitionSettle)
      else if heldVerb h = requested \<and> \<not> heldPending h \<and> heldState h \<in> {OperationRunning, OperationUnknown, OperationFailed}
        then transitionFinalize
      else if requested = Destroy \<and> (heldVerb h = Apply \<or> heldVerb h = Destroy \<and> heldState h = OperationFailed)
        then transitionReplaceRemoval
      else if heldVerb h \<noteq> requested then transitionRefuse
      else if heldUnknown h then transitionResolve
      else transitionContinue)"
proof (cases "heldState h = OperationDone")
  case True
  then show ?thesis
    unfolding classify_def Let_def replaces_def by simp
next
  case False
  then show ?thesis
    unfolding classify_def Let_def replaces_def by simp blast
qed

lemma classify_own_verb:
  "classify requested h \<in> {transitionContinue, transitionResolve, transitionFinalize} \<Longrightarrow>
   isHeld h \<and> heldVerb h = requested \<and> heldState h \<noteq> OperationDone"
  unfolding classify_table by (cases "isHeld h"; cases "heldVerb h = requested"; cases "heldState h = OperationDone")
    (simp_all split: if_splits)

lemma classify_chosen:
  "classify (chosenVerb h) h = transitionRefuse \<longleftrightarrow>
     isHeld h \<and> heldState h = OperationDone \<and> heldVerb h = Destroy \<and> heldPending h"
  unfolding classify_table chosenVerb_def
  by (cases "isHeld h"; cases "heldVerb h = Apply"; cases "heldVerb h = Destroy"; cases "heldState h = OperationDone") simp_all

subsection \<open>Tokens\<close>

lemma requiredLoop_spec:
  "set (requiredLoop ts r) = set r \<union> set ts" "distinct r \<Longrightarrow> distinct (requiredLoop ts r)"
  by (induction ts arbitrary: r) auto

lemma set_requiredTokens: "set (requiredTokens p) = (\<Union>b\<in>set (blocks p). set (elems (Consumes (Def b))))"
  by (simp add: requiredTokens_def requiredLoop_spec)

lemma distinct_requiredTokens: "distinct (requiredTokens p)"
  by (simp add: requiredTokens_def requiredLoop_spec)

lemma authorize_None_iff:
  "authorize n v s p as u unattended = None \<longleftrightarrow>
     suppliedToken ` set as = set (requiredTokens p) \<and>
     (\<forall>t\<in>set (requiredTokens p).
        if suppliedDigests as t = [] then \<not> unattended
        else suppliedDigests as t = AuthorizationDigest p t)"
  by (auto simp: authorize_def Let_def split: if_splits)

lemma has_prefix_single: "has_prefix s [c] \<longleftrightarrow> s \<noteq> [] \<and> hd s = c"
  by (cases s) (auto simp: has_prefix_def)

lemma cut_at_separator: "c \<notin> set t \<Longrightarrow> cut_at [c] (t @ c # d) = (t, d, True)"
  by (induction t) (auto simp: has_prefix_single)

lemma suppliedToken_bound: "CHR ''='' \<notin> set t \<Longrightarrow> suppliedToken (t @ ''='' @ d) = t"
  and suppliedDigest_bound: "CHR ''='' \<notin> set t \<Longrightarrow> suppliedDigest (t @ ''='' @ d) = d"
  by (simp_all add: suppliedToken_def suppliedDigest_def cut_at_separator)

lemma suppliedDigests_bound:
  assumes "distinct ts" "\<forall>t\<in>set ts. CHR ''='' \<notin> set t" "t \<in> set ts"
  shows "suppliedDigests (map (\<lambda>t. t @ ''='' @ d t) ts) t = d t"
proof -
  have out: "fold (\<lambda>a m. m(suppliedToken a := suppliedDigest a)) (map (\<lambda>t. t @ ''='' @ d t) us) m t = m t"
    if "t \<notin> set us" "\<forall>t\<in>set us. CHR ''='' \<notin> set t" for us m t
    using that
    by (induction us arbitrary: m) (auto simp: suppliedToken_bound suppliedDigest_bound simp del: append.simps)
  have "fold (\<lambda>a m. m(suppliedToken a := suppliedDigest a)) (map (\<lambda>t. t @ ''='' @ d t) ts) m t = d t" for m
    using assms
  proof (induction ts arbitrary: m)
    case (Cons u us)
    then show ?case
      by (cases "t = u") (auto simp: out suppliedToken_bound suppliedDigest_bound fun_upd_same
          simp del: append.simps fun_upd_apply)
  qed simp
  then show ?thesis
    by (simp only: suppliedDigests_def)
qed

text \<open>The values of the flags a command names, every second word of them.\<close>

fun flagValues :: "string list \<Rightarrow> string list" where
  "flagValues (flag # v # r) = v # flagValues r"
| "flagValues _ = []"

lemma flagValues_boundFlags: "flagValues (boundFlags p d) = map (\<lambda>t. t @ ''='' @ d t) (requiredTokens p)"
proof -
  have "flagValues (concat (map (\<lambda>t. [''--authorize'', t @ ''='' @ d t]) ts)) = map (\<lambda>t. t @ ''='' @ d t) ts" for ts
    by (induction ts) auto
  then show ?thesis
    by (simp only: boundFlags_def)
qed

lemma AuthorizationDigest_nonempty: "AuthorizationDigest p t \<noteq> []"
proof -
  have "length (AuthorizationDigest p t) = 16"
    by (simp add: AuthorizationDigest_def)
  then show ?thesis by auto
qed

lemma built_tokens:
  assumes "built p" and "t \<in> set (requiredTokens p)"
  shows "t = AuthorizationDataLoss"
proof -
  obtain b where b: "b \<in> set (blocks p)" "t \<in> set (elems (Consumes (Def b)))"
    using assms(2) by (auto simp: set_requiredTokens)
  have "list_all ValidAuthorization (elems (Consumes (Def b)))"
    using built_block(1) [OF assms(1) b(1)] by (auto simp: validateDefinition_None definitionChecks_def)
  with b(2) show ?thesis
    by (auto simp: list_all_iff ValidAuthorization_def)
qed

lemma authorizing_accepted:
  assumes "built p"
  shows "authorize n v s p (flagValues (authorizing p)) u unattended = None"
proof -
  let ?ts = "requiredTokens p"
  have no_eq: "\<forall>t\<in>set ?ts. CHR ''='' \<notin> set t"
    using built_tokens [OF assms] by fastforce
  have vals: "flagValues (authorizing p) = map (\<lambda>t. t @ ''='' @ AuthorizationDigest p t) ?ts"
    by (simp only: authorizing_def flagValues_boundFlags)
  have "suppliedToken ` set (flagValues (authorizing p)) = set ?ts"
    unfolding vals using no_eq by (auto simp: image_image suppliedToken_bound simp del: append.simps)
  moreover have "suppliedDigests (flagValues (authorizing p)) t = AuthorizationDigest p t" if "t \<in> set ?ts" for t
    unfolding vals by (rule suppliedDigests_bound [OF distinct_requiredTokens no_eq that])
  ultimately show ?thesis
    by (simp add: authorize_None_iff AuthorizationDigest_nonempty)
qed

end
