(* ===== verification/Phases.thy ===== *)
theory Phases
  imports Transitions
begin

section \<open>The phases of a removal\<close>

text \<open>
  \<open>internal/reconciliation/lifecycle/removal_phases.go\<close>: which inverses of a removal run while
  the Machines are still up (\<open>onlineEffects\<close>, \<open>effects\<close> in the source), which Machines wait for those (\<open>machines\<close>), which run
  before everything else (\<open>preStop\<close>), which blocks are retired with the hosts the same removal
  takes away (\<open>retired\<close>), and which consumers outlive what the removal would take back
  (\<open>survivors\<close>).

  A capability is the record of the optional interfaces the source asks for by a type
  assertion: \<open>None\<close> where the capability does not have the interface. A method whose error the source only tests for returns
  \<open>None\<close> for it, the others their failure. The resolver is an argument; nothing is assumed of it.

  One pass over the blocks in dependency order propagates to every transitive dependent
  (\<open>propagated\<close>, \<open>reachBefore_closure\<close>), which is what the source relies on; the loop of
  \<open>computePhases\<close> ends because each turn retires less, and what it ends with is stable
  (\<open>computePhases_stable\<close>).
\<close>

record ProducedInput =
  InputKind :: string
  InputObject :: string
  InputOutput :: string

record Capability =
  RequiresPreStopRemoval :: "(Block \<Rightarrow> bool) option"
  ProbesQuiescence :: "bool option"
  HostMachines :: "(Block \<Rightarrow> string list option) option"
  RequiresOnlineRemoval :: "(Block \<Rightarrow> bool) option"
  RemovesHost :: "(Block \<Rightarrow> bool) option"
  DeletesMachine :: "(Block \<Rightarrow> bool) option"
  ProducedInputs :: "(Block \<Rightarrow> ProducedInput list result) option"
  ProducedOutputs :: "(Block \<Rightarrow> string list result) option"
  HostObject :: "(Block \<Rightarrow> ObjectRef option) option"
  NodeMachines :: "(Block \<Rightarrow> string list option) option"
  StageTail :: "(BlockDefinition \<Rightarrow> (ObjectRef \<times> bool) result) option"

type_synonym Resolver = "string \<Rightarrow> string \<Rightarrow> Capability option"

definition capabilityOf :: "Resolver \<Rightarrow> Block \<Rightarrow> Capability option" where
  "capabilityOf resolve b = resolve (Kind (Def b)) (Implementation (Def b))"

text \<open>A method of an optional interface that the block's capability resolves and has.\<close>

definition asks :: "(Capability \<Rightarrow> (Block \<Rightarrow> bool) option) \<Rightarrow> Resolver \<Rightarrow> Block \<Rightarrow> bool" where
  "asks method resolve b =
     (case capabilityOf resolve b of
        None \<Rightarrow> False
      | Some c \<Rightarrow> (case method c of None \<Rightarrow> False | Some f \<Rightarrow> f b))"

definition probes :: "Resolver \<Rightarrow> Block \<Rightarrow> bool" where
  "probes resolve b =
     (case capabilityOf resolve b of None \<Rightarrow> False | Some c \<Rightarrow> ProbesQuiescence c = Some True)"

text \<open>The machines a host-bound block runs on; \<open>None\<close> when it is not bound or cannot say.\<close>

definition hostsOf :: "Resolver \<Rightarrow> Block \<Rightarrow> string list option" where
  "hostsOf resolve b =
     (case capabilityOf resolve b of
        None \<Rightarrow> None
      | Some c \<Rightarrow> (case HostMachines c of None \<Rightarrow> None | Some f \<Rightarrow> f b))"

record SurvivingConsumer =
  Consumer :: ObjectRef
  Provider :: ObjectRef

record removalPhases =
  onlineEffects :: "string set"
  machines :: "string set"
  retired :: "string \<rightharpoonup> bool"
  preStop :: "string set"
  preStopMachines :: "string set"
  survivors :: "string \<Rightarrow> SurvivingConsumer list"

definition noPhases :: removalPhases where
  "noPhases = \<lparr>onlineEffects = {}, machines = {}, retired = Map.empty, preStop = {}, preStopMachines = {},
     survivors = (\<lambda>_. [])\<rparr>"

subsection \<open>Deferral\<close>

text \<open>
  The pass both phases make: a block is after the marked ones when it is marked or depends on
  one that is, and the blocks that also pass the last test are collected.
\<close>

definition passBlock ::
  "(Block \<Rightarrow> bool) \<Rightarrow> (Block \<Rightarrow> bool) \<Rightarrow> Block \<Rightarrow> (string \<Rightarrow> bool) \<times> string set \<Rightarrow> (string \<Rightarrow> bool) \<times> string set" where
  "passBlock marked collect b st =
     (case st of (after, found) \<Rightarrow>
        let after' = after(blockID b := marked b \<or> list_ex after (dependencies b)) in
        (after', if after' (blockID b) \<and> collect b then insert (blockID b) found else found))"

definition pass :: "(Block \<Rightarrow> bool) \<Rightarrow> (Block \<Rightarrow> bool) \<Rightarrow> Block list \<Rightarrow> (string \<Rightarrow> bool) \<times> string set" where
  "pass marked collect bs = fold (passBlock marked collect) bs (\<lambda>_. False, {})"

definition isTrue :: "(string \<rightharpoonup> bool) \<Rightarrow> string \<Rightarrow> bool" where
  "isTrue m i \<longleftrightarrow> m i = Some True"

definition effectsOf :: "Resolver \<Rightarrow> Plan \<Rightarrow> (string \<rightharpoonup> bool) \<Rightarrow> string set" where
  "effectsOf resolve p ret =
     blockID ` set (filter (\<lambda>b. \<not> isTrue ret (blockID b) \<and> asks RequiresOnlineRemoval resolve b) (blocks p))"

definition deferral :: "Resolver \<Rightarrow> Plan \<Rightarrow> (string \<rightharpoonup> bool) \<Rightarrow> removalPhases" where
  "deferral resolve p ret =
     (let effs = effectsOf resolve p ret in
      noPhases\<lparr>onlineEffects := effs,
        machines := snd (pass (\<lambda>b. blockID b \<in> effs)
          (\<lambda>b. BlockStage (Def b) = StageMachines \<and> blockID b \<notin> effs \<and> probes resolve b) (blocks p))\<rparr>)"

definition preStopRemoval :: "Resolver \<Rightarrow> Plan \<Rightarrow> removalPhases \<Rightarrow> removalPhases" where
  "preStopRemoval resolve p boundary =
     (let pre = blockID ` set (filter (asks RequiresPreStopRemoval resolve) (blocks p)) in
      boundary\<lparr>preStop := pre,
        preStopMachines := snd (pass (\<lambda>b. blockID b \<in> pre)
          (\<lambda>b. BlockStage (Def b) = StageMachines \<and> blockID b \<notin> pre \<and> blockID b \<notin> machines boundary
               \<and> probes resolve b) (blocks p))\<rparr>)"

definition machinesDeferred :: "string list \<Rightarrow> Plan \<Rightarrow> string set \<Rightarrow> bool" where
  "machinesDeferred hosts p deferred =
     list_ex (\<lambda>c. blockID c \<in> deferred \<and> Object (Def c) \<in> set hosts) (blocks p)"

definition hostsDeferred :: "Resolver \<Rightarrow> Block \<Rightarrow> Plan \<Rightarrow> string set \<Rightarrow> bool" where
  "hostsDeferred resolve b p deferred =
     (case hostsOf resolve b of None \<Rightarrow> False | Some hosts \<Rightarrow> machinesDeferred hosts p deferred)"

subsection \<open>Retirement with the hosts\<close>

text \<open>Every block a block depends on, built in frozen order from what its dependencies reach.\<close>

definition reachStep :: "Block \<Rightarrow> (string \<Rightarrow> string set) \<Rightarrow> string \<Rightarrow> string set" where
  "reachStep b before = before(blockID b := (\<Union>d\<in>set (dependencies b). insert d (before d)))"

definition reachBefore :: "Plan \<Rightarrow> string \<Rightarrow> string set" where
  "reachBefore p = fold reachStep (blocks p) (\<lambda>_. {})"

abbreviation MachineKind :: string where "MachineKind \<equiv> ''Machine''"

definition removesHostOf :: "Resolver \<Rightarrow> Plan \<Rightarrow> string \<Rightarrow> string \<Rightarrow> Block \<Rightarrow> bool" where
  "removesHostOf resolve p after machine b \<longleftrightarrow>
     \<not> (Kind (Def b) \<noteq> MachineKind \<or> Object (Def b) \<noteq> machine \<or> after \<notin> reachBefore p (blockID b))
     \<and> asks RemovesHost resolve b"

definition retireBlock :: "Resolver \<Rightarrow> Plan \<Rightarrow> Block \<Rightarrow> (string \<rightharpoonup> bool) \<Rightarrow> string \<rightharpoonup> bool" where
  "retireBlock resolve p b ret =
     (case hostsOf resolve b of
        None \<Rightarrow> ret
      | Some [] \<Rightarrow> ret
      | Some hosts \<Rightarrow>
          ret(blockID b \<mapsto> \<not> list_ex (\<lambda>m. \<not> list_ex (removesHostOf resolve p (blockID b) m) (blocks p)) hosts))"

definition deletedMachine :: "Resolver \<Rightarrow> Plan \<Rightarrow> string \<Rightarrow> bool" where
  "deletedMachine resolve p machine =
     list_ex (\<lambda>c. Kind (Def c) = MachineKind \<and> Object (Def c) = machine \<and> asks DeletesMachine resolve c) (blocks p)"

definition refOf :: "Block \<Rightarrow> ObjectRef" where
  "refOf b = \<lparr>RefKind = Kind (Def b), RefObject = Object (Def b), RefFamily = []\<rparr>"

text \<open>The node machines of the object a consumer runs on; \<open>None\<close> as soon as one block of it cannot say.\<close>

fun nodeMachines :: "Resolver \<Rightarrow> ObjectRef \<Rightarrow> Block list \<Rightarrow> string list \<Rightarrow> string list option" where
  "nodeMachines resolve at [] found = Some found"
| "nodeMachines resolve at (b # bs) found =
     (if Kind (Def b) \<noteq> RefKind at \<or> Object (Def b) \<noteq> RefObject at then nodeMachines resolve at bs found
      else (case capabilityOf resolve b of
              None \<Rightarrow> nodeMachines resolve at bs found
            | Some c \<Rightarrow>
                (case NodeMachines c of
                   None \<Rightarrow> nodeMachines resolve at bs found
                 | Some f \<Rightarrow>
                     (case f b of
                        None \<Rightarrow> None
                      | Some [] \<Rightarrow> None
                      | Some nodes \<Rightarrow> nodeMachines resolve at bs (found @ nodes)))))"

definition home :: "Resolver \<Rightarrow> Plan \<Rightarrow> Block \<Rightarrow> Capability \<Rightarrow> ObjectRef \<times> string list" where
  "home resolve p consumer capability =
     (case HostObject capability of
        None \<Rightarrow> (refOf consumer, [])
      | Some f \<Rightarrow>
          (case f consumer of
             None \<Rightarrow> (refOf consumer, [])
           | Some at \<Rightarrow>
               if RefKind at = [] \<or> RefObject at = [] then (refOf consumer, [])
               else (case nodeMachines resolve at (blocks p) [] of
                       None \<Rightarrow> (at, [])
                     | Some found \<Rightarrow> (at, remdups_adj (sort found)))))"

record Consumption =
  hostsBy :: "string \<Rightarrow> string list"
  survivorsBy :: "string \<Rightarrow> SurvivingConsumer list"

definition addSurvivor :: "ObjectRef \<Rightarrow> Block \<Rightarrow> Consumption \<Rightarrow> Consumption" where
  "addSurvivor consumer provider st =
     st\<lparr>survivorsBy := (survivorsBy st)(blockID provider :=
        survivorsBy st (blockID provider) @ [\<lparr>Consumer = consumer, Provider = refOf provider\<rparr>])\<rparr>"

definition addHosts :: "string list \<Rightarrow> Block \<Rightarrow> Consumption \<Rightarrow> Consumption" where
  "addHosts nodes provider st =
     st\<lparr>hostsBy := (hostsBy st)(blockID provider := hostsBy st (blockID provider) @ nodes)\<rparr>"

definition consumeInput ::
  "Plan \<Rightarrow> (string \<rightharpoonup> bool) \<Rightarrow> ObjectRef \<Rightarrow> string list \<Rightarrow> bool \<Rightarrow> ProducedInput \<Rightarrow> Consumption \<Rightarrow> Consumption" where
  "consumeInput p bound at nodes leaves input =
     fold (\<lambda>provider st.
         if blockID provider \<notin> dom bound \<or> Kind (Def provider) \<noteq> InputKind input \<or> Object (Def provider) \<noteq> InputObject input
         then st
         else if \<not> leaves then addSurvivor at provider st
         else addHosts nodes provider st) (blocks p)"

definition consumeBlock :: "Resolver \<Rightarrow> Plan \<Rightarrow> (string \<rightharpoonup> bool) \<Rightarrow> Block \<Rightarrow> Consumption \<Rightarrow> Consumption" where
  "consumeBlock resolve p bound consumer st =
     (case capabilityOf resolve consumer of
        None \<Rightarrow> st
      | Some capability \<Rightarrow>
          (case ProducedInputs capability of
             None \<Rightarrow> st
           | Some reads \<Rightarrow>
               (case reads consumer of
                  Inl e \<Rightarrow>
                    fold (\<lambda>provider st.
                        if blockID provider \<in> dom bound \<and> blockID consumer \<in> reachBefore p (blockID provider)
                        then addSurvivor (refOf consumer) provider st else st) (blocks p) st
                | Inr inputs \<Rightarrow>
                    (case home resolve p consumer capability of (at, nodes) \<Rightarrow>
                       let leaves = nodes \<noteq> [] \<and> \<not> list_ex (\<lambda>m. \<not> deletedMachine resolve p m) nodes in
                       fold (consumeInput p bound at nodes leaves) inputs st))))"

definition consumers :: "Resolver \<Rightarrow> Plan \<Rightarrow> (string \<rightharpoonup> bool) \<Rightarrow> (string \<Rightarrow> string list) \<times> (string \<Rightarrow> SurvivingConsumer list)" where
  "consumers resolve p bound =
     (let st = fold (consumeBlock resolve p bound) (blocks p) \<lparr>hostsBy = (\<lambda>_. []), survivorsBy = (\<lambda>_. [])\<rparr> in
      (\<lambda>i. remdups_adj (sort (hostsBy st i)), survivorsBy st))"

text \<open>
  The order of survivors. Two that compare equal name the same objects and differ at most in a
  family, which the references built here leave empty.
\<close>

definition survivorKey :: "SurvivingConsumer \<Rightarrow> string \<times> string \<times> string \<times> string" where
  "survivorKey s = (RefKind (Consumer s), RefObject (Consumer s), RefKind (Provider s), RefObject (Provider s))"

definition compareSurvivors :: "SurvivingConsumer \<Rightarrow> SurvivingConsumer \<Rightarrow> int" where
  "compareSurvivors a b = firstNonzero
     [compareStrings (RefKind (Consumer a)) (RefKind (Consumer b)),
      compareStrings (RefObject (Consumer a)) (RefObject (Consumer b)),
      compareStrings (RefKind (Provider a)) (RefKind (Provider b)),
      compareStrings (RefObject (Provider a)) (RefObject (Provider b))]"

definition sortSurvivors :: "SurvivingConsumer list \<Rightarrow> SurvivingConsumer list" where
  "sortSurvivors ss = remdups_adj (sort_key survivorKey ss)"

definition surviveBlock ::
  "Plan \<Rightarrow> (string \<Rightarrow> SurvivingConsumer list) \<Rightarrow> Block \<Rightarrow> (string \<rightharpoonup> bool) \<times> (string \<Rightarrow> SurvivingConsumer list)
   \<Rightarrow> (string \<rightharpoonup> bool) \<times> (string \<Rightarrow> SurvivingConsumer list)" where
  "surviveBlock p direct b st =
     (case st of (ret, surv) \<Rightarrow>
        if blockID b \<notin> dom ret then st
        else
          (let found = direct (blockID b) @
                 concat (map (\<lambda>e. direct (blockID e)) (filter (\<lambda>e. blockID e \<in> reachBefore p (blockID b)) (blocks p))) in
           if found = [] then st
           else (ret(blockID b \<mapsto> False), surv(blockID b := sortSurvivors found))))"

definition retiredWithHosts ::
  "Resolver \<Rightarrow> Plan \<Rightarrow> (string \<rightharpoonup> bool) \<times> (string \<Rightarrow> string list) \<times> (string \<Rightarrow> SurvivingConsumer list)" where
  "retiredWithHosts resolve p =
     (let ret = fold (retireBlock resolve p) (blocks p) Map.empty in
      case consumers resolve p ret of (hosts, direct) \<Rightarrow>
      case fold (surviveBlock p direct) (blocks p) (ret, \<lambda>_. []) of (ret', surv) \<Rightarrow> (ret', hosts, surv))"

subsection \<open>The phases\<close>

definition unretired :: "Resolver \<Rightarrow> Plan \<Rightarrow> (string \<Rightarrow> string list) \<Rightarrow> (string \<rightharpoonup> bool) \<Rightarrow> string set" where
  "unretired resolve p consumerHosts ret =
     (let deferred = machines (deferral resolve p ret) in
      blockID ` set (filter (\<lambda>b. isTrue ret (blockID b) \<and>
        (hostsDeferred resolve b p deferred \<or> machinesDeferred (consumerHosts (blockID b)) p deferred)) (blocks p)))"

function phasesLoop ::
  "Resolver \<Rightarrow> Plan \<Rightarrow> (string \<Rightarrow> string list) \<Rightarrow> (string \<Rightarrow> SurvivingConsumer list) \<Rightarrow> (string \<rightharpoonup> bool) \<Rightarrow> removalPhases" where
  "phasesLoop resolve p consumerHosts surv ret =
     (if unretired resolve p consumerHosts ret = {}
      then preStopRemoval resolve p ((deferral resolve p ret)\<lparr>retired := ret, survivors := surv\<rparr>)
      else phasesLoop resolve p consumerHosts surv (ret |` (- unretired resolve p consumerHosts ret)))"
  by pat_completeness auto
termination
proof (relation "measure (\<lambda>(resolve, p, hosts, surv, ret). card {i \<in> blockID ` set (blocks p). isTrue ret i})", goal_cases)
  case 1
  then show ?case by simp
next
  case (2 resolve p hosts surv ret)
  let ?U = "unretired resolve p hosts ret"
  have "?U \<subseteq> {i \<in> blockID ` set (blocks p). isTrue ret i}"
    by (auto simp: unretired_def Let_def)
  moreover have "{i \<in> blockID ` set (blocks p). isTrue (ret |` (- ?U)) i} = {i \<in> blockID ` set (blocks p). isTrue ret i} - ?U"
    by (auto simp: isTrue_def restrict_map_def split: if_splits)
  ultimately show ?case
    using 2 by (auto intro!: psubset_card_mono)
qed

declare phasesLoop.simps [simp del]

definition computePhases :: "Resolver \<Rightarrow> Plan \<Rightarrow> removalPhases" where
  "computePhases resolve p =
     (if PlanVerb p \<noteq> Destroy then noPhases
      else (case retiredWithHosts resolve p of (ret, hosts, surv) \<Rightarrow> phasesLoop resolve p hosts surv ret))"

subsection \<open>Refusals and warnings\<close>

definition consumption :: "SurvivingConsumer list \<Rightarrow> string" where
  "consumption ss = join '', '' (map (\<lambda>s. RefKind (Consumer s) @ ''/'' @ RefObject (Consumer s) @ '' consumes ''
     @ RefKind (Provider s) @ ''/'' @ RefObject (Provider s)) ss)"

definition survivingConsumerRemedy :: string where
  "survivingConsumerRemedy = ''keep this context while the consumer runs; a destroy takes back what a consumer uses only when the consumer leaves with owned virtual node Machines the same destroy deletes''"

record Refused =
  refusedConsumers :: "string list"
  refusedObjects :: "string \<Rightarrow> string list"

definition refuseBlock :: "(string \<Rightarrow> SurvivingConsumer list) \<Rightarrow> Block \<Rightarrow> Refused \<Rightarrow> Refused" where
  "refuseBlock surv b st =
     (if surv (blockID b) = [] then st
      else
        (let named = consumption (surv (blockID b)); obj = Kind (Def b) @ ''/'' @ Object (Def b) in
         \<lparr>refusedConsumers = (if named \<in> set (refusedConsumers st) then refusedConsumers st else refusedConsumers st @ [named]),
          refusedObjects = (if obj \<in> set (refusedObjects st named) then refusedObjects st
            else (refusedObjects st)(named := refusedObjects st named @ [obj]))\<rparr>))"

definition survivorRefusal :: "Block list \<Rightarrow> (string \<Rightarrow> SurvivingConsumer list) \<Rightarrow> Failure option" where
  "survivorRefusal bs surv =
     (let st = fold (refuseBlock surv) bs \<lparr>refusedConsumers = [], refusedObjects = (\<lambda>_. [])\<rparr> in
      if refusedConsumers st = [] then None
      else Some (failure ''lifecycle.live''
        (''this removal would take back state that is still in use: '' @ join ''; ''
          (map (\<lambda>named. named @ '' and survives this destroy, which takes back '' @ join '', '' (refusedObjects st named))
            (refusedConsumers st)))
        survivingConsumerRemedy))"

definition survivorWarning :: "SurvivingConsumer \<Rightarrow> Diagnostic" where
  "survivorWarning s =
     \<lparr>Severity = ''warning'', Code = ''lifecycle.surviving-consumer'',
      Message = ''a destroy of this context refuses before registration while '' @ consumption [s] @ '' and outlives that destroy'',
      Source = None, DiagnosedObject = None, Field = [],
      Remediation = ''run the consumer on owned virtual node Machines this context deletes, or keep this context while the consumer runs''\<rparr>"

definition removalWarnings :: "Resolver \<Rightarrow> Plan \<Rightarrow> Diagnostic list" where
  "removalWarnings resolve p =
     (if PlanVerb p \<noteq> Apply then []
      else (case Inverse p of
              Inl e \<Rightarrow> []
            | Inr opposite \<Rightarrow>
                (case retiredWithHosts resolve opposite of (ret, hosts, surv) \<Rightarrow>
                   map survivorWarning (sortSurvivors (concat (map (\<lambda>b. surv (blockID b)) (blocks opposite)))))))"

fun stopsLoop :: "removalPhases \<Rightarrow> BlockStates \<Rightarrow> Block list \<Rightarrow> string list \<Rightarrow> string list" where
  "stopsLoop phases states [] names = names"
| "stopsLoop phases states (b # bs) names =
     stopsLoop phases states bs
       (if (blockID b \<in> machines phases \<or> blockID b \<in> preStopMachines phases) \<and> stateAt states (blockID b) \<noteq> BlockDone
           \<and> Object (Def b) \<notin> set names
        then names @ [Object (Def b)] else names)"

definition stopsAfterOnline :: "Plan \<Rightarrow> removalPhases \<Rightarrow> BlockStates \<Rightarrow> string list" where
  "stopsAfterOnline p phases states = stopsLoop phases states (blocks p) []"

text \<open>The methods of \<open>online_gates.go\<close> that read the phases.\<close>

definition phasesComplete :: "removalPhases \<Rightarrow> BlockStates \<Rightarrow> bool" where
  "phasesComplete phases states \<longleftrightarrow> (\<forall>i\<in>onlineEffects phases. stateAt states i = BlockDone)"

definition preStopDone :: "removalPhases \<Rightarrow> BlockStates \<Rightarrow> bool" where
  "preStopDone phases states \<longleftrightarrow> (\<forall>i\<in>preStop phases. stateAt states i = BlockDone)"

subsection \<open>One pass in dependency order\<close>

definition topological :: "Block list \<Rightarrow> bool" where
  "topological bs \<longleftrightarrow> distinct (map blockID bs) \<and>
     (\<forall>n<length bs. set (dependencies (bs ! n)) \<subseteq> blockID ` set (take n bs))"

definition block_edges :: "Block list \<Rightarrow> (string \<times> string) set" where
  "block_edges bs = {(blockID b, d) | b d. b \<in> set bs \<and> d \<in> set (dependencies b)}"

lemma plan_block_edges: "plan_edges p = block_edges (blocks p)"
  by (auto simp: plan_edges_def block_edges_def)

lemma built_topological: "built p \<Longrightarrow> topological (blocks p)"
  using NewPlan_topological [OF NewPlan_rebuild] by (auto simp: topological_def)

lemma topological_snoc:
  "topological (bs @ [b]) \<longleftrightarrow>
     topological bs \<and> blockID b \<notin> blockID ` set bs \<and> set (dependencies b) \<subseteq> blockID ` set bs"
  by (auto simp: topological_def nth_append less_Suc_eq)

lemma topological_deps: "topological bs \<Longrightarrow> b \<in> set bs \<Longrightarrow> set (dependencies b) \<subseteq> blockID ` set bs"
  by (induction bs rule: rev_induct) (auto simp: topological_snoc)

lemma block_edges_snoc: "block_edges (bs @ [b]) = block_edges bs \<union> {blockID b} \<times> set (dependencies b)"
  by (auto simp: block_edges_def)

lemma rtrancl_fresh:
  assumes "x \<notin> Range E" "x \<notin> D" "x \<notin> Domain E"
  shows "i \<noteq> x \<Longrightarrow> (i, j) \<in> (E \<union> {x} \<times> D)\<^sup>* \<longleftrightarrow> (i, j) \<in> E\<^sup>*"
    and "(x, j) \<in> (E \<union> {x} \<times> D)\<^sup>* \<longleftrightarrow> j = x \<or> (\<exists>d\<in>D. (d, j) \<in> E\<^sup>*)"
proof -
  have old: "(i, j) \<in> E\<^sup>* \<and> j \<noteq> x" if "(i, j) \<in> (E \<union> {x} \<times> D)\<^sup>*" "i \<noteq> x" for i j
    using that by (induction rule: rtrancl_induct) (use assms in \<open>auto intro: rtrancl_into_rtrancl\<close>)
  have new: "(i, j) \<in> (E \<union> {x} \<times> D)\<^sup>*" if "(i, j) \<in> E\<^sup>*" for i j
    using that by (meson in_mono rtrancl_mono sup_ge1)
  show "i \<noteq> x \<Longrightarrow> (i, j) \<in> (E \<union> {x} \<times> D)\<^sup>* \<longleftrightarrow> (i, j) \<in> E\<^sup>*"
    using old new by blast
  show "(x, j) \<in> (E \<union> {x} \<times> D)\<^sup>* \<longleftrightarrow> j = x \<or> (\<exists>d\<in>D. (d, j) \<in> E\<^sup>*)"
  proof
    assume "(x, j) \<in> (E \<union> {x} \<times> D)\<^sup>*"
    then show "j = x \<or> (\<exists>d\<in>D. (d, j) \<in> E\<^sup>*)"
    proof (cases rule: converse_rtranclE)
      case (step y)
      then have "y \<in> D" "y \<noteq> x" using assms by auto
      with old [OF step(2)] show ?thesis by blast
    qed simp
  next
    assume "j = x \<or> (\<exists>d\<in>D. (d, j) \<in> E\<^sup>*)"
    then show "(x, j) \<in> (E \<union> {x} \<times> D)\<^sup>*"
      using new by (auto intro: converse_rtrancl_into_rtrancl)
  qed
qed

lemma snoc_reaches:
  assumes "topological (bs @ [b])"
  shows "i \<noteq> blockID b \<Longrightarrow> (i, j) \<in> (block_edges (bs @ [b]))\<^sup>* \<longleftrightarrow> (i, j) \<in> (block_edges bs)\<^sup>*"
    and "(blockID b, j) \<in> (block_edges (bs @ [b]))\<^sup>* \<longleftrightarrow>
           j = blockID b \<or> (\<exists>d\<in>set (dependencies b). (d, j) \<in> (block_edges bs)\<^sup>*)"
proof -
  have fresh: "blockID b \<notin> Range (block_edges bs)" "blockID b \<notin> set (dependencies b)" "blockID b \<notin> Domain (block_edges bs)"
    using assms topological_deps [of bs] by (force simp: topological_snoc block_edges_def)+
  show "i \<noteq> blockID b \<Longrightarrow> (i, j) \<in> (block_edges (bs @ [b]))\<^sup>* \<longleftrightarrow> (i, j) \<in> (block_edges bs)\<^sup>*"
    "(blockID b, j) \<in> (block_edges (bs @ [b]))\<^sup>* \<longleftrightarrow>
       j = blockID b \<or> (\<exists>d\<in>set (dependencies b). (d, j) \<in> (block_edges bs)\<^sup>*)"
    unfolding block_edges_snoc by (rule rtrancl_fresh [OF fresh], assumption) (rule rtrancl_fresh [OF fresh])
qed

lemma pass_snoc: "pass m c (bs @ [b]) = passBlock m c b (pass m c bs)"
  by (simp add: pass_def)

lemma reaches_outside: "topological bs \<Longrightarrow> i \<notin> blockID ` set bs \<Longrightarrow> (i, j) \<in> (block_edges bs)\<^sup>* \<Longrightarrow> j = i"
  by (erule converse_rtranclE) (auto simp: block_edges_def)

lemma propagated:
  "topological bs \<Longrightarrow> fst (pass m c bs) i \<longleftrightarrow> (\<exists>e\<in>set bs. m e \<and> (i, blockID e) \<in> (block_edges bs)\<^sup>*)"
proof (induction bs arbitrary: i rule: rev_induct)
  case Nil
  then show ?case by (simp add: pass_def)
next
  case (snoc b bs)
  have bs: "topological bs" and fresh: "blockID b \<notin> blockID ` set bs" "set (dependencies b) \<subseteq> blockID ` set bs"
    using snoc.prems by (simp_all add: topological_snoc)
  have step: "fst (pass m c (bs @ [b])) i =
      (if i = blockID b then m b \<or> list_ex (fst (pass m c bs)) (dependencies b) else fst (pass m c bs) i)"
    by (simp add: pass_snoc passBlock_def Let_def split: prod.splits)
  have no: "(i, blockID b) \<notin> (block_edges bs)\<^sup>*" if "i \<in> blockID ` set bs" for i
  proof
    assume "(i, blockID b) \<in> (block_edges bs)\<^sup>*"
    then show False
      by (cases rule: rtranclE) (use that fresh topological_deps [OF bs] in \<open>auto simp: block_edges_def\<close>)
  qed
  show ?case
  proof (cases "i = blockID b")
    case True
    have "list_ex (fst (pass m c bs)) (dependencies b) \<longleftrightarrow>
        (\<exists>e\<in>set bs. m e \<and> (\<exists>d\<in>set (dependencies b). (d, blockID e) \<in> (block_edges bs)\<^sup>*))"
      using snoc.IH [OF bs] by (auto simp: list_ex_iff)
    moreover have "\<not> (\<exists>d\<in>set (dependencies b). (d, blockID b) \<in> (block_edges bs)\<^sup>*)"
      using no fresh by blast
    moreover have "blockID e \<noteq> blockID b" if "e \<in> set bs" for e
      using fresh that by (metis image_eqI)
    ultimately show ?thesis
      unfolding step using True by (auto simp: snoc_reaches [OF snoc.prems])
  next
    case False
    have "(i, blockID b) \<notin> (block_edges bs)\<^sup>*"
      using no [of i] reaches_outside [OF bs, of i] False by metis
    then show ?thesis
      unfolding step using False snoc.IH [OF bs] by (auto simp: snoc_reaches [OF snoc.prems])
  qed
qed

lemma pass_found:
  "topological bs \<Longrightarrow> snd (pass m c bs) =
     blockID ` {b \<in> set bs. c b \<and> (\<exists>e\<in>set bs. m e \<and> (blockID b, blockID e) \<in> (block_edges bs)\<^sup>*)}"
proof -
  assume t: "topological bs"
  have "snd (pass m c bs) = blockID ` {b \<in> set bs. c b \<and> fst (pass m c bs) (blockID b)}"
    using t
  proof (induction bs rule: rev_induct)
    case Nil
    then show ?case by (simp add: pass_def)
  next
    case (snoc b bs)
    obtain a found where st: "pass m c bs = (a, found)" by (cases "pass m c bs")
    let ?v = "m b \<or> list_ex a (dependencies b)"
    have old: "found = blockID ` {e \<in> set bs. c e \<and> a (blockID e)}"
      using snoc.IH snoc.prems st by (simp add: topological_snoc)
    have "blockID e \<noteq> blockID b" if "e \<in> set bs" for e
      using snoc.prems that by (metis image_eqI topological_snoc)
    then have "{e \<in> set (bs @ [b]). c e \<and> (a(blockID b := ?v)) (blockID e)} =
        {e \<in> set bs. c e \<and> a (blockID e)} \<union> (if c b \<and> ?v then {b} else {})"
      by auto
    then show ?case
      by (simp add: pass_snoc passBlock_def Let_def st old image_Un del: fun_upd_apply)
        (auto simp: fun_upd_same)
  qed
  with propagated [OF t] show ?thesis by auto
qed

lemma reachBefore_topological:
  "topological bs \<Longrightarrow> fold reachStep bs (\<lambda>_. {}) i = (block_edges bs)\<^sup>+ `` {i}"
proof (induction bs arbitrary: i rule: rev_induct)
  case Nil
  then show ?case by (auto simp: block_edges_def)
next
  case (snoc b bs)
  have bs: "topological bs"
    using snoc.prems by (simp add: topological_snoc)
  have plus: "E\<^sup>+ `` {i} = (\<Union>d\<in>{d. (i, d) \<in> E}. E\<^sup>* `` {d})" for i :: string and E
    by (auto simp: trancl_unfold_left)
  have ne: "blockID b \<notin> set (dependencies b)" "\<And>i d. (i, d) \<in> block_edges bs \<Longrightarrow> d \<noteq> blockID b"
    using snoc.prems topological_deps [OF bs] by (force simp: topological_snoc block_edges_def)+
  have src: "(blockID b, d) \<notin> block_edges bs" for d
    using snoc.prems by (auto simp: topological_snoc block_edges_def image_iff)
  show ?case
  proof (cases "i = blockID b")
    case True
    have "insert d ((block_edges bs)\<^sup>+ `` {d}) = (block_edges bs)\<^sup>* `` {d}" for d
      by (auto simp: rtrancl_eq_or_trancl)
    then have "fold reachStep (bs @ [b]) (\<lambda>_. {}) i = (\<Union>d\<in>set (dependencies b). (block_edges bs)\<^sup>* `` {d})"
      using True by (simp add: snoc.IH [OF bs] reachStep_def [of b])
    also have "\<dots> = (block_edges (bs @ [b]))\<^sup>+ `` {i}"
    proof -
      have "(d, x) \<in> (block_edges (bs @ [b]))\<^sup>* \<longleftrightarrow> (d, x) \<in> (block_edges bs)\<^sup>*" if "d \<in> set (dependencies b)" for d x
        by (rule snoc_reaches(1) [OF snoc.prems]) (use ne(1) that in auto)
      then have "(\<Union>d\<in>set (dependencies b). (block_edges bs)\<^sup>* `` {d}) = (\<Union>d\<in>set (dependencies b). (block_edges (bs @ [b]))\<^sup>* `` {d})"
        by (intro SUP_cong) auto
      moreover have "{d. (i, d) \<in> block_edges (bs @ [b])} = set (dependencies b)"
        using True src by (auto simp: block_edges_snoc)
      ultimately show ?thesis
        unfolding plus by (simp only:)
    qed
    finally show ?thesis .
  next
    case False
    then have "fold reachStep (bs @ [b]) (\<lambda>_. {}) i = (block_edges bs)\<^sup>+ `` {i}"
      by (simp add: snoc.IH [OF bs] reachStep_def [of b])
    also have "\<dots> = (block_edges (bs @ [b]))\<^sup>+ `` {i}"
    proof -
      have "(d, x) \<in> (block_edges (bs @ [b]))\<^sup>* \<longleftrightarrow> (d, x) \<in> (block_edges bs)\<^sup>*" if "(i, d) \<in> block_edges bs" for d x
        by (rule snoc_reaches(1) [OF snoc.prems]) (rule ne(2) [OF that])
      then have "(\<Union>d\<in>{d. (i, d) \<in> block_edges bs}. (block_edges bs)\<^sup>* `` {d}) =
          (\<Union>d\<in>{d. (i, d) \<in> block_edges bs}. (block_edges (bs @ [b]))\<^sup>* `` {d})"
        by (intro SUP_cong) auto
      moreover have "{d. (i, d) \<in> block_edges (bs @ [b])} = {d. (i, d) \<in> block_edges bs}"
        using False by (auto simp: block_edges_snoc)
      ultimately show ?thesis
        unfolding plus by (simp only:)
    qed
    finally show ?thesis .
  qed
qed

lemma reachBefore_closure: "built p \<Longrightarrow> reachBefore p i = (plan_edges p)\<^sup>+ `` {i}"
  using reachBefore_topological [OF built_topological] by (simp add: reachBefore_def plan_block_edges)

subsection \<open>What the phases guarantee\<close>

lemma deferral_simps [simp]:
  "onlineEffects (deferral resolve p ret) = effectsOf resolve p ret"
  by (simp add: deferral_def Let_def noPhases_def)

lemma preStopRemoval_simps [simp]:
  "onlineEffects (preStopRemoval resolve p ph) = onlineEffects ph"
  "machines (preStopRemoval resolve p ph) = machines ph"
  "retired (preStopRemoval resolve p ph) = retired ph"
  "survivors (preStopRemoval resolve p ph) = survivors ph"
  by (simp_all add: preStopRemoval_def Let_def)

text \<open>The deferred Machines: those that probe quiescence and follow an online effect.\<close>

lemma deferral_machines:
  assumes "built p"
  shows "machines (deferral resolve p ret) =
    blockID ` {b \<in> set (blocks p). BlockStage (Def b) = StageMachines \<and> probes resolve b \<and>
      blockID b \<notin> effectsOf resolve p ret \<and>
      (\<exists>e\<in>effectsOf resolve p ret. (blockID b, e) \<in> (plan_edges p)\<^sup>+)}"
proof -
  let ?E = "effectsOf resolve p ret"
  have "(\<exists>e\<in>set (blocks p). blockID e \<in> ?E \<and> (i, blockID e) \<in> (plan_edges p)\<^sup>*) \<longleftrightarrow>
      (\<exists>e\<in>?E. (i, e) \<in> (plan_edges p)\<^sup>+)" if "i \<notin> ?E" for i
  proof -
    have "?E \<subseteq> blockID ` set (blocks p)"
      by (auto simp: effectsOf_def)
    then show ?thesis
      using that by (auto simp: rtrancl_eq_or_trancl subset_iff)
  qed
  moreover have "machines (deferral resolve p ret) = blockID ` {b \<in> set (blocks p).
      (BlockStage (Def b) = StageMachines \<and> blockID b \<notin> ?E \<and> probes resolve b) \<and>
      (\<exists>e\<in>set (blocks p). blockID e \<in> ?E \<and> (blockID b, blockID e) \<in> (plan_edges p)\<^sup>*)}"
    unfolding plan_block_edges
    by (subst pass_found [OF built_topological [OF assms], symmetric]) (simp add: deferral_def Let_def noPhases_def)
  ultimately show ?thesis
    by (auto intro!: arg_cong [where f = "image blockID"])
qed

lemma phasesLoop_stable:
  "let ph = phasesLoop resolve p hosts surv ret in
     retired ph \<subseteq>\<^sub>m ret \<and> onlineEffects ph = effectsOf resolve p (retired ph) \<and>
     machines ph = machines (deferral resolve p (retired ph)) \<and>
     unretired resolve p hosts (retired ph) = {} \<and> survivors ph = surv"
proof (induction resolve p hosts surv ret rule: phasesLoop.induct)
  case (1 resolve p hosts surv ret)
  show ?case
  proof (cases "unretired resolve p hosts ret = {}")
    case True
    then show ?thesis
      by (simp add: phasesLoop.simps [of resolve p hosts surv ret] Let_def)
  next
    case False
    have "ret |` A \<subseteq>\<^sub>m ret" for A
      by (auto simp: map_le_def)
    with 1 [OF False] False show ?thesis
      by (auto simp: phasesLoop.simps [of resolve p hosts surv ret] Let_def intro: map_le_trans)
  qed
qed

lemma unretired_empty:
  "unretired resolve p hosts ret = {} \<longleftrightarrow>
     (\<forall>b\<in>set (blocks p). isTrue ret (blockID b) \<longrightarrow>
        \<not> hostsDeferred resolve b p (machines (deferral resolve p ret)) \<and>
        \<not> machinesDeferred (hosts (blockID b)) p (machines (deferral resolve p ret)))"
  by (auto simp: unretired_def Let_def filter_empty_conv)

lemma retireBlock_True:
  assumes "isTrue (fold (retireBlock resolve p) bs m) i" "\<not> isTrue m i"
  shows "\<exists>b\<in>set bs. blockID b = i \<and> (\<exists>hosts. hostsOf resolve b = Some hosts \<and> hosts \<noteq> [] \<and>
           (\<forall>h\<in>set hosts. list_ex (removesHostOf resolve p i h) (blocks p)))"
  using assms
proof (induction bs arbitrary: m)
  case Nil
  then show ?case by simp
next
  case (Cons b bs)
  show ?case
  proof (cases "isTrue (retireBlock resolve p b m) i")
    case True
    then have "blockID b = i \<and> (\<exists>hosts. hostsOf resolve b = Some hosts \<and> hosts \<noteq> [] \<and>
        (\<forall>h\<in>set hosts. list_ex (removesHostOf resolve p i h) (blocks p)))"
      using Cons.prems(2)
      by (auto simp: retireBlock_def isTrue_def list_ex_iff split: option.splits list.splits if_splits)
    then show ?thesis by simp
  next
    case False
    with Cons.IH [of "retireBlock resolve p b m"] Cons.prems(1) show ?thesis by auto
  qed
qed

lemma surviveBlock_True:
  assumes "fold (surviveBlock p direct) bs (ret, surv) = (ret', surv')"
  shows "isTrue ret' i \<Longrightarrow> isTrue ret i \<and> surv' i = surv i"
  using assms
proof (induction bs arbitrary: ret surv)
  case (Cons b bs)
  obtain r s where rs: "surviveBlock p direct b (ret, surv) = (r, s)" by fastforce
  have "isTrue r i \<and> surv' i = s i"
    using Cons.IH [of r s] Cons.prems rs by simp
  then show ?case
    using rs by (auto simp: surviveBlock_def Let_def isTrue_def split: if_splits)
qed simp

lemma retiredWithHosts_safe:
  assumes p: "built p" and r: "retiredWithHosts resolve p = (ret, hosts, surv)" and t: "isTrue ret (blockID b)" and b: "b \<in> set (blocks p)"
  shows "\<exists>ms. hostsOf resolve b = Some ms \<and> ms \<noteq> [] \<and>
           (\<forall>m\<in>set ms. \<exists>c\<in>set (blocks p). Kind (Def c) = MachineKind \<and> Object (Def c) = m \<and>
              (blockID c, blockID b) \<in> (plan_edges p)\<^sup>+ \<and> asks RemovesHost resolve c)"
    and "surv (blockID b) = []"
proof -
  let ?r0 = "fold (retireBlock resolve p) (blocks p) Map.empty"
  obtain direct where f: "fold (surviveBlock p direct) (blocks p) (?r0, \<lambda>_. []) = (ret, surv)"
    using r by (auto simp: retiredWithHosts_def Let_def split: prod.splits)
  have t0: "isTrue ?r0 (blockID b)" and s: "surv (blockID b) = []"
    using surviveBlock_True [OF f t] by simp_all
  then obtain c ms where c: "c \<in> set (blocks p)" "blockID c = blockID b" "hostsOf resolve c = Some ms" "ms \<noteq> []"
      "\<forall>h\<in>set ms. list_ex (removesHostOf resolve p (blockID b) h) (blocks p)"
    using retireBlock_True [OF t0] by (auto simp: isTrue_def)
  have "c = b"
    using c(1,2) b built_distinct [OF p] by (auto simp: distinct_map dest: inj_onD)
  then show "\<exists>ms. hostsOf resolve b = Some ms \<and> ms \<noteq> [] \<and>
           (\<forall>m\<in>set ms. \<exists>c\<in>set (blocks p). Kind (Def c) = MachineKind \<and> Object (Def c) = m \<and>
              (blockID c, blockID b) \<in> (plan_edges p)\<^sup>+ \<and> asks RemovesHost resolve c)"
    using c(3-5) by (auto simp: list_ex_iff removesHostOf_def reachBefore_closure [OF p])
  show "surv (blockID b) = []" by (rule s)
qed

lemma computePhases_stable:
  assumes "PlanVerb p = Destroy" and "retiredWithHosts resolve p = (ret, hosts, surv)"
  defines "ph \<equiv> computePhases resolve p"
  shows "retired ph \<subseteq>\<^sub>m ret" "onlineEffects ph = effectsOf resolve p (retired ph)"
    "machines ph = machines (deferral resolve p (retired ph))" "survivors ph = surv"
    "unretired resolve p hosts (retired ph) = {}"
  using phasesLoop_stable [of resolve p hosts surv ret] assms(1,2)
  by (simp_all add: ph_def computePhases_def Let_def)

lemma refuseBlock_some:
  "refusedConsumers (fold (refuseBlock surv) bs st) = [] \<longleftrightarrow>
     refusedConsumers st = [] \<and> (\<forall>b\<in>set bs. surv (blockID b) = [])"
  by (induction bs arbitrary: st) (auto simp: refuseBlock_def Let_def)

lemma survivorRefusal_None: "survivorRefusal bs surv = None \<longleftrightarrow> (\<forall>b\<in>set bs. surv (blockID b) = [])"
  using refuseBlock_some [of surv bs] by (simp add: survivorRefusal_def Let_def)

lemma stopsLoop_spec:
  "set (stopsLoop ph st bs ns) = set ns \<union> Object ` Def ` {b \<in> set bs.
     (blockID b \<in> machines ph \<or> blockID b \<in> preStopMachines ph) \<and> stateAt st (blockID b) \<noteq> BlockDone}"
  "distinct ns \<Longrightarrow> distinct (stopsLoop ph st bs ns)"
  by (induction bs arbitrary: ns) auto

end
