(* ===== verification/Scheduler.thy ===== *)
theory Scheduler
  imports Phases
begin

section \<open>The scheduler of an operation's blocks\<close>

text \<open>
  \<open>internal/reconciliation/lifecycle/scheduler.go\<close> and \<open>online_gates.go\<close>. The scheduler's fields
  that never change are \<open>SchedulerConfig\<close>, the others \<open>SchedulerState\<close>; a map used as a set is a
  set, and the map of running blocks is the list of its keys.

  Each started block runs in a goroutine of its own. \<open>Flight\<close> is what that goroutine captured
  when it started, and \<open>finished\<close> the step it sends back, from what the attempt or the
  observation reported. What that is, which goroutine ends next, whether the context is
  cancelled, the log has a fault or the quiescence proof fails is the environment's choice:
  the record \<open>Environment\<close> answers from the state, so every sequence of answers is some
  environment's.

  \<open>converge\<close> is the loop of the source, total for every environment because a block is observed at
  most once and attempted at most once (\<open>start_progress\<close>). The step relation with all those
  choices open and its invariants are in \<open>Scheduling\<close>.
\<close>

subsection \<open>Errors\<close>

text \<open>The errors a block's work ends with, as the scheduler tells them apart.\<close>

datatype GoError =
    FailureError Failure
  | OnlyExit GoError
  | Canceled
  | DeadlineExceeded
  | OtherError string

fun diagnosticsOf :: "GoError \<Rightarrow> Diagnostic list" where
  "diagnosticsOf (FailureError f) = FailureDiagnostics f"
| "diagnosticsOf (OnlyExit e) = diagnosticsOf e"
| "diagnosticsOf _ = []"

fun isOnlyExit :: "GoError \<Rightarrow> bool" where
  "isOnlyExit (OnlyExit e) = True"
| "isOnlyExit _ = False"

fun isCancellation :: "GoError \<Rightarrow> bool" where
  "isCancellation Canceled = True"
| "isCancellation DeadlineExceeded = True"
| "isCancellation (OnlyExit e) = isCancellation e"
| "isCancellation _ = False"

definition withCause :: "GoError option \<Rightarrow> GoError \<Rightarrow> GoError" where
  "withCause cause terminal =
     (case cause of
        None \<Rightarrow> terminal
      | Some c \<Rightarrow>
          if diagnosticsOf c = [] then terminal
          else if isOnlyExit c then c
          else FailureError \<lparr>FailureDiagnostics = diagnosticsOf c @ diagnosticsOf terminal, Usage = False\<rparr>)"

subsection \<open>State\<close>

abbreviation MaxRunningBlocks :: int where "MaxRunningBlocks \<equiv> 8"
abbreviation MaxThrottledBlocks :: int where "MaxThrottledBlocks \<equiv> 4"

definition Concurrency :: "int \<Rightarrow> int" where
  "Concurrency option = (if option \<le> 0 then MaxRunningBlocks else option)"

definition ThrottleLimit :: "int \<Rightarrow> int" where
  "ThrottleLimit option = (if option \<le> 0 then MaxThrottledBlocks else option)"

record SchedulerConfig =
  schedPlan :: Plan
  schedVerb :: Verb
  schedSelection :: Selection
  bound :: int
  throttle :: int
  observeOnly :: bool
  phases :: removalPhases

record Flight =
  flightPrior :: BlockState
  observing :: bool
  retry :: bool
  flightPosition :: nat

record SchedulerState =
  states :: BlockStates
  running :: "string list"
  observed :: "string set"
  worked :: "string set"
  announced :: "string \<rightharpoonup> nat"
  unstarted :: "string set"
  held :: "string \<rightharpoonup> string"
  throttled :: "string \<Rightarrow> int"
  causes :: "string \<rightharpoonup> GoError"
  onlineProved :: bool
  onlineBlocked :: bool
  preStopProved :: bool
  warned :: "(nat \<times> Diagnostic) list"
  flights :: "string \<rightharpoonup> Flight"

definition newScheduler :: "BlockStates \<Rightarrow> SchedulerState" where
  "newScheduler sts =
     \<lparr>states = sts, running = [], observed = {}, worked = {}, announced = Map.empty, unstarted = {},
      held = Map.empty, throttled = (\<lambda>_. 0), causes = Map.empty, onlineProved = False,
      onlineBlocked = False, preStopProved = False, warned = [], flights = Map.empty\<rparr>"

abbreviation planOf :: "SchedulerConfig \<Rightarrow> Block list" where
  "planOf c \<equiv> blocks (schedPlan c)"

subsection \<open>Admission\<close>

abbreviation StepStart :: string where "StepStart \<equiv> ''start''"
abbreviation StepResolve :: string where "StepResolve \<equiv> ''resolve''"
abbreviation StepRetry :: string where "StepRetry \<equiv> ''retry''"

text \<open>The positions of the blocks that pass a test, in frozen order.\<close>

definition positions :: "(Block \<Rightarrow> bool) \<Rightarrow> Block list \<Rightarrow> nat list" where
  "positions q bs = filter (\<lambda>i. q (bs ! i)) [0..<length bs]"

definition firstAdmission ::
  "Plan \<Rightarrow> BlockStates \<Rightarrow> Selection \<Rightarrow> string set \<Rightarrow> string set \<Rightarrow> string list \<Rightarrow> string \<times> nat list" where
  "firstAdmission p sts sel obs wrk run =
     (if list_ex (\<lambda>b. unproved (stateAt sts (blockID b))) (blocks p)
      then (StepResolve,
        positions (\<lambda>b. unproved (stateAt sts (blockID b)) \<and> blockID b \<notin> obs \<and> blockID b \<notin> wrk) (blocks p))
      else
        (let failing = (\<lambda>b. stateAt sts (blockID b) = BlockFailed);
             anyFailed = list_ex failing (blocks p);
             kind = (if anyFailed then StepRetry else StepStart);
             idleFailed = (\<lambda>b. failing b \<and> blockID b \<notin> set run);
             failedAgain = list_ex (\<lambda>b. idleFailed b \<and> blockID b \<in> wrk) (blocks p);
             retried = positions (\<lambda>b. idleFailed b \<and> blockID b \<notin> wrk \<and> Admits sel b) (blocks p);
             startable = Startable p sts sel;
             started = positions (\<lambda>b. blockID b \<in> blockID ` set startable) (blocks p) in
         if anyFailed \<and> (failedAgain \<or> retried = [] \<and> obs = {} \<and> wrk = {}) then (kind, retried)
         else (kind, sort ((if anyFailed then retried else []) @ started))))"

definition free :: "SchedulerConfig \<Rightarrow> SchedulerState \<Rightarrow> Block \<Rightarrow> bool" where
  "free c s b =
     (if Throttle (Def b) \<noteq> [] \<and> throttled s (Throttle (Def b)) \<ge> throttle c then False
      else list_all (\<lambda>k. k \<notin> dom (held s)) (elems (Exclusive (Def b))))"

definition nextPreStop :: "SchedulerConfig \<Rightarrow> SchedulerState \<Rightarrow> (Block \<times> nat) option" where
  "nextPreStop c s =
     map_option (\<lambda>i. (planOf c ! i, i)) (List.find (\<lambda>i.
       let b = planOf c ! i; state = stateAt (states s) (blockID b) in
       blockID b \<in> preStop (phases c) \<and> (state = BlockPending \<or> state = BlockFailed) \<and>
       blockID b \<notin> set (running s) \<and> blockID b \<notin> worked s \<and> free c s b) [0..<length (planOf c)])"

definition nextBlock :: "SchedulerConfig \<Rightarrow> SchedulerState \<Rightarrow> (Block \<times> nat) option" where
  "nextBlock c s =
     (case firstAdmission (schedPlan c) (states s) (schedSelection c) (observed s) (worked s) (running s) of
        (kind, admitted) \<Rightarrow>
          if kind = StepResolve
          then map_option (\<lambda>i. (planOf c ! i, i))
                 (List.find (\<lambda>i. blockID (planOf c ! i) \<notin> set (running s)) admitted)
          else if observeOnly c then None
          else if \<not> preStopDone (phases c) (states s) then nextPreStop c s
          else map_option (\<lambda>i. (planOf c ! i, i))
                 (List.find (\<lambda>i. let b = planOf c ! i in
                    \<not> (blockID b \<in> machines (phases c) \<and> \<not> phasesComplete (phases c) (states s)) \<and>
                    blockID b \<notin> set (running s) \<and> blockID b \<notin> worked s \<and> free c s b) admitted))"

subsection \<open>The stop boundaries of a removal\<close>

text \<open>The lineage read and the quiescence proof are one answer of the environment, given the blocks to skip.\<close>

definition proveOnlineBoundary ::
  "SchedulerConfig \<Rightarrow> (string set \<Rightarrow> GoError option) \<Rightarrow> Block \<Rightarrow> SchedulerState \<Rightarrow> SchedulerState \<times> bool" where
  "proveOnlineBoundary c quiesce b s =
     (if schedVerb c \<noteq> Destroy \<or> blockID b \<notin> machines (phases c) \<or> unproved (stateAt (states s) (blockID b)) \<or> onlineProved s
      then (s, True)
      else if running s \<noteq> [] \<or> \<not> phasesComplete (phases c) (states s) then (s, False)
      else
        (let skip = blockID ` set (filter (\<lambda>x. blockID x \<notin> machines (phases c) \<or> stateAt (states s) (blockID x) = BlockDone) (planOf c)) in
         case quiesce skip of
           Some e \<Rightarrow> (s\<lparr>onlineBlocked := True, causes := (causes s)(blockID b \<mapsto> e)\<rparr>, False)
         | None \<Rightarrow> (s\<lparr>onlineProved := True\<rparr>, True)))"

definition provePreStopBoundary ::
  "SchedulerConfig \<Rightarrow> (string set \<Rightarrow> GoError option) \<Rightarrow> Block \<Rightarrow> SchedulerState \<Rightarrow> SchedulerState \<times> bool" where
  "provePreStopBoundary c quiesce b s =
     (if schedVerb c \<noteq> Destroy \<or> preStopProved s \<or> blockID b \<in> preStop (phases c) \<or> unproved (stateAt (states s) (blockID b))
      then (s, True)
      else
        (let skipped = (\<lambda>x. blockID x \<notin> preStopMachines (phases c) \<or> stateAt (states s) (blockID x) = BlockDone) in
         if \<not> list_ex (\<lambda>x. \<not> skipped x) (planOf c) then (s\<lparr>preStopProved := True\<rparr>, True)
         else if running s \<noteq> [] then (s, False)
         else (case quiesce (blockID ` set (filter skipped (planOf c))) of
                 Some e \<Rightarrow> (s\<lparr>onlineBlocked := True, causes := (causes s)(blockID b \<mapsto> e)\<rparr>, False)
               | None \<Rightarrow> (s\<lparr>preStopProved := True\<rparr>, True))))"

subsection \<open>Starting and settling a block\<close>

definition start :: "SchedulerConfig \<Rightarrow> Block \<Rightarrow> nat \<Rightarrow> SchedulerState \<Rightarrow> SchedulerState" where
  "start c b position s =
     (let prior = stateAt (states s) (blockID b); obs = unproved prior in
      s\<lparr>running := (if blockID b \<in> set (running s) then running s else running s @ [blockID b]),
        observed := (if obs then insert (blockID b) (observed s) else observed s),
        worked := (if obs then worked s else insert (blockID b) (worked s)),
        held := fold (\<lambda>k m. m(k \<mapsto> blockID b)) (elems (Exclusive (Def b))) (held s),
        throttled := (if Throttle (Def b) \<noteq> [] then (throttled s)(Throttle (Def b) := throttled s (Throttle (Def b)) + 1)
                      else throttled s),
        flights := (flights s)(blockID b \<mapsto>
          \<lparr>flightPrior = prior, observing = obs,
           retry = (obs \<and> \<not> observeOnly c \<and> Admits (schedSelection c) b), flightPosition = position + 1\<rparr>)\<rparr>)"

record step =
  stepBlock :: string
  stepState :: BlockState
  stepErr :: "GoError option"
  stepUnstarted :: bool
  stepAnnounced :: bool
  stepPosition :: nat
  stepWarnings :: "Warning list"

text \<open>The re-read of a record after a failed start: \<open>None\<close> when the read fails.\<close>

definition durable :: "BlockState option \<Rightarrow> BlockState \<Rightarrow> BlockState" where
  "durable record prior =
     (case record of None \<Rightarrow> BlockUnknown | Some s \<Rightarrow> if s = [] then prior else s)"

record Report =
  reportState :: BlockState
  reportErr :: "GoError option"
  reportRecord :: "BlockState option"
  reportWarnings :: "Warning list"

definition finished :: "string \<Rightarrow> Flight \<Rightarrow> Report \<Rightarrow> step" where
  "finished i f r =
     (let state = (if reportState r = [] then durable (reportRecord r) (flightPrior f) else reportState r) in
      \<lparr>stepBlock = i, stepState = state, stepErr = reportErr r,
       stepUnstarted = (\<not> observing f \<and> reportState r = []),
       stepAnnounced = (observing f \<and> retry f \<and> state = BlockFailed),
       stepPosition = flightPosition f,
       stepWarnings = (if observing f then [] else reportWarnings r)\<rparr>)"

abbreviation apiVersion :: string where "apiVersion \<equiv> ''bootwright.io/v1alpha1''"

definition adapterWarning :: "Plan \<Rightarrow> Block \<Rightarrow> Warning \<Rightarrow> Diagnostic option" where
  "adapterWarning p b w =
     (if WarningCode w = ''storage.not-ready'' \<or> WarningCode w = ''substrate.shadowed-route''
      then Some
        \<lparr>Severity = ''warning'', Code = WarningCode w, Message = WarningMessage w, Source = None,
         DiagnosedObject = Some
           (case WarningOn w of
              Some named \<Rightarrow>
                if list_ex (\<lambda>x. Kind (Def x) = WarnedKind named \<and> Object (Def x) = WarnedName named) (blocks p)
                then \<lparr>APIVersion = apiVersion, ObjectKind = WarnedKind named, ObjectName = WarnedName named\<rparr>
                else \<lparr>APIVersion = apiVersion, ObjectKind = Kind (Def b), ObjectName = Object (Def b)\<rparr>
            | None \<Rightarrow> \<lparr>APIVersion = apiVersion, ObjectKind = Kind (Def b), ObjectName = Object (Def b)\<rparr>),
         Field = [], Remediation = []\<rparr>
      else None)"

definition warn :: "SchedulerConfig \<Rightarrow> step \<Rightarrow> (nat \<times> Diagnostic) list \<Rightarrow> (nat \<times> Diagnostic) list" where
  "warn c f ws =
     (if stepPosition f < 1 \<or> stepPosition f > length (planOf c) then ws
      else ws @ map (Pair (stepPosition f))
        (List.map_filter (adapterWarning (schedPlan c) (planOf c ! (stepPosition f - 1))) (stepWarnings f)))"

definition settle :: "SchedulerConfig \<Rightarrow> step \<Rightarrow> SchedulerState \<Rightarrow> SchedulerState" where
  "settle c f s =
     s\<lparr>running := removeAll (stepBlock f) (running s),
       throttled :=
         (case List.find (\<lambda>b. blockID b = stepBlock f) (planOf c) of
            Some b \<Rightarrow> if Throttle (Def b) \<noteq> []
              then (throttled s)(Throttle (Def b) := throttled s (Throttle (Def b)) - 1) else throttled s
          | None \<Rightarrow> throttled s),
       held := (\<lambda>k. if held s k = Some (stepBlock f) then None else held s k),
       states := (states s)(stepBlock f \<mapsto> stepState f),
       warned := warn c f (warned s),
       unstarted := (if stepUnstarted f then insert (stepBlock f) (unstarted s) else unstarted s),
       announced := (if stepAnnounced f then (announced s)(stepBlock f \<mapsto> stepPosition f) else announced s),
       causes := (case stepErr f of
          None \<Rightarrow> (causes s)(stepBlock f := None)
        | Some e \<Rightarrow> (causes s)(stepBlock f \<mapsto> e)),
       flights := (flights s)(stepBlock f := None)\<rparr>"

subsection \<open>The loop\<close>

record Environment =
  cancelled :: "SchedulerState \<Rightarrow> bool"
  logFaulted :: "SchedulerState \<Rightarrow> bool"
  quiescence :: "SchedulerState \<Rightarrow> string set \<Rightarrow> GoError option"
  ends :: "SchedulerState \<Rightarrow> string"
  reports :: "SchedulerState \<Rightarrow> string \<Rightarrow> Report"

text \<open>One turn of admission: the new state, and whether a block started.\<close>

definition admitOne :: "SchedulerConfig \<Rightarrow> (string set \<Rightarrow> GoError option) \<Rightarrow> SchedulerState \<Rightarrow> SchedulerState \<times> bool" where
  "admitOne c quiesce s =
     (case nextBlock c s of
        None \<Rightarrow> (s, False)
      | Some (b, position) \<Rightarrow>
          (case provePreStopBoundary c quiesce b s of
             (s1, False) \<Rightarrow> (s1, False)
           | (s1, True) \<Rightarrow>
               (case proveOnlineBoundary c quiesce b s1 of
                  (s2, False) \<Rightarrow> (s2, False)
                | (s2, True) \<Rightarrow> (start c b position s2, True))))"

definition mayAdmit :: "SchedulerConfig \<Rightarrow> SchedulerState \<Rightarrow> bool" where
  "mayAdmit c s \<longleftrightarrow> int (length (running s)) < bound c \<and> unstarted s = {} \<and> \<not> onlineBlocked s"

text \<open>The boundaries touch nothing but their own flags and the cause of a refusal.\<close>

definition sameWork :: "SchedulerState \<Rightarrow> SchedulerState \<Rightarrow> bool" where
  "sameWork s t \<longleftrightarrow> states t = states s \<and> running t = running s \<and> observed t = observed s \<and> worked t = worked s \<and>
     announced t = announced s \<and> unstarted t = unstarted s \<and> held t = held s \<and> throttled t = throttled s \<and>
     warned t = warned s \<and> flights t = flights s"

lemma sameWork_refl [simp]: "sameWork s s"
  by (simp add: sameWork_def)

lemma sameWork_trans: "sameWork s t \<Longrightarrow> sameWork t u \<Longrightarrow> sameWork s u"
  by (simp add: sameWork_def)

lemma boundary_frame:
  "sameWork s (fst (provePreStopBoundary c q b s))"
  "sameWork s (fst (proveOnlineBoundary c q b s))"
  by (simp_all add: provePreStopBoundary_def proveOnlineBoundary_def Let_def sameWork_def split: option.splits)

lemma find_pos:
  "List.find q [0..<length bs] = Some i \<Longrightarrow> i < length bs \<and> q i"
  by (auto simp: find_Some_iff)

lemma mem_positions: "i \<in> set (positions q bs) \<longleftrightarrow> i < length bs \<and> q (bs ! i)"
  by (auto simp: positions_def)

abbreviation anyUnproved :: "SchedulerConfig \<Rightarrow> SchedulerState \<Rightarrow> bool" where
  "anyUnproved c s \<equiv> list_ex (\<lambda>b. unproved (stateAt (states s) (blockID b))) (planOf c)"

lemma firstAdmission_start:
  assumes "\<not> list_ex (\<lambda>b. unproved (stateAt sts (blockID b))) (blocks p)"
  obtains kind adm where "firstAdmission p sts sel obs wrk run = (kind, adm)" "kind \<noteq> StepResolve"
    "\<And>i. i \<in> set adm \<Longrightarrow> i < length (blocks p) \<and>
       (stateAt sts (blockID (blocks p ! i)) = BlockFailed \<or> blockID (blocks p ! i) \<in> blockID ` set (Startable p sts sel))"
proof -
  obtain kind adm where e: "firstAdmission p sts sel obs wrk run = (kind, adm)" by fastforce
  have "kind \<noteq> StepResolve"
    using e assms by (auto simp: firstAdmission_def Let_def split: if_splits)
  moreover have "i < length (blocks p) \<and>
      (stateAt sts (blockID (blocks p ! i)) = BlockFailed \<or> blockID (blocks p ! i) \<in> blockID ` set (Startable p sts sel))"
    if "i \<in> set adm" for i
    using e assms that by (simp add: firstAdmission_def Let_def split: if_splits) (auto simp: mem_positions)
  ultimately show thesis
    using that e by blast
qed

text \<open>
  What admission promises of the block it chooses: it is not running and not worked; an unproved
  one was not observed; any other starts only when nothing is unproved, over idle resources.
\<close>

lemma nextBlock_plan:
  assumes "nextBlock c s = Some (b, i)"
  shows "i < length (planOf c) \<and> b = planOf c ! i \<and> blockID b \<notin> set (running s) \<and> blockID b \<notin> worked s"
proof (cases "anyUnproved c s")
  case True
  then show ?thesis
    using assms by (auto simp: nextBlock_def firstAdmission_def find_Some_iff in_set_conv_nth [symmetric] mem_positions
        dest!: nth_mem)
next
  case False
  obtain kind adm where a: "firstAdmission (schedPlan c) (states s) (schedSelection c) (observed s) (worked s) (running s) = (kind, adm)"
      "kind \<noteq> StepResolve" "\<And>i. i \<in> set adm \<Longrightarrow> i < length (planOf c)"
    using firstAdmission_start [OF False] by metis
  have "i < length (planOf c) \<and> b = planOf c ! i \<and> blockID b \<notin> set (running s) \<and> blockID b \<notin> worked s"
    if "nextPreStop c s = Some (b, i)"
    using that by (auto simp: nextPreStop_def Let_def dest!: find_pos)
  moreover have "i < length (planOf c) \<and> b = planOf c ! i \<and> blockID b \<notin> set (running s) \<and> blockID b \<notin> worked s"
    if "List.find (\<lambda>i. Q i \<and> blockID (planOf c ! i) \<notin> set (running s) \<and> blockID (planOf c ! i) \<notin> worked s \<and> R i) adm = Some i"
      "b = planOf c ! i" for Q R
    using that a(3) by (auto simp: find_Some_iff)
  ultimately show ?thesis
    using assms a(1,2) by (auto simp: nextBlock_def Let_def split: if_splits)
qed

lemma nextBlock_resolve:
  assumes "nextBlock c s = Some (b, i)" "anyUnproved c s"
  shows "unproved (stateAt (states s) (blockID b)) \<and> blockID b \<notin> observed s"
  using assms by (auto simp: nextBlock_def firstAdmission_def find_Some_iff mem_positions dest!: nth_mem)

lemma nextBlock_attempt:
  assumes "nextBlock c s = Some (b, i)" "\<not> anyUnproved c s"
  shows "\<not> observeOnly c" "free c s b"
    "preStop (phases c) = {} \<Longrightarrow>
       stateAt (states s) (blockID b) = BlockFailed \<or> blockID b \<in> blockID ` set (Startable (schedPlan c) (states s) (schedSelection c))"
proof -
  obtain kind adm where a: "firstAdmission (schedPlan c) (states s) (schedSelection c) (observed s) (worked s) (running s) = (kind, adm)"
      "kind \<noteq> StepResolve"
      "\<And>i. i \<in> set adm \<Longrightarrow> stateAt (states s) (blockID (planOf c ! i)) = BlockFailed \<or>
         blockID (planOf c ! i) \<in> blockID ` set (Startable (schedPlan c) (states s) (schedSelection c))"
    using firstAdmission_start [OF assms(2)] by metis
  show "\<not> observeOnly c"
    using assms(1) a(1,2) by (auto simp: nextBlock_def)
  show "free c s b"
    using assms(1) a(1,2) by (auto simp: nextBlock_def nextPreStop_def Let_def find_Some_iff split: if_splits)
  assume "preStop (phases c) = {}"
  then have "preStopDone (phases c) (states s)"
    by (simp add: preStopDone_def)
  then obtain Q where "List.find Q adm = Some i" "b = planOf c ! i"
    using assms(1) a(1,2) by (auto simp: nextBlock_def split: if_splits)
  then show "stateAt (states s) (blockID b) = BlockFailed \<or> blockID b \<in> blockID ` set (Startable (schedPlan c) (states s) (schedSelection c))"
    using a(3) [of i] by (auto simp: find_Some_iff)
qed

lemma nextBlock_unproved:
  assumes "nextBlock c s = Some (b, i)"
  shows "anyUnproved c s \<longleftrightarrow> unproved (stateAt (states s) (blockID b))"
  using nextBlock_resolve [OF assms] nextBlock_plan [OF assms] nth_mem [of i "planOf c"] by (auto simp: list_ex_iff)

subsection \<open>Progress\<close>

text \<open>The observations and attempts this invocation may still make.\<close>

definition budget :: "SchedulerConfig \<Rightarrow> SchedulerState \<Rightarrow> nat" where
  "budget c s = card (blockID ` set (planOf c) - observed s) + card (blockID ` set (planOf c) - worked s)"

lemma start_simps [simp]:
  "states (start c b i s) = states s"
  "unstarted (start c b i s) = unstarted s"
  "observed (start c b i s) = (if unproved (stateAt (states s) (blockID b)) then insert (blockID b) (observed s) else observed s)"
  "worked (start c b i s) = (if unproved (stateAt (states s) (blockID b)) then worked s else insert (blockID b) (worked s))"
  "throttled (start c b i s) = (if Throttle (Def b) \<noteq> [] then (throttled s)(Throttle (Def b) := throttled s (Throttle (Def b)) + 1) else throttled s)"
  by (simp_all add: start_def Let_def)

lemma start_running: "blockID b \<notin> set (running s) \<Longrightarrow> running (start c b i s) = running s @ [blockID b]"
  by (simp add: start_def Let_def)

lemma sameWork_simps:
  assumes "sameWork s t"
  shows "states t = states s" "running t = running s" "observed t = observed s" "worked t = worked s"
    "unstarted t = unstarted s" "held t = held s" "throttled t = throttled s" "flights t = flights s"
  using assms by (simp_all add: sameWork_def)

lemma budget_sameWork: "sameWork s t \<Longrightarrow> budget c t = budget c s"
  by (simp add: budget_def sameWork_simps)

lemma start_progress:
  assumes n: "nextBlock c s = Some (b, i)" and w: "sameWork s t"
  shows "budget c (start c b i t) < budget c s" "length (running (start c b i t)) = Suc (length (running s))"
proof -
  have b: "blockID b \<in> blockID ` set (planOf c)"
    using nextBlock_plan [OF n] by simp
  have less: "card (A - insert x B) < card (A - B)" if "x \<in> A" "x \<notin> B" "finite A" for A B and x :: string
    using that by (intro psubset_card_mono) auto
  show "budget c (start c b i t) < budget c s"
  proof (cases "unproved (stateAt (states s) (blockID b))")
    case True
    then have "blockID b \<notin> observed s"
      using nextBlock_resolve [OF n] nextBlock_unproved [OF n] by simp
    with True less [OF b this] show ?thesis
      by (simp add: budget_def sameWork_simps [OF w])
  next
    case False
    have "blockID b \<notin> worked s"
      using nextBlock_plan [OF n] by blast
    with False less [OF b this] show ?thesis
      by (simp add: budget_def sameWork_simps [OF w])
  qed
  have "blockID b \<notin> set (running s)"
    using nextBlock_plan [OF n] by blast
  then show "length (running (start c b i t)) = Suc (length (running s))"
    by (simp add: start_running sameWork_simps [OF w])
qed

text \<open>A turn of admission starts the block it chose, or leaves the work as it was.\<close>

lemma admitOne_cases:
  assumes "admitOne c q s = (s', r)"
  obtains (stop) "\<not> r" "sameWork s s'"
    | (started) b i t where "r" "nextBlock c s = Some (b, i)" "sameWork s t" "s' = start c b i t"
proof (cases "nextBlock c s")
  case None
  then show thesis
    using assms stop by (simp add: admitOne_def)
next
  case (Some x)
  obtain b i where x: "nextBlock c s = Some (b, i)" using Some by (cases x) simp
  obtain s1 r1 where p1: "provePreStopBoundary c q b s = (s1, r1)" by fastforce
  obtain s2 r2 where p2: "proveOnlineBoundary c q b s1 = (s2, r2)" by fastforce
  have w1: "sameWork s s1" and w2: "sameWork s s2"
    using boundary_frame(1) [of s c q b] boundary_frame(2) [of s1 c q b] p1 p2 sameWork_trans by auto
  show thesis
    using assms x p1 p2 w1 w2 stop started [OF _ x w2] by (cases r1; cases r2) (simp_all add: admitOne_def)
qed

function admit :: "SchedulerConfig \<Rightarrow> Environment \<Rightarrow> SchedulerState \<Rightarrow> SchedulerState" where
  "admit c env s =
     (if mayAdmit c s \<and> \<not> logFaulted env s
      then (case admitOne c (quiescence env s) s of
              (s', True) \<Rightarrow> admit c env s'
            | (s', False) \<Rightarrow> s')
      else s)"
  by pat_completeness auto
termination
proof (relation "measure (\<lambda>(c, env, s). budget c s)", goal_cases)
  case (2 c env s x s')
  then have "admitOne c (quiescence env s) s = (x, True)" by simp
  then show ?case
    by (cases rule: admitOne_cases) (auto dest: start_progress)
qed simp

declare admit.simps [simp del]

definition settleNext :: "SchedulerConfig \<Rightarrow> Environment \<Rightarrow> SchedulerState \<Rightarrow> SchedulerState" where
  "settleNext c env s =
     (let i = (if ends env s \<in> set (running s) then ends env s else hd (running s)) in
      case flights s i of
        Some f \<Rightarrow> settle c (finished i f (reports env s i)) s
      | None \<Rightarrow> s\<lparr>running := removeAll i (running s)\<rparr>)"

lemma admit_measure: "2 * budget c (admit c env s) + length (running (admit c env s)) \<le> 2 * budget c s + length (running s)"
proof (induction c env s rule: admit.induct)
  case (1 c env s)
  obtain s' r where a: "admitOne c (quiescence env s) s = (s', r)" by fastforce
  show ?case
  proof (cases "mayAdmit c s \<and> \<not> logFaulted env s")
    case True
    from a show ?thesis
    proof (cases rule: admitOne_cases)
      case stop
      with True a show ?thesis
        by (simp add: admit.simps [of c env s] budget_sameWork sameWork_simps)
    next
      case (started b i t)
      then have "2 * budget c s' + length (running s') \<le> 2 * budget c s + length (running s)"
        using start_progress [OF started(2,3)] by simp
      moreover have "admit c env s = admit c env s'"
        using True a started(1) by (simp add: admit.simps [of c env s])
      ultimately show ?thesis
        using 1 [OF True a [symmetric]] started(1) by simp
    qed
  next
    case False
    then show ?thesis by (subst (1 2) admit.simps) auto
  qed
qed

lemma settle_simps [simp]:
  "observed (settle c f s) = observed s" "worked (settle c f s) = worked s"
  "running (settle c f s) = removeAll (stepBlock f) (running s)"
  "states (settle c f s) = (states s)(stepBlock f \<mapsto> stepState f)"
  by (simp_all add: settle_def)

lemma finished_block [simp]: "stepBlock (finished i f r) = i"
  by (simp add: finished_def Let_def)

lemma settleNext_measure:
  assumes "running s \<noteq> []"
  shows "budget c (settleNext c env s) = budget c s" "length (running (settleNext c env s)) < length (running s)"
proof -
  define i where "i = (if ends env s \<in> set (running s) then ends env s else hd (running s))"
  have "i \<in> set (running s)"
    using assms by (simp add: i_def)
  then have "length (removeAll i (running s)) < length (running s)"
    by (rule length_removeAll_less)
  then show "budget c (settleNext c env s) = budget c s" "length (running (settleNext c env s)) < length (running s)"
    unfolding settleNext_def Let_def i_def [symmetric]
    by (simp_all add: budget_def split: option.splits)
qed

function converge :: "SchedulerConfig \<Rightarrow> Environment \<Rightarrow> SchedulerState \<Rightarrow> SchedulerState" where
  "converge c env s =
     (let s1 = (if cancelled env s then s else admit c env s) in
      if running s1 = [] then s1 else converge c env (settleNext c env s1))"
  by pat_completeness auto
termination
proof (relation "measure (\<lambda>(c, env, s). 2 * budget c s + length (running s))", goal_cases)
  case (2 c env s s1)
  then have "2 * budget c s1 + length (running s1) \<le> 2 * budget c s + length (running s)"
    using admit_measure [of c env s] by auto
  with settleNext_measure [OF 2(2), of c env] show ?case by simp
qed simp

declare converge.simps [simp del]

subsection \<open>What the scheduler reports\<close>

definition anyState :: "SchedulerConfig \<Rightarrow> SchedulerState \<Rightarrow> (BlockState \<Rightarrow> bool) \<Rightarrow> bool" where
  "anyState c s q = list_ex (\<lambda>b. q (stateAt (states s) (blockID b))) (planOf c)"

definition reported :: "SchedulerState \<Rightarrow> string \<Rightarrow> Diagnostic list" where
  "reported s i =
     (case causes s i of
        None \<Rightarrow> []
      | Some e \<Rightarrow>
          if diagnosticsOf e \<noteq> [] then diagnosticsOf e
          else if isCancellation e then []
          else FailureDiagnostics (failure ''runtime.internal''
            (if i \<in> unstarted s
             then ''the attempt of the block '' @ i @ '' could not record its start, so it performed no effect''
             else ''the block '' @ i @ '' stopped on a failure that escaped a typed boundary'') []))"

definition cause :: "SchedulerConfig \<Rightarrow> SchedulerState \<Rightarrow> GoError option" where
  "cause c s =
     (let ds = concat (map (\<lambda>b. reported s (blockID b)) (planOf c));
          only = list_ex (\<lambda>b. case causes s (blockID b) of None \<Rightarrow> False | Some e \<Rightarrow> isOnlyExit e) (planOf c);
          joined = FailureError \<lparr>FailureDiagnostics = ds, Usage = False\<rparr> in
      if ds = [] then None else if only then Some (OnlyExit joined) else Some joined)"

definition boundaryOf :: "SchedulerConfig \<Rightarrow> Environment \<Rightarrow> SchedulerState \<Rightarrow> bool" where
  "boundaryOf c env s =
     (if cancelled env s \<or> logFaulted env s \<or> unstarted s \<noteq> {} then False
      else pendingRemains (schedPlan c) (states s) \<and> \<not> anyState c s unproved)"

record ProgressEvent =
  EventBlock :: string
  EventDescription :: string
  EventStatus :: string
  EventPosition :: nat
  EventTotal :: nat

definition closeAnnounced :: "SchedulerConfig \<Rightarrow> SchedulerState \<Rightarrow> ProgressEvent list" where
  "closeAnnounced c s =
     concat (map (\<lambda>b. case announced s (blockID b) of
         None \<Rightarrow> []
       | Some position \<Rightarrow>
           if blockID b \<notin> worked s \<or> blockID b \<in> unstarted s
           then [\<lparr>EventBlock = blockID b, EventDescription = Description (Def b),
                  EventStatus = stateAt (states s) (blockID b), EventPosition = position, EventTotal = length (planOf c)\<rparr>]
           else []) (planOf c))"

text \<open>The warnings of \<open>Service.converge\<close>, in the order of the blocks that reported them.\<close>

definition orderedWarnings :: "SchedulerState \<Rightarrow> Diagnostic list" where
  "orderedWarnings s = map snd (sort_key fst (warned s))"

definition observingCommand :: "string \<Rightarrow> Plan option \<Rightarrow> Operation \<Rightarrow> Plan \<Rightarrow> BlockStates \<Rightarrow> string" where
  "observingCommand name removal op p sts =
     (case removal of
        Some removalPlan \<Rightarrow> contextCommand name Destroy (authorizingUnfixed removalPlan)
      | None \<Rightarrow>
          (let command = continuationCommand name op p sts in
           if command \<noteq> [] then command else contextCommand name (OpVerb op) []))"

end
