(* ===== verification/Scheduling.thy ===== *)
theory Scheduling
  imports Scheduler
begin

section \<open>What every run of the scheduler keeps\<close>

text \<open>
  The step relation of the scheduler with every choice of the environment left open, its
  reachable states, and their invariants: the bound on what runs at once, exclusive resources,
  throttles, the separation of observations and attempts, and the order of dependencies. The
  loop \<open>converge\<close> only reaches such states (\<open>converge_reached\<close>).
\<close>

inductive scheduled :: "SchedulerConfig \<Rightarrow> SchedulerState \<Rightarrow> SchedulerState \<Rightarrow> bool" for c where
  admits: "mayAdmit c s \<Longrightarrow> admitOne c q s = (s', r) \<Longrightarrow> scheduled c s s'"
| settles: "i \<in> set (running s) \<Longrightarrow> flights s i = Some f \<Longrightarrow> scheduled c s (settle c (finished i f rep) s)"

inductive reached :: "SchedulerConfig \<Rightarrow> BlockStates \<Rightarrow> SchedulerState \<Rightarrow> bool" for c sts where
  init: "reached c sts (newScheduler sts)"
| step: "reached c sts s \<Longrightarrow> scheduled c s s' \<Longrightarrow> reached c sts s'"

definition attempting :: "SchedulerState \<Rightarrow> string \<Rightarrow> bool" where
  "attempting s i \<longleftrightarrow> (\<exists>f. flights s i = Some f \<and> \<not> observing f)"

definition observingNow :: "SchedulerState \<Rightarrow> string \<Rightarrow> bool" where
  "observingNow s i \<longleftrightarrow> (\<exists>f. flights s i = Some f \<and> observing f)"

definition planBlock :: "SchedulerConfig \<Rightarrow> string \<Rightarrow> Block option" where
  "planBlock c i = List.find (\<lambda>b. blockID b = i) (planOf c)"

definition exclusiveOf :: "SchedulerConfig \<Rightarrow> string \<Rightarrow> string set" where
  "exclusiveOf c i = (case planBlock c i of Some b \<Rightarrow> set (elems (Exclusive (Def b))) | None \<Rightarrow> {})"

definition throttleOf :: "SchedulerConfig \<Rightarrow> string \<Rightarrow> string" where
  "throttleOf c i = (case planBlock c i of Some b \<Rightarrow> Throttle (Def b) | None \<Rightarrow> [])"

text \<open>
  The invariant, in four parts: what is in flight and why; that attempts and observations never
  overlap; that every key an attempt needs is held by it; that the throttle counters count.
\<close>

definition flightsOK :: "SchedulerConfig \<Rightarrow> SchedulerState \<Rightarrow> bool" where
  "flightsOK c s \<longleftrightarrow>
     distinct (running s) \<and> set (running s) \<subseteq> blockID ` set (planOf c) \<and> dom (flights s) = set (running s) \<and>
     int (length (running s)) \<le> max 0 (bound c) \<and>
     (\<forall>i. attempting s i \<longrightarrow> i \<in> worked s \<and> \<not> unproved (stateAt (states s) i)) \<and>
     (\<forall>i. observingNow s i \<longrightarrow> i \<in> observed s \<and> unproved (stateAt (states s) i))"

definition separateOK :: "SchedulerConfig \<Rightarrow> SchedulerState \<Rightarrow> bool" where
  "separateOK c s \<longleftrightarrow>
     (\<forall>i j. attempting s i \<longrightarrow> \<not> observingNow s j) \<and>
     (\<forall>i. attempting s i \<longrightarrow>
        (\<forall>b\<in>set (planOf c). unproved (stateAt (states s) (blockID b)) \<longrightarrow> blockID b \<in> observed s \<union> worked s))"

definition heldOK :: "SchedulerConfig \<Rightarrow> SchedulerState \<Rightarrow> bool" where
  "heldOK c s \<longleftrightarrow> (\<forall>i. attempting s i \<longrightarrow> (\<forall>k\<in>exclusiveOf c i. held s k = Some i))"

definition throttleOK :: "SchedulerConfig \<Rightarrow> SchedulerState \<Rightarrow> bool" where
  "throttleOK c s \<longleftrightarrow>
     (\<forall>t. t \<noteq> [] \<longrightarrow> throttled s t = int (length (filter (\<lambda>i. throttleOf c i = t) (running s)))) \<and>
     ((\<forall>i\<in>set (running s). attempting s i) \<longrightarrow> (\<forall>t. t \<noteq> [] \<longrightarrow> throttled s t \<le> max 0 (throttle c)))"

definition schedulerOK :: "SchedulerConfig \<Rightarrow> SchedulerState \<Rightarrow> bool" where
  "schedulerOK c s \<longleftrightarrow> flightsOK c s \<and> separateOK c s \<and> heldOK c s \<and> throttleOK c s"

lemmas invariant_defs = flightsOK_def separateOK_def heldOK_def throttleOK_def

subsection \<open>Reading a state after a step\<close>

lemma planBlock_mem:
  assumes "distinct (map blockID (planOf c))" and "b \<in> set (planOf c)"
  shows "planBlock c (blockID b) = Some b"
proof -
  have "List.find (\<lambda>x. blockID x = blockID b) bs = Some b" if "distinct (map blockID bs)" "b \<in> set bs" for bs
    using that by (induction bs) (auto simp: rev_image_eqI)
  then show ?thesis
    using assms by (simp add: planBlock_def)
qed

lemma sameWork_OK: "sameWork s t \<Longrightarrow> schedulerOK c t = schedulerOK c s"
  by (simp add: schedulerOK_def invariant_defs attempting_def observingNow_def sameWork_simps)

lemma start_flights:
  "attempting (start c b n s) i \<longleftrightarrow>
     (if i = blockID b then \<not> unproved (stateAt (states s) i) else attempting s i)"
  "observingNow (start c b n s) i \<longleftrightarrow>
     (if i = blockID b then unproved (stateAt (states s) i) else observingNow s i)"
  by (auto simp: attempting_def observingNow_def start_def Let_def)

lemma settle_flights:
  "attempting (settle c f s) i \<longleftrightarrow> i \<noteq> stepBlock f \<and> attempting s i"
  "observingNow (settle c f s) i \<longleftrightarrow> i \<noteq> stepBlock f \<and> observingNow s i"
  by (auto simp: attempting_def observingNow_def settle_def)

lemma held_start:
  "held (start c b n s) k = (if k \<in> set (elems (Exclusive (Def b))) then Some (blockID b) else held s k)"
proof -
  have "fold (\<lambda>k m. m(k \<mapsto> v)) ks m k = (if k \<in> set ks then Some v else m k)" for ks m and v :: string
    by (induction ks arbitrary: m) auto
  then show ?thesis by (simp add: start_def Let_def)
qed

lemma stateAt_upd [simp]: "stateAt (m(i \<mapsto> v)) j = (if j = i then v else stateAt m j)"
  by (simp add: stateAt_def)

lemma flight_kind: "flightsOK c s \<Longrightarrow> i \<in> set (running s) \<Longrightarrow> attempting s i \<or> observingNow s i"
  unfolding flightsOK_def attempting_def observingNow_def by (metis domD)

subsection \<open>Starting a block\<close>

lemma chosen_block:
  assumes "nextBlock c s = Some (b, n)"
  shows "b \<in> set (planOf c)" "blockID b \<notin> set (running s)" "blockID b \<notin> worked s"
  using nextBlock_plan [OF assms] nth_mem by blast+

lemma start_flightsOK:
  assumes ok: "flightsOK c s" and room: "mayAdmit c s" and n: "nextBlock c s = Some (b, n)"
  shows "flightsOK c (start c b n s)"
proof -
  have r: "running (start c b n s) = running s @ [blockID b]"
    using chosen_block(2) [OF n] by (rule start_running)
  have "dom (flights (start c b n s)) = insert (blockID b) (dom (flights s))"
    by (auto simp: start_def Let_def)
  then show ?thesis
    using ok room chosen_block [OF n] unfolding flightsOK_def r start_flights
    by (auto simp: mayAdmit_def)
qed

text \<open>An observation starts only while no attempt runs, and an attempt only while no observation does.\<close>

lemma start_separateOK:
  assumes ok: "flightsOK c s" "separateOK c s" and n: "nextBlock c s = Some (b, n)"
  shows "separateOK c (start c b n s)"
proof (cases "unproved (stateAt (states s) (blockID b))")
  case True
  then have new: "blockID b \<notin> observed s \<union> worked s"
    using nextBlock_resolve [OF n] nextBlock_unproved [OF n] chosen_block(3) [OF n] by simp
  then have "\<not> attempting s i" for i
    using ok(2) True chosen_block(1) [OF n] unfolding separateOK_def by blast
  then show ?thesis
    using True by (auto simp: separateOK_def start_flights)
next
  case False
  then have none: "\<not> unproved (stateAt (states s) (blockID x))" if "x \<in> set (planOf c)" for x
    using nextBlock_unproved [OF n] that by (auto simp: list_ex_iff)
  have "\<not> observingNow s i" for i
  proof
    assume o: "observingNow s i"
    then have "unproved (stateAt (states s) i)" "i \<in> dom (flights s)"
      using ok(1) by (auto simp: flightsOK_def observingNow_def)
    then obtain x where "x \<in> set (planOf c)" "i = blockID x" "unproved (stateAt (states s) (blockID x))"
      using ok(1) by (auto simp: flightsOK_def)
    with none show False by blast
  qed
  then show ?thesis
    using False none by (auto simp: separateOK_def start_flights)
qed

lemma start_heldOK:
  assumes ok: "separateOK c (start c b n s)" "heldOK c s" and n: "nextBlock c s = Some (b, n)"
    and distinct: "distinct (map blockID (planOf c))"
  shows "heldOK c (start c b n s)"
proof -
  have own: "exclusiveOf c (blockID b) = set (elems (Exclusive (Def b)))"
    using planBlock_mem [OF distinct chosen_block(1) [OF n]] by (simp add: exclusiveOf_def)
  show ?thesis
  proof (cases "unproved (stateAt (states s) (blockID b))")
    case True
    then have "\<not> attempting (start c b n s) i" for i
      using ok(1) start_flights(2) [of c b n s "blockID b"] unfolding separateOK_def by auto
    then show ?thesis by (simp add: heldOK_def)
  next
    case False
    then have "free c s b"
      using nextBlock_attempt(2) [OF n] nextBlock_unproved [OF n] by simp
    then have idle: "\<forall>k\<in>set (elems (Exclusive (Def b))). held s k = None"
      by (auto simp: free_def list_all_iff domIff split: if_splits)
    show ?thesis
      using ok(2) idle own by (auto simp: heldOK_def start_flights held_start)
  qed
qed

lemma start_throttleOK:
  assumes ok: "flightsOK c s" "separateOK c (start c b n s)" "throttleOK c s" and n: "nextBlock c s = Some (b, n)"
    and distinct: "distinct (map blockID (planOf c))"
  shows "throttleOK c (start c b n s)"
proof -
  have own: "throttleOf c (blockID b) = Throttle (Def b)"
    using planBlock_mem [OF distinct chosen_block(1) [OF n]] by (simp add: throttleOf_def)
  have r: "running (start c b n s) = running s @ [blockID b]"
    using chosen_block(2) [OF n] by (rule start_running)
  have count: "throttled (start c b n s) t = int (length (filter (\<lambda>i. throttleOf c i = t) (running s @ [blockID b])))"
    if "t \<noteq> []" for t
    using ok(3) own that by (simp add: throttleOK_def)
  have limit: "throttled (start c b n s) t \<le> max 0 (throttle c)"
    if all: "\<forall>i\<in>set (running s @ [blockID b]). attempting (start c b n s) i" and t: "t \<noteq> []" for t
  proof -
    have fresh: "\<not> unproved (stateAt (states s) (blockID b))"
      using all start_flights(1) [of c b n s "blockID b"] by simp
    then have "free c s b"
      using nextBlock_attempt(2) [OF n] nextBlock_unproved [OF n] by simp
    then have "Throttle (Def b) \<noteq> [] \<Longrightarrow> throttled s (Throttle (Def b)) < throttle c"
      by (auto simp: free_def split: if_splits)
    moreover have "attempting s i" if "i \<in> set (running s)" for i
      using all that chosen_block(2) [OF n] start_flights(1) [of c b n s i] by (auto split: if_splits)
    then have "throttled s t \<le> max 0 (throttle c)"
      using ok(3) t unfolding throttleOK_def by blast
    ultimately show ?thesis by auto
  qed
  show ?thesis
    unfolding throttleOK_def r using count limit by blast
qed

lemma start_OK:
  assumes "schedulerOK c s" "mayAdmit c s" "nextBlock c s = Some (b, n)" "distinct (map blockID (planOf c))"
  shows "schedulerOK c (start c b n s)"
  using assms start_flightsOK start_separateOK start_heldOK start_throttleOK unfolding schedulerOK_def by metis

lemma start_sameWork: "sameWork s t \<Longrightarrow> sameWork (start c b n s) (start c b n t)"
  by (simp add: sameWork_def start_def Let_def)

lemma admitOne_OK:
  assumes "schedulerOK c s" "mayAdmit c s" "admitOne c q s = (s', r)" "distinct (map blockID (planOf c))"
  shows "schedulerOK c s'"
  using assms(3)
proof (cases rule: admitOne_cases)
  case stop
  then show ?thesis using assms(1) by (simp add: sameWork_OK)
next
  case (started b i t)
  have "schedulerOK c (start c b i s)"
    by (rule start_OK [OF assms(1,2) started(2) assms(4)])
  then show ?thesis
    using started(3,4) start_sameWork [of s t c b i] by (simp add: sameWork_OK)
qed

subsection \<open>Settling a block\<close>

lemma length_filter_removeAll:
  assumes "distinct xs" "i \<in> set xs"
  shows "int (length (filter Q (removeAll i xs))) = int (length (filter Q xs)) - (if Q i then 1 else 0)"
  using assms
proof (induction xs)
  case (Cons x xs)
  then show ?case
    by (cases "x = i") (auto simp: removeAll_id)
qed simp

lemma settle_OK:
  assumes ok: "schedulerOK c s" and i: "i \<in> set (running s)" and f: "stepBlock f = i"
  shows "schedulerOK c (settle c f s)"
proof -
  have used: "i \<in> observed s \<union> worked s"
    using ok i flight_kind [of c s i] by (auto simp: schedulerOK_def flightsOK_def)
  have "flightsOK c (settle c f s)"
  proof -
    have "dom (flights (settle c f s)) = dom (flights s) - {i}"
      using f by (auto simp: settle_def)
    then show ?thesis
      using ok f length_removeAll_less [OF i] unfolding schedulerOK_def flightsOK_def settle_flights
      by (auto simp: distinct_removeAll)
  qed
  moreover have "separateOK c (settle c f s)"
    using ok used f unfolding schedulerOK_def separateOK_def settle_flights by auto
  moreover have "heldOK c (settle c f s)"
    using ok f unfolding schedulerOK_def heldOK_def settle_flights by (auto simp: settle_def)
  moreover have "throttleOK c (settle c f s)"
  proof -
    have d: "distinct (running s)" and old: "throttleOK c s"
      using ok by (simp_all add: schedulerOK_def flightsOK_def)
    have r: "int (length (filter Q (removeAll i (running s)))) = int (length (filter Q (running s))) - (if Q i then 1 else 0)" for Q
      by (rule length_filter_removeAll [OF d i])
    have t: "throttled (settle c f s) t = throttled s t - (if throttleOf c i = t then 1 else 0)" if "t \<noteq> []" for t
      using that f by (auto simp: settle_def throttleOf_def planBlock_def split: option.splits)
    have "throttled (settle c f s) t = int (length (filter (\<lambda>j. throttleOf c j = t) (removeAll i (running s))))" if "t \<noteq> []" for t
      using old t [OF that] that by (simp add: r throttleOK_def)
    moreover have "throttled (settle c f s) t \<le> max 0 (throttle c)"
      if all: "\<forall>j\<in>set (removeAll i (running s)). attempting (settle c f s) j" and ne: "t \<noteq> []" for t
    proof (cases "removeAll i (running s) = []")
      case True
      then show ?thesis
        using calculation [OF ne] by simp
    next
      case False
      then obtain j where j: "j \<in> set (removeAll i (running s))" by (meson list.set_sel(1))
      then have "attempting s j" using all f by (auto simp: settle_flights)
      then have "\<not> observingNow s i"
        using ok unfolding schedulerOK_def separateOK_def by blast
      then have "attempting s i"
        using flight_kind [of c s i] ok i by (auto simp: schedulerOK_def)
      then have "\<forall>j\<in>set (running s). attempting s j"
        using all f by (auto simp: settle_flights)
      then have "throttled s t \<le> max 0 (throttle c)"
        using old ne unfolding throttleOK_def by blast
      then show ?thesis
        using t [OF ne] by simp
    qed
    ultimately show ?thesis
      using f by (simp add: throttleOK_def)
  qed
  ultimately show ?thesis
    by (simp add: schedulerOK_def)
qed

subsection \<open>Reachable states\<close>

lemma newScheduler_OK: "schedulerOK c (newScheduler sts)"
  by (simp add: schedulerOK_def invariant_defs newScheduler_def attempting_def observingNow_def)

lemma scheduled_OK:
  "scheduled c s s' \<Longrightarrow> distinct (map blockID (planOf c)) \<Longrightarrow> schedulerOK c s \<Longrightarrow> schedulerOK c s'"
  by (induction rule: scheduled.induct) (auto intro: admitOne_OK settle_OK)

lemma reached_OK: "reached c sts s \<Longrightarrow> distinct (map blockID (planOf c)) \<Longrightarrow> schedulerOK c s"
  by (induction rule: reached.induct) (auto intro: newScheduler_OK scheduled_OK)

text \<open>Two attempts in flight at once never need the same exclusive resource.\<close>

lemma schedulerOK_exclusive:
  "schedulerOK c s \<Longrightarrow> attempting s i \<Longrightarrow> attempting s j \<Longrightarrow> i \<noteq> j \<Longrightarrow> exclusiveOf c i \<inter> exclusiveOf c j = {}"
  unfolding schedulerOK_def heldOK_def by (metis disjoint_iff option.inject)

lemma schedulerOK_throttle:
  assumes "schedulerOK c s" "attempting s i" "t \<noteq> []" "0 < throttle c"
  shows "int (length (filter (\<lambda>j. throttleOf c j = t) (running s))) \<le> throttle c"
proof -
  have "attempting s j" if "j \<in> set (running s)" for j
    using assms(1,2) that flight_kind [of c s j] unfolding schedulerOK_def separateOK_def by blast
  then show ?thesis
    using assms(1,3,4) by (auto simp: schedulerOK_def throttleOK_def)
qed

lemma admit_reached: "reached c sts s \<Longrightarrow> reached c sts (admit c env s)"
proof (induction c env s rule: admit.induct)
  case (1 c env s)
  obtain s' r where a: "admitOne c (quiescence env s) s = (s', r)" by fastforce
  show ?case
  proof (cases "mayAdmit c s \<and> \<not> logFaulted env s")
    case True
    then have "reached c sts s'"
      using 1(2) a by (blast intro: reached.step scheduled.admits)
    then show ?thesis
      using True a 1(1) [OF True a [symmetric]] by (cases r) (simp_all add: admit.simps [of c env s])
  next
    case False
    then show ?thesis
      using 1(2) by (subst admit.simps) auto
  qed
qed

lemma settleNext_reached:
  assumes "reached c sts s" "distinct (map blockID (planOf c))" "running s \<noteq> []"
  shows "reached c sts (settleNext c env s)"
proof -
  define i where "i = (if ends env s \<in> set (running s) then ends env s else hd (running s))"
  have i: "i \<in> set (running s)"
    using assms(3) by (simp add: i_def)
  then have "i \<in> dom (flights s)"
    using reached_OK [OF assms(1,2)] by (simp add: schedulerOK_def flightsOK_def)
  then obtain f where "flights s i = Some f" by auto
  then show ?thesis
    unfolding settleNext_def Let_def i_def [symmetric]
    using assms(1) i by (auto intro: reached.step scheduled.settles)
qed

lemma converge_reached:
  "distinct (map blockID (planOf c)) \<Longrightarrow> reached c sts s \<Longrightarrow> reached c sts (converge c env s) \<and> running (converge c env s) = []"
proof (induction c env s rule: converge.induct)
  case (1 c env s)
  let ?s1 = "if cancelled env s then s else admit c env s"
  have r: "reached c sts ?s1"
    using 1(3) by (simp add: admit_reached)
  show ?case
  proof (cases "running ?s1 = []")
    case True
    then show ?thesis
      using r by (subst (1 2) converge.simps) (simp add: Let_def)
  next
    case False
    have "converge c env s = converge c env (settleNext c env ?s1)"
      using False by (subst converge.simps) (simp only: Let_def if_False)
    then show ?thesis
      using 1(1) [OF refl False 1(2) settleNext_reached [OF r 1(2) False]] by simp
  qed
qed

subsection \<open>Dependencies\<close>

text \<open>
  A state in which everything that left pending stands on finished dependencies. Without a
  phase before the stop, which only a removal has, every step keeps it.
\<close>

definition dependenciesDone :: "SchedulerConfig \<Rightarrow> SchedulerState \<Rightarrow> bool" where
  "dependenciesDone c s \<longleftrightarrow>
     (\<forall>b\<in>set (planOf c). blockState (states s) (blockID b) \<noteq> BlockPending \<or> blockID b \<in> set (running s) \<longrightarrow>
        (\<forall>i\<in>set (dependencies b). blockState (states s) i = BlockDone)) \<and>
     (\<forall>i\<in>set (running s). blockState (states s) i \<noteq> BlockDone)"

lemma stateAt_blockState: "stateAt m i \<noteq> [] \<Longrightarrow> blockState m i = stateAt m i"
  by (auto simp: stateAt_def blockState_def split: option.splits)

lemma blockState_upd: "j \<noteq> i \<Longrightarrow> blockState (m(i \<mapsto> v)) j = blockState m j"
  by (simp add: blockState_def)

lemma startable_plan:
  assumes p: "built p" and b: "b \<in> set (blocks p)" "blockID b \<in> blockID ` set (Startable p sts sel)"
  shows "blockState sts (blockID b) = BlockPending" "\<forall>i\<in>set (dependencies b). blockState sts i = BlockDone"
proof -
  obtain x where x: "x \<in> set (Ready p sts)" "blockID x = blockID b"
    using b(2) by (auto simp: Startable_def)
  then have "x \<in> set (blocks p)"
    by (simp add: mem_Ready [OF p])
  then have "x = b"
    using x(2) b(1) built_distinct [OF p] by (auto simp: distinct_map dest: inj_onD)
  with x(1) show "blockState sts (blockID b) = BlockPending" "\<forall>i\<in>set (dependencies b). blockState sts i = BlockDone"
    by (simp_all add: mem_Ready [OF p])
qed

lemma start_dependencies:
  assumes p: "built (schedPlan c)" and pre: "preStop (phases c) = {}"
    and ok: "dependenciesDone c s" and n: "nextBlock c s = Some (b, n)"
  shows "dependenciesDone c (start c b n s)"
proof -
  note b = chosen_block [OF n]
  have "(\<forall>i\<in>set (dependencies b). blockState (states s) i = BlockDone) \<and> blockState (states s) (blockID b) \<noteq> BlockDone"
  proof (cases "anyUnproved c s")
    case True
    then have u: "unproved (stateAt (states s) (blockID b))"
      using nextBlock_unproved [OF n] by simp
    then have "blockState (states s) (blockID b) = stateAt (states s) (blockID b)"
      by (intro stateAt_blockState) (auto simp: unproved_def)
    with u ok b(1) show ?thesis
      by (auto simp: dependenciesDone_def unproved_def)
  next
    case False
    from nextBlock_attempt(3) [OF n False pre] show ?thesis
    proof
      assume failed: "stateAt (states s) (blockID b) = BlockFailed"
      then have "blockState (states s) (blockID b) = BlockFailed"
        by (subst stateAt_blockState) simp_all
      with ok b(1) show ?thesis
        by (auto simp: dependenciesDone_def)
    next
      assume "blockID b \<in> blockID ` set (Startable (schedPlan c) (states s) (schedSelection c))"
      from startable_plan [OF p b(1) this] show ?thesis by simp
    qed
  qed
  moreover have "x = b" if "x \<in> set (planOf c)" "blockID x = blockID b" for x
    using that b(1) built_distinct [OF p] by (auto simp: distinct_map dest: inj_onD)
  ultimately show ?thesis
    using ok by (auto simp: dependenciesDone_def start_running [OF b(2)])
qed

lemma settle_dependencies:
  assumes ok: "dependenciesDone c s" and i: "i \<in> set (running s)" and f: "stepBlock f = i"
  shows "dependenciesDone c (settle c f s)"
proof -
  have ni: "blockState (states s) i \<noteq> BlockDone"
    using ok i by (simp add: dependenciesDone_def)
  have deps: "blockState ((states s)(i \<mapsto> stepState f)) d = BlockDone" if "blockState (states s) d = BlockDone" for d
    using that ni by (subst blockState_upd) auto
  show ?thesis
    unfolding dependenciesDone_def
  proof (intro conjI ballI impI)
    fix b d
    assume b: "b \<in> set (planOf c)" "d \<in> set (dependencies b)"
      and "blockState (states (settle c f s)) (blockID b) \<noteq> BlockPending \<or> blockID b \<in> set (running (settle c f s))"
    then have "blockState (states s) (blockID b) \<noteq> BlockPending \<or> blockID b \<in> set (running s)"
      using i f by (cases "blockID b = i") (auto simp: blockState_upd)
    then show "blockState (states (settle c f s)) d = BlockDone"
      using ok b f deps by (auto simp: dependenciesDone_def)
  next
    fix j assume "j \<in> set (running (settle c f s))"
    then show "blockState (states (settle c f s)) j \<noteq> BlockDone"
      using ok f by (auto simp: dependenciesDone_def blockState_upd)
  qed
qed

lemma dependenciesDone_sameWork: "sameWork s t \<Longrightarrow> dependenciesDone c t = dependenciesDone c s"
  by (simp add: dependenciesDone_def sameWork_simps)

lemma scheduled_dependencies:
  assumes "scheduled c s s'" "built (schedPlan c)" "preStop (phases c) = {}" "dependenciesDone c s"
  shows "dependenciesDone c s'"
  using assms(1)
proof cases
  case (admits q r)
  from admits(2) show ?thesis
  proof (cases rule: admitOne_cases)
    case stop
    then show ?thesis using assms(4) by (simp add: dependenciesDone_sameWork)
  next
    case (started b i t)
    then show ?thesis
      using start_dependencies [OF assms(2-4) started(2)] start_sameWork [OF started(3), of c b i]
      by (simp add: dependenciesDone_sameWork)
  qed
next
  case (settles i f rep)
  then show ?thesis
    using settle_dependencies [OF assms(4)] by simp
qed

lemma reached_dependencies:
  assumes "reached c sts s" "built (schedPlan c)" "preStop (phases c) = {}"
    and "\<And>b. b \<in> set (planOf c) \<Longrightarrow> blockState sts (blockID b) \<noteq> BlockPending \<Longrightarrow>
          \<forall>i\<in>set (dependencies b). blockState sts i = BlockDone"
  shows "dependenciesDone c s"
  using assms(1)
proof (induction rule: reached.induct)
  case init
  show ?case
    using assms(4) by (auto simp: dependenciesDone_def newScheduler_def)
next
  case (step s s')
  then show ?case
    using scheduled_dependencies assms(2,3) by blast
qed

text \<open>What the invocation used of its budget: at most one observation and one attempt of each block.\<close>

lemma budget_start: "distinct (map blockID (planOf c)) \<Longrightarrow> budget c (newScheduler sts) = 2 * length (planOf c)"
  using distinct_card [of "map blockID (planOf c)"] by (simp add: budget_def newScheduler_def)

end
