(* ===== verification/Inputs.thy ===== *)
theory Inputs
  imports Phases
begin

section \<open>Dependencies the engine adds, and objects claimed twice\<close>

text \<open>
  The steps of planning that come between what the capabilities propose and \<open>NewPlan\<close>:
  \<open>dependOnController\<close> (\<open>planning.go\<close>), the producers of the inputs a block reads
  (\<open>produced_inputs.go\<close>), the blocks a stage tail follows (\<open>stage_tails.go\<close>), and the refusal of
  an object that two implementations of one family claim (\<open>claims.go\<close>, \<open>support.go\<close>). Each of
  the first three works on one definition at a time and only adds dependencies
  (\<open>dependOnProducedInputs_spec\<close>, \<open>dependOnStageTails_spec\<close>, \<open>dependOnController_spec\<close>).
\<close>

subsection \<open>The controller block\<close>

fun controllerBlock :: "BlockDefinition list \<Rightarrow> string" where
  "controllerBlock [] = []"
| "controllerBlock (d # ds) = (if BlockStage d = StageController then ID d else controllerBlock ds)"

definition dependOnController :: "BlockDefinition list \<Rightarrow> BlockDefinition list" where
  "dependOnController ds =
     (let prerequisite = controllerBlock ds in
      if prerequisite = [] then ds
      else map (\<lambda>d. if ID d = prerequisite \<or> prerequisite \<in> set (elems (Dependencies d)) then d
                    else d\<lparr>Dependencies := sortS (appendS (Dependencies d) [prerequisite])\<rparr>) ds)"

subsection \<open>Produced inputs\<close>

definition blockOf :: "BlockDefinition \<Rightarrow> Block" where
  "blockOf d = \<lparr>Def = d, RequestDigest = []\<rparr>"

definition invalidInput :: "ProducedInput \<Rightarrow> bool" where
  "invalidInput r \<longleftrightarrow> InputKind r = [] \<or> InputObject r = [] \<or> \<not> ValidSegment (InputOutput r)"

definition producedReferences :: "Resolver \<Rightarrow> BlockDefinition \<Rightarrow> ProducedInput list result" where
  "producedReferences resolve d =
     (case capabilityOf resolve (blockOf d) of
        None \<Rightarrow> Inl (failure ''lifecycle.state'' ''the produced input consumer does not resolve'' [])
      | Some c \<Rightarrow>
          (case ProducedInputs c of
             None \<Rightarrow> Inr []
           | Some reads \<Rightarrow>
               bindR (reads (blockOf d)) (\<lambda>refs.
                 if list_ex invalidInput refs \<or> \<not> distinct refs
                 then Inl (failure ''lifecycle.state''
                   (''block '' @ ID d @ '' names an invalid or repeated produced input'')
                   (''repair the package'' @ [CHR 0x27] @ ''s produced input references''))
                 else Inr refs)))"

definition inputName :: "ProducedInput \<Rightarrow> string" where
  "inputName r = InputKind r @ ''/'' @ InputObject r @ ''/'' @ InputOutput r"

text \<open>The outputs a definition of the input's object provides, \<open>None\<close> when its capability provides none.\<close>

definition outputsOf :: "Resolver \<Rightarrow> ProducedInput \<Rightarrow> BlockDefinition \<Rightarrow> string list result option" where
  "outputsOf resolve r d =
     (if Kind d \<noteq> InputKind r \<or> Object d \<noteq> InputObject r then None
      else (case capabilityOf resolve (blockOf d) of
              None \<Rightarrow> None
            | Some c \<Rightarrow> map_option (\<lambda>f. f (blockOf d)) (ProducedOutputs c)))"

fun producerLoop :: "Resolver \<Rightarrow> ProducedInput \<Rightarrow> BlockDefinition list \<Rightarrow> string \<Rightarrow> string result" where
  "producerLoop resolve r [] producer =
     (if producer = []
      then Inl (failure ''lifecycle.state'' (''produced input '' @ inputName r @ '' has no producer'')
             ''include the producer in this plan'')
      else Inr producer)"
| "producerLoop resolve r (d # ds) producer =
     (case outputsOf resolve r d of
        None \<Rightarrow> producerLoop resolve r ds producer
      | Some (Inl e) \<Rightarrow> Inl e
      | Some (Inr outputs) \<Rightarrow>
          if InputOutput r \<notin> set outputs then producerLoop resolve r ds producer
          else if producer \<noteq> []
          then Inl (failure ''lifecycle.state'' (''produced input '' @ inputName r @ '' has several producers'')
                 ''select one producer for this output'')
          else producerLoop resolve r ds (ID d))"

definition producedProducer :: "Resolver \<Rightarrow> BlockDefinition list \<Rightarrow> ProducedInput \<Rightarrow> string result" where
  "producedProducer resolve ds r = producerLoop resolve r ds []"

definition dependOnProducedInputs :: "Resolver \<Rightarrow> BlockDefinition list \<Rightarrow> BlockDefinition list result" where
  "dependOnProducedInputs resolve ds =
     mapR (\<lambda>d. bindR (producedReferences resolve d) (\<lambda>refs.
               bindR (mapR (producedProducer resolve ds) refs) (\<lambda>producers.
                 Inr (d\<lparr>Dependencies := compactS (sortS (appendS (Dependencies d) producers))\<rparr>)))) ds"

subsection \<open>Stage tails\<close>

definition tailFollows :: "BlockDefinition list \<Rightarrow> BlockDefinition \<Rightarrow> ObjectRef \<Rightarrow> string list" where
  "tailFollows ds d r =
     map ID (filter (\<lambda>x. ID x \<noteq> ID d \<and> BlockStage x = BlockStage d \<and> r \<in> set (Requires x)) ds)"

definition stageTail :: "Resolver \<Rightarrow> BlockDefinition list \<Rightarrow> BlockDefinition \<Rightarrow> BlockDefinition result" where
  "stageTail resolve ds d =
     (case capabilityOf resolve (blockOf d) of
        None \<Rightarrow> Inr d
      | Some c \<Rightarrow>
          (case StageTail c of
             None \<Rightarrow> Inr d
           | Some tail \<Rightarrow>
               bindR (tail d) (\<lambda>(reference, last).
                 if \<not> last then Inr d
                 else if RefKind reference = [] \<or> RefObject reference = [] \<or> reference \<notin> set (Requires d)
                 then Inl (failure ''lifecycle.state'' (''block '' @ ID d @ '' has an invalid stage tail reference'')
                        ''make the tail depend on the object whose consumers it follows'')
                 else Inr (d\<lparr>Dependencies := compactS (sortS (appendS (Dependencies d) (tailFollows ds d reference)))\<rparr>))))"

definition dependOnStageTails :: "Resolver \<Rightarrow> BlockDefinition list \<Rightarrow> BlockDefinition list result" where
  "dependOnStageTails resolve ds = mapR (stageTail resolve ds) ds"

subsection \<open>Claims\<close>

record Refusal =
  RefusedKind :: string
  RefusedName :: string
  RefusedField :: string
  RefusedReason :: string
  RefusedRemediation :: string

definition refusalIdentity :: "Refusal \<Rightarrow> string" where
  "refusalIdentity r = RefusedKind r @ ''/'' @ RefusedName r"

definition Identities :: "Refusal list \<Rightarrow> string list" where
  "Identities rs = remdups_adj (sort (map refusalIdentity rs))"

definition refusalKey :: "Refusal \<Rightarrow> string \<times> string \<times> string \<times> string \<times> string" where
  "refusalKey r = (RefusedKind r, RefusedName r, RefusedField r, RefusedReason r, RefusedRemediation r)"

definition SortRefusals :: "Refusal list \<Rightarrow> Refusal list" where
  "SortRefusals rs = remdups_adj (sort_key refusalKey rs)"

abbreviation supportedExample :: string where "supportedExample \<equiv> ''examples/machines/lab-rhel''"

definition unclaimedRemediation :: "string \<Rightarrow> string" where
  "unclaimedRemediation identity =
     ''remove '' @ identity @ '' from the selected Environment, or use an example within the supported shape such as ''
     @ supportedExample"

definition unsupportedFailure :: "Refusal list \<Rightarrow> Failure" where
  "unsupportedFailure rs =
     \<lparr>FailureDiagnostics = map (\<lambda>r.
        \<lparr>Severity = ''error'', Code = ''lifecycle.unsupported'', Message = RefusedReason r, Source = None,
         DiagnosedObject = Some \<lparr>APIVersion = ''bootwright.io/v1alpha1'', ObjectKind = RefusedKind r, ObjectName = RefusedName r\<rparr>,
         Field = RefusedField r,
         Remediation = (if RefusedRemediation r = [] then ''correct '' @ refusalIdentity r else RefusedRemediation r)\<rparr>) rs,
      Usage = False\<rparr>"

record CapabilityBinding =
  BindingKind :: string
  BindingImplementation :: string
  BindingFamily :: string

definition family :: "CapabilityBinding \<Rightarrow> string" where
  "family b = (if BindingFamily b = [] then BindingKind b else BindingFamily b)"

record claims =
  holders :: "string \<rightharpoonup> string"
  refusedClaims :: "Refusal list"

definition claimKey :: "CapabilityBinding \<Rightarrow> string \<Rightarrow> string \<Rightarrow> string" where
  "claimKey b kind name = family b @ NUL # kind @ NUL # name"

definition hold :: "CapabilityBinding \<Rightarrow> string \<Rightarrow> string \<Rightarrow> claims \<Rightarrow> claims" where
  "hold b kind name c =
     (case holders c (claimKey b kind name) of
        None \<Rightarrow> c\<lparr>holders := (holders c)(claimKey b kind name \<mapsto> BindingImplementation b)\<rparr>
      | Some holder \<Rightarrow>
          if holder = BindingImplementation b then c
          else c\<lparr>refusedClaims := refusedClaims c @
            [\<lparr>RefusedKind = kind, RefusedName = name, RefusedField = [],
              RefusedReason = ''two implementations of this executable claim '' @ kind @ ''/'' @ name @ '': '' @ holder
                @ '' and '' @ BindingImplementation b,
              RefusedRemediation = unclaimedRemediation (kind @ ''/'' @ name)
                @ ''; each object is realized by exactly one implementation''\<rparr>]\<rparr>)"

definition recordClaims :: "CapabilityBinding \<Rightarrow> BlockDefinition list \<Rightarrow> claims \<Rightarrow> claims" where
  "recordClaims b ds c = fold (\<lambda>d. hold b (Kind d) (Object d)) ds c"

definition claimsFailure :: "claims \<Rightarrow> Failure option" where
  "claimsFailure c = (if refusedClaims c = [] then None else Some (unsupportedFailure (SortRefusals (refusedClaims c))))"

subsection \<open>What the added dependencies are\<close>

lemma controllerBlock_mem: "controllerBlock ds \<noteq> [] \<Longrightarrow> \<exists>d\<in>set ds. BlockStage d = StageController \<and> ID d = controllerBlock ds"
  by (induction ds) (auto split: if_splits)

lemma dependOnController_spec:
  assumes "controllerBlock ds \<noteq> []" and "d \<in> set (dependOnController ds)" and "ID d \<noteq> controllerBlock ds"
  shows "controllerBlock ds \<in> set (elems (Dependencies d))"
  using assms by (auto simp: dependOnController_def Let_def)

lemma producerLoop_Inr:
  assumes "producerLoop resolve r ds p = Inr i"
  shows "(p \<noteq> [] \<longrightarrow> i = p \<and> (\<forall>d\<in>set ds. \<forall>os. outputsOf resolve r d = Some (Inr os) \<longrightarrow> InputOutput r \<notin> set os)) \<and>
         (p = [] \<longrightarrow> (\<exists>d\<in>set ds. ID d = i \<and> (\<exists>os. outputsOf resolve r d = Some (Inr os) \<and> InputOutput r \<in> set os)))"
  using assms
proof (induction ds arbitrary: p)
  case Nil
  then show ?case by (auto split: if_splits)
next
  case (Cons d ds)
  show ?case
  proof (cases "\<exists>os. outputsOf resolve r d = Some (Inr os) \<and> InputOutput r \<in> set os")
    case True
    then obtain os where os: "outputsOf resolve r d = Some (Inr os)" "InputOutput r \<in> set os" by blast
    then have p: "p = []" and rest: "producerLoop resolve r ds (ID d) = Inr i"
      using Cons.prems by (auto split: if_splits)
    show ?thesis
      using Cons.IH [OF rest] os p by (cases "ID d = []") auto
  next
    case False
    then have "producerLoop resolve r ds p = Inr i"
      using Cons.prems by (auto split: option.splits sum.splits if_splits)
    from Cons.IH [OF this] False show ?thesis by auto
  qed
qed

definition provides :: "Resolver \<Rightarrow> ProducedInput \<Rightarrow> BlockDefinition \<Rightarrow> bool" where
  "provides resolve r d \<longleftrightarrow> (\<exists>os. outputsOf resolve r d = Some (Inr os) \<and> InputOutput r \<in> set os)"

lemma producedProducer_provides:
  assumes "producedProducer resolve ds r = Inr i"
  shows "\<exists>d\<in>set ds. ID d = i \<and> provides resolve r d"
  using producerLoop_Inr [of resolve r ds "[]" i] assms by (auto simp: producedProducer_def provides_def)

lemma dependOnProducedInputs_spec:
  assumes "dependOnProducedInputs resolve ds = Inr ds'" and "n < length ds"
  shows "length ds' = length ds"
    and "\<exists>refs producers. producedReferences resolve (ds ! n) = Inr refs \<and>
           list_all2 (\<lambda>r i. \<exists>d\<in>set ds. ID d = i \<and> provides resolve r d) refs producers \<and>
           ds' ! n = (ds ! n)\<lparr>Dependencies := Dependencies (ds' ! n)\<rparr> \<and>
           set (elems (Dependencies (ds' ! n))) = set (elems (Dependencies (ds ! n))) \<union> set producers"
proof -
  let ?f = "\<lambda>d. bindR (producedReferences resolve d) (\<lambda>refs.
               bindR (mapR (producedProducer resolve ds) refs) (\<lambda>producers.
                 Inr (d\<lparr>Dependencies := compactS (sortS (appendS (Dependencies d) producers))\<rparr>)))"
  have all: "list_all2 (\<lambda>d d'. ?f d = Inr d') ds ds'"
    using assms(1) by (simp add: dependOnProducedInputs_def mapR_Inr_iff)
  then show "length ds' = length ds"
    by (simp add: list_all2_lengthD)
  have "?f (ds ! n) = Inr (ds' ! n)"
    using all assms(2) by (rule list_all2_nthD)
  then obtain refs producers where r: "producedReferences resolve (ds ! n) = Inr refs"
      "mapR (producedProducer resolve ds) refs = Inr producers"
      "ds' ! n = (ds ! n)\<lparr>Dependencies := compactS (sortS (appendS (Dependencies (ds ! n)) producers))\<rparr>"
    by (auto simp: result_simps)
  then have "list_all2 (\<lambda>r i. \<exists>d\<in>set ds. ID d = i \<and> provides resolve r d) refs producers"
    by (auto simp: mapR_Inr_iff producedProducer_provides elim!: list_all2_mono)
  with r show "\<exists>refs producers. producedReferences resolve (ds ! n) = Inr refs \<and>
           list_all2 (\<lambda>r i. \<exists>d\<in>set ds. ID d = i \<and> provides resolve r d) refs producers \<and>
           ds' ! n = (ds ! n)\<lparr>Dependencies := Dependencies (ds' ! n)\<rparr> \<and>
           set (elems (Dependencies (ds' ! n))) = set (elems (Dependencies (ds ! n))) \<union> set producers"
    by (intro exI [of _ refs] exI [of _ producers]) simp
qed

lemma dependOnStageTails_spec:
  assumes "dependOnStageTails resolve ds = Inr ds'" and "n < length ds"
    and "capabilityOf resolve (blockOf (ds ! n)) = Some c" and "StageTail c = Some tail" and "tail (ds ! n) = Inr (r, True)"
  shows "set (elems (Dependencies (ds' ! n))) =
     set (elems (Dependencies (ds ! n))) \<union>
     ID ` {x \<in> set ds. ID x \<noteq> ID (ds ! n) \<and> BlockStage x = BlockStage (ds ! n) \<and> r \<in> set (Requires x)}"
proof -
  have "list_all2 (\<lambda>d d'. stageTail resolve ds d = Inr d') ds ds'"
    using assms(1) by (simp add: dependOnStageTails_def mapR_Inr_iff)
  then have "stageTail resolve ds (ds ! n) = Inr (ds' ! n)"
    using assms(2) by (rule list_all2_nthD)
  then have "ds' ! n = (ds ! n)\<lparr>Dependencies := compactS (sortS (appendS (Dependencies (ds ! n)) (tailFollows ds (ds ! n) r)))\<rparr>"
    using assms(3-5) by (simp add: stageTail_def split: if_splits)
  then show ?thesis by (simp add: tailFollows_def)
qed

text \<open>A claim is refused exactly when its object already has another holder of the family.\<close>

lemma hold_refused:
  "refusedClaims (hold b kind name c) = refusedClaims c \<longleftrightarrow>
     holders c (claimKey b kind name) \<in> {None, Some (BindingImplementation b)}"
  by (auto simp: hold_def split: option.splits)

lemma hold_holder: "holders c k = Some i \<Longrightarrow> holders (hold b kind name c) k = Some i"
  by (auto simp: hold_def split: option.splits)

lemma holds_after: "holders (hold b kind name c) (claimKey b kind name) \<noteq> None"
  by (auto simp: hold_def split: option.splits)

end
