(* ===== verification/Templates.thy ===== *)
theory Templates
  imports Inputs
begin

section \<open>No template code in a request\<close>

text \<open>
  The refusal of \<open>internal/reconciliation/lifecycle/planning.go\<close> that keeps template delimiters
  and the keys ansible-core reserves out of every request: \<open>RefuseTemplateDelimiters\<close> decodes each
  request, walks it depth-first, and reports one diagnostic for each block that holds one.
  \<open>refuseTemplateValues_None\<close> states what an accepted plan guarantees: no string and no key of a
  decoded request contains a delimiter, and no key is reserved.

  How \<open>strconv.Quote\<close> writes a text depends on the Unicode tables of the Go release; it only
  shapes messages here, so it is an argument of the definitions that use it.
\<close>

definition templateDelimiters :: "string list" where
  "templateDelimiters = [''{{'', ''{%'', ''{#'']"

definition ansibleReservedKeys :: "string list" where
  "ansibleReservedKeys = [''__ansible_type'', ''__ansible_unsafe'', ''__ansible_vault'']"

record templateHit =
  what :: string
  location :: string
  reserved :: bool

text \<open>\<open>strings.Index\<close>, \<open>None\<close> for -1.\<close>

definition str_index :: "string \<Rightarrow> string \<Rightarrow> nat option" where
  "str_index text sub = (case cut_at sub text of (before, after, found) \<Rightarrow> if found then Some (length before) else None)"

fun delimiterLoop :: "string \<Rightarrow> string list \<Rightarrow> string \<times> nat option \<Rightarrow> string \<times> nat option" where
  "delimiterLoop text [] st = st"
| "delimiterLoop text (d # ds) (marker, first) =
     delimiterLoop text ds
       (case str_index text d of
          None \<Rightarrow> (marker, first)
        | Some i \<Rightarrow>
            (case first of
               None \<Rightarrow> (d, Some i)
             | Some j \<Rightarrow> if i < j then (d, Some i) else (marker, first)))"

definition firstDelimiter :: "string \<Rightarrow> string \<times> nat option" where
  "firstDelimiter text = delimiterLoop text templateDelimiters ([], None)"

definition delimiterHeld :: "(string \<Rightarrow> string) \<Rightarrow> string \<Rightarrow> string" where
  "delimiterHeld quote marker = ''the template delimiter '' @ quote marker"

definition plain_key_char :: "char \<Rightarrow> bool" where
  "plain_key_char c \<longleftrightarrow> c \<in> set ''abcdefghijklmnopqrstuvwxyzABCDEFGHIJKLMNOPQRSTUVWXYZ0123456789_-''"

text \<open>\<open>strings.Trim\<close> cuts at both ends, so what is left is empty only when every byte is plain.\<close>

definition fieldPath :: "(string \<Rightarrow> string) \<Rightarrow> string \<Rightarrow> string \<Rightarrow> string" where
  "fieldPath quote path key =
     (if \<not> (key \<noteq> [] \<and> list_all plain_key_char key) then path @ ''['' @ quote key @ '']''
      else if path = [] then key
      else path @ ''.'' @ key)"

definition orRequest :: "string \<Rightarrow> string" where
  "orRequest path = (if path = [] then ''the request'' else path)"

definition stringHit :: "(string \<Rightarrow> string) \<Rightarrow> string \<Rightarrow> string \<Rightarrow> templateHit list" where
  "stringHit quote path s =
     (case firstDelimiter s of (marker, index) \<Rightarrow>
        if marker = [] then []
        else [\<lparr>what = delimiterHeld quote marker,
               location = (if CHR 0x0A \<in> set s
                 then ''line '' @ decimal (count_list (take (the index) s) (CHR 0x0A) + 1) @ '' of '' @ orRequest path
                 else orRequest path),
               reserved = False\<rparr>])"

definition keyHit :: "(string \<Rightarrow> string) \<Rightarrow> string \<Rightarrow> string \<Rightarrow> templateHit list" where
  "keyHit quote path key =
     (if fst (firstDelimiter key) \<noteq> []
      then [\<lparr>what = delimiterHeld quote (fst (firstDelimiter key)), location = ''a key of '' @ orRequest path, reserved = False\<rparr>]
      else if key \<in> set ansibleReservedKeys
      then [\<lparr>what = ''the ansible-core reserved key '' @ quote key, location = orRequest path, reserved = True\<rparr>]
      else [])"

fun collectTemplateHits :: "(string \<Rightarrow> string) \<Rightarrow> json \<Rightarrow> string \<Rightarrow> templateHit list"
  and collectItems :: "(string \<Rightarrow> string) \<Rightarrow> json list \<Rightarrow> nat \<Rightarrow> string \<Rightarrow> templateHit list"
  and collectMembers :: "(string \<Rightarrow> string) \<Rightarrow> (string \<times> json) list \<Rightarrow> string \<Rightarrow> templateHit list" where
  "collectTemplateHits quote (JStr s) path = stringHit quote path s"
| "collectTemplateHits quote (JArr vs) path = collectItems quote vs 0 path"
| "collectTemplateHits quote (JObj ms) path = collectMembers quote ms path"
| "collectTemplateHits quote v path = []"
| "collectItems quote [] index path = []"
| "collectItems quote (v # vs) index path =
     collectTemplateHits quote v (path @ ''['' @ decimal index @ '']'') @ collectItems quote vs (Suc index) path"
| "collectMembers quote [] path = []"
| "collectMembers quote ((key, v) # ms) path =
     keyHit quote path key @ collectTemplateHits quote v (fieldPath quote path key) @ collectMembers quote ms path"

text \<open>The members of a decoded object come in the order of their keys (\<open>to_any\<close>).\<close>

definition templateHits :: "(string \<Rightarrow> string) \<Rightarrow> string \<Rightarrow> templateHit list" where
  "templateHits quote request =
     (case parse_value request of
        None \<Rightarrow> []
      | Some (v, rest) \<Rightarrow> collectTemplateHits quote (to_any v) [])"

definition quotedChars :: "string \<Rightarrow> string" where
  "quotedChars s = [quote_char] @ s @ [quote_char]"

definition templateDiagnostic :: "(string \<Rightarrow> string) \<Rightarrow> string \<Rightarrow> string \<Rightarrow> BlockDefinition \<Rightarrow> Diagnostic option" where
  "templateDiagnostic quote contextName again d =
     (case templateHits quote (Request d) of
        [] \<Rightarrow> None
      | hit # others \<Rightarrow>
          (let obj = Kind d @ ''/'' @ Object d;
               removed =
                 (if list_ex (\<lambda>h. \<not> reserved h) (hit # others)
                  then [quotedChars ''{{'' @ '', '' @ quotedChars ''{%'' @ '' and '' @ quotedChars ''{#''] else [])
                 @ (if list_ex reserved (hit # others)
                    then [''every key named '' @ quotedChars ''__ansible_type'' @ '', '' @ quotedChars ''__ansible_unsafe''
                          @ '' or '' @ quotedChars ''__ansible_vault''] else []) in
           Some \<lparr>Severity = ''error'', Code = ''api.value'',
             Message = ''the request planned for '' @ obj @ '' holds '' @ what hit @ '' in '' @ location hit
               @ (if others = [] then [] else '', and '' @ decimal (length others) @ '' more of its fields hold one''),
             Source = None,
             DiagnosedObject = Some \<lparr>APIVersion = ''bootwright.io/v1alpha1'', ObjectKind = Kind d, ObjectName = Object d\<rparr>,
             Field = [],
             Remediation = ''remove '' @ join '' and '' removed @ '' from the desired-state values '' @ obj @ '' is planned from, ''
               @ ''import them with bootwright context update --name '' @ contextName @ '' --input-dir <dir>, then run '' @ again\<rparr>))"

definition diagnosticKey :: "Diagnostic \<Rightarrow> string \<times> string \<times> string" where
  "diagnosticKey d =
     (case DiagnosedObject d of
        None \<Rightarrow> ([], [], Message d)
      | Some obj \<Rightarrow> (ObjectKind obj, ObjectName obj, Message d))"

text \<open>
  The sort of the source is not stable; two diagnostics it may exchange name the same object
  with the same message.
\<close>

definition refuseTemplateValues :: "(string \<Rightarrow> string) \<Rightarrow> string \<Rightarrow> string \<Rightarrow> BlockDefinition list \<Rightarrow> Failure option" where
  "refuseTemplateValues quote contextName again ds =
     (let refused = List.map_filter (templateDiagnostic quote contextName again) ds in
      if refused = [] then None
      else Some \<lparr>FailureDiagnostics = sort_key diagnosticKey refused, Usage = False\<rparr>)"

definition RefuseTemplateDelimiters :: "(string \<Rightarrow> string) \<Rightarrow> string \<Rightarrow> BlockDefinition list \<Rightarrow> Failure option" where
  "RefuseTemplateDelimiters quote contextName ds =
     refuseTemplateValues quote contextName (contextCommand contextName ''plan'' []) ds"

definition RefuseBoundedTemplateDelimiters ::
  "(string \<Rightarrow> string) \<Rightarrow> string \<Rightarrow> string \<Rightarrow> BlockDefinition list \<Rightarrow> Failure option" where
  "RefuseBoundedTemplateDelimiters quote contextName again ds = refuseTemplateValues quote contextName again ds"

subsection \<open>Accepted requests\<close>

definition contains :: "string \<Rightarrow> string \<Rightarrow> bool" where
  "contains text sub \<longleftrightarrow> (\<exists>a b. text = a @ sub @ b)"

text \<open>A value none of whose strings and keys holds template code.\<close>

fun templateFree :: "json \<Rightarrow> bool" where
  "templateFree (JStr s) = (\<forall>d\<in>set templateDelimiters. \<not> contains s d)"
| "templateFree (JArr vs) = (\<forall>v\<in>set vs. templateFree v)"
| "templateFree (JObj ms) =
     (\<forall>m\<in>set ms. (\<forall>d\<in>set templateDelimiters. \<not> contains (fst m) d) \<and> fst m \<notin> set ansibleReservedKeys \<and> templateFree (snd m))"
| "templateFree v = True"

lemma has_prefix_append: "has_prefix s p \<longleftrightarrow> (\<exists>b. s = p @ b)"
  by (auto simp: has_prefix_def) (metis append_take_drop_id)

lemma cut_at_contains: "snd (snd (cut_at sub body)) \<longleftrightarrow> contains body sub"
proof (induction body)
  case Nil
  then show ?case by (simp add: contains_def)
next
  case (Cons c r)
  have "contains (c # r) sub \<longleftrightarrow> has_prefix (c # r) sub \<or> contains r sub"
    by (auto simp: contains_def has_prefix_append Cons_eq_append_conv)
  then show ?case
    using Cons by (auto split: prod.splits)
qed

lemma str_index_None: "str_index body sub = None \<longleftrightarrow> \<not> contains body sub"
  using cut_at_contains [of sub body] by (auto simp: str_index_def split: prod.splits)

lemma delimiterLoop_Nil:
  assumes "[] \<notin> set ds" and "first = None \<longleftrightarrow> marker = []"
  shows "fst (delimiterLoop body ds (marker, first)) = [] \<longleftrightarrow> marker = [] \<and> (\<forall>d\<in>set ds. \<not> contains body d)"
  using assms
proof (induction ds arbitrary: marker first)
  case (Cons d ds)
  show ?case
  proof (cases "str_index body d")
    case None
    then have "\<not> contains body d"
      using str_index_None [of body d] by simp
    with None show ?thesis
      using Cons by simp
  next
    case (Some i)
    then have "contains body d"
      using str_index_None [of body d] by auto
    obtain m f where mf: "(case first of None \<Rightarrow> (d, Some i) | Some j \<Rightarrow> if i < j then (d, Some i) else (marker, first)) = (m, f)"
      by fastforce
    have "m \<noteq> []" "f \<noteq> None"
      using mf Cons.prems by (auto split: option.splits if_splits)
    then have "fst (delimiterLoop body ds (m, f)) \<noteq> []"
      using Cons.IH [of f m] Cons.prems(1) by simp
    with Some mf \<open>contains body d\<close> show ?thesis by simp
  qed
qed simp

lemma firstDelimiter_Nil: "fst (firstDelimiter body) = [] \<longleftrightarrow> (\<forall>d\<in>set templateDelimiters. \<not> contains body d)"
  unfolding firstDelimiter_def by (subst delimiterLoop_Nil) (auto simp: templateDelimiters_def)

lemma collect_Nil:
  "collectTemplateHits quote v path = [] \<longleftrightarrow> templateFree v"
  "collectItems quote vs index path = [] \<longleftrightarrow> (\<forall>v\<in>set vs. templateFree v)"
  "collectMembers quote ms path = [] \<longleftrightarrow> templateFree (JObj ms)"
proof (induction quote v path and quote vs index path and quote ms path rule: collectTemplateHits_collectItems_collectMembers.induct)
  case (1 quote s path)
  then show ?case
    using firstDelimiter_Nil [of s] by (auto simp: stringHit_def split: prod.splits)
next
  case 8
  then show ?case
    by (auto simp: keyHit_def firstDelimiter_Nil)
qed auto

lemma templateHits_Nil:
  "templateHits quote request = [] \<longleftrightarrow>
     (case parse_value request of None \<Rightarrow> True | Some (v, rest) \<Rightarrow> templateFree (to_any v))"
  by (auto simp: templateHits_def collect_Nil split: option.splits)

lemma refuseTemplateValues_None:
  "refuseTemplateValues quote contextName again ds = None \<longleftrightarrow>
     (\<forall>d\<in>set ds. case parse_value (Request d) of None \<Rightarrow> True | Some (v, rest) \<Rightarrow> templateFree (to_any v))"
proof -
  have "templateDiagnostic quote contextName again d = None \<longleftrightarrow> templateHits quote (Request d) = []" for d
    by (simp add: templateDiagnostic_def Let_def split: list.splits)
  moreover have "List.map_filter f xs = [] \<longleftrightarrow> (\<forall>x\<in>set xs. f x = None)" for f :: "BlockDefinition \<Rightarrow> Diagnostic option" and xs
    by (induction xs) (auto simp: map_filter_simps split: option.splits)
  ultimately show ?thesis
    by (simp add: refuseTemplateValues_def Let_def templateHits_Nil)
qed

text \<open>A request that is also canonical is the text of a value free of template code.\<close>

lemma canonical_request_template_free:
  assumes "canonicalRequest (Request d) = None" "refuseTemplateValues quote contextName again [d] = None"
  shows "\<exists>ms. Request d = print_json (JObj ms) \<and> canonical (JObj ms) \<and> templateFree (JObj ms)"
proof -
  have "proveObject (Request d) = None"
    using assms(1) by (auto simp: canonicalRequest_def split: if_splits option.splits canon_error.splits)
  then obtain ms where ms: "wf_json 0 (JObj ms)" "canonical (JObj ms)" "Request d = print_json (JObj ms)"
    unfolding proveObject_iff by blast
  then have "parse_value (Request d) = Some (JObj ms, [])"
    using parse_print [OF ms(1), of "[]"] by (simp add: num_stop_def)
  then have "templateFree (JObj ms)"
    using assms(2) to_any_canonical_id [OF ms(2)] by (simp add: refuseTemplateValues_None)
  with ms show ?thesis by blast
qed

end
