(* ===== verification/RunSamples.thy ===== *)
theory RunSamples
  imports Samples Scheduling Templates
begin

section \<open>A run and a removal of the small plan\<close>

text \<open>
  The concrete inputs of the examples beside the theorems about the scheduler and the phases of
  a removal: the configuration of a run over the small plan with its first block started, and a
  removal of two blocks in which the service is retired with the machine it runs on.
\<close>

definition sampleSelection :: Selection where
  "sampleSelection = \<lparr>SelStages = None, SelUntil = [], within = {}\<rparr>"

definition sampleConfig :: SchedulerConfig where
  "sampleConfig =
     \<lparr>schedPlan = samplePlan, schedVerb = Apply, schedSelection = sampleSelection, bound = 8, throttle = 4,
      observeOnly = False, phases = noPhases\<rparr>"

lemma sampleConfig_simps [simp]:
  "schedPlan sampleConfig = samplePlan" "schedVerb sampleConfig = Apply" "schedSelection sampleConfig = sampleSelection"
  "bound sampleConfig = 8" "throttle sampleConfig = 4" "observeOnly sampleConfig = False" "phases sampleConfig = noPhases"
  by (simp_all add: sampleConfig_def)

definition sampleStarted :: SchedulerState where
  "sampleStarted = start sampleConfig (frozen sampleMachine) 0 (newScheduler Map.empty)"

lemma sample_blocks:
  "blocks samplePlan = [frozen sampleMachine, frozen sampleService, frozen (sampleDefinition ''c1'' StageAddOns ''c1.addon'' [] [''dns'', ''m1''])]"
  by (simp add: samplePlan_def sampleResolved_def)

lemma sample_fields:
  "blockID (frozen sampleMachine) = ''m1''" "blockID (frozen sampleService) = ''dns''"
  "dependencies (frozen sampleMachine) = []" "dependencies (frozen sampleService) = [''m1'']"
  by (simp_all add: sampleMachine_def sampleService_def sampleDefinition_def elems_frozen)

lemma sample_next: "nextBlock sampleConfig (newScheduler Map.empty) = Some (frozen sampleMachine, 0)"
proof -
  let ?sts = "Map.empty :: BlockStates"
  have ready: "frozen sampleMachine \<in> set (Startable samplePlan ?sts sampleSelection)"
    using mem_Ready [OF sample_built, of "frozen sampleMachine" ?sts]
    by (simp add: Startable_def Admits_def Selects_def sampleSelection_def sample_blocks sample_fields blockState_def
        sampleMachine_def sampleDefinition_def)
  obtain rest where rest: "positions (\<lambda>b. blockID b \<in> blockID ` set (Startable samplePlan ?sts sampleSelection)) (blocks samplePlan) = 0 # rest"
    "sorted (0 # rest)"
  proof
    let ?q = "\<lambda>b. blockID b \<in> blockID ` set (Startable samplePlan ?sts sampleSelection)"
    have "?q (frozen sampleMachine)" by (rule imageI) (rule ready)
    then show "positions ?q (blocks samplePlan) = 0 # filter (\<lambda>i. ?q (blocks samplePlan ! i)) [1, 2]"
      by (simp add: positions_def sample_blocks upt_rec)
    show "sorted (0 # filter (\<lambda>i. ?q (blocks samplePlan ! i)) [1::nat, 2])"
      by simp
  qed
  have first: "firstAdmission samplePlan ?sts sampleSelection {} {} [] = (StepStart, 0 # rest)"
    using rest(1) sorted_sort_id [OF rest(2)] by (simp add: firstAdmission_def Let_def unproved_def stateAt_def list_ex_iff)
  have "free sampleConfig (newScheduler ?sts) (frozen sampleMachine)"
    by (simp add: free_def newScheduler_def sampleMachine_def sampleDefinition_def frozen_def deliberate_def clone_def)
  then show ?thesis
    using first by (simp add: nextBlock_def newScheduler_def preStopDone_def noPhases_def sample_blocks)
qed

lemma sample_started: "reached sampleConfig Map.empty sampleStarted"
proof -
  have "admitOne sampleConfig (\<lambda>_. None) (newScheduler Map.empty) = (sampleStarted, True)"
    by (simp add: admitOne_def sample_next provePreStopBoundary_def proveOnlineBoundary_def sampleStarted_def)
  moreover have "mayAdmit sampleConfig (newScheduler Map.empty)"
    by (simp add: mayAdmit_def newScheduler_def)
  ultimately show ?thesis
    by (rule reached.step [OF reached.init scheduled.admits, rotated])
qed

lemma sample_config: "built (schedPlan sampleConfig)" "distinct (map blockID (planOf sampleConfig))" "preStop (phases sampleConfig) = {}"
  using sample_built built_distinct by (simp_all add: noPhases_def)

subsection \<open>A removal\<close>

definition sampleRemovalDefs :: "BlockDefinition list" where
  "sampleRemovalDefs =
     [sampleDefinition ''dns'' StageInfrastructureServices ''dns'' [] [], sampleDefinition ''m1'' StageMachines ''m1'' [] [''dns'']]"

definition sampleRemoval :: Plan where
  "sampleRemoval = \<lparr>PlanVerb = Destroy, Blocks = Some (map frozen sampleRemovalDefs)\<rparr>"

text \<open>The service runs on the machine, whose removal takes the host away.\<close>

definition sampleCapability :: Capability where
  "sampleCapability =
     \<lparr>RequiresPreStopRemoval = None, ProbesQuiescence = Some True,
      HostMachines = Some (\<lambda>b. if Object (Def b) = ''dns'' then Some [''m1''] else Some []),
      RequiresOnlineRemoval = None, RemovesHost = Some (\<lambda>b. Object (Def b) = ''m1''), DeletesMachine = None,
      ProducedInputs = None, ProducedOutputs = None, HostObject = None, NodeMachines = None, StageTail = None\<rparr>"

definition sampleResolver :: Resolver where
  "sampleResolver kind implementation = Some sampleCapability"

lemma sampleRemoval_plan: "NewPlan Destroy sampleRemovalDefs = Inr sampleRemoval"
proof -
  have d: "distinct (map ID sampleRemovalDefs)"
    by code_simp
  have "map_sum (\<lambda>_. ()) (\<lambda>f. map f [''dns'', ''m1'']) (waves (map ID sampleRemovalDefs) (defMap sampleRemovalDefs)) = Inr [0, 1]"
    by code_simp
  then obtain f where f: "waves (map ID sampleRemovalDefs) (defMap sampleRemovalDefs) = Inr f" "f ''dns'' = 0" "f ''m1'' = 1"
    by (cases "waves (map ID sampleRemovalDefs) (defMap sampleRemovalDefs)") auto
  have v: "\<forall>d\<in>set sampleRemovalDefs. validateDefinition d = None"
    using sample_segments by (simp add: sampleRemovalDefs_def sampleDefinition_valid ValidStage_def Stages_def)
  have "checkPrerequisites Destroy sampleRemovalDefs = None"
    by code_simp
  then have "plannable Destroy sampleRemovalDefs"
    using f(1) d v dep_graph.waves_ok [OF defMap_graph [OF d refl]]
    by (auto simp: plannable_def closed_defMap [OF d refl])
  moreover have "resolveRequirements sampleRemovalDefs = Inr sampleRemovalDefs"
    by code_simp
  moreover have "admissible Destroy sampleRemovalDefs"
    by (simp add: admissible_def sampleRemovalDefs_def sampleDefinition_def)
  moreover have "arranged sampleRemovalDefs = sampleRemovalDefs"
  proof -
    have "sorted (map (\<lambda>d. (waveOf sampleRemovalDefs (ID d), ID d)) sampleRemovalDefs)"
      using f by (simp add: waveOf_def sampleRemovalDefs_def sampleDefinition_def)
    then show ?thesis
      unfolding arranged_def by (simp add: sorted_sort_key_id)
  qed
  ultimately show ?thesis
    by (simp add: NewPlan_eq sampleRemoval_def)
qed

lemma sampleRemoval_built: "built sampleRemoval" "PlanVerb sampleRemoval = Destroy"
  using NewPlan_built [OF sampleRemoval_plan] by simp_all

lemma sampleRemoval_effects: "onlineEffects (computePhases sampleResolver sampleRemoval) = {}"
proof -
  obtain ret hosts surv where r: "retiredWithHosts sampleResolver sampleRemoval = (ret, hosts, surv)"
    by (cases "retiredWithHosts sampleResolver sampleRemoval")
  show ?thesis
    using computePhases_stable(2) [OF sampleRemoval_built(2) r]
    by (simp add: effectsOf_def asks_def capabilityOf_def sampleResolver_def sampleCapability_def)
qed

lemma sampleRemoval_blocks:
  "blocks sampleRemoval = [frozen (sampleDefinition ''dns'' StageInfrastructureServices ''dns'' [] []),
     frozen (sampleDefinition ''m1'' StageMachines ''m1'' [] [''dns''])]"
  by (simp add: sampleRemoval_def sampleRemovalDefs_def)

lemma sampleResolver_hosts:
  "hostsOf sampleResolver b = (if Object (Def b) = ''dns'' then Some [''m1''] else Some [])"
  by (simp add: hostsOf_def capabilityOf_def sampleResolver_def sampleCapability_def)

lemma sampleRemoval_reach: "''dns'' \<in> reachBefore sampleRemoval ''m1''"
  unfolding reachBefore_closure [OF sampleRemoval_built(1)]
  by (auto intro!: r_into_trancl simp: plan_edges_def sampleRemoval_blocks sampleDefinition_def elems_frozen)

lemma object_frozen: "Object (Def (frozen d)) = Object d"
  by (simp add: frozen_def deliberate_def clone_def)

lemma sampleRemoval_with_hosts: "\<exists>ret hosts surv. retiredWithHosts sampleResolver sampleRemoval = (ret, hosts, surv) \<and> isTrue ret ''dns''"
proof -
  let ?ret = "fold (retireBlock sampleResolver sampleRemoval) (blocks sampleRemoval) Map.empty"
  have "consumeBlock sampleResolver sampleRemoval r b st = st" for r b st
    by (simp add: consumeBlock_def capabilityOf_def sampleResolver_def sampleCapability_def)
  then have "consumers sampleResolver sampleRemoval r = (\<lambda>_. [], \<lambda>_. [])" for r
    by (simp add: consumers_def sampleRemoval_blocks)
  then have "retiredWithHosts sampleResolver sampleRemoval = (?ret, \<lambda>_. [], \<lambda>_. [])"
    by (simp add: retiredWithHosts_def Let_def sampleRemoval_blocks surviveBlock_def)
  moreover have "removesHostOf sampleResolver sampleRemoval ''dns'' ''m1'' (blocks sampleRemoval ! 1)"
    using sampleRemoval_reach
    by (simp add: removesHostOf_def asks_def capabilityOf_def sampleResolver_def sampleCapability_def sampleRemoval_blocks sampleDefinition_def
        frozen_def deliberate_def clone_def)
  then have "isTrue ?ret ''dns''"
    by (simp add: sampleRemoval_blocks retireBlock_def sampleResolver_hosts sampleDefinition_def isTrue_def object_frozen)
  ultimately show ?thesis by blast
qed

lemma sampleRemoval_retired:
  "hd (blocks sampleRemoval) \<in> set (blocks sampleRemoval)"
  "isTrue (retired (computePhases sampleResolver sampleRemoval)) (blockID (hd (blocks sampleRemoval)))"
  "blockID (hd (blocks sampleRemoval)) = ''dns''"
proof -
  show "hd (blocks sampleRemoval) \<in> set (blocks sampleRemoval)" and dns: "blockID (hd (blocks sampleRemoval)) = ''dns''"
    by (simp_all add: sampleRemoval_blocks sampleDefinition_def)
  obtain ret hosts surv where r: "retiredWithHosts sampleResolver sampleRemoval = (ret, hosts, surv)" "isTrue ret ''dns''"
    using sampleRemoval_with_hosts by blast
  have "effectsOf sampleResolver sampleRemoval m = {}" for m
    by (simp add: effectsOf_def asks_def capabilityOf_def sampleResolver_def sampleCapability_def)
  then have "machines (deferral sampleResolver sampleRemoval m) = {}" for m
    by (simp add: deferral_machines [OF sampleRemoval_built(1)])
  then have "unretired sampleResolver sampleRemoval hosts ret = {}"
    by (simp add: unretired_empty hostsDeferred_def machinesDeferred_def list_ex_iff split: option.splits)
  then have "retired (computePhases sampleResolver sampleRemoval) = ret"
    by (simp add: computePhases_def sampleRemoval_built(2) r(1) phasesLoop.simps [of sampleResolver sampleRemoval hosts surv ret])
  then show "isTrue (retired (computePhases sampleResolver sampleRemoval)) (blockID (hd (blocks sampleRemoval)))"
    using r(2) dns by simp
qed

definition sampleOperation :: Operation where
  "sampleOperation =
     \<lparr>OpVersion = 1, OpID = ''op-'' @ replicate 32 CHR ''a'', OpVerb = Apply, OpContext = ''lab'', Revision = ''r1'',
      InputDigest = ''d1'', PlanDigest = ''d2'', AutomationDigest = ''d3'',
      OpExecutable = \<lparr>ExeVersion = [], Commit = []\<rparr>,
      OpClosure = Some \<lparr>ClosureDigest = replicate 64 CHR ''a'', Python = ''3.12'', Ansible = ''2.18.1''\<rparr>,
      OpSource = [], Replaces = [], Predecessor = [], Bindings = Some [''b1''], OpState = OperationRunning, LogFault = False,
      Created = ''2024-02-29T23:59:59Z'', OpUpdated = ''2024-03-01T00:00:00Z''\<rparr>"

lemma sample_closure: "validateClosure (OpClosure sampleOperation) = None"
proof -
  have "closureABI ''3.12''" "closureRelease ''2.18.1''" by code_simp+
  moreover have "canonical_digest (replicate 64 CHR ''a'')"
    by (rule plain_digest) (simp_all add: list_all_iff lower_hex_def)
  ultimately show ?thesis by (simp add: validateClosure_def sampleOperation_def)
qed

lemma sample_operation: "validateOperation sampleOperation = None"
proof -
  have "ValidOperationID (OpID sampleOperation)"
    unfolding sampleOperation_def Operation.simps by (rule plain_identity) (simp_all add: list_all_iff lower_hex_def)
  then have "\<forall>c\<in>set (operationChecks sampleOperation). fst c"
    by (simp add: operationChecks_def sampleOperation_def ValidOperationState_def)
  moreover have "validateTimestamps [Created sampleOperation, OpUpdated sampleOperation] = None" by code_simp
  ultimately show ?thesis
    using sample_closure by (simp add: validateOperation_def sampleOperation_def)
qed

end
