(* ===== verification/Delta.thy ===== *)
theory Delta
  imports Stage
begin

section \<open>The difference between two plans\<close>

text \<open>
  \<open>internal/reconciliation/delta.go\<close>: \<open>Compare\<close> classifies the blocks of a frozen and of a
  fresh plan by what they would do, leaving aside the texts a reader sees. \<open>Compare_spec\<close>
  gives the class of every block, \<open>Compare_self\<close> that a plan never differs from itself, and
  \<open>Objects_spec\<close> what the summary by API object says.
\<close>

type_synonym Change = string

abbreviation Same :: Change where "Same \<equiv> ''same''"
abbreviation Added :: Change where "Added \<equiv> ''added''"
abbreviation Removed :: Change where "Removed \<equiv> ''removed''"
abbreviation Changed :: Change where "Changed \<equiv> ''changed''"

record BlockChange =
  ChangeBlock :: string
  ChangeKind :: string
  ChangeObject :: string
  ChangeClass :: Change

record ObjectChange =
  ObjKind :: string
  ObjObject :: string
  ObjChange :: Change
  ObjBlocks :: "string slice"

type_synonym Delta = "BlockChange list"

definition effects :: "Block \<Rightarrow> string option" where
  "effects b =
     enc_block (b\<lparr>Def := (Def b)\<lparr>Description := [], Impacts := None,
       Groups := Some (map (\<lambda>g. g\<lparr>GroupDescription := []\<rparr>) (elems (Groups (Def b))))\<rparr>\<rparr>)"

definition differentEffects :: "Block \<Rightarrow> Block \<Rightarrow> bool" where
  "differentEffects ours theirs \<longleftrightarrow>
     (case (effects ours, effects theirs) of (Some a, Some b) \<Rightarrow> a \<noteq> b | _ \<Rightarrow> True)"

definition changeOf :: "Block \<Rightarrow> Change \<Rightarrow> BlockChange" where
  "changeOf b c = \<lparr>ChangeBlock = blockID b, ChangeKind = Kind (Def b), ChangeObject = Object (Def b), ChangeClass = c\<rparr>"

fun compareLoop :: "(string \<rightharpoonup> Block) \<Rightarrow> Block list \<Rightarrow> Delta \<times> (string \<rightharpoonup> Block)" where
  "compareLoop planned [] = ([], planned)"
| "compareLoop planned (b # bs) =
     (let c = (case planned (blockID b) of
                 None \<Rightarrow> Removed
               | Some theirs \<Rightarrow> if differentEffects b theirs then Changed else Same);
          (rest, left) = compareLoop (planned(blockID b := None)) bs
      in (changeOf b c # rest, left))"

definition Compare :: "Plan \<Rightarrow> Plan \<Rightarrow> Delta" where
  "Compare frz fresh =
     (let planned = fold (\<lambda>b m. m(blockID b \<mapsto> b)) (blocks fresh) Map.empty;
          (delta, left) = compareLoop planned (blocks frz)
      in delta @ map (\<lambda>b. changeOf b Added) (filter (\<lambda>b. left (blockID b) \<noteq> None) (blocks fresh)))"

definition FirstChange :: "Delta \<Rightarrow> BlockChange option" where
  "FirstChange d = List.find (\<lambda>c. ChangeClass c \<noteq> Same) d"

definition CountChange :: "Delta \<Rightarrow> Change \<Rightarrow> nat" where
  "CountChange d c = length (filter (\<lambda>e. ChangeClass e = c) d)"

text \<open>One entry of the summary: where its key is, or the end of the list when it is new.\<close>

definition objectKey :: "BlockChange \<Rightarrow> string" where
  "objectKey e = ChangeKind e @ ''/'' @ ChangeObject e"

fun objectsLoop :: "(string \<rightharpoonup> nat) \<Rightarrow> ObjectChange list \<Rightarrow> Delta \<Rightarrow> ObjectChange list" where
  "objectsLoop position objects [] = objects"
| "objectsLoop position objects (e # es) =
     (let key = objectKey e in
      case position key of
        None \<Rightarrow>
          objectsLoop (position(key \<mapsto> length objects))
            (objects @ [\<lparr>ObjKind = ChangeKind e, ObjObject = ChangeObject e, ObjChange = ChangeClass e,
                         ObjBlocks = appendS None [ChangeBlock e]\<rparr>]) es
      | Some i \<Rightarrow>
          (let o1 = objects ! i;
               o2 = (if ObjChange o1 \<noteq> ChangeClass e then o1\<lparr>ObjChange := Changed\<rparr> else o1)
           in objectsLoop position
                (objects[i := o2\<lparr>ObjBlocks := appendS (ObjBlocks o2) [ChangeBlock e]\<rparr>]) es))"

definition Objects :: "Delta \<Rightarrow> ObjectChange list" where
  "Objects d = objectsLoop Map.empty [] d"

subsection \<open>Classes\<close>

definition classOf :: "Block list \<Rightarrow> Block \<Rightarrow> Change" where
  "classOf fresh b =
     (case List.find (\<lambda>c. blockID c = blockID b) fresh of
        None \<Rightarrow> Removed | Some c \<Rightarrow> if differentEffects b c then Changed else Same)"

lemma planned_map:
  assumes "distinct (map blockID bs)"
  shows "fold (\<lambda>b m. m(blockID b \<mapsto> b)) bs Map.empty i = List.find (\<lambda>b. blockID b = i) bs"
proof -
  have "fold (\<lambda>b m. m(blockID b \<mapsto> b)) bs m i = (case List.find (\<lambda>b. blockID b = i) bs of None \<Rightarrow> m i | Some b \<Rightarrow> Some b)" for m
    using assms
  proof (induction bs arbitrary: m)
    case (Cons b bs)
    have "List.find (\<lambda>c. blockID c = i) bs = None" if "blockID b = i"
      using Cons.prems that by (auto simp: find_None_iff rev_image_eqI)
    then show ?case
      using Cons by (auto split: option.splits)
  qed simp
  from this [of Map.empty] show ?thesis
    by (simp split: option.splits)
qed

lemma compareLoop_spec:
  "distinct (map blockID bs) \<Longrightarrow> compareLoop m bs =
     (map (\<lambda>b. changeOf b (case m (blockID b) of None \<Rightarrow> Removed
         | Some t \<Rightarrow> if differentEffects b t then Changed else Same)) bs,
      m |` (- blockID ` set bs))"
proof (induction bs arbitrary: m)
  case (Cons b bs)
  let ?m = "m(blockID b := None)"
  have "map (\<lambda>c. changeOf c (case ?m (blockID c) of None \<Rightarrow> Removed | Some t \<Rightarrow> if differentEffects c t then Changed else Same)) bs
      = map (\<lambda>c. changeOf c (case m (blockID c) of None \<Rightarrow> Removed | Some t \<Rightarrow> if differentEffects c t then Changed else Same)) bs"
    using Cons.prems by (intro map_cong) (auto simp: image_iff)
  moreover have "?m |` (- blockID ` set bs) = m |` (- blockID ` set (b # bs))"
    by (auto simp: restrict_map_def fun_eq_iff)
  ultimately show ?case
    using Cons by (simp add: Let_def)
qed (simp add: restrict_map_def)

lemma Compare_spec:
  assumes "distinct (map blockID (blocks frz))" and "distinct (map blockID (blocks fresh))"
  shows "Compare frz fresh =
     map (\<lambda>b. changeOf b (classOf (blocks fresh) b)) (blocks frz)
     @ map (\<lambda>b. changeOf b Added) (filter (\<lambda>b. blockID b \<notin> blockID ` set (blocks frz)) (blocks fresh))"
proof -
  let ?m = "fold (\<lambda>b m. m(blockID b \<mapsto> b)) (blocks fresh) Map.empty"
  have "(?m |` (- blockID ` set (blocks frz))) (blockID b) \<noteq> None \<longleftrightarrow> blockID b \<notin> blockID ` set (blocks frz)"
    if "b \<in> set (blocks fresh)" for b
  proof -
    have "List.find (\<lambda>c. blockID c = blockID b) (blocks fresh) \<noteq> None"
      using that unfolding find_None_iff by auto
    then show ?thesis
      by (simp add: restrict_map_def planned_map [OF assms(2)])
  qed
  then have "filter (\<lambda>b. (?m |` (- blockID ` set (blocks frz))) (blockID b) \<noteq> None) (blocks fresh)
      = filter (\<lambda>b. blockID b \<notin> blockID ` set (blocks frz)) (blocks fresh)"
    by (rule filter_cong [OF refl])
  then show ?thesis
    unfolding Compare_def compareLoop_spec [OF assms(1)] Let_def prod.case
    by (simp add: planned_map [OF assms(2)] classOf_def)
qed

lemma effects_built:
  assumes "built p" and "b \<in> set (blocks p)"
  shows "effects b \<noteq> None"
  using marshal_raw_total [OF valid_dependencies(4) [OF built_block(1) [OF assms]]]
  by (auto simp: effects_def enc_block_def)

lemma Compare_self: "built p \<Longrightarrow> FirstChange (Compare p p) = None"
proof -
  assume p: "built p"
  have "classOf (blocks p) b = Same" if b: "b \<in> set (blocks p)" for b
  proof -
    have "List.find (\<lambda>c. blockID c = blockID b) bs = Some b" if "distinct (map blockID bs)" "b \<in> set bs" for bs
      using that by (induction bs) (auto simp: rev_image_eqI)
    then show ?thesis
      using effects_built [OF p b] built_distinct [OF p] b by (auto simp: classOf_def differentEffects_def)
  qed
  then show ?thesis
    by (auto simp: Compare_spec built_distinct [OF p] FirstChange_def find_None_iff changeOf_def)
qed

lemma FirstChange_None:
  assumes "distinct (map blockID (blocks frz))" and "distinct (map blockID (blocks fresh))"
  shows "FirstChange (Compare frz fresh) = None \<longleftrightarrow>
     blockID ` set (blocks frz) = blockID ` set (blocks fresh) \<and>
     (\<forall>b\<in>set (blocks frz). \<forall>c\<in>set (blocks fresh). blockID b = blockID c \<longrightarrow> \<not> differentEffects b c)"
proof -
  have same: "classOf (blocks fresh) b = Same \<longleftrightarrow>
      blockID b \<in> blockID ` set (blocks fresh) \<and> (\<forall>c\<in>set (blocks fresh). blockID b = blockID c \<longrightarrow> \<not> differentEffects b c)" for b
  proof (cases "List.find (\<lambda>c. blockID c = blockID b) (blocks fresh)")
    case None
    then have "blockID b \<notin> blockID ` set (blocks fresh)"
      by (auto simp: find_None_iff)
    with None show ?thesis by (simp add: classOf_def)
  next
    case (Some c)
    then have c: "c \<in> set (blocks fresh)" "blockID c = blockID b"
      by (auto simp: find_Some_iff)
    moreover have "d = c" if "d \<in> set (blocks fresh)" "blockID b = blockID d" for d
      using assms(2) c that by (auto simp: distinct_map dest: inj_onD)
    ultimately have "(\<forall>d\<in>set (blocks fresh). blockID b = blockID d \<longrightarrow> \<not> differentEffects b d) \<longleftrightarrow> \<not> differentEffects b c"
      by metis
    moreover have "classOf (blocks fresh) b = Same \<longleftrightarrow> \<not> differentEffects b c"
      using Some by (simp add: classOf_def)
    moreover have "blockID b \<in> blockID ` set (blocks fresh)"
      using c by (metis image_eqI)
    ultimately show ?thesis
      by blast
  qed
  have "FirstChange (Compare frz fresh) = None \<longleftrightarrow> (\<forall>b\<in>set (blocks frz). classOf (blocks fresh) b = Same) \<and>
      (\<forall>b\<in>set (blocks fresh). blockID b \<in> blockID ` set (blocks frz))"
    by (auto simp: Compare_spec [OF assms] FirstChange_def find_None_iff changeOf_def)
  then show ?thesis
    unfolding same by blast
qed

subsection \<open>The summary by API object\<close>

text \<open>The distinct values of a list in the order they first occur.\<close>

definition firsts :: "'a list \<Rightarrow> 'a list" where
  "firsts xs = rev (remdups (rev xs))"

lemma firsts_simps [simp]:
  "firsts [] = []"
  "firsts (xs @ [x]) = (if x \<in> set xs then firsts xs else firsts xs @ [x])"
  "set (firsts xs) = set xs"
  "distinct (firsts xs)"
  by (simp_all add: firsts_def)

text \<open>
  What the summary says of one key: all its blocks in order, and the one class they share, or
  changed when they do not share one.
\<close>

definition summaryOf :: "Delta \<Rightarrow> string \<Rightarrow> ObjectChange" where
  "summaryOf d k =
     (let es = filter (\<lambda>e. objectKey e = k) d in
      \<lparr>ObjKind = ChangeKind (hd es), ObjObject = ChangeObject (hd es),
       ObjChange = (if \<forall>e\<in>set es. ChangeClass e = ChangeClass (hd es) then ChangeClass (hd es) else Changed),
       ObjBlocks = Some (map ChangeBlock es)\<rparr>)"

lemma summaryOf_other:
  "objectKey e \<noteq> k \<Longrightarrow> summaryOf (d @ [e]) k = summaryOf d k"
  by (simp add: summaryOf_def)

lemma summaryOf_new:
  assumes "objectKey e \<notin> objectKey ` set d"
  shows "summaryOf (d @ [e]) (objectKey e) =
     \<lparr>ObjKind = ChangeKind e, ObjObject = ChangeObject e, ObjChange = ChangeClass e, ObjBlocks = appendS None [ChangeBlock e]\<rparr>"
proof -
  have "filter (\<lambda>x. objectKey x = objectKey e) d = []"
    using assms by (auto simp: filter_empty_conv image_iff)
  then show ?thesis
    by (simp add: summaryOf_def appendS_def)
qed

lemma summaryOf_again:
  assumes "objectKey e \<in> objectKey ` set d"
  shows "summaryOf (d @ [e]) (objectKey e) =
     (let o1 = summaryOf d (objectKey e);
          o2 = (if ObjChange o1 \<noteq> ChangeClass e then o1\<lparr>ObjChange := Changed\<rparr> else o1)
      in o2\<lparr>ObjBlocks := appendS (ObjBlocks o2) [ChangeBlock e]\<rparr>)"
proof -
  obtain a es where es: "filter (\<lambda>x. objectKey x = objectKey e) d = a # es"
    using assms by (cases "filter (\<lambda>x. objectKey x = objectKey e) d") (auto simp: filter_empty_conv)
  show ?thesis
    unfolding summaryOf_def filter_append es Let_def
    by (auto simp: appendS_def)
qed

lemma indexFunc_eq_nth:
  "distinct xs \<Longrightarrow> i < length xs \<Longrightarrow> indexFunc ((=) (xs ! i)) xs = Some i"
proof (induction xs arbitrary: i)
  case (Cons x xs)
  then show ?case by (cases i) auto
qed simp

lemma indexFunc_snoc:
  "indexFunc P (xs @ [x]) = (case indexFunc P xs of Some i \<Rightarrow> Some i | None \<Rightarrow> if P x then Some (length xs) else None)"
  by (induction xs) (auto simp del: indexFunc_None_iff split: option.splits)

lemma objectsLoop_spec:
  "objectsLoop (\<lambda>k. indexFunc ((=) k) (firsts (map objectKey ds))) (map (summaryOf ds) (firsts (map objectKey ds))) es
     = map (summaryOf (ds @ es)) (firsts (map objectKey (ds @ es)))"
proof (induction es arbitrary: ds)
  case (Cons e es)
  let ?ks = "firsts (map objectKey ds)"
  let ?pos = "\<lambda>k. indexFunc ((=) k) ?ks"
  have IH: "objectsLoop (\<lambda>k. indexFunc ((=) k) (firsts (map objectKey (ds @ [e])))) (map (summaryOf (ds @ [e])) (firsts (map objectKey (ds @ [e])))) es
      = map (summaryOf (ds @ e # es)) (firsts (map objectKey (ds @ e # es)))"
    using Cons.IH [of "ds @ [e]"] by simp
  show ?case
  proof (cases "objectKey e \<in> objectKey ` set ds")
    case False
    have none: "?pos (objectKey e) = None"
      using False by auto
    have pos: "?pos(objectKey e \<mapsto> length ?ks) = (\<lambda>k. indexFunc ((=) k) (firsts (map objectKey (ds @ [e]))))"
    proof
      fix k
      show "(?pos(objectKey e \<mapsto> length ?ks)) k = indexFunc ((=) k) (firsts (map objectKey (ds @ [e])))"
        using False none
        by (cases "k = objectKey e") (auto simp: indexFunc_snoc simp del: indexFunc_None_iff split: option.splits)
    qed
    have summ: "map (summaryOf ds) ?ks = map (summaryOf (ds @ [e])) ?ks"
      using False by (intro map_cong refl summaryOf_other [symmetric]) auto
    have "objectsLoop ?pos (map (summaryOf ds) ?ks) (e # es) =
        objectsLoop (?pos(objectKey e \<mapsto> length ?ks)) (map (summaryOf ds) ?ks @ [summaryOf (ds @ [e]) (objectKey e)]) es"
      using none by (simp add: Let_def summaryOf_new [OF False] del: indexFunc_None_iff)
    moreover have "map (summaryOf ds) ?ks @ [summaryOf (ds @ [e]) (objectKey e)] = map (summaryOf (ds @ [e])) (firsts (map objectKey (ds @ [e])))"
      unfolding summ using False by simp
    ultimately show ?thesis
      using IH by (simp only: pos)
  next
    case True
    then obtain i where i: "i < length ?ks" "?ks ! i = objectKey e"
      by (metis firsts_simps(3) in_set_conv_nth list.set_map)
    have pos: "?pos (objectKey e) = Some i"
      using indexFunc_eq_nth [OF firsts_simps(4) i(1)] i(2) by simp
    have ks: "firsts (map objectKey (ds @ [e])) = ?ks"
      using True by simp
    have upd: "map (summaryOf (ds @ [e])) ?ks = (map (summaryOf ds) ?ks)[i := summaryOf (ds @ [e]) (objectKey e)]"
    proof (rule nth_equalityI)
      fix j assume "j < length (map (summaryOf (ds @ [e])) ?ks)"
      then have j: "j < length ?ks" by simp
      show "map (summaryOf (ds @ [e])) ?ks ! j = (map (summaryOf ds) ?ks)[i := summaryOf (ds @ [e]) (objectKey e)] ! j"
      proof (cases "j = i")
        case True
        with i j show ?thesis by simp
      next
        case False
        then have "?ks ! j \<noteq> objectKey e"
          using i j by (metis firsts_simps(4) nth_eq_iff_index_eq)
        with False j show ?thesis
          by (simp add: summaryOf_other)
      qed
    qed simp
    show ?thesis
      using IH i pos unfolding ks upd summaryOf_again [OF True] by (simp add: Let_def)
  qed
qed simp

lemma Objects_summary: "Objects d = map (summaryOf d) (firsts (map objectKey d))"
  using objectsLoop_spec [of "[]" d] by (simp add: Objects_def)

end
