(* ===== verification/Lineage.thy ===== *)
theory Lineage
  imports Delta
begin

section \<open>Plans added to plans\<close>

text \<open>
  \<open>internal/reconciliation/lineage.go\<close>. A lineage joins the apply plans a context holds, in
  order: the prerequisites of a later plan, blocks of earlier ones, become dependencies again.
  \<open>Additive\<close> is the other direction: of a fresh plan it keeps the blocks no owned plan holds
  and turns their dependencies on held blocks into prerequisites. \<open>Additive_spec\<close> gives the
  blocks, the edges and the prerequisites of its result, \<open>Lineage_single\<close> that one plan
  without prerequisites is its own lineage, and \<open>Lineage_ok\<close> what any lineage guarantees.
\<close>

definition lineageDefinition :: "Block \<Rightarrow> BlockDefinition" where
  "lineageDefinition b =
     (let d = clone (Def b) in
      d\<lparr>Dependencies := compactS (sortS (appendS (Dependencies d) (elems (Prerequisites d)))),
        Prerequisites := None\<rparr>)"

fun lineageBlocks :: "string set \<Rightarrow> Block list \<Rightarrow> string set \<times> BlockDefinition list \<Rightarrow> (string set \<times> BlockDefinition list) result" where
  "lineageBlocks earlier [] st = Inr st"
| "lineageBlocks earlier (b # bs) st =
     (if blockID b \<in> fst st then Inl (planError (''lifecycle lineage repeats the block '' @ blockID b))
      else (case List.find (\<lambda>q. q \<notin> earlier) (elems (Prerequisites (Def b))) of
              Some q \<Rightarrow> Inl (planError (''lifecycle block '' @ blockID b @ '' has the prerequisite '' @ q
                @ '', which no earlier plan holds''))
            | None \<Rightarrow> lineageBlocks earlier bs (insert (blockID b) (fst st), snd st @ [lineageDefinition b])))"

fun lineagePlans :: "Plan list \<Rightarrow> string set \<times> BlockDefinition list \<Rightarrow> (string set \<times> BlockDefinition list) result" where
  "lineagePlans [] st = Inr st"
| "lineagePlans (p # ps) st =
     (if PlanVerb p \<noteq> Apply then Inl (planError ''only apply plans make a lineage'')
      else bindR (lineageBlocks (fst st) (blocks p) st) (lineagePlans ps))"

definition Lineage :: "Plan list \<Rightarrow> Plan result" where
  "Lineage plans =
     (if plans = [] then Inl (planError ''a lineage needs at least one plan'')
      else bindR (lineagePlans plans ({}, [])) (\<lambda>(held, definitions). NewPlan Apply definitions))"

definition additiveDefinition :: "string set \<Rightarrow> Block \<Rightarrow> BlockDefinition" where
  "additiveDefinition held b =
     (let d = clone (Def b) in
      d\<lparr>Dependencies := deleteS (\<lambda>i. i \<in> held) (Dependencies d),
        Prerequisites := sortS (appendS (Prerequisites d) (filter (\<lambda>i. i \<in> held) (elems (Dependencies d))))\<rparr>)"

fun additiveLoop :: "string set \<Rightarrow> Block list \<Rightarrow> BlockDefinition list \<Rightarrow> BlockDefinition list result" where
  "additiveLoop held [] ds = Inr ds"
| "additiveLoop held (b # bs) ds =
     (if blockID b \<in> held then additiveLoop held bs ds
      else if elems (Prerequisites (Def b)) \<noteq> []
        then Inl (planError ''a plan to add already carries prerequisites'')
      else additiveLoop held bs (ds @ [additiveDefinition held b]))"

definition Additive :: "Plan \<Rightarrow> Plan list \<Rightarrow> Plan result" where
  "Additive fresh owned =
     bindR (Lineage owned) (\<lambda>lineage.
       if PlanVerb fresh \<noteq> Apply then Inl (planError ''only an apply plan can be added'')
       else
         guardR (case FirstChange (Compare lineage fresh) of
                   Some c \<Rightarrow> if ChangeClass c \<noteq> Added
                     then Some (planError (''lifecycle block '' @ ChangeBlock c
                       @ '' would be frozen differently from the plan it was frozen in'')) else None
                 | None \<Rightarrow> None)
         (bindR (additiveLoop (blockID ` set (blocks lineage)) (blocks fresh) []) (\<lambda>definitions.
           if definitions = [] then Inl (planError ''the plan adds no block to the lineage'')
           else NewPlan Apply definitions)))"

subsection \<open>Lineages\<close>

definition lineage_ok :: "Plan list \<Rightarrow> bool" where
  "lineage_ok ps \<longleftrightarrow> (\<forall>p\<in>set ps. PlanVerb p = Apply) \<and>
     distinct (map blockID (concat (map blocks ps))) \<and>
     (\<forall>i<length ps. \<forall>b\<in>set (blocks (ps ! i)). set (elems (Prerequisites (Def b))) \<subseteq>
        blockID ` set (concat (map blocks (take i ps))))"

lemma lineageBlocks_Inr:
  "lineageBlocks earlier bs st = Inr st' \<longleftrightarrow>
     fst st \<inter> blockID ` set bs = {} \<and> distinct (map blockID bs) \<and>
     (\<forall>b\<in>set bs. set (elems (Prerequisites (Def b))) \<subseteq> earlier) \<and>
     st' = (fst st \<union> blockID ` set bs, snd st @ map lineageDefinition bs)"
proof (induction bs arbitrary: st)
  case Nil
  then show ?case by (cases st) auto
next
  case (Cons b bs)
  show ?case
  proof (cases "blockID b \<in> fst st \<or> \<not> set (elems (Prerequisites (Def b))) \<subseteq> earlier")
    case True
    then show ?thesis
      by (auto simp: find_None_iff split: option.splits)
  next
    case False
    then have "List.find (\<lambda>q. q \<notin> earlier) (elems (Prerequisites (Def b))) = None"
      by (auto simp: find_None_iff)
    then show ?thesis
      using False Cons.IH [of "(insert (blockID b) (fst st), snd st @ [lineageDefinition b])"] by auto
  qed
qed

lemma lineagePlans_Inr:
  "lineagePlans ps (blockID ` set (concat (map blocks qs)), ds) = Inr st' \<longleftrightarrow>
     (\<forall>p\<in>set ps. PlanVerb p = Apply) \<and>
     blockID ` set (concat (map blocks qs)) \<inter> blockID ` set (concat (map blocks ps)) = {} \<and>
     distinct (map blockID (concat (map blocks ps))) \<and>
     (\<forall>i<length ps. \<forall>b\<in>set (blocks (ps ! i)). set (elems (Prerequisites (Def b))) \<subseteq>
        blockID ` set (concat (map blocks (qs @ take i ps)))) \<and>
     st' = (blockID ` set (concat (map blocks (qs @ ps))), ds @ map lineageDefinition (concat (map blocks ps)))"
proof (induction ps arbitrary: qs ds)
  case Nil
  then show ?case by auto
next
  case (Cons p ps)
  let ?held = "blockID ` set (concat (map blocks qs))"
  show ?case
  proof (cases "PlanVerb p = Apply \<and> ?held \<inter> blockID ` set (blocks p) = {} \<and> distinct (map blockID (blocks p)) \<and>
      (\<forall>b\<in>set (blocks p). set (elems (Prerequisites (Def b))) \<subseteq> ?held)")
    case True
    then have "lineageBlocks ?held (blocks p) (?held, ds) = Inr (?held \<union> blockID ` set (blocks p), ds @ map lineageDefinition (blocks p))"
      by (simp add: lineageBlocks_Inr)
    moreover have "?held \<union> blockID ` set (blocks p) = blockID ` set (concat (map blocks (qs @ [p])))"
      by auto
    ultimately have "lineagePlans (p # ps) (?held, ds) = lineagePlans ps (blockID ` set (concat (map blocks (qs @ [p]))), ds @ map lineageDefinition (blocks p))"
      using True by simp
    note step = trans [OF arg_cong [OF this, of "\<lambda>r. r = Inr st'"]
        Cons.IH [of "qs @ [p]" "ds @ map lineageDefinition (blocks p)"]]
    show ?thesis
      unfolding step using True
      by (simp add: All_less_Suc2 image_Un Un_assoc Int_Un_distrib Int_Un_distrib2 conj_ac)
  next
    case False
    then have "lineagePlans (p # ps) (?held, ds) \<noteq> Inr st'"
      by (auto simp: result_simps lineageBlocks_Inr)
    moreover have "\<not> ((\<forall>p\<in>set (p # ps). PlanVerb p = Apply) \<and>
        ?held \<inter> blockID ` set (concat (map blocks (p # ps))) = {} \<and>
        distinct (map blockID (concat (map blocks (p # ps)))) \<and>
        (\<forall>i<length (p # ps). \<forall>b\<in>set (blocks ((p # ps) ! i)). set (elems (Prerequisites (Def b))) \<subseteq>
          blockID ` set (concat (map blocks (qs @ take i (p # ps))))))"
      using False by (simp add: All_less_Suc2 image_Un Int_Un_distrib)
    ultimately show ?thesis
      by blast
  qed
qed

lemma Lineage_ok:
  assumes "Lineage ps = Inr l"
  shows "lineage_ok ps" "NewPlan Apply (map lineageDefinition (concat (map blocks ps))) = Inr l"
    "blockID ` set (blocks l) = blockID ` set (concat (map blocks ps))"
proof -
  obtain st where st: "lineagePlans ps ({}, []) = Inr st" "NewPlan Apply (snd st) = Inr l"
    using assms by (auto simp: Lineage_def result_simps split: if_splits)
  note ok = st(1) [THEN lineagePlans_Inr [of ps "[]" "[]" st, simplified, THEN iffD1]]
  show "lineage_ok ps"
    using ok by (simp add: lineage_ok_def)
  show n: "NewPlan Apply (map lineageDefinition (concat (map blocks ps))) = Inr l"
    using ok st(2) by simp
  obtain rs where rs: "resolveRequirements (map lineageDefinition (concat (map blocks ps))) = Inr rs"
    and l: "l = \<lparr>PlanVerb = Apply, Blocks = Some (map frozen (arranged rs))\<rparr>"
    using n by (auto simp: NewPlan_eq)
  have "rs = map (\<lambda>d. d\<lparr>Dependencies := compactS (sortS (Dependencies d))\<rparr>) (map lineageDefinition (concat (map blocks ps)))"
    using rs resolve_plain [of "map lineageDefinition (concat (map blocks ps))"]
    by (simp add: plainDef_def lineageDefinition_def clone_def Let_def)
  then show "blockID ` set (blocks l) = blockID ` set (concat (map blocks ps))"
    by (simp add: l image_image lineageDefinition_def clone_def Let_def)
qed

lemma built_prerequisites_None:
  assumes "built p" and "b \<in> set (blocks p)" and "elems (Prerequisites (Def b)) = []"
  shows "Prerequisites (Def b) = None"
proof -
  have "blocks p = map frozen (planDefs p)"
    using assms(1) by (simp add: built_def)
  then obtain d where "b = frozen d"
    using assms(2) by auto
  then show ?thesis
    using assms(3) by (simp add: frozen_def deliberate_def split: if_splits)
qed

lemma Lineage_single:
  assumes p: "built p" and v: "PlanVerb p = Apply" and none: "\<forall>b\<in>set (blocks p). elems (Prerequisites (Def b)) = []"
  shows "Lineage [p] = Inr p"
proof -
  have "lineageDefinition b = Def b" if b: "b \<in> set (blocks p)" for b
  proof -
    have "compactS (sortS (Dependencies (Def b))) = Dependencies (Def b)"
      using valid_dependencies(2,3) [OF built_block(1) [OF p b]] by (rule compactS_sortS_id)
    then show ?thesis
      using built_block(5) [OF p b] built_prerequisites_None [OF p b] none b
      by (simp add: lineageDefinition_def clone_def Let_def plainDef_def appendS_def)
  qed
  then have "map lineageDefinition (blocks p) = planDefs p"
    by (simp add: planDefs_def)
  moreover have "lineagePlans [p] ({}, []) = Inr (blockID ` set (blocks p), map lineageDefinition (blocks p))"
    using v none built_distinct [OF p] lineagePlans_Inr [of "[p]" "[]" "[]"] by simp
  ultimately show ?thesis
    using NewPlan_rebuild [OF p] v by (simp add: Lineage_def)
qed

subsection \<open>Additions\<close>

lemma additiveLoop_Inr:
  "additiveLoop held bs ds = Inr ds' \<longleftrightarrow>
     (\<forall>b\<in>set bs. blockID b \<notin> held \<longrightarrow> elems (Prerequisites (Def b)) = []) \<and>
     ds' = ds @ map (additiveDefinition held) (filter (\<lambda>b. blockID b \<notin> held) bs)"
  by (induction bs arbitrary: ds) auto

lemma Additive_spec:
  assumes fresh: "built fresh" and l: "Lineage owned = Inr l" and q: "Additive fresh owned = Inr q"
  shows "built q" "PlanVerb q = Apply"
    "blockID ` set (blocks l) \<subseteq> blockID ` set (blocks fresh)"
    "blockID ` set (blocks q) = blockID ` set (blocks fresh) - blockID ` set (blocks l)"
    "plan_edges q = {(i, j) \<in> plan_edges fresh. i \<notin> blockID ` set (blocks l) \<and> j \<notin> blockID ` set (blocks l)}"
    "\<And>b. b \<in> set (blocks q) \<Longrightarrow> set (elems (Prerequisites (Def b))) =
       {j. (blockID b, j) \<in> plan_edges fresh \<and> j \<in> blockID ` set (blocks l)}"
proof -
  let ?held = "blockID ` set (blocks l)"
  let ?bs = "filter (\<lambda>b. blockID b \<notin> ?held) (blocks fresh)"
  let ?ds = "map (additiveDefinition ?held) ?bs"
  have dl: "distinct (map blockID (blocks l))"
    using NewPlan_topological(1) Lineage_ok(2) [OF l] by blast
  have first: "case FirstChange (Compare l fresh) of Some c \<Rightarrow> ChangeClass c = Added | None \<Rightarrow> True"
    and none: "\<forall>b\<in>set ?bs. elems (Prerequisites (Def b)) = []" and new: "NewPlan Apply ?ds = Inr q"
    using q by (auto simp: Additive_def l result_simps additiveLoop_Inr split: if_splits option.splits)
  show "built q" "PlanVerb q = Apply"
    using NewPlan_built [OF new] by simp_all
  show "?held \<subseteq> blockID ` set (blocks fresh)"
  proof (rule ccontr)
    assume "\<not> ?thesis"
    then obtain b where b: "b \<in> set (blocks l)" "blockID b \<notin> blockID ` set (blocks fresh)" by auto
    then have "List.find (\<lambda>c. blockID c = blockID b) (blocks fresh) = None"
      by (auto simp: find_None_iff rev_image_eqI)
    then have cls: "classOf (blocks fresh) b \<noteq> Same"
      by (simp add: classOf_def)
    have "\<exists>c. List.find P (xs @ ys) = Some c \<and> c \<in> set xs" if "x \<in> set xs" "P x" for x P and xs ys :: Delta
      using that by (induction xs) auto
    from this [of "changeOf b (classOf (blocks fresh) b)" "map (\<lambda>b. changeOf b (classOf (blocks fresh) b)) (blocks l)"
        "\<lambda>c. ChangeClass c \<noteq> Same"] b(1) cls
    obtain c where c: "FirstChange (Compare l fresh) = Some c" "c \<in> set (map (\<lambda>b. changeOf b (classOf (blocks fresh) b)) (blocks l))"
      unfolding FirstChange_def Compare_spec [OF dl built_distinct [OF fresh]] by (auto simp: changeOf_def)
    then have "ChangeClass c \<noteq> Added"
      by (auto simp: changeOf_def classOf_def split: option.splits if_splits)
    with first c(1) show False by simp
  qed
  have plain: "\<forall>d\<in>set ?ds. plainDef d"
    by (simp add: plainDef_def additiveDefinition_def clone_def Let_def)
  define f where "f d = d\<lparr>Dependencies := compactS (sortS (Dependencies d))\<rparr>" for d :: BlockDefinition
  obtain qb: "blocks q = map frozen (arranged (map f ?ds))"
    using new resolve_plain [OF plain] by (auto simp: NewPlan_eq f_def [abs_def])
  have mem: "b \<in> set (blocks q) \<longleftrightarrow> (\<exists>c\<in>set ?bs. b = frozen (f (additiveDefinition ?held c)))" for b
    by (auto simp: qb)
  have fields: "blockID (frozen (f (additiveDefinition ?held c))) = blockID c"
    "set (dependencies (frozen (f (additiveDefinition ?held c)))) = set (dependencies c) - ?held"
    "set (elems (Prerequisites (Def (frozen (f (additiveDefinition ?held c)))))) = set (elems (Prerequisites (Def c))) \<union> (set (dependencies c) \<inter> ?held)" for c
    by (auto simp: elems_frozen f_def additiveDefinition_def clone_def Let_def)
  have "blockID ` set (blocks q) = blockID ` set ?bs"
    using fields(1) by (simp add: qb image_image)
  then show "blockID ` set (blocks q) = blockID ` set (blocks fresh) - ?held"
    by auto
  show "plan_edges q = {(i, j) \<in> plan_edges fresh. i \<notin> ?held \<and> j \<notin> ?held}"
  proof -
    have bex: "(\<exists>b\<in>set (blocks q). P b) \<longleftrightarrow> (\<exists>c\<in>set ?bs. P (frozen (f (additiveDefinition ?held c))))" for P
      unfolding qb by (simp only: set_map set_arranged bex_simps image_image)
    have "(i, j) \<in> plan_edges q \<longleftrightarrow> (\<exists>c\<in>set ?bs. i = blockID c \<and> j \<in> set (dependencies c) - ?held)" for i j
      unfolding plan_edges_def by (simp only: mem_Collect_eq prod.case bex fields)
    then show ?thesis
      by (auto simp: plan_edges_def)
  qed
  fix b assume "b \<in> set (blocks q)"
  then obtain c where c: "c \<in> set (blocks fresh)" "blockID c \<notin> ?held" "b = frozen (f (additiveDefinition ?held c))"
    unfolding mem by auto
  have "(blockID c, j) \<in> plan_edges fresh \<longleftrightarrow> j \<in> set (dependencies c)" for j
    using c(1) built_distinct [OF fresh] by (auto simp: plan_edges_def distinct_map dest: inj_onD)
  moreover have "elems (Prerequisites (Def c)) = []"
    using none c(1,2) by simp
  ultimately show "set (elems (Prerequisites (Def b))) = {j. (blockID b, j) \<in> plan_edges fresh \<and> j \<in> ?held}"
    unfolding c(3) fields by auto
qed

end
