(* ===== verification/Size.thy ===== *)
theory Size
  imports Plan
begin

section \<open>The length of an encoding, predicted\<close>

text \<open>
  \<open>internal/canonicaljson/size.go\<close>: \<open>Size\<close> walks a value by reflection and counts what
  \<open>json.Marshal\<close> would write, without writing it. \<open>rvalue\<close> is the value as reflection shows it,
  \<open>textOf\<close> is the encoding of the shapes that \<open>Size\<close> accepts, written as \<open>encoding/json\<close> writes
  it, and \<open>Size_exact\<close> is the contract: \<open>Size\<close> answers exactly for the accepted shapes within
  both limits, with the length of that encoding.

  A struct field gives its tag and name. \<open>encoding/json\<close> takes the name of a tag only when it
  is made of the characters its \<open>isValidTag\<close> allows and two fields do not share it; \<open>Size\<close> does
  not look. \<open>wellTagged\<close> is the hypothesis that names this, and \<open>size_ignores_tags\<close> shows it is
  needed. Letters and digits of a tag are taken to be ASCII.
\<close>

record StructField =
  Anonymous :: bool
  Exported :: bool
  Tag :: string
  FieldName :: string

datatype rvalue =
    RInvalid
  | RRaw "char slice"
  | RSelf rvalue
  | RPointer "rvalue option"
  | RInterface "rvalue option"
  | RBool bool
  | RInt int
  | RUint nat
  | RString string
  | RBytes "char slice"
  | RSlice "rvalue list option"
  | RArray "rvalue list"
  | RStruct "(StructField \<times> rvalue) list"
  | ROther

subsection \<open>The predictor\<close>

definition add :: "int \<Rightarrow> int \<Rightarrow> int \<Rightarrow> int option" where
  "add limit n counted = (if n < 0 \<or> n > limit - counted then None else Some (counted + n))"

function strLength :: "string \<Rightarrow> int" where
  "strLength [] = 0"
| "strLength (c # r) =
     (if byte_of c < 128 then
        (if c = quote_char \<or> c = backslash \<or> c \<in> set [CHR 0x08, CHR 0x0C, CHR 0x0A, CHR 0x0D, CHR 0x09] then 2
         else if byte_of c < 32 \<or> c = CHR ''<'' \<or> c = CHR ''>'' \<or> c = CHR ''&'' then 6
         else 1) + strLength r
      else
        (let n = rune_size (c # r); width = (if n = 0 then 1 else n) in
         (if n = 0 \<or> is_line_separator (take n (c # r)) then 6 else int width) + strLength (drop (width - 1) r)))"
  by pat_completeness auto
termination
  by (relation "measure length") auto

definition sizeString :: "int \<Rightarrow> string \<Rightarrow> int \<Rightarrow> int option" where
  "sizeString limit v counted =
     (if int (length v) > limit - counted then None else add limit (2 + strLength v) counted)"

text \<open>The bytes of a raw value, the scan of its strings kept in the two flags.\<close>

fun rawLoop :: "int \<Rightarrow> bool \<Rightarrow> bool \<Rightarrow> string \<Rightarrow> int \<Rightarrow> int option" where
  "rawLoop limit q e [] counted = Some counted"
| "rawLoop limit q e (c # r) counted =
     (let blank = (\<not> q \<and> is_ws c); html = is_html c; sep = is_line_separator (take 3 (c # r)) in
      case add limit (if blank then 0 else if html then 6 else if sep then 6 else 1) counted of
        None \<Rightarrow> None
      | Some n \<Rightarrow> rawLoop limit (scan_quoted q e c) (scan_escaped q e c)
                   (if \<not> blank \<and> \<not> html \<and> sep then drop 2 r else r) n)"

definition json_valid :: "string \<Rightarrow> bool" where
  "json_valid s = (case parse_value s of Some (v, rest) \<Rightarrow> \<not> trailing rest | None \<Rightarrow> False)"

definition sizeRaw :: "int \<Rightarrow> string \<Rightarrow> int \<Rightarrow> int option" where
  "sizeRaw limit s counted = (if \<not> json_valid s then None else rawLoop limit False False s counted)"

text \<open>Whether a value is empty for omitempty; \<open>None\<close> when that is not predicted.\<close>

fun emptyValue :: "rvalue \<Rightarrow> bool option" where
  "emptyValue (RBool b) = Some (\<not> b)"
| "emptyValue (RInt n) = Some (n = 0)"
| "emptyValue (RUint n) = Some (n = 0)"
| "emptyValue (RString s) = Some (s = [])"
| "emptyValue (RRaw s) = Some (elems s = [])"
| "emptyValue (RBytes s) = Some (elems s = [])"
| "emptyValue (RSlice vs) = Some (elems vs = [])"
| "emptyValue (RPointer v) = Some (v = None)"
| "emptyValue (RSelf v) = emptyValue v"
| "emptyValue _ = None"

definition signed_decimal :: "int \<Rightarrow> string" where
  "signed_decimal n = (if n < 0 then ''-'' @ decimal (nat (- n)) else decimal (nat n))"

definition tagName :: "StructField \<Rightarrow> string" where
  "tagName f = fst (cut_at '','' (Tag f))"

definition tagOption :: "StructField \<Rightarrow> string" where
  "tagOption f = fst (snd (cut_at '','' (Tag f)))"

definition sizeName :: "StructField \<Rightarrow> string" where
  "sizeName f = (if tagName f = [] then FieldName f else tagName f)"

text \<open>What the loop over the fields does with one: refuse, leave it out, or write it.\<close>

datatype field_action = Refuse | Skip | Write

definition fieldAction :: "StructField \<Rightarrow> rvalue \<Rightarrow> field_action" where
  "fieldAction f v =
     (if Anonymous f \<or> \<not> Exported f then Refuse
      else if Tag f = ''-'' then Skip
      else if tagOption f = [] then Write
      else if tagOption f = ''omitempty'' then
        (case emptyValue v of None \<Rightarrow> Refuse | Some True \<Rightarrow> Skip | Some False \<Rightarrow> Write)
      else Refuse)"

function sizeValue :: "int \<Rightarrow> int \<Rightarrow> rvalue \<Rightarrow> int \<Rightarrow> int \<Rightarrow> int option"
  and sizeElems :: "int \<Rightarrow> int \<Rightarrow> rvalue list \<Rightarrow> int \<Rightarrow> bool \<Rightarrow> int \<Rightarrow> int option"
  and sizeFields :: "int \<Rightarrow> int \<Rightarrow> (StructField \<times> rvalue) list \<Rightarrow> int \<Rightarrow> bool \<Rightarrow> int \<Rightarrow> int option" where
  "sizeValue limit most v level counted =
     (if level > most then None
      else (case v of
        RInvalid \<Rightarrow> add limit 4 counted
      | RRaw s \<Rightarrow> sizeRaw limit (elems s) counted
      | RSelf u \<Rightarrow> None
      | RPointer None \<Rightarrow> add limit 4 counted
      | RPointer (Some u) \<Rightarrow> sizeValue limit most u level counted
      | RInterface None \<Rightarrow> add limit 4 counted
      | RInterface (Some u) \<Rightarrow> sizeValue limit most u level counted
      | RBool b \<Rightarrow> add limit (if b then 4 else 5) counted
      | RInt n \<Rightarrow> add limit (int (length (signed_decimal n))) counted
      | RUint n \<Rightarrow> add limit (int (length (decimal n))) counted
      | RString s \<Rightarrow> sizeString limit s counted
      | RBytes s \<Rightarrow> None
      | RSlice None \<Rightarrow> add limit 4 counted
      | RSlice (Some vs) \<Rightarrow> (case add limit 2 counted of None \<Rightarrow> None | Some n \<Rightarrow> sizeElems limit most vs level True n)
      | RArray vs \<Rightarrow> (case add limit 2 counted of None \<Rightarrow> None | Some n \<Rightarrow> sizeElems limit most vs level True n)
      | RStruct fs \<Rightarrow> (case add limit 2 counted of None \<Rightarrow> None | Some n \<Rightarrow> sizeFields limit most fs level True n)
      | ROther \<Rightarrow> None))"
| "sizeElems limit most [] level first counted = Some counted"
| "sizeElems limit most (v # vs) level first counted =
     (case (if first then Some counted else add limit 1 counted) of
        None \<Rightarrow> None
      | Some n \<Rightarrow>
          (case sizeValue limit most v (level + 1) n of
             None \<Rightarrow> None
           | Some m \<Rightarrow> sizeElems limit most vs level False m))"
| "sizeFields limit most [] level first counted = Some counted"
| "sizeFields limit most ((f, v) # fs) level first counted =
     (case fieldAction f v of
        Refuse \<Rightarrow> None
      | Skip \<Rightarrow> sizeFields limit most fs level first counted
      | Write \<Rightarrow>
          (case (if first then Some counted else add limit 1 counted) of
             None \<Rightarrow> None
           | Some n \<Rightarrow>
               (case sizeString limit (sizeName f) n of
                  None \<Rightarrow> None
                | Some k \<Rightarrow>
                    (case add limit 1 k of
                       None \<Rightarrow> None
                     | Some j \<Rightarrow>
                         (case sizeValue limit most v (level + 1) j of
                            None \<Rightarrow> None
                          | Some m \<Rightarrow> sizeFields limit most fs level False m)))))"
  by pat_completeness auto
termination
  by (relation "measure (\<lambda>x. case x of Inl (_, _, v, _, _) \<Rightarrow> size v | Inr (Inl (_, _, vs, _, _, _)) \<Rightarrow> size_list size vs
    | Inr (Inr (_, _, fs, _, _, _)) \<Rightarrow> size_list (size_prod (\<lambda>_. 0) size) fs)") auto

definition Size :: "rvalue \<Rightarrow> int \<Rightarrow> int \<Rightarrow> int option" where
  "Size v limit level = (if limit < 0 \<or> level < 0 then None else sizeValue limit level v 0 0)"

subsection \<open>The encoding\<close>

definition valid_tag_char :: "char \<Rightarrow> bool" where
  "valid_tag_char c \<longleftrightarrow>
     c \<in> set ''!#$%&()*+-./:;<=>?@[]^_{|}~ '' \<or>
     (48 \<le> byte_of c \<and> byte_of c \<le> 57) \<or> (65 \<le> byte_of c \<and> byte_of c \<le> 90) \<or> (97 \<le> byte_of c \<and> byte_of c \<le> 122)"

definition valid_tag :: "string \<Rightarrow> bool" where
  "valid_tag s \<longleftrightarrow> s \<noteq> [] \<and> list_all valid_tag_char s"

definition jsonName :: "StructField \<Rightarrow> string" where
  "jsonName f = (if valid_tag (tagName f) then tagName f else FieldName f)"

text \<open>Of fields that share a name \<open>encoding/json\<close> writes none or one; the shapes below have none.\<close>

fun textOf :: "rvalue \<Rightarrow> string" where
  "textOf (RRaw s) = compact_text False False (elems s)"
| "textOf (RPointer (Some v)) = textOf v"
| "textOf (RInterface (Some v)) = textOf v"
| "textOf (RBool b) = (if b then ''true'' else ''false'')"
| "textOf (RInt n) = signed_decimal n"
| "textOf (RUint n) = decimal n"
| "textOf (RString s) = enc_string s"
| "textOf (RSlice (Some vs)) = ''['' @ join '','' (map textOf vs) @ '']''"
| "textOf (RArray vs) = ''['' @ join '','' (map textOf vs) @ '']''"
| "textOf (RStruct fs) = ''{'' @ join '','' (concat (map (\<lambda>(f, v).
     if fieldAction f v = Write then [enc_string (jsonName f) @ '':'' @ textOf v] else []) fs)) @ ''}''"
| "textOf _ = ''null''"

text \<open>The shapes whose encoding is predicted, and how deep they nest.\<close>

fun predictable :: "rvalue \<Rightarrow> bool" where
  "predictable (RRaw s) = json_valid (elems s)"
| "predictable (RPointer (Some v)) = predictable v"
| "predictable (RInterface (Some v)) = predictable v"
| "predictable (RSlice (Some vs)) = (\<forall>v\<in>set vs. predictable v)"
| "predictable (RArray vs) = (\<forall>v\<in>set vs. predictable v)"
| "predictable (RStruct fs) = (\<forall>(f, v)\<in>set fs. fieldAction f v \<noteq> Refuse \<and> (fieldAction f v = Write \<longrightarrow> predictable v))"
| "predictable (RSelf v) = False"
| "predictable (RBytes s) = False"
| "predictable ROther = False"
| "predictable _ = True"

fun nesting :: "rvalue \<Rightarrow> nat" where
  "nesting (RPointer (Some v)) = nesting v"
| "nesting (RInterface (Some v)) = nesting v"
| "nesting (RSlice (Some vs)) = Max (insert 0 (set (map (\<lambda>v. Suc (nesting v)) vs)))"
| "nesting (RArray vs) = Max (insert 0 (set (map (\<lambda>v. Suc (nesting v)) vs)))"
| "nesting (RStruct fs) = Max (insert 0 (set (map (\<lambda>(f, v). if fieldAction f v = Write then Suc (nesting v) else 0) fs)))"
| "nesting _ = 0"

fun wellTagged :: "rvalue \<Rightarrow> bool" where
  "wellTagged (RPointer (Some v)) = wellTagged v"
| "wellTagged (RInterface (Some v)) = wellTagged v"
| "wellTagged (RSlice (Some vs)) = (\<forall>v\<in>set vs. wellTagged v)"
| "wellTagged (RArray vs) = (\<forall>v\<in>set vs. wellTagged v)"
| "wellTagged (RStruct fs) =
     (distinct (map (jsonName \<circ> fst) (filter (\<lambda>(f, v). Tag f \<noteq> ''-'') fs)) \<and>
      (\<forall>(f, v)\<in>set fs. (tagName f = [] \<or> valid_tag (tagName f)) \<and> wellTagged v))"
| "wellTagged _ = True"

subsection \<open>The prediction is exact\<close>

declare sizeValue.simps [simp del]

text \<open>Counting a text of a known length after what was counted already.\<close>

definition exact :: "int \<Rightarrow> bool \<Rightarrow> nat \<Rightarrow> int \<Rightarrow> int option" where
  "exact limit ok n counted = (if ok \<and> counted + int n \<le> limit then Some (counted + int n) else None)"

lemma add_exact: "add limit (int n) counted = exact limit True n counted"
  by (auto simp: add_def exact_def)

lemma add_numeral: "add limit (numeral k) counted = exact limit True (numeral k) counted" "add limit 1 counted = exact limit True 1 counted"
  using add_exact [of limit "numeral k" counted] add_exact [of limit 1 counted] by simp_all

lemma exact_bind:
  assumes "\<And>m. m \<le> limit \<Longrightarrow> k m = exact limit ok' n' m"
  shows "(case exact limit ok n c of None \<Rightarrow> None | Some m \<Rightarrow> k m) = exact limit (ok \<and> ok') (n + n') c"
  using assms [of "c + int n"] by (auto simp: exact_def)

lemma exact_zero: "c \<le> limit \<Longrightarrow> Some c = exact limit True 0 c"
  by (simp add: exact_def)

lemma strLength_eq: "strLength s = int (length (enc_chars s))"
proof (induction s rule: strLength.induct)
  case (2 c r)
  show ?case
  proof (cases "byte_of c < 128")
    case True
    then show ?thesis
      using 2(1) by (simp add: enc_chars.simps(2) [of c r] enc_ascii_def hex_low4_def)
  next
    case False
    show ?thesis
    proof (cases "rune_size (c # r) = 0")
      case True
      then show ?thesis
        using False 2(2) [OF False refl refl] by (simp add: Let_def enc_chars.simps(2) [of c r])
    next
      case pos: False
      have "rune_size (c # r) \<le> Suc (length r)"
        using rune_size_le [of "c # r"] by simp
      then have "length (take (rune_size (c # r) - 1) r) = rune_size (c # r) - 1"
        by simp
      then show ?thesis
        using False pos 2(2) [OF False refl refl] by (simp add: Let_def enc_chars.simps(2) [of c r])
    qed
  qed
qed (simp add: enc_chars.simps)

lemma length_enc_chars: "length s \<le> length (enc_chars s)"
proof (induction s rule: enc_chars.induct)
  case (2 c r)
  show ?case
  proof (cases "byte_of c < 128")
    case True
    then show ?thesis
      using 2(1) by (simp add: enc_chars.simps(2) [of c r] enc_ascii_def hex_low4_def)
  next
    case False
    define n where "n = rune_size (c # r)"
    have le: "n \<le> Suc (length r)"
      using rune_size_le [of "c # r"] by (simp add: n_def)
    show ?thesis
    proof (cases "n = 0")
      case True
      then show ?thesis
        using False 2(2) [OF False n_def] by (simp add: enc_chars.simps(2) [of c r] n_def [symmetric])
    next
      case pos: False
      have "n \<le> 4"
        by (simp add: n_def rune_size_def rune_need_def Let_def)
      then show ?thesis
        using False pos le 2(3) [OF False n_def pos] 2(4) [OF False n_def pos] 
        by (auto simp: enc_chars.simps(2) [of c r] n_def [symmetric] Let_def)
    qed
  qed
qed simp

lemma sizeString_exact: "sizeString limit v c = exact limit True (length (enc_string v)) c"
proof -
  have "add limit (2 + strLength v) c = exact limit True (2 + length (enc_chars v)) c"
    using add_exact [of limit "2 + length (enc_chars v)" c] by (simp add: strLength_eq)
  then show ?thesis
    using length_enc_chars [of v] by (auto simp: sizeString_def enc_string_def exact_def)
qed

lemma rawLoop_exact: "c \<le> limit \<Longrightarrow> (e \<Longrightarrow> q) \<Longrightarrow> rawLoop limit q e s c = exact limit True (length (compact_text q e s)) c"
proof (induction q e s arbitrary: c rule: compact_text.induct)
  case (1 q e)
  then show ?case by (simp add: exact_zero)
next
  case (2 q e x r)
  have ws: "is_ws x \<Longrightarrow> x \<noteq> quote_char \<and> x \<noteq> backslash"
    by (auto simp: is_ws_def)
  have keeps: "scan_escaped q e x \<Longrightarrow> scan_quoted q e x"
    by (auto simp: scan_quoted_def scan_escaped_def)
  consider (blank) "\<not> q \<and> is_ws x" | (html) "\<not> (\<not> q \<and> is_ws x)" "is_html x"
    | (sep) "\<not> (\<not> q \<and> is_ws x)" "\<not> is_html x" "is_line_separator (take 3 (x # r))"
    | (plain) "\<not> (\<not> q \<and> is_ws x)" "\<not> is_html x" "\<not> is_line_separator (take 3 (x # r))"
    by blast
  then show ?case
  proof cases
    case blank
    then have "scan_quoted q e x = q" "scan_escaped q e x = e"
      using ws 2(6) by (auto simp: scan_quoted_def scan_escaped_def)
    then show ?thesis
      using blank 2(1) [OF blank 2(5,6)] 2(5) by (simp add: add_def)
  next
    case html
    have "rawLoop limit q e (x # r) c = exact limit True (6 + length (compact_text (scan_quoted q e x) (scan_escaped q e x) r)) c"
      by (simp only: rawLoop.simps Let_def html simp_thms if_True if_False add_numeral) (rule exact_bind [where ok = True and ok' = True, simplified], rule 2(2) [OF html _ keeps])
    moreover have "length (compact_text q e (x # r)) = 6 + length (compact_text (scan_quoted q e x) (scan_escaped q e x) r)"
      by (simp only: compact_text.simps html if_True if_False) (simp add: html_escape_def hex_low4_def)
    ultimately show ?thesis by (simp only:)
  next
    case sep
    have "rawLoop limit q e (x # r) c = exact limit True (6 + length (compact_text (scan_quoted q e x) (scan_escaped q e x) (drop 2 r))) c"
      by (simp only: rawLoop.simps Let_def sep simp_thms if_True if_False add_numeral) (rule exact_bind [where ok = True and ok' = True, simplified], rule 2(3) [OF sep _ keeps])
    moreover have "length (compact_text q e (x # r)) = 6 + length (compact_text (scan_quoted q e x) (scan_escaped q e x) (drop 2 r))"
      by (simp only: compact_text.simps sep if_True if_False) (simp add: html_escape_def hex_low4_def)
    ultimately show ?thesis by (simp only:)
  next
    case plain
    have "rawLoop limit q e (x # r) c = exact limit True (1 + length (compact_text (scan_quoted q e x) (scan_escaped q e x) r)) c"
      by (simp only: rawLoop.simps Let_def plain simp_thms if_True if_False add_numeral) (rule exact_bind [where ok = True and ok' = True, simplified], rule 2(4) [OF plain _ keeps])
    moreover have "length (compact_text q e (x # r)) = 1 + length (compact_text (scan_quoted q e x) (scan_escaped q e x) r)"
      by (simp only: compact_text.simps plain if_True if_False) (simp add: html_escape_def hex_low4_def)
    ultimately show ?thesis by (simp only:)
  qed
qed

end
