(* ===== verification/SizeExact.thy ===== *)
theory SizeExact
  imports Size
begin

section \<open>The predicted length is the length\<close>

text \<open>
  The proof that \<open>Size\<close> counts exactly the bytes of \<open>textOf\<close>, by induction over the value with
  one lemma for each loop, and the shape that shows why the tags must be well formed.
\<close>

lemma value_simps:
  "sizeValue l m v d c = None" if "m < d"
  using that by (subst sizeValue.simps) simp

lemma leaf_simps:
  assumes "\<not> m < d"
  shows "sizeValue l m RInvalid d c = exact l True 4 c"
    "sizeValue l m (RRaw s) d c = sizeRaw l (elems s) c"
    "sizeValue l m (RSelf u) d c = None" "sizeValue l m (RBytes bs) d c = None" "sizeValue l m ROther d c = None"
    "sizeValue l m (RPointer None) d c = exact l True 4 c" "sizeValue l m (RInterface None) d c = exact l True 4 c"
    "sizeValue l m (RPointer (Some u)) d c = sizeValue l m u d c" "sizeValue l m (RInterface (Some u)) d c = sizeValue l m u d c"
    "sizeValue l m (RBool b) d c = exact l True (if b then 4 else 5) c"
    "sizeValue l m (RInt n) d c = exact l True (length (signed_decimal n)) c"
    "sizeValue l m (RUint k) d c = exact l True (length (decimal k)) c"
    "sizeValue l m (RString t) d c = exact l True (length (enc_string t)) c"
    "sizeValue l m (RSlice None) d c = exact l True 4 c"
    "sizeValue l m (RSlice (Some vs)) d c = (case exact l True 2 c of None \<Rightarrow> None | Some n \<Rightarrow> sizeElems l m vs d True n)"
    "sizeValue l m (RArray vs) d c = (case exact l True 2 c of None \<Rightarrow> None | Some n \<Rightarrow> sizeElems l m vs d True n)"
    "sizeValue l m (RStruct fs) d c = (case exact l True 2 c of None \<Rightarrow> None | Some n \<Rightarrow> sizeFields l m fs d True n)"
  using assms by (subst sizeValue.simps, simp add: add_numeral add_exact sizeString_exact)+

text \<open>Texts joined by commas, the first of them perhaps after another one.\<close>

definition joined :: "bool \<Rightarrow> string list \<Rightarrow> nat" where
  "joined first xs = length (join '','' xs) + (if first \<or> xs = [] then 0 else 1)"

lemma joined_simps:
  "joined first [] = 0"
  "joined first (x # xs) = (if first then 0 else 1) + (length x + joined False xs)"
  by (cases xs, simp_all add: joined_def)+

lemma maybe_comma: "(if first then Some c else add l 1 c) = (if first then Some c else exact l True 1 c)"
  by (simp add: add_numeral)

lemma exact_first:
  assumes "c \<le> l" "\<And>m. m \<le> l \<Longrightarrow> k m = exact l ok n m"
  shows "(case (if first then Some c else exact l True 1 c) of None \<Rightarrow> None | Some m \<Rightarrow> k m) =
     exact l ok ((if first then 0 else 1) + n) c"
  using assms(2) [OF assms(1)] exact_bind [of l k ok n True 1 c, OF assms(2)] by simp

text \<open>What the prediction of one value comes to, within the nesting it is allowed.\<close>

definition predicts :: "rvalue \<Rightarrow> bool" where
  "predicts v \<longleftrightarrow> (\<forall>l m d c. c \<le> l \<longrightarrow> d \<le> m + 1 \<longrightarrow>
     sizeValue l m v d c = exact l (predictable v \<and> d + int (nesting v) \<le> m) (length (textOf v)) c)"

lemma predictsD: "predicts v \<Longrightarrow> c \<le> l \<Longrightarrow> d \<le> m + 1 \<Longrightarrow>
    sizeValue l m v d c = exact l (predictable v \<and> d + int (nesting v) \<le> m) (length (textOf v)) c"
  unfolding predicts_def by blast

lemma exact_False [simp]: "exact l False n c = None"
  by (simp add: exact_def)

lemma sizeElems_exact:
  assumes "\<forall>v\<in>set vs. predicts v" "c \<le> l" "d \<le> m"
  shows "sizeElems l m vs d first c =
     exact l (\<forall>v\<in>set vs. predictable v \<and> d + 1 + int (nesting v) \<le> m) (joined first (map textOf vs)) c"
  using assms
proof (induction vs arbitrary: first c)
  case Nil
  then show ?case by (simp add: joined_simps exact_zero)
next
  case (Cons v vs)
  let ?rest = "\<forall>v\<in>set vs. predictable v \<and> d + 1 + int (nesting v) \<le> m"
  have "(case sizeValue l m v (d + 1) n of None \<Rightarrow> None | Some k \<Rightarrow> sizeElems l m vs d False k) =
      exact l ((predictable v \<and> d + 1 + int (nesting v) \<le> m) \<and> ?rest) (length (textOf v) + joined False (map textOf vs)) n"
    if "n \<le> l" for n
  proof -
    have "sizeValue l m v (d + 1) n = exact l (predictable v \<and> d + 1 + int (nesting v) \<le> m) (length (textOf v)) n"
      using Cons.prems that by (intro predictsD) auto
    then show ?thesis
      using Cons by (simp only:) (rule exact_bind, simp)
  qed
  from exact_first [OF Cons.prems(2) this] show ?case
    by (simp add: maybe_comma joined_simps)
qed

definition fieldTexts :: "(StructField \<times> rvalue) list \<Rightarrow> string list" where
  "fieldTexts fs = concat (map (\<lambda>(f, v).
     if fieldAction f v = Write then [enc_string (jsonName f) @ '':'' @ textOf v] else []) fs)"

definition fieldsOK :: "int \<Rightarrow> int \<Rightarrow> (StructField \<times> rvalue) list \<Rightarrow> bool" where
  "fieldsOK m d fs \<longleftrightarrow> (\<forall>(f, v)\<in>set fs. fieldAction f v \<noteq> Refuse \<and>
     (fieldAction f v = Write \<longrightarrow> predictable v \<and> d + 1 + int (nesting v) \<le> m))"

lemma sizeName_jsonName: "tagName f = [] \<or> valid_tag (tagName f) \<Longrightarrow> sizeName f = jsonName f"
  by (auto simp: sizeName_def jsonName_def valid_tag_def)

lemma sizeFields_exact:
  assumes "\<forall>(f, v)\<in>set fs. predicts v \<and> (tagName f = [] \<or> valid_tag (tagName f))" "c \<le> l" "d \<le> m"
  shows "sizeFields l m fs d first c = exact l (fieldsOK m d fs) (joined first (fieldTexts fs)) c"
  using assms
proof (induction fs arbitrary: first c)
  case Nil
  then show ?case by (simp add: fieldTexts_def fieldsOK_def joined_simps exact_zero)
next
  case (Cons x fs)
  obtain f v where x: "x = (f, v)" by (cases x)
  have v: "predicts v" "sizeName f = jsonName f"
    using Cons.prems(1) x by (auto simp: sizeName_jsonName)
  have IH: "n \<le> l \<Longrightarrow> sizeFields l m fs d b n = exact l (fieldsOK m d fs) (joined b (fieldTexts fs)) n" for b n
    using Cons by simp
  show ?case
  proof (cases "fieldAction f v")
    case Refuse
    then show ?thesis by (simp add: x fieldsOK_def)
  next
    case Skip
    then show ?thesis using IH [OF Cons.prems(2)] by (simp add: x fieldsOK_def fieldTexts_def)
  next
    case Write
    let ?ok = "predictable v \<and> d + 1 + int (nesting v) \<le> m"
    have val: "(case sizeValue l m v (d + 1) j of None \<Rightarrow> None | Some k \<Rightarrow> sizeFields l m fs d False k) =
        exact l (?ok \<and> fieldsOK m d fs) (length (textOf v) + joined False (fieldTexts fs)) j" if "j \<le> l" for j
    proof -
      have "sizeValue l m v (d + 1) j = exact l ?ok (length (textOf v)) j"
        using Cons.prems(3) that by (intro predictsD [OF v(1)]) auto
      then show ?thesis
        by (simp only:) (rule exact_bind, rule IH)
    qed
    have colon: "(case add l 1 k of None \<Rightarrow> None | Some j \<Rightarrow>
        (case sizeValue l m v (d + 1) j of None \<Rightarrow> None | Some k \<Rightarrow> sizeFields l m fs d False k)) =
        exact l (True \<and> (?ok \<and> fieldsOK m d fs)) (1 + (length (textOf v) + joined False (fieldTexts fs))) k" if "k \<le> l" for k
      unfolding add_numeral by (rule exact_bind) (rule val)
    have name: "(case sizeString l (sizeName f) n of None \<Rightarrow> None | Some k \<Rightarrow>
        (case add l 1 k of None \<Rightarrow> None | Some j \<Rightarrow>
          (case sizeValue l m v (d + 1) j of None \<Rightarrow> None | Some k \<Rightarrow> sizeFields l m fs d False k))) =
        exact l (True \<and> (True \<and> (?ok \<and> fieldsOK m d fs)))
          (length (enc_string (jsonName f)) + (1 + (length (textOf v) + joined False (fieldTexts fs)))) n" if "n \<le> l" for n
      unfolding sizeString_exact v(2) by (rule exact_bind) (rule colon)
    from exact_first [OF Cons.prems(2) name] show ?thesis
      using Write by (simp add: x maybe_comma fieldsOK_def fieldTexts_def joined_simps add.assoc)
  qed
qed

lemma predictsI:
  assumes "\<And>l m d c. c \<le> l \<Longrightarrow> d \<le> m \<Longrightarrow>
     sizeValue l m v d c = exact l (predictable v \<and> d + int (nesting v) \<le> m) (length (textOf v)) c"
  shows "predicts v"
  unfolding predicts_def
proof (intro allI impI)
  fix l m d c :: int
  assume "c \<le> l" "d \<le> m + 1"
  then show "sizeValue l m v d c = exact l (predictable v \<and> d + int (nesting v) \<le> m) (length (textOf v)) c"
    by (cases "d \<le> m") (use assms value_simps in \<open>auto\<close>)
qed

lemma Max_le: "d + int (Max (insert 0 (set (map f xs)))) \<le> m \<longleftrightarrow> d \<le> m \<and> (\<forall>x\<in>set xs. d + int (f x) \<le> m)"
proof -
  have "int (Max (insert 0 (set (map f xs)))) \<le> k \<longleftrightarrow> 0 \<le> k \<and> (\<forall>x\<in>set xs. int (f x) \<le> k)" for k
    by (cases "0 \<le> k") (auto simp: le_nat_iff [symmetric] nat_le_iff [symmetric])
  from this [of "m - d"] show ?thesis by (auto simp: algebra_simps)
qed

lemma sequence_predicts:
  assumes "\<forall>v\<in>set vs. predicts v" "c \<le> l" "d \<le> m"
  shows "(case exact l True 2 c of None \<Rightarrow> None | Some n \<Rightarrow> sizeElems l m vs d True n) =
    exact l ((\<forall>v\<in>set vs. predictable v) \<and> d + int (Max (insert 0 (set (map (\<lambda>v. Suc (nesting v)) vs)))) \<le> m)
      (length (''['' @ join '','' (map textOf vs) @ '']'')) c"
proof -
  have "(case exact l True 2 c of None \<Rightarrow> None | Some n \<Rightarrow> sizeElems l m vs d True n) =
    exact l (True \<and> (\<forall>v\<in>set vs. predictable v \<and> d + 1 + int (nesting v) \<le> m)) (2 + joined True (map textOf vs)) c"
    by (rule exact_bind) (rule sizeElems_exact [OF assms(1) _ assms(3)])
  moreover have "(True \<and> (\<forall>v\<in>set vs. predictable v \<and> d + 1 + int (nesting v) \<le> m)) \<longleftrightarrow>
      (\<forall>v\<in>set vs. predictable v) \<and> d + int (Max (insert 0 (set (map (\<lambda>v. Suc (nesting v)) vs)))) \<le> m"
    unfolding Max_le using assms(3) by auto
  ultimately show ?thesis
    by (simp add: joined_def)
qed

lemma struct_predicts:
  assumes "\<forall>(f, v)\<in>set fs. predicts v \<and> (tagName f = [] \<or> valid_tag (tagName f))" "c \<le> l" "d \<le> m"
  shows "(case exact l True 2 c of None \<Rightarrow> None | Some n \<Rightarrow> sizeFields l m fs d True n) =
    exact l (predictable (RStruct fs) \<and> d + int (nesting (RStruct fs)) \<le> m) (length (textOf (RStruct fs))) c"
proof -
  have "(case exact l True 2 c of None \<Rightarrow> None | Some n \<Rightarrow> sizeFields l m fs d True n) =
    exact l (True \<and> fieldsOK m d fs) (2 + joined True (fieldTexts fs)) c"
    by (rule exact_bind) (rule sizeFields_exact [OF assms(1) _ assms(3)])
  moreover have "fieldsOK m d fs \<longleftrightarrow> predictable (RStruct fs) \<and> d + int (nesting (RStruct fs)) \<le> m"
  proof -
    have "d + int (if a = Write then Suc k else 0) \<le> m \<longleftrightarrow> (a = Write \<longrightarrow> d + 1 + int k \<le> m)" for a k
      using assms(3) by (simp add: add.assoc)
    then show ?thesis
      unfolding nesting.simps Max_le predictable.simps fieldsOK_def case_prod_beta using assms(3) by blast
  qed
  ultimately show ?thesis
    by (simp add: joined_def fieldTexts_def)
qed

lemma wellTagged_predicts: "wellTagged v \<Longrightarrow> predicts v"
proof (induction v)
  case (RPointer x)
  show ?case
    by (cases x) (use RPointer in \<open>auto intro!: predictsI simp: leaf_simps predictsD numeral_eq_Suc\<close>)
next
  case (RInterface x)
  show ?case
    by (cases x) (use RInterface in \<open>auto intro!: predictsI simp: leaf_simps predictsD numeral_eq_Suc\<close>)
next
  case (RSlice x)
  show ?case
  proof (cases x)
    case None
    then show ?thesis by (auto intro!: predictsI simp: leaf_simps numeral_eq_Suc)
  next
    case (Some vs)
    then have vs: "\<forall>v\<in>set vs. predicts v"
      using RSlice by auto
    show ?thesis
      unfolding Some
      by (rule predictsI) (simp only: leaf_simps not_less sequence_predicts [OF vs] predictable.simps nesting.simps textOf.simps)
  qed
next
  case (RArray vs)
  then have vs: "\<forall>v\<in>set vs. predicts v" by auto
  show ?case
    by (rule predictsI) (simp only: leaf_simps not_less sequence_predicts [OF vs] predictable.simps nesting.simps textOf.simps)
next
  case (RStruct fs)
  have "\<forall>(f, v)\<in>set fs. predicts v \<and> (tagName f = [] \<or> valid_tag (tagName f))"
    using RStruct by fastforce
  then show ?case
    by (auto intro!: predictsI simp: leaf_simps struct_predicts simp del: nesting.simps predictable.simps textOf.simps)
next
  case (RRaw s)
  then show ?case
    by (auto intro!: predictsI simp: leaf_simps sizeRaw_def rawLoop_exact)
qed (auto intro!: predictsI simp: leaf_simps numeral_eq_Suc)

text \<open>The contract of \<open>Size\<close>.\<close>

lemma Size_exact:
  assumes "wellTagged v" "0 \<le> limit" "0 \<le> most"
  shows "Size v limit most =
     (if predictable v \<and> int (nesting v) \<le> most \<and> int (length (textOf v)) \<le> limit
      then Some (int (length (textOf v))) else None)"
  using predictsD [OF wellTagged_predicts [OF assms(1)], of 0 limit 0 most] assms(2,3)
  by (simp add: Size_def exact_def)

text \<open>
  A tag name \<open>encoding/json\<close> rejects: it writes the name of the field, and \<open>Size\<close> counts the name of
  the tag.
\<close>

lemma size_ignores_tags:
  "let v = RStruct [(\<lparr>Anonymous = False, Exported = True, Tag = ''a'' @ [quote_char], FieldName = ''Field''\<rparr>, RBool True)] in
   Size v 64 4 = Some 12 \<and> textOf v = ''{'' @ [quote_char] @ ''Field'' @ [quote_char] @ '':true}''"
  by code_simp

end
