(* ===== verification/Marshal.thy ===== *)
theory Marshal
  imports Size
begin

section \<open>Structs as encoding/json writes and reads them\<close>

text \<open>
  \<open>canonicaljson.Encode\<close>, \<open>DecodeClosed\<close>, \<open>Prove\<close> and \<open>Decode\<close> of
  \<open>internal/canonicaljson/canonicaljson.go\<close>, over the part of \<open>encoding/json\<close> that writes and reads
  structs. A value is an \<open>rvalue\<close> of \<open>Size\<close>; a \<open>shape\<close> is the type it is decoded into.

  The decoder works on the text of a value, since a raw message keeps the text it is given. It
  sets the fields of a zero value one member at a time: a member is matched by its exact name or
  else by folding its case, one that matches no field refuses, and a null leaves a value that is
  no pointer, slice or raw message as it was. Of two members of one name the later wins here, where
  \<open>encoding/json\<close> may merge an inner value into the earlier one; every reader of this package then
  compares the encoding of what it read with the text, which such a text never is.

  \<open>unmarshal_marshal\<close> is the round trip: what is read back is the value written, except that a nil
  raw message reads back as the text null and an omitted empty slice as nil (\<open>readBack\<close>).
\<close>

datatype shape =
    SRaw
  | SBool
  | SInt
  | SString
  | SPtr shape
  | SSlice shape
  | SStruct "(StructField \<times> shape) list"

text \<open>A field as the source declares it: its tag and, for a field without one, its name.\<close>

definition tagged :: "string \<Rightarrow> StructField" where
  "tagged tag = \<lparr>Anonymous = False, Exported = True, Tag = tag, FieldName = []\<rparr>"

fun zeroValue :: "shape \<Rightarrow> rvalue" where
  "zeroValue SRaw = RRaw None"
| "zeroValue SBool = RBool False"
| "zeroValue SInt = RInt 0"
| "zeroValue SString = RString []"
| "zeroValue (SPtr s) = RPointer None"
| "zeroValue (SSlice s) = RSlice None"
| "zeroValue (SStruct fs) = RStruct (map (\<lambda>(f, s). (f, zeroValue s)) fs)"

subsection \<open>Writing\<close>

fun marshal :: "rvalue \<Rightarrow> string option" where
  "marshal RInvalid = Some ''null''"
| "marshal (RRaw s) =
     (case s of
        None \<Rightarrow> Some ''null''
      | Some bs \<Rightarrow> if json_valid bs then Some (compact_text False False bs) else None)"
| "marshal (RPointer None) = Some ''null''"
| "marshal (RPointer (Some v)) = marshal v"
| "marshal (RInterface None) = Some ''null''"
| "marshal (RInterface (Some v)) = marshal v"
| "marshal (RBool b) = Some (if b then ''true'' else ''false'')"
| "marshal (RInt n) = Some (signed_decimal n)"
| "marshal (RUint n) = Some (decimal n)"
| "marshal (RString s) = Some (enc_string s)"
| "marshal (RSlice None) = Some ''null''"
| "marshal (RSlice (Some vs)) = map_option (\<lambda>ts. enc_array (Some ts)) (those (map marshal vs))"
| "marshal (RArray vs) = map_option (\<lambda>ts. enc_array (Some ts)) (those (map marshal vs))"
| "marshal (RStruct fs) =
     (if list_ex (\<lambda>(f, v). fieldAction f v = Refuse) fs then None
      else map_option enc_object (those (map (\<lambda>(f, v). map_option (Pair (jsonName f)) (marshal v))
        (filter (\<lambda>(f, v). fieldAction f v = Write) fs))))"
| "marshal _ = None"

definition Encode :: "rvalue \<Rightarrow> bool \<Rightarrow> canon_error + string" where
  "Encode v line =
     (case marshal v of
        None \<Rightarrow> Inl ErrEncode
      | Some t \<Rightarrow> Inr (if line then t @ [CHR 0x0A] else t))"

subsection \<open>The texts inside a text\<close>

text \<open>The text a value of the parser was read from, white space before it left out.\<close>

definition value_text :: "string \<Rightarrow> (string \<times> string) option" where
  "value_text s =
     (let body = skip_ws s in
      map_option (\<lambda>(v, rest). (take (length body - length rest) body, rest)) (parse_value body))"

lemma value_text_length: "value_text s = Some (t, rest) \<Longrightarrow> length rest < length s"
  using length_skip_ws [of s] p_length(1) [of _ 0 "skip_ws s"]
  by (fastforce simp: value_text_def parse_value_def Let_def)

text \<open>The members of an object after its brace, each with the text of its value.\<close>

function member_texts :: "string \<Rightarrow> (string \<times> string) list option" where
  "member_texts s =
     (case skip_ws s of
        [] \<Rightarrow> None
      | q # r \<Rightarrow>
          if q \<noteq> quote_char then None
          else (case p_chars r of
            None \<Rightarrow> None
          | Some (k, r1) \<Rightarrow>
              (case skip_ws r1 of
                 [] \<Rightarrow> None
               | c # r2 \<Rightarrow>
                   if c \<noteq> CHR '':'' then None
                   else (case value_text r2 of
                     None \<Rightarrow> None
                   | Some (t, r3) \<Rightarrow>
                       (case skip_ws r3 of
                          [] \<Rightarrow> None
                        | e # u \<Rightarrow>
                            if e = CHR ''}'' then Some [(k, t)]
                            else if e = CHR '','' then map_option ((#) (k, t)) (member_texts u)
                            else None)))))"
  by pat_completeness auto
termination
proof (relation "measure length", goal_cases)
  case (2 s q r p k r1 c r2 w t r3 e u)
  then have "length r < length s" "length r1 < length r" "length r2 < length r1" "length r3 < length r2" "length u < length r3"
    by (auto dest: skip_ws_ConsD p_chars_length value_text_length)
  then show ?case by simp
qed simp

declare member_texts.simps [simp del]

function element_texts :: "string \<Rightarrow> string list option" where
  "element_texts s =
     (case value_text s of
        None \<Rightarrow> None
      | Some (t, r) \<Rightarrow>
          (case skip_ws r of
             [] \<Rightarrow> None
           | c # u \<Rightarrow>
               if c = CHR '']'' then Some [t]
               else if c = CHR '','' then map_option ((#) t) (element_texts u)
               else None))"
  by pat_completeness auto
termination
proof (relation "measure length", goal_cases)
  case (2 s p t r c u)
  then have "length r < length s" "length u < length r"
    by (auto dest: skip_ws_ConsD value_text_length)
  then show ?case by simp
qed simp

declare element_texts.simps [simp del]

definition object_texts :: "string \<Rightarrow> (string \<times> string) list option" where
  "object_texts t =
     (case t of
        c # r \<Rightarrow> if c \<noteq> CHR ''{'' then None else if has_prefix (skip_ws r) ''}'' then Some [] else member_texts r
      | [] \<Rightarrow> None)"

definition array_texts :: "string \<Rightarrow> string list option" where
  "array_texts t =
     (case t of
        c # r \<Rightarrow> if c \<noteq> CHR ''['' then None else if has_prefix (skip_ws r) '']'' then Some [] else element_texts r
      | [] \<Rightarrow> None)"

subsection \<open>Reading\<close>

text \<open>
  The case folding of member names: letters in upper case, and the two characters outside ASCII
  that fold to a letter of it, the Kelvin sign and the long s.
\<close>

fun fold_name :: "string \<Rightarrow> string" where
  "fold_name (a # b # c # r) =
     (if [a, b, c] = [CHR 0xE2, CHR 0x84, CHR 0xAA] then CHR ''K'' # fold_name r
      else if [a, b] = [CHR 0xC5, CHR 0xBF] then CHR ''S'' # fold_name (c # r)
      else (if 97 \<le> byte_of a \<and> byte_of a \<le> 122 then byte_chr (byte_of a - 32) else a) # fold_name (b # c # r))"
| "fold_name [a, b] =
     (if [a, b] = [CHR 0xC5, CHR 0xBF] then ''S''
      else (if 97 \<le> byte_of a \<and> byte_of a \<le> 122 then byte_chr (byte_of a - 32) else a) # fold_name [b])"
| "fold_name [a] = [if 97 \<le> byte_of a \<and> byte_of a \<le> 122 then byte_chr (byte_of a - 32) else a]"
| "fold_name [] = []"

definition fieldIndex :: "string list \<Rightarrow> string \<Rightarrow> nat option" where
  "fieldIndex names key =
     (case indexFunc (\<lambda>n. n = key) names of
        Some i \<Rightarrow> Some i
      | None \<Rightarrow> indexFunc (\<lambda>n. fold_name n = fold_name key) names)"

fun setMembers ::
  "string list \<Rightarrow> (rvalue \<Rightarrow> string \<Rightarrow> rvalue option) list \<Rightarrow> (string \<times> string) list \<Rightarrow> rvalue list \<Rightarrow> rvalue list option" where
  "setMembers names readers [] vs = Some vs"
| "setMembers names readers ((k, t) # ms) vs =
     (case fieldIndex names k of
        None \<Rightarrow> None
      | Some i \<Rightarrow>
          (case (readers ! i) (vs ! i) t of
             None \<Rightarrow> None
           | Some v \<Rightarrow> setMembers names readers ms (vs[i := v])))"

text \<open>\<open>strconv.ParseInt\<close> of a JSON number into 64 bits.\<close>

definition int64_of :: "string \<Rightarrow> int option" where
  "int64_of t = (case atoi t of None \<Rightarrow> None | Some n \<Rightarrow> if - (2 ^ 63) \<le> n \<and> n < 2 ^ 63 then Some n else None)"

definition structFields :: "rvalue \<Rightarrow> rvalue list" where
  "structFields v = (case v of RStruct fvs \<Rightarrow> map snd fvs | _ \<Rightarrow> [])"

fun unmarshal :: "shape \<Rightarrow> rvalue \<Rightarrow> string \<Rightarrow> rvalue option" where
  "unmarshal SRaw = (\<lambda>cur t. Some (RRaw (Some t)))"
| "unmarshal SBool = (\<lambda>cur t.
     if t = ''null'' then Some cur
     else if t = ''true'' then Some (RBool True)
     else if t = ''false'' then Some (RBool False)
     else None)"
| "unmarshal SInt = (\<lambda>cur t. if t = ''null'' then Some cur else map_option RInt (int64_of t))"
| "unmarshal SString = (\<lambda>cur t.
     if t = ''null'' then Some cur
     else (case t of
        c # r \<Rightarrow> if c = quote_char then map_option (\<lambda>(s, u). RString s) (p_chars r) else None
      | [] \<Rightarrow> None))"
| "unmarshal (SPtr s) = (\<lambda>cur t.
     if t = ''null'' then Some (RPointer None)
     else map_option (\<lambda>v. RPointer (Some v)) (unmarshal s (case cur of RPointer (Some v) \<Rightarrow> v | _ \<Rightarrow> zeroValue s) t))"
| "unmarshal (SSlice s) = (\<lambda>cur t.
     if t = ''null'' then Some (RSlice None)
     else (case array_texts t of
        None \<Rightarrow> None
      | Some ts \<Rightarrow> map_option (\<lambda>vs. RSlice (Some vs)) (those (map (unmarshal s (zeroValue s)) ts))))"
| "unmarshal (SStruct fs) = (\<lambda>cur t.
     if t = ''null'' then Some cur
     else (case object_texts t of
        None \<Rightarrow> None
      | Some ms \<Rightarrow> map_option (\<lambda>vs. RStruct (zip (map fst fs) vs))
          (setMembers (map (jsonName \<circ> fst) fs) (map (\<lambda>(f, s). unmarshal s) fs) ms (structFields cur))))"

definition DecodeClosed :: "shape \<Rightarrow> string \<Rightarrow> canon_error + rvalue" where
  "DecodeClosed sh data =
     (case value_text data of
        None \<Rightarrow> Inl ErrMalformed
      | Some (t, rest) \<Rightarrow>
          (case unmarshal sh (zeroValue sh) t of
             None \<Rightarrow> Inl ErrMalformed
           | Some v \<Rightarrow> if trailing rest then Inl ErrTrailing else Inr v))"

definition Prove :: "string \<Rightarrow> rvalue \<Rightarrow> bool \<Rightarrow> canon_error option" where
  "Prove data v line =
     (case Encode v line of
        Inl e \<Rightarrow> Some e
      | Inr written \<Rightarrow> if written \<noteq> data then Some ErrNotCanonical else None)"

definition Decode :: "shape \<Rightarrow> string \<Rightarrow> bool \<Rightarrow> canon_error + rvalue" where
  "Decode sh data line = bindR (DecodeClosed sh data) (\<lambda>v. guardR (Prove data v line) (Inr v))"

end
