(* ===== verification/MarshalLaws.thy ===== *)
theory MarshalLaws
  imports Marshal
begin

section \<open>What is written is read back\<close>

text \<open>
  The laws of \<open>Marshal\<close>: the text of a value inside a text (\<open>object_texts_print\<close>,
  \<open>array_texts_print\<close>), a raw message of canonical text is written as it is (\<open>compact_print\<close>), and
  \<open>unmarshal_marshal\<close>, the round trip for every value that conforms to a shape.
\<close>

subsection \<open>Compact texts\<close>

lemma not_separator: "c \<noteq> CHR 0xE2 \<Longrightarrow> \<not> is_line_separator (c # r)"
  by (auto simp: is_line_separator_def)

lemma compact_step:
  assumes "\<not> is_html c" and "\<not> is_line_separator (c # take 2 r)" and "q \<or> \<not> is_ws c"
  shows "compact_text q e (c # r) = c # compact_text (scan_quoted q e c) (scan_escaped q e c) r"
  using assms by auto

declare compact_text.simps(2) [simp del]

text \<open>Bytes that the compaction of a text copies, inside a string.\<close>

definition plain :: "char \<Rightarrow> bool" where
  "plain c \<longleftrightarrow> \<not> is_html c \<and> c \<noteq> quote_char \<and> c \<noteq> backslash \<and> c \<noteq> CHR 0xE2"

lemma compact_plain:
  "list_all plain xs \<Longrightarrow> q \<or> list_all (Not \<circ> is_ws) xs \<Longrightarrow> compact_text q False (xs @ r) = xs @ compact_text q False r"
proof (induction xs)
  case (Cons c xs)
  then have "compact_text q False (c # xs @ r) = c # compact_text (scan_quoted q False c) (scan_escaped q False c) (xs @ r)"
    by (intro compact_step not_separator) (auto simp: plain_def)
  moreover have "compact_text q False (xs @ r) = xs @ compact_text q False r"
    using Cons by auto
  ultimately show ?case
    using Cons.prems(1) by (simp add: plain_def scan_quoted_def scan_escaped_def)
qed simp

lemma compact_escape:
  assumes "\<not> is_html e" and "e \<noteq> CHR 0xE2"
  shows "compact_text True False (backslash # e # r) = backslash # e # compact_text True False r"
proof -
  have "compact_text True False (backslash # e # r) = backslash # compact_text True True (e # r)"
    using compact_step [of backslash "e # r" True False] not_separator [of backslash]
    by (simp add: is_html_def scan_quoted_def scan_escaped_def)
  also have "compact_text True True (e # r) = e # compact_text True False r"
    using compact_step [of e r True True] not_separator [of e] assms by (simp add: scan_quoted_def scan_escaped_def)
  finally show ?thesis by simp
qed

lemma plain_bytes:
  "byte_of (CHR ''<'') = 60" "byte_of (CHR ''>'') = 62" "byte_of (CHR ''&'') = 38" "byte_of quote_char = 34"
  "byte_of backslash = 92" "byte_of (CHR 0xE2) = 226"
  by simp_all

lemma ascii_not_lead: "byte_of c < 128 \<Longrightarrow> c \<noteq> CHR 0xE2"
  using plain_bytes(6) by (metis less_numeral_extra(4) numeral_less_iff semiring_norm)

lemma plainI: "byte_of c \<notin> {60, 62, 38, 34, 92, 226} \<Longrightarrow> plain c"
  unfolding plain_def is_html_def using plain_bytes by (metis insert_iff)

lemma hex_digit_plain: "n < 16 \<Longrightarrow> plain (hex_digit n)"
  by (rule plainI) (auto simp: hex_digit_def)

lemma hex_low4_plain: "b < 256 \<Longrightarrow> list_all plain (hex_low4 b)"
proof -
  assume "b < 256"
  then have "b div 16 < 16" "b mod 16 < 16" by auto
  then show ?thesis by (simp add: hex_low4_def hex_digit_plain)
qed

lemma compact_ascii:
  assumes "byte_of c < 128"
  shows "compact_text True False (enc_ascii c @ r) = enc_ascii c @ compact_text True False r"
proof (cases "short_escaped c")
  case True
  then have "c = quote_char \<or> c = backslash \<or> c = CHR 0x08 \<or> c = CHR 0x0C \<or> c = CHR 0x0A \<or> c = CHR 0x0D \<or> c = CHR 0x09"
    by (simp add: short_escaped_def)
  then show ?thesis
    by (elim disjE) (simp_all add: enc_ascii_def compact_escape is_html_def)
next
  case False
  show ?thesis
  proof (cases "long_escaped c")
    case True
    have "compact_text True False (hex_low4 (byte_of c) @ r) = hex_low4 (byte_of c) @ compact_text True False r"
      by (rule compact_plain) (simp_all add: hex_low4_plain)
    then show ?thesis
      using compact_plain [of "''00''" True "hex_low4 (byte_of c) @ r"] compact_escape [of "CHR ''u''"]
      by (simp add: enc_ascii_long [OF False True] plain_def is_html_def)
  next
    case plain: False
    have "plain c"
      using False plain ascii_not_lead [OF assms]
      by (simp add: plain_def long_escaped_def short_escaped_def is_html_def)
    then show ?thesis
      using compact_plain [of "[c]" True r] by (simp add: enc_ascii_plain [OF False plain])
  qed
qed

lemma rune_tail_plain:
  assumes "rune_size (c # r) = n" and "n \<noteq> 0"
  shows "list_all plain (take (n - 1) r)"
proof -
  have ok: "tail_ok (byte_of c) (take (n - 1) r)" and "n = rune_need (byte_of c)"
    using assms by (auto simp: rune_size_def Let_def split: if_splits)
  have "list_all (\<lambda>d. 128 \<le> byte_of d \<and> byte_of d \<le> 191) (take (n - 1) r)"
    using ok by (auto simp: tail_ok_def second_ok_def cont_byte_def list_all_iff split: list.splits if_splits)
  then show ?thesis
    by (auto simp: list_all_iff intro!: plainI)
qed

lemma compact_rune:
  assumes n: "rune_size (c # r) = n" "n \<noteq> 0" and c: "128 \<le> byte_of c" and sep: "\<not> is_line_separator (take n (c # r))"
  shows "compact_text True False (c # take (n - 1) r @ t) = c # take (n - 1) r @ compact_text True False t"
proof -
  have "\<not> is_line_separator (c # take 2 (take (n - 1) r @ t))"
  proof (cases "c = CHR 0xE2")
    case True
    have "n = 3"
      using n True by (auto simp: rune_size_def rune_need_def Let_def split: if_splits)
    moreover have "length r \<ge> 2"
      using rune_size_le [of "c # r"] n(1) \<open>n = 3\<close> by simp
    ultimately show ?thesis
      using sep by (simp add: numeral_3_eq_3)
  qed (rule not_separator)
  moreover have "\<not> is_html c" "c \<noteq> quote_char" "c \<noteq> backslash"
    using c plain_bytes unfolding is_html_def by auto
  ultimately have "compact_text True False (c # take (n - 1) r @ t) = c # compact_text True False (take (n - 1) r @ t)"
    by (subst compact_step) (simp_all add: scan_quoted_def scan_escaped_def)
  then show ?thesis
    using compact_plain [OF rune_tail_plain [OF n], of True t] by simp
qed

lemma compact_chars:
  "compact_text True False (enc_chars s @ quote_char # r) = enc_chars s @ quote_char # compact_text False False r"
proof (induction s rule: enc_chars.induct)
  case 1
  have "compact_text True False (quote_char # r) = quote_char # compact_text False False r"
    using not_separator [of quote_char] by (subst compact_step) (simp_all add: is_html_def scan_quoted_def scan_escaped_def)
  then show ?case by (simp add: enc_chars.simps)
next
  case (2 c s)
  define n where "n = rune_size (c # s)"
  have u: "compact_text True False ([backslash] @ CHR ''u'' # xs @ t) = [backslash] @ CHR ''u'' # xs @ compact_text True False t"
    if "list_all plain xs" for xs t
    using compact_plain [OF that, of True t] compact_escape [of "CHR ''u''"] by (simp add: is_html_def)
  have escapes: "list_all plain ''fffd''" "list_all plain ''2028''" "list_all plain ''2029''"
    by (simp_all add: plainI)
  show ?case
  proof (cases "byte_of c < 128")
    case True
    then show ?thesis
      using "2.IH"(1) compact_ascii [OF True] by (simp add: enc_chars.simps)
  next
    case c: False
    consider "n = 0" | "n \<noteq> 0" "is_line_separator (take n (c # s))" | "n \<noteq> 0" "\<not> is_line_separator (take n (c # s))"
      by blast
    then show ?thesis
    proof cases
      case 1
      then show ?thesis
        using "2.IH"(2) [OF c n_def 1] u [OF escapes(1), of "enc_chars s @ quote_char # r"] c n_def by (simp add: enc_chars.simps Let_def)
    next
      case 2
      then show ?thesis
        using "2.IH"(3) [OF c n_def 2] u [OF escapes(2)] u [OF escapes(3)] c n_def by (simp add: enc_chars.simps Let_def)
    next
      case 3
      then show ?thesis
        using "2.IH"(4) [OF c n_def 3] compact_rune [of c s n] c n_def by (simp add: enc_chars.simps Let_def)
    qed
  qed
qed

text \<open>The characters of a number.\<close>

definition numeric :: "char \<Rightarrow> bool" where
  "numeric c \<longleftrightarrow> is_digit c \<or> c \<in> {CHR ''-'', CHR ''+'', CHR ''.'', CHR ''e'', CHR ''E''}"

lemma span_digits_numeric: "span_digits s = (ds, t) \<Longrightarrow> list_all numeric ds"
  by (auto simp: span_digits_def numeric_def list_all_iff dest: set_takeWhileD)

lemma p_number_numeric:
  assumes "p_number s = Some (x, t)"
  shows "list_all numeric x"
proof -
  have i: "p_int s = Some (x, t) \<Longrightarrow> list_all numeric x" for s x t
    by (auto simp: p_int_def split: list.splits if_splits dest: span_digits_numeric) (simp add: numeric_def is_digit_def)
  have f: "p_frac s = Some (x, t) \<Longrightarrow> list_all numeric x" for s x t
    by (auto simp: p_frac_def split: list.splits if_splits prod.splits dest!: span_digits_numeric) (simp add: numeric_def)
  have e: "p_exp s = Some (x, t) \<Longrightarrow> list_all numeric x" for s x t
    by (auto simp: p_exp_def split: list.splits if_splits prod.splits dest!: span_digits_numeric) (auto simp: numeric_def)
  show ?thesis
    using assms by (auto simp: p_number_def split: list.splits if_splits option.splits dest!: i f e) (auto simp: numeric_def)
qed

lemma numeric_plain: "numeric c \<Longrightarrow> plain c \<and> \<not> is_ws c"
  by (auto simp: numeric_def is_digit_def is_ws_def intro!: plainI)

lemma compact_number:
  assumes "p_number s = Some (s, [])"
  shows "compact_text False False (s @ r) = s @ compact_text False False r"
proof (rule compact_plain)
  show "list_all plain s" "False \<or> list_all (Not \<circ> is_ws) s"
    using p_number_numeric [OF assms] numeric_plain by (auto simp: list_all_iff)
qed

lemma compact_string: "compact_text False False (enc_string s @ r) = enc_string s @ compact_text False False r"
proof -
  have "compact_text False False (quote_char # enc_chars s @ quote_char # r) =
      quote_char # compact_text True False (enc_chars s @ quote_char # r)"
    using not_separator [of quote_char] by (subst compact_step) (simp_all add: is_html_def scan_quoted_def scan_escaped_def)
  then show ?thesis by (simp add: enc_string_def compact_chars)
qed

lemma compact_marks:
  "compact_text False False (CHR ''['' # r) = CHR ''['' # compact_text False False r"
  "compact_text False False (CHR '']'' # r) = CHR '']'' # compact_text False False r"
  "compact_text False False (CHR ''{'' # r) = CHR ''{'' # compact_text False False r"
  "compact_text False False (CHR ''}'' # r) = CHR ''}'' # compact_text False False r"
  "compact_text False False (CHR '':'' # r) = CHR '':'' # compact_text False False r"
  "compact_text False False (CHR '','' # r) = CHR '','' # compact_text False False r"
  using compact_plain [of "[CHR ''['']" False r] compact_plain [of "[CHR '']'']" False r]
    compact_plain [of "[CHR ''{'']" False r] compact_plain [of "[CHR ''}'']" False r]
    compact_plain [of "[CHR '':'']" False r] compact_plain [of "[CHR '','']" False r]
  by (simp_all add: plainI)

lemma compact_print_gen:
  "wf_json d v \<Longrightarrow> compact_text False False (print_json v @ r) = print_json v @ compact_text False False r"
  "\<forall>v\<in>set vs. wf_json d v \<Longrightarrow> compact_text False False (print_elems vs @ r) = print_elems vs @ compact_text False False r"
  "\<forall>m\<in>set ms. wf_json d (snd m) \<Longrightarrow>
     compact_text False False (print_members ms @ r) = print_members ms @ compact_text False False r"
proof (induction v and vs and ms arbitrary: d r and d r and d r rule: print_json_print_elems_print_members.induct)
  case 1
  show ?case using compact_plain [of "''null''" False r] by (simp add: plainI is_ws_def)
next
  case (2 b)
  show ?case
    using compact_plain [of "''true''" False r] compact_plain [of "''false''" False r] by (simp add: plainI is_ws_def)
next
  case (3 s)
  then show ?case by (simp add: compact_number)
next
  case (6 ms)
  then show ?case using "6.IH" [of "Suc d"] by (simp add: compact_marks)
qed (auto simp: compact_string compact_marks)

lemma compact_print: "wf_json d v \<Longrightarrow> compact_text False False (print_json v) = print_json v"
  using compact_print_gen(1) [of d v "[]"] by simp

subsection \<open>Texts of printed values\<close>

lemma wf_json_mono: "wf_json d v \<Longrightarrow> d' \<le> d \<Longrightarrow> wf_json d' v"
proof (induction d v arbitrary: d' rule: wf_json.induct)
  case (5 d vs)
  then show ?case using Suc_le_mono by auto
next
  case (6 d ms)
  then show ?case using Suc_le_mono by auto
qed auto

lemma value_text_print:
  assumes "wf_json d v" and "num_stop r"
  shows "value_text (print_json v @ r) = Some (print_json v, r)"
proof -
  obtain c t where h: "print_json v = c # t" "\<not> is_ws c"
    using print_json_head [OF assms(1)] by blast
  then have "skip_ws (print_json v @ r) = print_json v @ r" by simp
  moreover have "parse_value (print_json v @ r) = Some (v, r)"
    using parse_print [OF wf_json_mono [OF assms(1)] assms(2)] by simp
  ultimately show ?thesis by (simp add: value_text_def Let_def)
qed

lemma element_texts_print:
  "vs \<noteq> [] \<Longrightarrow> \<forall>v\<in>set vs. wf_json d v \<Longrightarrow>
   element_texts (print_elems vs @ CHR '']'' # r) = Some (map print_json vs)"
proof (induction vs)
  case (Cons v vs)
  define rest where "rest = (if vs = [] then [] else CHR '','' # print_elems vs) @ CHR '']'' # r"
  have "value_text (print_json v @ rest) = Some (print_json v, rest)"
    using Cons.prems by (intro value_text_print) (auto simp: rest_def)
  then show ?case
    using Cons by (cases "vs = []"; subst element_texts.simps) (simp_all add: rest_def)
qed simp

lemma array_texts_print:
  assumes "\<forall>v\<in>set vs. wf_json d v"
  shows "array_texts (print_json (JArr vs)) = Some (map print_json vs)"
proof (cases vs)
  case Nil
  then show ?thesis by (simp add: array_texts_def has_prefix_def)
next
  case (Cons v ws)
  then obtain c t where "print_elems vs = c # t" "\<not> is_ws c" "c \<noteq> CHR '']''"
    using assms print_elems_head [of d v ws] by auto
  then show ?thesis
    using element_texts_print [OF _ assms, of "[]"] Cons by (simp add: array_texts_def has_prefix_def)
qed

lemma member_texts_print:
  "ms \<noteq> [] \<Longrightarrow> \<forall>m\<in>set ms. utf8_valid (fst m) \<and> wf_json d (snd m) \<Longrightarrow>
   member_texts (print_members ms @ CHR ''}'' # r) = Some (map (map_prod id print_json) ms)"
proof (induction ms)
  case (Cons m ms)
  define rest where "rest = (if ms = [] then [] else CHR '','' # print_members ms) @ CHR ''}'' # r"
  have "value_text (print_json (snd m) @ rest) = Some (print_json (snd m), rest)"
    using Cons.prems by (intro value_text_print) (auto simp: rest_def)
  moreover have "p_chars (enc_chars (fst m) @ quote_char # CHR '':'' # print_json (snd m) @ rest) =
      Some (fst m, CHR '':'' # print_json (snd m) @ rest)"
    using Cons.prems by (simp add: p_chars_enc)
  moreover have "print_members (m # ms) @ CHR ''}'' # r =
      quote_char # enc_chars (fst m) @ quote_char # CHR '':'' # print_json (snd m) @ rest"
    by (simp add: enc_string_def rest_def)
  ultimately show ?case
    using Cons by (cases "ms = []"; subst member_texts.simps) (simp_all add: rest_def map_prod_def split_beta)
qed simp

lemma object_texts_print:
  assumes "\<forall>m\<in>set ms. utf8_valid (fst m) \<and> wf_json d (snd m)"
  shows "object_texts (print_json (JObj ms)) = Some (map (map_prod id print_json) ms)"
proof (cases ms)
  case Nil
  then show ?thesis by (simp add: object_texts_def has_prefix_def)
next
  case (Cons m ws)
  then obtain t where "print_members ms = quote_char # t" by (auto simp: enc_string_def)
  then show ?thesis
    using member_texts_print [OF _ assms, of "[]"] Cons by (simp add: object_texts_def has_prefix_def)
qed

subsection \<open>Numbers\<close>

lemma decimal_head: "0 < n \<Longrightarrow> hd (decimal n) \<noteq> CHR ''0''"
proof (induction n rule: decimal.induct)
  case (1 n)
  show ?case
  proof (cases "n < 10")
    case True
    then have "byte_of (byte_chr (48 + n)) \<noteq> 48" using 1(2) by simp
    then have "byte_chr (48 + n) \<noteq> CHR ''0''" by force
    with True show ?thesis by (subst decimal.simps) simp
  next
    case False
    then show ?thesis using 1 by (subst decimal.simps) simp
  qed
qed

lemma digits_stop: "list_all is_digit s \<Longrightarrow> takeWhile is_digit s = s \<and> dropWhile is_digit s = []"
  by (induction s) auto

lemma p_int_decimal: "p_int (decimal n) = Some (decimal n, [])"
proof -
  obtain c r where d: "decimal n = c # r" by (cases "decimal n") auto
  then have "is_digit c" "list_all is_digit (c # r)"
    using decimal_digits [of n] by auto
  moreover have "r = []" if "c = CHR ''0''"
  proof -
    have "n = 0" using decimal_head [of n] d that by auto
    then show ?thesis using d by (subst (asm) decimal.simps) simp
  qed
  ultimately show ?thesis
    using digits_stop [of "c # r"] by (auto simp: d p_int_def span_digits_def)
qed

lemma p_number_signed: "p_number (signed_decimal n) = Some (signed_decimal n, [])"
proof -
  have "decimal k = c # r \<Longrightarrow> c \<noteq> CHR ''-''" for k c r
    using decimal_digits [of k] by (auto simp: is_digit_def)
  then have "p_number (decimal k) = Some (decimal k, [])" for k
    using p_int_decimal [of k] by (cases "decimal k") (auto simp: p_number_def p_frac_def p_exp_def)
  moreover have "p_number (CHR ''-'' # decimal k) = Some (CHR ''-'' # decimal k, [])" for k
    using p_int_decimal [of k] by (simp add: p_number_def p_frac_def p_exp_def)
  ultimately show ?thesis by (simp add: signed_decimal_def)
qed

lemma atoi_signed: "atoi (signed_decimal n) = Some n"
proof -
  have d: "decimal k = c # r \<Longrightarrow> c \<noteq> CHR ''-'' \<and> c \<noteq> CHR ''+''" for k c r
    using decimal_digits [of k] by (auto simp: is_digit_def)
  show ?thesis
  proof (cases "n < 0")
    case True
    then show ?thesis by (simp add: atoi_def signed_decimal_def decimal_digits)
  next
    case False
    obtain c r where k: "decimal (nat n) = c # r" by (cases "decimal (nat n)") auto
    then have "atoi (decimal (nat n)) = Some (int (digits_value (decimal (nat n))))"
      using d [OF k] decimal_digits [of "nat n"] by (simp add: atoi_def)
    with False show ?thesis by (simp add: signed_decimal_def)
  qed
qed

lemma signed_not_null: "signed_decimal n \<noteq> ''null''"
  using p_number_numeric [OF p_number_signed [of n]] by (auto simp: numeric_def is_digit_def)

subsection \<open>The round trip\<close>

text \<open>The text of one value as the encoder writes it, nested so deep.\<close>

definition canonical_text :: "nat \<Rightarrow> string \<Rightarrow> bool" where
  "canonical_text d s \<longleftrightarrow>
     (case parse_value s of Some (v, rest) \<Rightarrow> rest = [] \<and> print_json v = s \<and> wf_json d v | None \<Rightarrow> False)"

lemma canonical_textE:
  assumes "canonical_text d s"
  obtains v where "s = print_json v" "wf_json d v"
  using assms by (auto simp: canonical_text_def split: option.splits prod.splits)

lemma canonical_text_print: "wf_json d v \<Longrightarrow> canonical_text d (print_json v)"
  using parse_print [OF wf_json_mono [of d v 0], of "[]"] by (simp add: canonical_text_def)

definition omitted :: "rvalue \<Rightarrow> rvalue" where
  "omitted v = (case v of RRaw s \<Rightarrow> RRaw None | RSlice s \<Rightarrow> RSlice None | _ \<Rightarrow> v)"

fun readBack :: "rvalue \<Rightarrow> rvalue" where
  "readBack (RRaw None) = RRaw (Some ''null'')"
| "readBack (RPointer (Some v)) = RPointer (Some (readBack v))"
| "readBack (RSlice (Some vs)) = RSlice (Some (map readBack vs))"
| "readBack (RStruct fs) = RStruct (map (\<lambda>(f, v). (f, if fieldAction f v = Write then readBack v else omitted v)) fs)"
| "readBack v = v"

text \<open>The values of a shape that the encoder writes without loss.\<close>

fun conforms :: "shape \<Rightarrow> nat \<Rightarrow> rvalue \<Rightarrow> bool" where
  "conforms SRaw = (\<lambda>d v. case v of RRaw None \<Rightarrow> True | RRaw (Some s) \<Rightarrow> canonical_text d s | _ \<Rightarrow> False)"
| "conforms SBool = (\<lambda>d v. case v of RBool b \<Rightarrow> True | _ \<Rightarrow> False)"
| "conforms SInt = (\<lambda>d v. case v of RInt n \<Rightarrow> - (2 ^ 63) \<le> n \<and> n < 2 ^ 63 | _ \<Rightarrow> False)"
| "conforms SString = (\<lambda>d v. case v of RString s \<Rightarrow> utf8_valid s | _ \<Rightarrow> False)"
| "conforms (SPtr s) = (\<lambda>d v. case v of
     RPointer None \<Rightarrow> True
   | RPointer (Some u) \<Rightarrow> (case s of SStruct fs \<Rightarrow> True | _ \<Rightarrow> False) \<and> conforms s d u
   | _ \<Rightarrow> False)"
| "conforms (SSlice s) = (\<lambda>d v. case v of
     RSlice None \<Rightarrow> True
   | RSlice (Some vs) \<Rightarrow> d < maxNestingDepth \<and> list_all (conforms s (Suc d)) vs
   | _ \<Rightarrow> False)"
| "conforms (SStruct fs) = (\<lambda>d v. case v of
     RStruct fvs \<Rightarrow>
       d < maxNestingDepth \<and> distinct (map (jsonName \<circ> fst) fs) \<and> list_all (\<lambda>(f, s). utf8_valid (jsonName f)) fs \<and>
       map fst fvs = map fst fs \<and>
       list_all2 (\<lambda>(c, zero) (f, v).
         if fieldAction f v = Write then c (Suc d) v else fieldAction f v = Skip \<and> omitted v = zero)
         (map (\<lambda>(f, s). (conforms s, zeroValue s)) fs) fvs
   | _ \<Rightarrow> False)"

text \<open>One value of a shape: written as the text of a tree, which is read back.\<close>

definition round_trip :: "shape \<Rightarrow> nat \<Rightarrow> rvalue \<Rightarrow> json \<Rightarrow> bool" where
  "round_trip sh d v j \<longleftrightarrow>
     wf_json d j \<and> marshal v = Some (print_json j) \<and> marshal (readBack v) = Some (print_json j) \<and>
     unmarshal sh (zeroValue sh) (print_json j) = Some (readBack v)"

lemma enc_array_print: "enc_array (Some (map print_json js)) = print_json (JArr js)"
proof -
  have "join '','' (map print_json js) = print_elems js"
    by (induction js rule: induct_list012) simp_all
  then show ?thesis by (simp add: enc_array_def)
qed

lemma enc_object_print: "enc_object (map (map_prod id print_json) ms) = print_json (JObj ms)"
proof -
  have "join '','' (map (\<lambda>(k, v). enc_string k @ '':'' @ v) (map (map_prod id print_json) ms)) = print_members ms"
    by (induction ms rule: induct_list012) (simp_all add: split_beta map_prod_def)
  then show ?thesis by (simp add: enc_object_def)
qed

lemma those_map_Some: "those (map (\<lambda>x. Some (f x)) xs) = Some (map f xs)"
  by (induction xs) simp_all

lemma those_Some: "(\<And>x. x \<in> set xs \<Longrightarrow> g x = Some (f x)) \<Longrightarrow> those (map g xs) = Some (map f xs)"
  by (induction xs) simp_all

lemma fieldIndex_exact: "distinct names \<Longrightarrow> i < length names \<Longrightarrow> fieldIndex names (names ! i) = Some i"
proof -
  assume d: "distinct names" and i: "i < length names"
  obtain k where k: "indexFunc (\<lambda>n. n = names ! i) names = Some k"
    using nth_mem [OF i] by (cases "indexFunc (\<lambda>n. n = names ! i) names") auto
  then have "k = i"
    using indexFunc_Some [OF k] d i by (auto simp: nth_eq_iff_index_eq)
  with k show ?thesis by (simp add: fieldIndex_def)
qed

text \<open>Members in the order of the fields, some left out, set exactly their fields.\<close>

lemma setMembers_fields:
  assumes "distinct names" and "k \<le> length names"
    and "\<And>i. k \<le> i \<Longrightarrow> i < length names \<Longrightarrow> wr i \<Longrightarrow> (readers ! i) (vs ! i) (txt i) = Some (new i)"
    and "length vs = length names"
  shows "setMembers names readers (concat (map (\<lambda>i. if wr i then [(names ! i, txt i)] else []) [k..<length names])) vs =
    Some (map (\<lambda>i. if k \<le> i \<and> wr i then new i else vs ! i) [0..<length names])"
  using assms(2-)
proof (induction "length names - k" arbitrary: k vs)
  case 0
  then show ?case by (auto intro!: nth_equalityI)
next
  case (Suc m)
  then have k: "k < length names" by simp
  let ?vs = "if wr k then vs[k := new k] else vs"
  have IH: "setMembers names readers (concat (map (\<lambda>i. if wr i then [(names ! i, txt i)] else []) [Suc k..<length names])) ?vs =
    Some (map (\<lambda>i. if Suc k \<le> i \<and> wr i then new i else ?vs ! i) [0..<length names])"
    using Suc by (intro Suc.hyps(1)) auto
  also have "map (\<lambda>i. if Suc k \<le> i \<and> wr i then new i else ?vs ! i) [0..<length names] =
      map (\<lambda>i. if k \<le> i \<and> wr i then new i else vs ! i) [0..<length names]"
    using k Suc.prems(3) by (auto simp: nth_list_update le_eq_less_or_eq)
  finally show ?case
    using k Suc.prems(2) [of k] fieldIndex_exact [OF assms(1) k] by (cases "wr k") (simp_all add: upt_conv_Cons)
qed

lemma fieldAction_readBack: "fieldAction f v = Write \<Longrightarrow> fieldAction f (readBack v) = Write"
  by (cases v rule: readBack.cases) (auto simp: fieldAction_def split: if_splits option.splits bool.splits)

lemma fieldAction_omitted: "fieldAction f v = Skip \<Longrightarrow> fieldAction f (omitted v) = Skip"
  by (cases v) (auto simp: fieldAction_def omitted_def split: if_splits option.splits bool.splits)

lemma concat_if_filter: "concat (map (\<lambda>i. if P i then [h i] else []) xs) = map h (filter P xs)"
  by (induction xs) auto

lemma marshal_fields:
  assumes "\<And>i. i < length fvs \<Longrightarrow> fieldAction (fst (fvs ! i)) (snd (fvs ! i)) = (if wr i then Write else Skip)"
    and "\<And>i. i < length fvs \<Longrightarrow> wr i \<Longrightarrow> marshal (snd (fvs ! i)) = Some (print_json (js i))"
  shows "marshal (RStruct fvs) =
    Some (print_json (JObj (map (\<lambda>i. (jsonName (fst (fvs ! i)), js i)) (filter wr [0..<length fvs]))))"
proof -
  let ?L = "filter wr [0..<length fvs]"
  have "filter (\<lambda>(f, v). fieldAction f v = Write) (map ((!) fvs) [0..<length fvs]) = map ((!) fvs) ?L"
    unfolding filter_map by (rule arg_cong [of _ _ "map ((!) fvs)"], rule filter_cong) (use assms(1) in \<open>auto simp: split_beta\<close>)
  then have w: "filter (\<lambda>(f, v). fieldAction f v = Write) fvs = map ((!) fvs) ?L"
    by (simp add: map_nth)
  have "those (map (\<lambda>i. (\<lambda>(f, v). map_option (Pair (jsonName f)) (marshal v)) (fvs ! i)) ?L) =
      Some (map (\<lambda>i. (jsonName (fst (fvs ! i)), print_json (js i))) ?L)"
    by (rule those_Some) (simp add: assms(2) split_beta)
  then have t: "those (map (\<lambda>(f, v). map_option (Pair (jsonName f)) (marshal v)) (map ((!) fvs) ?L)) =
      Some (map (map_prod id print_json) (map (\<lambda>i. (jsonName (fst (fvs ! i)), js i)) ?L))"
    by (simp add: comp_def)
  have "\<not> list_ex (\<lambda>(f, v). fieldAction f v = Refuse) fvs"
    using assms(1) by (auto simp: list_ex_iff in_set_conv_nth) (metis field_action.distinct(1,3) fst_conv snd_conv)
  then show ?thesis
    by (simp only: marshal.simps w t if_False option.map enc_object_print)
qed

lemma round_trip_struct:
  assumes len: "length fvs = length fs" and names: "distinct (map (jsonName \<circ> fst) fs)" "\<And>f s. (f, s) \<in> set fs \<Longrightarrow> utf8_valid (jsonName f)"
    and d: "d < maxNestingDepth" and fields: "map fst fvs = map fst fs"
    and act: "\<And>i. i < length fs \<Longrightarrow> fieldAction (fst (fvs ! i)) (snd (fvs ! i)) = (if wr i then Write else Skip)"
    and wr: "\<And>i. i < length fs \<Longrightarrow> wr i \<Longrightarrow> round_trip (snd (fs ! i)) (Suc d) (snd (fvs ! i)) (js i)"
    and om: "\<And>i. i < length fs \<Longrightarrow> \<not> wr i \<Longrightarrow> omitted (snd (fvs ! i)) = zeroValue (snd (fs ! i))"
  shows "round_trip (SStruct fs) d (RStruct fvs) (JObj (map (\<lambda>i. (jsonName (fst (fs ! i)), js i)) (filter wr [0..<length fs])))"
    (is "round_trip _ _ _ (JObj ?ms)")
proof -
  have f: "i < length fs \<Longrightarrow> fst (fvs ! i) = fst (fs ! i)" for i
    using fields len by (metis nth_map)
  have ms: "?ms = map (\<lambda>i. (jsonName (fst (fvs ! i)), js i)) (filter wr [0..<length fs])"
    using f by simp
  have wf: "\<forall>m\<in>set ?ms. utf8_valid (fst m) \<and> wf_json (Suc d) (snd m)"
    using wr names(2) by (auto simp: round_trip_def) (metis nth_mem prod.collapse)
  have m: "marshal (RStruct fvs) = Some (print_json (JObj ?ms))"
    unfolding ms using marshal_fields [of fvs wr js] act wr len by (simp add: round_trip_def)
  let ?stored = "map (\<lambda>(f, v). (f, if fieldAction f v = Write then readBack v else omitted v)) fvs"
  have rb: "?stored ! i = (fst (fs ! i), if wr i then readBack (snd (fvs ! i)) else omitted (snd (fvs ! i)))" if "i < length fs" for i
    using act [OF that] f [OF that] that len by (simp add: split_beta)
  have "marshal (RStruct ?stored) = Some (print_json (JObj ?ms))"
  proof -
    have "map (\<lambda>i. (jsonName (fst (?stored ! i)), js i)) (filter wr [0..<length ?stored]) = ?ms"
      using rb len by auto
    moreover have "fieldAction (fst (?stored ! i)) (snd (?stored ! i)) = (if wr i then Write else Skip)" if "i < length ?stored" for i
      using that len act [of i] f [of i] fieldAction_readBack fieldAction_omitted by (auto simp: rb simp del: nth_map split: if_splits)
    moreover have "marshal (snd (?stored ! i)) = Some (print_json (js i))" if "i < length ?stored" "wr i" for i
      using that len wr [of i] by (auto simp: rb round_trip_def simp del: nth_map)
    ultimately show ?thesis
      using marshal_fields [of ?stored wr js] by simp
  qed
  moreover have "unmarshal (SStruct fs) (zeroValue (SStruct fs)) (print_json (JObj ?ms)) = Some (RStruct ?stored)"
  proof -
    let ?names = "map (jsonName \<circ> fst) fs" and ?readers = "map (\<lambda>(f, s). unmarshal s) fs" and ?zero = "map (zeroValue \<circ> snd) fs"
    have sm: "setMembers ?names ?readers (map (\<lambda>i. (?names ! i, print_json (js i))) (filter wr [0..<length ?names])) ?zero =
        Some (map (\<lambda>i. if 0 \<le> i \<and> wr i then readBack (snd (fvs ! i)) else ?zero ! i) [0..<length ?names])"
      unfolding concat_if_filter [symmetric] using names(1) wr
      by (intro setMembers_fields) (auto simp: round_trip_def split_beta)
    have mt: "map (map_prod id print_json) ?ms = map (\<lambda>i. (?names ! i, print_json (js i))) (filter wr [0..<length ?names])"
      by auto
    have sf: "structFields (zeroValue (SStruct fs)) = ?zero"
      by (simp add: structFields_def split_beta comp_def)
    have z: "zip (map fst fs) (map (\<lambda>i. if 0 \<le> i \<and> wr i then readBack (snd (fvs ! i)) else ?zero ! i) [0..<length ?names]) = ?stored"
      using rb om len by (auto intro!: nth_equalityI simp del: nth_map simp: nth_map [of _ "[0..<_]"] nth_map [of _ fs])
    have "print_json (JObj ?ms) \<noteq> ''null''" by simp
    then show ?thesis
      by (simp only: unmarshal.simps if_False object_texts_print [OF wf] option.case mt sf sm option.map z)
  qed
  ultimately show ?thesis
    using m wf d by (simp add: round_trip_def)
qed

lemma round_trip_slice:
  assumes d: "d < maxNestingDepth" and vs: "\<And>v. v \<in> set vs \<Longrightarrow> round_trip s (Suc d) v (js v)"
  shows "round_trip (SSlice s) d (RSlice (Some vs)) (JArr (map js vs))"
proof -
  have wf: "\<forall>j\<in>set (map js vs). wf_json (Suc d) j"
    using vs by (auto simp: round_trip_def)
  have "those (map marshal vs) = Some (map (\<lambda>v. print_json (js v)) vs)"
    by (rule those_Some) (use vs in \<open>auto simp: round_trip_def\<close>)
  then have m: "marshal (RSlice (Some vs)) = Some (print_json (JArr (map js vs)))"
    using enc_array_print [of "map js vs"] by (simp add: comp_def)
  have "those (map (\<lambda>v. marshal (readBack v)) vs) = Some (map (\<lambda>v. print_json (js v)) vs)"
    by (rule those_Some) (use vs in \<open>auto simp: round_trip_def\<close>)
  then have b: "marshal (readBack (RSlice (Some vs))) = Some (print_json (JArr (map js vs)))"
    using enc_array_print [of "map js vs"] by (simp add: comp_def)
  have "those (map (\<lambda>v. unmarshal s (zeroValue s) (print_json (js v))) vs) = Some (map readBack vs)"
    by (rule those_Some) (use vs in \<open>auto simp: round_trip_def\<close>)
  then have u: "those (map (unmarshal s (zeroValue s)) (map print_json (map js vs))) = Some (map readBack vs)"
    by (simp add: comp_def)
  have "print_json (JArr (map js vs)) \<noteq> ''null''" by simp
  then have "unmarshal (SSlice s) (zeroValue (SSlice s)) (print_json (JArr (map js vs))) = Some (readBack (RSlice (Some vs)))"
    by (simp only: unmarshal.simps if_False array_texts_print [OF wf] option.case u option.map readBack.simps)
  then show ?thesis
    using d wf m b unfolding round_trip_def by auto
qed

text \<open>A struct whose fields make the round trip: the members of its text.\<close>

abbreviation field_written :: "(StructField \<times> rvalue) list \<Rightarrow> nat \<Rightarrow> bool" where
  "field_written fvs i \<equiv> fieldAction (fst (fvs ! i)) (snd (fvs ! i)) = Write"

lemma struct_round_trip:
  assumes conf: "conforms (SStruct fs) d (RStruct fvs)"
    and IH: "\<And>f s d v. (f, s) \<in> set fs \<Longrightarrow> conforms s d v \<Longrightarrow> \<exists>j. round_trip s d v j"
  obtains js where
    "round_trip (SStruct fs) d (RStruct fvs) (JObj (map (\<lambda>i. (jsonName (fst (fs ! i)), js i)) (filter (field_written fvs) [0..<length fs])))"
    "\<And>i. i < length fs \<Longrightarrow> field_written fvs i \<Longrightarrow> round_trip (snd (fs ! i)) (Suc d) (snd (fvs ! i)) (js i)"
    "distinct (map (jsonName \<circ> fst) fs)" "map fst fvs = map fst fs"
proof -
  have c: "d < maxNestingDepth" "distinct (map (jsonName \<circ> fst) fs)" "\<And>f s. (f, s) \<in> set fs \<Longrightarrow> utf8_valid (jsonName f)"
    "map fst fvs = map fst fs"
    using conf by (auto simp: list_all_iff)
  then have len: "length fvs = length fs" by (metis length_map)
  have f: "if field_written fvs i then conforms (snd (fs ! i)) (Suc d) (snd (fvs ! i))
      else fieldAction (fst (fvs ! i)) (snd (fvs ! i)) = Skip \<and> omitted (snd (fvs ! i)) = zeroValue (snd (fs ! i))"
    if "i < length fs" for i
    using conf that by (auto simp: list_all2_conv_all_nth split_beta)
  have "\<forall>i<length fs. field_written fvs i \<longrightarrow> (\<exists>j. round_trip (snd (fs ! i)) (Suc d) (snd (fvs ! i)) j)"
    using f IH nth_mem by (metis prod.collapse)
  then obtain js where js: "\<And>i. i < length fs \<Longrightarrow> field_written fvs i \<Longrightarrow> round_trip (snd (fs ! i)) (Suc d) (snd (fvs ! i)) (js i)"
    by metis
  have "round_trip (SStruct fs) d (RStruct fvs) (JObj (map (\<lambda>i. (jsonName (fst (fs ! i)), js i)) (filter (field_written fvs) [0..<length fs])))"
    using f by (intro round_trip_struct len c js) (auto split: if_splits)
  then show thesis using that js c(2,4) by blast
qed

lemma conforms_round_trip: "conforms sh d v \<Longrightarrow> \<exists>j. round_trip sh d v j"
proof (induction sh arbitrary: d v)
  case SRaw
  show ?case
  proof (cases v)
    case (RRaw x)
    show ?thesis
    proof (cases x)
      case None
      then have "json_valid ''null''" "compact_text False False ''null'' = ''null''"
        using compact_print [of 0 JNull] by (simp_all add: json_valid_def, code_simp)
      then have "round_trip SRaw d v JNull"
        by (simp add: round_trip_def RRaw None)
      then show ?thesis by blast
    next
      case (Some t)
      then obtain j where j: "t = print_json j" "wf_json d j"
        using SRaw RRaw by (auto elim: canonical_textE)
      have "json_valid t"
        using parse_print [OF wf_json_mono [OF j(2) le0], of "[]"] by (simp add: j(1) json_valid_def trailing_def)
      then have "round_trip SRaw d v j"
        using compact_print [OF j(2)] j by (simp add: round_trip_def RRaw Some)
      then show ?thesis by blast
    qed
  qed (use SRaw in auto)
next
  case SBool
  then obtain b where "v = RBool b" by (cases v) auto
  then have "round_trip SBool d v (JBool b)" by (simp add: round_trip_def)
  then show ?case by blast
next
  case SInt
  then obtain n where n: "v = RInt n" "- (2 ^ 63) \<le> n" "n < 2 ^ 63" by (cases v) auto
  then have "round_trip SInt d v (JNum (signed_decimal n))"
    using p_number_signed [of n] atoi_signed [of n] signed_not_null [of n] by (simp add: round_trip_def int64_of_def)
  then show ?case by blast
next
  case SString
  then obtain t where t: "v = RString t" "utf8_valid t" by (cases v) auto
  then have "round_trip SString d v (JStr t)"
    using p_chars_enc [OF t(2), of "[]"] by (simp add: round_trip_def enc_string_def)
  then show ?case by blast
next
  case (SPtr s)
  show ?case
  proof (cases v)
    case (RPointer x)
    show ?thesis
    proof (cases x)
      case None
      then have "round_trip (SPtr s) d v JNull" by (simp add: round_trip_def RPointer)
      then show ?thesis by blast
    next
      case (Some u)
      then obtain fs where s: "s = SStruct fs" and u: "conforms s d u"
        using SPtr.prems RPointer by (auto split: shape.splits)
      then obtain j where j: "round_trip s d u j" using SPtr.IH by blast
      have "print_json j \<noteq> ''null''"
      proof
        assume n: "print_json j = ''null''"
        obtain fvs where "u = RStruct fvs" using u s by (cases u) auto
        then have "\<exists>t. marshal u = Some (CHR ''{'' # t) \<or> marshal u = None"
          by (auto simp: enc_object_def split: option.splits)
        then show False using j n by (auto simp: round_trip_def)
      qed
      then have "round_trip (SPtr s) d v j"
        using j by (simp add: round_trip_def RPointer Some)
      then show ?thesis by blast
    qed
  qed (use SPtr in auto)
next
  case (SSlice s)
  show ?case
  proof (cases v)
    case (RSlice x)
    show ?thesis
    proof (cases x)
      case None
      then have "round_trip (SSlice s) d v JNull" by (simp add: round_trip_def RSlice)
      then show ?thesis by blast
    next
      case (Some vs)
      then have vs: "d < maxNestingDepth" "\<forall>u\<in>set vs. \<exists>j. round_trip s (Suc d) u j"
        using SSlice RSlice by (auto simp: list_all_iff)
      then obtain js where "\<forall>u\<in>set vs. round_trip s (Suc d) u (js u)" by metis
      then show ?thesis
        using round_trip_slice [OF vs(1), of vs s js] RSlice Some by blast
    qed
  qed (use SSlice in auto)
next
  case (SStruct fs)
  then obtain fvs where v: "v = RStruct fvs" by (cases v) auto
  have "\<exists>j. round_trip s d' u j" if "(f, s) \<in> set fs" "conforms s d' u" for f s d' u
    using SStruct.IH [OF that(1) _ that(2)] by (simp add: snds.simps)
  then show ?case
    using struct_round_trip [of fs d fvs] SStruct.prems unfolding v by blast
qed

text \<open>What \<open>Encode\<close> writes of a conforming value, \<open>Decode\<close> reads back, and only that.\<close>

lemma Decode_Encode:
  assumes "conforms sh 0 v" and "Encode v line = Inr data"
  shows "Decode sh data line = Inr (readBack v)"
proof -
  obtain j where j: "round_trip sh 0 v j"
    using conforms_round_trip [OF assms(1)] by blast
  let ?rest = "if line then [CHR 0x0A] else []"
  have d: "data = print_json j @ ?rest"
    using assms(2) j by (auto simp: Encode_def round_trip_def)
  have "value_text data = Some (print_json j, ?rest)"
    unfolding d using j by (intro value_text_print) (auto simp: round_trip_def num_stop_def is_digit_def)
  moreover have "\<not> trailing ?rest" by (simp add: trailing_def is_ws_def)
  ultimately have "DecodeClosed sh data = Inr (readBack v)"
    using j by (simp add: DecodeClosed_def round_trip_def)
  moreover have "Prove data (readBack v) line = None"
    using j d by (simp add: Prove_def Encode_def round_trip_def)
  ultimately show ?thesis by (simp add: Decode_def bindR_def guardR_def)
qed

lemma Decode_canonical:
  assumes "Decode sh data line = Inr v"
  shows "Encode v line = Inr data"
  using assms by (auto simp: Decode_def Prove_def bindR_def guardR_def split: sum.splits option.splits if_splits)

lemma Encode_conforms: "conforms sh 0 v \<Longrightarrow> \<exists>data. Encode v line = Inr data"
  using conforms_round_trip [of sh 0 v] by (auto simp: Encode_def round_trip_def)

end
