(* ===== verification/Frozen.thy ===== *)
theory Frozen
  imports MarshalLaws
begin

section \<open>Frozen requests\<close>

text \<open>
  \<open>internal/reconciliation/frozen.go\<close>: a request is frozen to bytes that are the canonical encoding
  of an object, and thawed from exactly those bytes. The type a request is decoded into is a shape.
  \<open>ThawVersion_Freeze\<close>: what a build froze under a version, it thaws; \<open>ThawVersion_canonical\<close> and
  \<open>ThawVersion_names\<close>: it thaws nothing but the frozen text of a value, under that version.
\<close>

definition frozenFailure :: "string \<Rightarrow> Failure" where
  "frozenFailure message = NewFailureWithRemediation ''lifecycle.state'' message [] []"

definition Freeze :: "rvalue \<Rightarrow> string \<Rightarrow> Failure + string" where
  "Freeze v subject =
     (case Encode v False of
        Inl e \<Rightarrow> Inl (frozenFailure (''the '' @ subject @ '' request cannot be encoded''))
      | Inr data \<Rightarrow>
          (case proveObject data of
             None \<Rightarrow> Inr data
           | Some e \<Rightarrow>
               if e = ErrMalformed \<or> e = ErrTrailing
               then Inl (frozenFailure (''the '' @ subject @ '' request cannot be decoded''))
               else Inl (frozenFailure (''the '' @ subject @ '' request is not canonically ordered''))))"

definition Thaw :: "shape \<Rightarrow> string \<Rightarrow> string \<Rightarrow> Failure + rvalue" where
  "Thaw sh data subject =
     (case DecodeClosed sh data of
        Inr v \<Rightarrow> Inr v
      | Inl e \<Rightarrow>
          if e = ErrTrailing then Inl (frozenFailure (''the frozen '' @ subject @ '' request contains trailing data''))
          else Inl (frozenFailure (''the frozen '' @ subject @ '' request is malformed'')))"

definition DecodeEvidence :: "shape \<Rightarrow> string \<Rightarrow> nat \<Rightarrow> string \<Rightarrow> Failure + rvalue" where
  "DecodeEvidence sh data maximum subject =
     (if data = [] \<or> length data > maximum
      then Inl (frozenFailure (''the '' @ subject @ '' adapter returned no bounded evidence''))
      else (case DecodeClosed sh data of
        Inr v \<Rightarrow> Inr v
      | Inl e \<Rightarrow>
          if e = ErrTrailing then Inl (frozenFailure (''the '' @ subject @ '' adapter returned trailing evidence''))
          else Inl (frozenFailure (''the '' @ subject @ '' adapter returned malformed evidence''))))"

definition ProveCanonical :: "string \<Rightarrow> rvalue \<Rightarrow> string \<Rightarrow> Failure option" where
  "ProveCanonical data v subject =
     (case Freeze v subject of
        Inl e \<Rightarrow> Some e
      | Inr written \<Rightarrow>
          if written \<noteq> data then Some (frozenFailure (''the frozen '' @ subject @ '' request is not canonical'')) else None)"

text \<open>The members of the one object a text holds, the later of two of one name first.\<close>

definition raw_members :: "string \<Rightarrow> (string \<times> string) list option" where
  "raw_members data =
     (case value_text data of
        None \<Rightarrow> None
      | Some (t, rest) \<Rightarrow>
          if trailing rest then None else if t = ''null'' then Some [] else map_option rev (object_texts t))"

text \<open>The version a request names: whether it can be read, and what it is.\<close>

definition namedVersion :: "(string \<times> string) list \<Rightarrow> bool \<times> string" where
  "namedVersion ms =
     (case map_of ms ''version'' of
        None \<Rightarrow> (False, [])
      | Some t \<Rightarrow> (case unmarshal SString (RString []) t of Some (RString s) \<Rightarrow> (True, s) | _ \<Rightarrow> (False, [])))"

definition ThawVersion :: "shape \<Rightarrow> string \<Rightarrow> string \<Rightarrow> string \<Rightarrow> Failure + rvalue" where
  "ThawVersion sh data subject want =
     (let unsupported = (case raw_members data of
        None \<Rightarrow> None
      | Some ms \<Rightarrow>
          (case namedVersion ms of (readable, version) \<Rightarrow>
             if \<not> readable \<or> version \<noteq> want
             then Some (NewFailureWithRemediation ''lifecycle.state''
               (if ValidSegment version
                then ''the frozen '' @ subject @ '' request has an unsupported version: '' @ version
                else ''the frozen '' @ subject @ '' request has an unsupported version it does not name readably'')
               [] ''destroy it with the build that applied it'')
             else None)) in
      guardR unsupported (bindR (Thaw sh data subject) (\<lambda>v. guardR (ProveCanonical data v subject) (Inr v))))"

subsection \<open>Laws\<close>

lemma Freeze_Inr: "Freeze v subject = Inr data \<longleftrightarrow> Encode v False = Inr data \<and> proveObject data = None"
  by (auto simp: Freeze_def split: sum.splits option.splits if_splits)

lemma ThawVersion_canonical:
  assumes "ThawVersion sh data subject want = Inr v"
  shows "Freeze v subject = Inr data"
  using assms by (auto simp: ThawVersion_def ProveCanonical_def Let_def guardR_def bindR_def
      split: option.splits sum.splits if_splits)

text \<open>A text that thaws names the version that was wanted.\<close>

lemma ThawVersion_names:
  assumes "ThawVersion sh data subject want = Inr v"
  shows "\<exists>ms. raw_members data = Some ms \<and> namedVersion ms = (True, want)"
proof -
  have "proveObject data = None"
    using ThawVersion_canonical [OF assms] by (simp add: Freeze_Inr)
  then obtain ms where ms: "wf_json 0 (JObj ms)" "data = print_json (JObj ms)"
    by (auto simp: proveObject_iff)
  then have members: "\<forall>m\<in>set ms. utf8_valid (fst m) \<and> wf_json 1 (snd m)" by auto
  have "value_text data = Some (data, [])"
    using value_text_print [OF ms(1), of "[]"] ms(2) by simp
  moreover have "data \<noteq> ''null''" by (simp add: ms(2))
  ultimately have "\<exists>ms. raw_members data = Some ms"
    using object_texts_print [OF members] ms(2) by (simp add: raw_members_def trailing_def)
  then obtain rs where "raw_members data = Some rs" by blast
  then show ?thesis
    using assms by (auto simp: ThawVersion_def Let_def guardR_def split: prod.splits if_splits)
qed
lemma ThawVersion_Freeze:
  assumes conf: "conforms sh 0 v" and f: "Freeze v subject = Inr data"
    and ver: "v = RStruct fvs" "(f0, RString want) \<in> set fvs" "jsonName f0 = ''version''" "fieldAction f0 (RString want) = Write"
  shows "ThawVersion sh data subject want = Inr (readBack v)"
proof -
  have e: "Encode v False = Inr data" "proveObject data = None"
    using f by (simp_all add: Freeze_Inr)
  have d: "Decode sh data False = Inr (readBack v)"
    by (rule Decode_Encode [OF conf e(1)])
  then have closed: "DecodeClosed sh data = Inr (readBack v)" and prove: "Encode (readBack v) False = Inr data"
    using Decode_canonical [OF d] by (auto simp: Decode_def bindR_def guardR_def split: sum.splits option.splits)
  obtain fs where sh: "sh = SStruct fs"
    using conf ver(1) by (cases sh) auto
  obtain js where r: "round_trip sh 0 v (JObj (map (\<lambda>i. (jsonName (fst (fs ! i)), js i)) (filter (field_written fvs) [0..<length fs])))"
      (is "round_trip _ _ _ (JObj ?ms)")
    and js: "\<And>i. i < length fs \<Longrightarrow> field_written fvs i \<Longrightarrow> round_trip (snd (fs ! i)) (Suc 0) (snd (fvs ! i)) (js i)"
    and names: "distinct (map (jsonName \<circ> fst) fs)" "map fst fvs = map fst fs"
    using struct_round_trip [OF conf [unfolded sh ver(1)] conforms_round_trip] unfolding sh ver(1) by blast
  obtain i where i: "i < length fs" "fvs ! i = (f0, RString want)"
    using ver(2) names(2) by (metis in_set_conv_nth length_map)
  have f: "fst (fs ! i) = f0"
    using names(2) i by (metis fst_conv length_map nth_map)
  have t: "round_trip (snd (fs ! i)) (Suc 0) (RString want) (js i)"
    using js [OF i(1)] i(2) ver(4) by simp
  then have p: "print_json (js i) = enc_string want" "unmarshal (snd (fs ! i)) (zeroValue (snd (fs ! i))) (enc_string want) = Some (RString want)"
    by (simp_all add: round_trip_def)
  have shape: "snd (fs ! i) = SString"
    using p(2) by (cases "snd (fs ! i)") (auto split: if_splits option.splits list.splits)
  have wf: "\<forall>m\<in>set ?ms. utf8_valid (fst m) \<and> wf_json (Suc 0) (snd m)"
    using r by (simp add: round_trip_def)
  have data: "data = print_json (JObj ?ms)"
    using r e(1) by (simp add: round_trip_def Encode_def)
  have members: "raw_members data = Some (rev (map (map_prod id print_json) ?ms))"
  proof -
    have "value_text data = Some (data, [])"
      using value_text_print [of 0 "JObj ?ms" "[]"] r data by (simp add: round_trip_def)
    moreover have "data \<noteq> ''null''" by (simp add: data)
    ultimately show ?thesis
      using object_texts_print [OF wf] data by (simp add: raw_members_def trailing_def)
  qed
  have "distinct (map fst (map (map_prod id print_json) ?ms))"
  proof -
    have "distinct (map (\<lambda>i. map (jsonName \<circ> fst) fs ! i) (filter (field_written fvs) [0..<length fs]))"
      using names(1) by (auto simp: distinct_map inj_on_def nth_eq_iff_index_eq simp del: nth_map)
    also have "map (\<lambda>i. map (jsonName \<circ> fst) fs ! i) (filter (field_written fvs) [0..<length fs]) = map fst (map (map_prod id print_json) ?ms)"
      by auto
    finally show ?thesis .
  qed
  moreover have "(''version'', enc_string want) \<in> set (map (map_prod id print_json) ?ms)"
    using i ver(3,4) f p(1) by (auto simp: image_iff intro!: bexI [of _ i])
  ultimately have "map_of (rev (map (map_prod id print_json) ?ms)) ''version'' = Some (enc_string want)"
    by (intro map_of_is_SomeI) (simp_all add: rev_map [symmetric])
  then have "namedVersion (rev (map (map_prod id print_json) ?ms)) = (True, want)"
    using p(2) shape by (simp add: namedVersion_def)
  then show ?thesis
    using members closed prove e(2) by (simp add: ThawVersion_def Thaw_def ProveCanonical_def Freeze_Inr [THEN iffD2] guardR_def bindR_def)
qed

end
