(* ===== verification/Codec.thy ===== *)
theory Codec
  imports Records MarshalLaws
begin

section \<open>The encoding of the records\<close>

text \<open>
  \<open>encode\<close>, \<open>decodeUnder\<close>, \<open>recordBuild\<close> and \<open>buildName\<close> of
  \<open>internal/reconciliation/operationstore/records.go\<close>, and the shapes the record types and the
  plan have by the tags of their fields. A record is written as the \<open>rvalue\<close> of its struct and
  read back from one; the embedded definition of a block has its fields in the block's place.

  A reader accepts only the exact bytes of a record (\<open>decodeUnder_sound\<close>), and reads back what was
  written (\<open>decodeUnder_encode\<close>). \<open>strconv.Quote\<close>, which only shapes a message, is an argument.
\<close>

subsection \<open>Fields\<close>

definition field :: "string \<Rightarrow> StructField" where
  "field n = tagged n"

definition omitting :: "string \<Rightarrow> StructField" where
  "omitting n = tagged (n @ '',omitempty'')"

definition valid_name :: "string \<Rightarrow> bool" where
  "valid_name n \<longleftrightarrow> valid_tag n \<and> n \<noteq> ''-'' \<and> CHR '','' \<notin> set n \<and> utf8_valid n"

definition fieldAt :: "rvalue \<Rightarrow> nat \<Rightarrow> rvalue" where
  "fieldAt v i = (if i < length (structFields v) then structFields v ! i else RInvalid)"

definition intOf :: "rvalue \<Rightarrow> int" where
  "intOf v = (case v of RInt n \<Rightarrow> n | _ \<Rightarrow> 0)"

definition strOf :: "rvalue \<Rightarrow> string" where
  "strOf v = (case v of RString s \<Rightarrow> s | _ \<Rightarrow> [])"

definition boolOf :: "rvalue \<Rightarrow> bool" where
  "boolOf v = (case v of RBool b \<Rightarrow> b | _ \<Rightarrow> False)"

definition rawOf :: "rvalue \<Rightarrow> char slice" where
  "rawOf v = (case v of RRaw s \<Rightarrow> s | _ \<Rightarrow> None)"

definition ptrOf :: "(rvalue \<Rightarrow> 'a) \<Rightarrow> rvalue \<Rightarrow> 'a option" where
  "ptrOf f v = (case v of RPointer x \<Rightarrow> map_option f x | _ \<Rightarrow> None)"

definition sliceOf :: "(rvalue \<Rightarrow> 'a) \<Rightarrow> rvalue \<Rightarrow> 'a slice" where
  "sliceOf f v = (case v of RSlice x \<Rightarrow> map_option (map f) x | _ \<Rightarrow> None)"

abbreviation strings :: "string slice \<Rightarrow> rvalue" where
  "strings s \<equiv> RSlice (map_option (map RString) s)"

lemmas value_simps = fieldAt_def intOf_def strOf_def boolOf_def rawOf_def ptrOf_def sliceOf_def structFields_def

subsection \<open>Shapes and values\<close>

definition indexShape :: shape where
  "indexShape = SStruct [(field ''version'', SInt), (field ''current'', SString)]"

definition indexValue :: "Index \<Rightarrow> rvalue" where
  "indexValue i = RStruct [(field ''version'', RInt (IndexVersion i)), (field ''current'', RString (Current i))]"

definition indexOf :: "rvalue \<Rightarrow> Index" where
  "indexOf v = \<lparr>IndexVersion = intOf (fieldAt v 0), Current = strOf (fieldAt v 1)\<rparr>"

definition executableShape :: shape where
  "executableShape = SStruct [(field ''version'', SString), (field ''commit'', SString)]"

definition executableValue :: "Executable \<Rightarrow> rvalue" where
  "executableValue e = RStruct [(field ''version'', RString (ExeVersion e)), (field ''commit'', RString (Commit e))]"

definition executableOf :: "rvalue \<Rightarrow> Executable" where
  "executableOf v = \<lparr>ExeVersion = strOf (fieldAt v 0), Commit = strOf (fieldAt v 1)\<rparr>"

definition buildShape :: shape where
  "buildShape = SStruct
     [(field ''automationDigest'', SString), (field ''contentDigest'', SString),
      (field ''executable'', executableShape), (omitting ''modified'', SBool)]"

definition buildValue :: "Build \<Rightarrow> rvalue" where
  "buildValue b = RStruct
     [(field ''automationDigest'', RString (BuildAutomationDigest b)),
      (field ''contentDigest'', RString (BuildContentDigest b)),
      (field ''executable'', executableValue (BuildExecutable b)), (omitting ''modified'', RBool (Modified b))]"

definition buildOf :: "rvalue \<Rightarrow> Build" where
  "buildOf v =
     \<lparr>BuildAutomationDigest = strOf (fieldAt v 0), BuildContentDigest = strOf (fieldAt v 1),
      BuildExecutable = executableOf (fieldAt v 2), Modified = boolOf (fieldAt v 3)\<rparr>"

definition closureShape :: shape where
  "closureShape = SStruct [(field ''digest'', SString), (field ''python'', SString), (field ''ansible'', SString)]"

definition closureValue :: "Closure \<Rightarrow> rvalue" where
  "closureValue c = RStruct
     [(field ''digest'', RString (ClosureDigest c)), (field ''python'', RString (Python c)),
      (field ''ansible'', RString (Ansible c))]"

definition closureOf :: "rvalue \<Rightarrow> Closure" where
  "closureOf v =
     \<lparr>ClosureDigest = strOf (fieldAt v 0), Python = strOf (fieldAt v 1), Ansible = strOf (fieldAt v 2)\<rparr>"

definition operationShape :: shape where
  "operationShape = SStruct
     [(field ''version'', SInt), (field ''id'', SString), (field ''verb'', SString), (field ''context'', SString),
      (field ''revision'', SString), (field ''inputDigest'', SString), (field ''planDigest'', SString),
      (field ''automationDigest'', SString), (field ''executable'', executableShape),
      (omitting ''closure'', SPtr closureShape), (field ''source'', SString), (omitting ''replaces'', SString),
      (omitting ''predecessor'', SString), (field ''bindings'', SSlice SString), (field ''state'', SString),
      (field ''logFault'', SBool), (field ''created'', SString), (field ''updated'', SString)]"

definition operationValue :: "Operation \<Rightarrow> rvalue" where
  "operationValue op = RStruct
     [(field ''version'', RInt (OpVersion op)), (field ''id'', RString (OpID op)), (field ''verb'', RString (OpVerb op)),
      (field ''context'', RString (OpContext op)), (field ''revision'', RString (Revision op)),
      (field ''inputDigest'', RString (InputDigest op)), (field ''planDigest'', RString (PlanDigest op)),
      (field ''automationDigest'', RString (AutomationDigest op)),
      (field ''executable'', executableValue (OpExecutable op)),
      (omitting ''closure'', RPointer (map_option closureValue (OpClosure op))),
      (field ''source'', RString (OpSource op)), (omitting ''replaces'', RString (Replaces op)),
      (omitting ''predecessor'', RString (Predecessor op)), (field ''bindings'', strings (Bindings op)),
      (field ''state'', RString (OpState op)), (field ''logFault'', RBool (LogFault op)),
      (field ''created'', RString (Created op)), (field ''updated'', RString (OpUpdated op))]"

definition operationOf :: "rvalue \<Rightarrow> Operation" where
  "operationOf v =
     \<lparr>OpVersion = intOf (fieldAt v 0), OpID = strOf (fieldAt v 1), OpVerb = strOf (fieldAt v 2),
      OpContext = strOf (fieldAt v 3), Revision = strOf (fieldAt v 4), InputDigest = strOf (fieldAt v 5),
      PlanDigest = strOf (fieldAt v 6), AutomationDigest = strOf (fieldAt v 7),
      OpExecutable = executableOf (fieldAt v 8), OpClosure = ptrOf closureOf (fieldAt v 9),
      OpSource = strOf (fieldAt v 10), Replaces = strOf (fieldAt v 11), Predecessor = strOf (fieldAt v 12),
      Bindings = sliceOf strOf (fieldAt v 13), OpState = strOf (fieldAt v 14), LogFault = boolOf (fieldAt v 15),
      Created = strOf (fieldAt v 16), OpUpdated = strOf (fieldAt v 17)\<rparr>"

definition blockShape :: shape where
  "blockShape = SStruct
     [(field ''version'', SInt), (field ''block'', SString), (field ''state'', SString), (field ''attempts'', SInt)]"

definition blockValue :: "BlockRecord \<Rightarrow> rvalue" where
  "blockValue r = RStruct
     [(field ''version'', RInt (RecVersion r)), (field ''block'', RString (RecBlock r)),
      (field ''state'', RString (RecState r)), (field ''attempts'', RInt (Attempts r))]"

definition blockOf :: "rvalue \<Rightarrow> BlockRecord" where
  "blockOf v =
     \<lparr>RecVersion = intOf (fieldAt v 0), RecBlock = strOf (fieldAt v 1), RecState = strOf (fieldAt v 2),
      Attempts = intOf (fieldAt v 3)\<rparr>"

definition failureShape :: shape where
  "failureShape = SStruct [(field ''code'', SString), (field ''message'', SString), (omitting ''remediation'', SString)]"

definition failureValue :: "ObservationFailure \<Rightarrow> rvalue" where
  "failureValue f = RStruct
     [(field ''code'', RString (FailureCode f)), (field ''message'', RString (FailureMessage f)),
      (omitting ''remediation'', RString (FailureRemediation f))]"

definition failureOf :: "rvalue \<Rightarrow> ObservationFailure" where
  "failureOf v =
     \<lparr>FailureCode = strOf (fieldAt v 0), FailureMessage = strOf (fieldAt v 1), FailureRemediation = strOf (fieldAt v 2)\<rparr>"

definition warnedShape :: shape where
  "warnedShape = SStruct [(field ''kind'', SString), (field ''name'', SString)]"

definition warnedValue :: "WarningObject \<Rightarrow> rvalue" where
  "warnedValue w = RStruct [(field ''kind'', RString (WarnedKind w)), (field ''name'', RString (WarnedName w))]"

definition warnedOf :: "rvalue \<Rightarrow> WarningObject" where
  "warnedOf v = \<lparr>WarnedKind = strOf (fieldAt v 0), WarnedName = strOf (fieldAt v 1)\<rparr>"

definition warningShape :: shape where
  "warningShape = SStruct
     [(field ''code'', SString), (field ''message'', SString), (omitting ''object'', SPtr warnedShape)]"

definition warningValue :: "Warning \<Rightarrow> rvalue" where
  "warningValue w = RStruct
     [(field ''code'', RString (WarningCode w)), (field ''message'', RString (WarningMessage w)),
      (omitting ''object'', RPointer (map_option warnedValue (WarningOn w)))]"

definition warningOf :: "rvalue \<Rightarrow> Warning" where
  "warningOf v =
     \<lparr>WarningCode = strOf (fieldAt v 0), WarningMessage = strOf (fieldAt v 1), WarningOn = ptrOf warnedOf (fieldAt v 2)\<rparr>"

definition attemptShape :: shape where
  "attemptShape = SStruct
     [(field ''version'', SInt), (field ''block'', SString), (field ''number'', SInt), (field ''resolution'', SInt),
      (omitting ''removal'', SBool), (field ''phase'', SString), (field ''outcome'', SString), (field ''effect'', SString),
      (field ''evidence'', SRaw), (omitting ''preparation'', SRaw), (omitting ''failure'', SPtr failureShape),
      (omitting ''warnings'', SSlice warningShape), (field ''build'', buildShape), (field ''started'', SString),
      (field ''updated'', SString)]"

definition attemptValue :: "Attempt \<Rightarrow> rvalue" where
  "attemptValue a = RStruct
     [(field ''version'', RInt (AttVersion a)), (field ''block'', RString (AttBlock a)), (field ''number'', RInt (Number a)),
      (field ''resolution'', RInt (Resolution a)), (omitting ''removal'', RBool (Removal a)),
      (field ''phase'', RString (Phase a)), (field ''outcome'', RString (AttOutcome a)),
      (field ''effect'', RString (Effect a)), (field ''evidence'', RRaw (AttEvidence a)),
      (omitting ''preparation'', RRaw (Preparation a)),
      (omitting ''failure'', RPointer (map_option failureValue (AttFailure a))),
      (omitting ''warnings'', RSlice (map_option (map warningValue) (Warnings a))),
      (field ''build'', buildValue (AttBuild a)), (field ''started'', RString (Started a)),
      (field ''updated'', RString (AttUpdated a))]"

definition attemptOf :: "rvalue \<Rightarrow> Attempt" where
  "attemptOf v =
     \<lparr>AttVersion = intOf (fieldAt v 0), AttBlock = strOf (fieldAt v 1), Number = intOf (fieldAt v 2),
      Resolution = intOf (fieldAt v 3), Removal = boolOf (fieldAt v 4), Phase = strOf (fieldAt v 5),
      AttOutcome = strOf (fieldAt v 6), Effect = strOf (fieldAt v 7), AttEvidence = rawOf (fieldAt v 8),
      Preparation = rawOf (fieldAt v 9), AttFailure = ptrOf failureOf (fieldAt v 10),
      Warnings = sliceOf warningOf (fieldAt v 11), AttBuild = buildOf (fieldAt v 12),
      Started = strOf (fieldAt v 13), AttUpdated = strOf (fieldAt v 14)\<rparr>"

text \<open>The plan. An empty request stands for the nil message.\<close>

definition groupShape :: shape where
  "groupShape = SStruct [(field ''id'', SString), (field ''description'', SString), (field ''machines'', SSlice SString)]"

definition groupValue :: "Group \<Rightarrow> rvalue" where
  "groupValue g = RStruct
     [(field ''id'', RString (GroupID g)), (field ''description'', RString (GroupDescription g)),
      (field ''machines'', strings (Machines g))]"

definition groupOf :: "rvalue \<Rightarrow> Group" where
  "groupOf v =
     \<lparr>GroupID = strOf (fieldAt v 0), GroupDescription = strOf (fieldAt v 1), Machines = sliceOf strOf (fieldAt v 2)\<rparr>"

definition planBlockShape :: shape where
  "planBlockShape = SStruct
     [(field ''id'', SString), (field ''description'', SString), (field ''stage'', SString),
      (field ''dependencies'', SSlice SString), (omitting ''prerequisites'', SSlice SString),
      (omitting ''exclusive'', SSlice SString), (omitting ''throttle'', SString), (field ''impacts'', SSlice SString),
      (field ''consumes'', SSlice SString), (field ''groups'', SSlice groupShape), (field ''kind'', SString),
      (field ''object'', SString), (field ''implementation'', SString), (field ''contentDigest'', SString),
      (field ''request'', SRaw), (field ''requestDigest'', SString)]"

definition planBlockValue :: "Block \<Rightarrow> rvalue" where
  "planBlockValue b = (let d = Def b in RStruct
     [(field ''id'', RString (ID d)), (field ''description'', RString (Description d)),
      (field ''stage'', RString (BlockStage d)), (field ''dependencies'', strings (Dependencies d)),
      (omitting ''prerequisites'', strings (Prerequisites d)), (omitting ''exclusive'', strings (Exclusive d)),
      (omitting ''throttle'', RString (Throttle d)), (field ''impacts'', strings (Impacts d)),
      (field ''consumes'', strings (Consumes d)),
      (field ''groups'', RSlice (map_option (map groupValue) (Groups d))), (field ''kind'', RString (Kind d)),
      (field ''object'', RString (Object d)), (field ''implementation'', RString (Implementation d)),
      (field ''contentDigest'', RString (ContentDigest d)),
      (field ''request'', RRaw (if Request d = [] then None else Some (Request d))),
      (field ''requestDigest'', RString (RequestDigest b))])"

definition planBlockOf :: "rvalue \<Rightarrow> Block" where
  "planBlockOf v =
     \<lparr>Def = \<lparr>ID = strOf (fieldAt v 0), Description = strOf (fieldAt v 1), BlockStage = strOf (fieldAt v 2), Requires = [],
        Dependencies = sliceOf strOf (fieldAt v 3), Prerequisites = sliceOf strOf (fieldAt v 4), Family = [],
        Exclusive = sliceOf strOf (fieldAt v 5), Throttle = strOf (fieldAt v 6), Impacts = sliceOf strOf (fieldAt v 7),
        Consumes = sliceOf strOf (fieldAt v 8), Groups = sliceOf groupOf (fieldAt v 9), Kind = strOf (fieldAt v 10),
        Object = strOf (fieldAt v 11), Implementation = strOf (fieldAt v 12), ContentDigest = strOf (fieldAt v 13),
        Request = elems (rawOf (fieldAt v 14))\<rparr>,
      RequestDigest = strOf (fieldAt v 15)\<rparr>"

definition planShape :: shape where
  "planShape = SStruct [(field ''verb'', SString), (field ''blocks'', SSlice planBlockShape)]"

definition planValue :: "Plan \<Rightarrow> rvalue" where
  "planValue p = RStruct
     [(field ''verb'', RString (PlanVerb p)), (field ''blocks'', RSlice (map_option (map planBlockValue) (Blocks p)))]"

definition planOfValue :: "rvalue \<Rightarrow> Plan" where
  "planOfValue v = \<lparr>PlanVerb = strOf (fieldAt v 0), Blocks = sliceOf planBlockOf (fieldAt v 1)\<rparr>"

subsection \<open>Encoding and decoding\<close>

definition encode :: "rvalue \<Rightarrow> nat \<Rightarrow> string result" where
  "encode v maximum =
     (case Encode v True of
        Inl e \<Rightarrow> Inl (recordError ''lifecycle record exceeds its encoding limit'')
      | Inr data \<Rightarrow>
          if length data - 1 \<ge> maximum then Inl (recordError ''lifecycle record exceeds its encoding limit'')
          else Inr data)"

text \<open>
  The members of a record read token by token, up to the closing brace or the end of the text:
  the text of the one member named build. A comma precedes every member but the first.
\<close>

function build_member :: "bool \<Rightarrow> string option \<Rightarrow> string \<Rightarrow> string option option" where
  "build_member first found s =
     (case skip_ws s of
        [] \<Rightarrow> Some found
      | c # r \<Rightarrow>
          if c = CHR '']'' \<or> c = CHR ''}'' then Some found
          else (case (if first then c # r else if c = CHR '','' then skip_ws r else []) of
            [] \<Rightarrow> None
          | q # t \<Rightarrow>
              if q \<noteq> quote_char then None
              else (case p_chars t of
                None \<Rightarrow> None
              | Some (k, r1) \<Rightarrow>
                  (case skip_ws r1 of
                     [] \<Rightarrow> None
                   | e # r2 \<Rightarrow>
                       if e \<noteq> CHR '':'' then None
                       else (case value_text r2 of
                         None \<Rightarrow> None
                       | Some (v, r3) \<Rightarrow>
                           if fold_name k = fold_name ''build'' then
                             (if k \<noteq> ''build'' \<or> found \<noteq> None then None else build_member False (Some v) r3)
                           else build_member False found r3)))))"
  by pat_completeness auto
termination
proof (relation "measure (\<lambda>(first, found, s). length s)", goal_cases)
  case (2 first found s c r q t p k r1 e r2 w v r3)
  then have "length r < length s" "length r1 < length t" "length r2 < length r1" "length r3 < length r2"
    by (auto dest: skip_ws_ConsD p_chars_length value_text_length)
  moreover have "length t \<le> length r"
    using 2(3) length_skip_ws [of r] by (auto split: if_splits)
  ultimately show ?case by simp
next
  case (3 first found s c r q t p k r1 e r2 w v r3)
  then have "length r < length s" "length r1 < length t" "length r2 < length r1" "length r3 < length r2"
    by (auto dest: skip_ws_ConsD p_chars_length value_text_length)
  moreover have "length t \<le> length r"
    using 3(3) length_skip_ws [of r] by (auto split: if_splits)
  ultimately show ?case by simp
qed simp

declare build_member.simps [simp del]

definition recordBuild :: "string \<Rightarrow> Build option" where
  "recordBuild data =
     (case skip_ws data of
        c # r \<Rightarrow>
          if c \<noteq> CHR ''{'' then None
          else (case build_member True None r of
            Some (Some raw) \<Rightarrow>
              (case Decode buildShape raw False of
                 Inl e \<Rightarrow> None
               | Inr v \<Rightarrow> if validateBuild (buildOf v) = None then Some (buildOf v) else None)
          | _ \<Rightarrow> None)
      | [] \<Rightarrow> None)"

definition buildName :: "(string \<Rightarrow> string) \<Rightarrow> Build \<Rightarrow> string" where
  "buildName quote b =
     (let e = BuildExecutable b in
      if ExeVersion e = [] \<and> Commit e = [] then ''the build with automation digest '' @ BuildAutomationDigest b
      else ''build '' @ quote (ExeVersion e) @ '' at commit '' @ quote (Commit e))"

definition malformedRecord :: "(string \<Rightarrow> string) \<Rightarrow> string \<Rightarrow> Executable option \<Rightarrow> Failure" where
  "malformedRecord quote data running =
     (case recordBuild data of
        None \<Rightarrow> recordError ''lifecycle record is malformed or unsupported''
      | Some b \<Rightarrow>
          (let named = buildName quote b in
           if running \<noteq> None \<and> running \<noteq> Some \<lparr>ExeVersion = [], Commit = []\<rparr> \<and> running = Some (BuildExecutable b) \<and> \<not> Modified b
           then recordError (''lifecycle record is malformed or unsupported; it names '' @ named @ '', this executable'')
           else NewFailureWithRemediation ''lifecycle.state''
             (''lifecycle record is malformed or unsupported; '' @ named @ '' wrote it'') []
             (''continue or remove this operation with '' @ named @ '', which reads the record'')))"

definition decodeUnder :: "(string \<Rightarrow> string) \<Rightarrow> shape \<Rightarrow> string \<Rightarrow> nat \<Rightarrow> Executable option \<Rightarrow> rvalue result" where
  "decodeUnder quote sh data maximum running =
     (if data = [] \<or> length data > maximum \<or> \<not> utf8_valid data
      then Inl (recordError ''lifecycle record exceeds its bounds or encoding'')
      else (case DecodeClosed sh data of
        Inl ErrTrailing \<Rightarrow> Inl (recordError ''lifecycle record contains trailing data'')
      | Inl _ \<Rightarrow> Inl (malformedRecord quote data running)
      | Inr v \<Rightarrow>
          bindR (encode v maximum) (\<lambda>written.
            if written \<noteq> data then Inl (recordError ''lifecycle record is not canonical'') else Inr v)))"

end
