(* ===== verification/Area.thy ===== *)
theory Area
  imports Codec
begin

section \<open>The area an operation store publishes through\<close>

text \<open>
  \<open>operationstore/contracts.go\<close>: \<open>Area\<close> is the interface to the file system of a context, a record
  of functions on the state of the world. An operation that returns an error may have landed all
  the same: the locale \<open>area\<close> says what the store relies on, clause by clause what
  \<open>operationstore/areacontract\<close> verifies of every implementation, and leaves that open. The clock
  and the context's cancellation are part of the world.

  The implementation of a context is made of Linux system calls; the locale is interpreted in
  \<open>MemoryArea\<close>.

  The second part is the vocabulary of stateful code: an action on a state either fails or returns
  a value, and changes the state in both cases; \<open>runs\<close> states what holds after each.
\<close>

subsection \<open>Paths\<close>

text \<open>\<open>path.Clean\<close>: the segments of a path with \<open>.\<close> and \<open>..\<close> resolved, last first.\<close>

fun clean_segments :: "bool \<Rightarrow> string list \<Rightarrow> string list \<Rightarrow> string list" where
  "clean_segments rooted [] acc = acc"
| "clean_segments rooted (s # ss) acc =
     (if s = [] \<or> s = ''.'' then clean_segments rooted ss acc
      else if s = ''..'' then
        (if acc \<noteq> [] \<and> hd acc \<noteq> ''..'' then clean_segments rooted ss (tl acc)
         else if rooted then clean_segments rooted ss acc
         else clean_segments rooted ss (s # acc))
      else clean_segments rooted ss (s # acc))"

definition path_clean :: "string \<Rightarrow> string" where
  "path_clean p =
     (if p = [] then ''.''
      else (let rooted = (hd p = CHR ''/'');
                body = join ''/'' (rev (clean_segments rooted (split_on (CHR ''/'') p) [])) in
            if rooted then CHR ''/'' # body else if body = [] then ''.'' else body))"

definition path_join :: "string list \<Rightarrow> string" where
  "path_join ps =
     (let given = dropWhile (\<lambda>p. p = []) ps in if given = [] then [] else path_clean (join ''/'' given))"

definition path_base :: "string \<Rightarrow> string" where
  "path_base p =
     (if p = [] then ''.''
      else (let s = trim_right (CHR ''/'') p in
            if s = [] then ''/'' else last (split_on (CHR ''/'') s)))"

definition path_dir :: "string \<Rightarrow> string" where
  "path_dir p = path_clean (concat (map (\<lambda>s. s @ ''/'') (butlast (split_on (CHR ''/'') p))))"

lemma split_on_Nil [simp]: "split_on c s \<noteq> []"
  by (cases s) (auto split: list.splits)

lemma split_on_append: "split_on c (a @ c # b) = split_on c a @ split_on c b"
proof (induction a)
  case (Cons x a)
  then show ?case by (cases "split_on c a") (auto split: list.splits)
qed simp

lemma join_Cons: "ss \<noteq> [] \<Longrightarrow> join sep (s # ss) = s @ sep @ join sep ss"
  by (cases ss) simp_all

lemma join_append: "a \<noteq> [] \<Longrightarrow> b \<noteq> [] \<Longrightarrow> join sep (a @ b) = join sep a @ sep @ join sep b"
proof (induction a)
  case (Cons s a)
  then show ?case by (cases "a = []") (simp_all add: join_Cons)
qed simp

lemma join_split: "join [c] (split_on c s) = s"
proof (induction s)
  case (Cons x s)
  obtain t ts where t: "split_on c s = t # ts" by (cases "split_on c s") auto
  then have "join [c] ((x # t) # ts) = x # join [c] (t # ts)"
    by (cases ts) simp_all
  then show ?case
    using Cons t by (auto simp: join_Cons)
qed simp

lemma has_prefix_iff: "has_prefix s p \<longleftrightarrow> (\<exists>r. s = p @ r)"
  unfolding has_prefix_def by (metis append_eq_conv_conj append_take_drop_id)

lemma split_on_absent: "c \<notin> set s \<Longrightarrow> split_on c s = [s]"
  by (induction s) (auto split: list.splits)

lemma split_on_join: "ss \<noteq> [] \<Longrightarrow> \<forall>s\<in>set ss. c \<notin> set s \<Longrightarrow> split_on c (join [c] ss) = ss"
proof (induction ss)
  case (Cons s ss)
  then show ?case
    by (cases "ss = []") (simp_all add: join_Cons split_on_append split_on_absent)
qed simp

text \<open>A segment names one directory or record: joined segments are distinct paths.\<close>

definition segment :: "string \<Rightarrow> bool" where
  "segment s \<longleftrightarrow> s \<noteq> [] \<and> CHR ''/'' \<notin> set s \<and> s \<noteq> ''.'' \<and> s \<noteq> ''..''"

lemma clean_segments: "\<forall>s\<in>set ss. segment s \<Longrightarrow> clean_segments rooted ss acc = rev ss @ acc"
  by (induction ss arbitrary: acc) (simp_all add: segment_def)

lemma path_join_segments:
  assumes "ss \<noteq> []" and "\<forall>s\<in>set ss. segment s"
  shows "path_join ss = join ''/'' ss"
proof -
  obtain s rest where ss: "ss = s # rest" using assms(1) by (cases ss) auto
  then have s: "s \<noteq> []" "CHR ''/'' \<notin> set s" using assms(2) by (simp_all add: segment_def)
  then obtain x t where x: "s = x # t" "x \<noteq> CHR ''/''" by (cases s) auto
  have "join ''/'' ss = x # t @ (if rest = [] then [] else ''/'' @ join ''/'' rest)"
    by (simp add: ss x join_Cons)
  then have j: "join ''/'' ss \<noteq> []" "hd (join ''/'' ss) \<noteq> CHR ''/''" using x(2) by simp_all
  have "split_on (CHR ''/'') (join ''/'' ss) = ss"
    using assms by (intro split_on_join) (auto simp: segment_def)
  moreover have "dropWhile (\<lambda>p. p = []) ss = ss" by (simp add: ss s)
  ultimately show ?thesis
    using assms j by (simp add: path_join_def path_clean_def clean_segments Let_def)
qed

lemma join_segments_eq:
  assumes "\<forall>s\<in>set ss. segment s" and "\<forall>s\<in>set ts. segment s" and "ss \<noteq> []" and "ts \<noteq> []"
  shows "path_join ss = path_join ts \<longleftrightarrow> ss = ts"
proof
  assume "path_join ss = path_join ts"
  then have "split_on (CHR ''/'') (join ''/'' ss) = split_on (CHR ''/'') (join ''/'' ts)"
    using assms by (simp add: path_join_segments)
  moreover have "split_on (CHR ''/'') (join ''/'' ss) = ss" "split_on (CHR ''/'') (join ''/'' ts) = ts"
    using assms by (auto intro!: split_on_join simp: segment_def)
  ultimately show "ss = ts" by simp
qed simp

subsection \<open>Actions\<close>

datatype storeError =
    AreaError string
  | Refused Failure
  | AtBound Failure
  | IntoReserve Failure

type_synonym ('s, 'a) action = "'s \<Rightarrow> (storeError + 'a) \<times> 's"

definition returnA :: "'a \<Rightarrow> ('s, 'a) action" where
  "returnA a = (\<lambda>s. (Inr a, s))"

definition failA :: "storeError \<Rightarrow> ('s, 'a) action" where
  "failA e = (\<lambda>s. (Inl e, s))"

definition bindA :: "('s, 'a) action \<Rightarrow> ('a \<Rightarrow> ('s, 'b) action) \<Rightarrow> ('s, 'b) action" where
  "bindA f g = (\<lambda>s. case f s of (Inl e, s') \<Rightarrow> (Inl e, s') | (Inr a, s') \<Rightarrow> g a s')"

definition thenA :: "('s, 'a) action \<Rightarrow> ('s, 'b) action \<Rightarrow> ('s, 'b) action" where
  "thenA f g = bindA f (\<lambda>_. g)"

definition getA :: "('s \<Rightarrow> 'a) \<Rightarrow> ('s, 'a) action" where
  "getA f = (\<lambda>s. (Inr (f s), s))"

definition modifyA :: "('s \<Rightarrow> 's) \<Rightarrow> ('s, unit) action" where
  "modifyA f = (\<lambda>s. (Inr (), f s))"

definition refuse :: "Failure option \<Rightarrow> ('s, unit) action" where
  "refuse e = (case e of None \<Rightarrow> returnA () | Some f \<Rightarrow> failA (Refused f))"

definition liftR :: "Failure + 'a \<Rightarrow> ('s, 'a) action" where
  "liftR r = (case r of Inl f \<Rightarrow> failA (Refused f) | Inr a \<Rightarrow> returnA a)"

definition unlessA :: "bool \<Rightarrow> storeError \<Rightarrow> ('s, unit) action" where
  "unlessA ok e = (if ok then returnA () else failA e)"

fun foldA :: "('a \<Rightarrow> 'b \<Rightarrow> ('s, 'b) action) \<Rightarrow> 'a list \<Rightarrow> 'b \<Rightarrow> ('s, 'b) action" where
  "foldA f [] acc = returnA acc"
| "foldA f (x # xs) acc = bindA (f x acc) (foldA f xs)"

text \<open>What holds after an action that returns, and after one that fails.\<close>

definition runs :: "('s \<Rightarrow> bool) \<Rightarrow> ('s, 'a) action \<Rightarrow> ('a \<Rightarrow> 's \<Rightarrow> bool) \<Rightarrow> (storeError \<Rightarrow> 's \<Rightarrow> bool) \<Rightarrow> bool" where
  "runs P f Q E \<longleftrightarrow> (\<forall>s. P s \<longrightarrow> (case f s of (Inr a, s') \<Rightarrow> Q a s' | (Inl e, s') \<Rightarrow> E e s'))"

named_theorems action_rules \<open>what holds after the combinators of actions\<close>

lemma runsI: "(\<And>s. P s \<Longrightarrow> case f s of (Inr a, s') \<Rightarrow> Q a s' | (Inl e, s') \<Rightarrow> E e s') \<Longrightarrow> runs P f Q E"
  by (simp add: runs_def)

lemma runs_Inr: "runs P f Q E \<Longrightarrow> P s \<Longrightarrow> f s = (Inr a, s') \<Longrightarrow> Q a s'"
  by (auto simp: runs_def dest: spec [of _ s])

lemma runs_Inl: "runs P f Q E \<Longrightarrow> P s \<Longrightarrow> f s = (Inl e, s') \<Longrightarrow> E e s'"
  by (auto simp: runs_def dest: spec [of _ s])

lemma runs_weaken:
  assumes "runs P' f Q' E'" and "\<And>s. P s \<Longrightarrow> P' s" and "\<And>a s. Q' a s \<Longrightarrow> Q a s" and "\<And>e s. E' e s \<Longrightarrow> E e s"
  shows "runs P f Q E"
  using assms by (fastforce simp: runs_def split: prod.splits sum.splits)

lemma runs_return [action_rules]: "(\<And>s. P s \<Longrightarrow> Q a s) \<Longrightarrow> runs P (returnA a) Q E"
  by (simp add: runs_def returnA_def)

lemma runs_fail [action_rules]: "(\<And>s. P s \<Longrightarrow> E e s) \<Longrightarrow> runs P (failA e) Q E"
  by (simp add: runs_def failA_def)

lemma runs_bind:
  assumes "runs P f M E" and "\<And>a. runs (M a) (g a) Q E"
  shows "runs P (bindA f g) Q E"
proof (rule runsI)
  fix s
  assume s: "P s"
  show "case bindA f g s of (Inr a, s') \<Rightarrow> Q a s' | (Inl e, s') \<Rightarrow> E e s'"
  proof (cases "f s")
    case (Pair r t)
    show ?thesis
    proof (cases r)
      case (Inl e)
      then show ?thesis using runs_Inl [OF assms(1) s] Pair by (simp add: bindA_def)
    next
      case (Inr a)
      then have "M a t" using runs_Inr [OF assms(1) s] Pair by simp
      then show ?thesis using assms(2) [of a] Pair Inr by (simp add: bindA_def runs_def)
    qed
  qed
qed

lemma runs_then:
  assumes "runs P f M E" and "\<And>a. runs (M a) g Q E"
  shows "runs P (thenA f g) Q E"
  unfolding thenA_def using assms by (rule runs_bind)

lemma runs_get [action_rules]: "(\<And>s. P s \<Longrightarrow> Q (f s) s) \<Longrightarrow> runs P (getA f) Q E"
  by (simp add: runs_def getA_def)

lemma runs_modify [action_rules]: "(\<And>s. P s \<Longrightarrow> Q () (f s)) \<Longrightarrow> runs P (modifyA f) Q E"
  by (simp add: runs_def modifyA_def)

lemma runs_refuse [action_rules]:
  "(\<And>s. P s \<Longrightarrow> e = None \<Longrightarrow> Q () s) \<Longrightarrow> (\<And>s f. P s \<Longrightarrow> E (Refused f) s) \<Longrightarrow> runs P (refuse e) Q E"
  by (cases e) (auto simp: refuse_def intro: action_rules)

lemma runs_lift [action_rules]:
  "(\<And>s a. P s \<Longrightarrow> r = Inr a \<Longrightarrow> Q a s) \<Longrightarrow> (\<And>s f. P s \<Longrightarrow> E (Refused f) s) \<Longrightarrow> runs P (liftR r) Q E"
  by (cases r) (auto simp: liftR_def intro: action_rules)

lemma runs_unless [action_rules]:
  "(\<And>s. P s \<Longrightarrow> ok \<Longrightarrow> Q () s) \<Longrightarrow> (\<And>s. P s \<Longrightarrow> E e s) \<Longrightarrow> runs P (unlessA ok e) Q E"
  by (auto simp: unlessA_def intro: action_rules)

lemma runs_if: "(c \<Longrightarrow> runs P f Q E) \<Longrightarrow> (\<not> c \<Longrightarrow> runs P g Q E) \<Longrightarrow> runs P (if c then f else g) Q E"
  by simp

lemma runs_fold:
  assumes "\<And>x acc. x \<in> set xs \<Longrightarrow> runs (I acc) (f x acc) I E"
  shows "runs (I acc) (foldA f xs acc) I E"
  using assms
proof (induction xs arbitrary: acc)
  case (Cons x xs)
  show ?case
    unfolding foldA.simps
  proof (rule runs_bind)
    show "runs (I acc) (f x acc) I E" by (rule Cons.prems) simp
    show "runs (I a) (foldA f xs a) I E" for a using Cons by simp
  qed
qed (simp add: runs_return)

subsection \<open>The interface\<close>

record Entry =
  EntryName :: string
  Directory :: bool
  EntrySize :: int

text \<open>An expectation is nil where the destination must be absent.\<close>

record 'w Area =
  areaRead :: "string \<Rightarrow> nat \<Rightarrow> ('w, string option) action"
  areaEntries :: "string \<Rightarrow> ('w, Entry list) action"
  areaEnsureDirectory :: "string \<Rightarrow> ('w, unit) action"
  areaWriteExclusive :: "string \<Rightarrow> string \<Rightarrow> ('w, unit) action"
  areaReplace :: "string \<Rightarrow> string \<Rightarrow> string option \<Rightarrow> ('w, unit) action"
  areaAppend :: "string \<Rightarrow> string \<Rightarrow> ('w, unit) action"
  areaRemoveDirectory :: "string \<Rightarrow> ('w, unit) action"
  areaRemoveRecord :: "string \<Rightarrow> string \<Rightarrow> ('w, unit) action"
  areaSync :: "string \<Rightarrow> ('w, unit) action"
  areaLocation :: string
  areaReference :: string

text \<open>
  What the store relies on. \<open>recs\<close> gives the bytes at a path, \<open>invar\<close> the worlds an area can be in.
  A failed write may have landed; a failed append may have landed in part.
\<close>

locale area =
  fixes A :: "'w Area" and recs :: "'w \<Rightarrow> string \<rightharpoonup> string" and invar :: "'w \<Rightarrow> bool"
  assumes read: "invar w \<Longrightarrow> areaRead A p maximum w = (rr, w') \<Longrightarrow>
      invar w' \<and> recs w' = recs w \<and> (\<forall>x. rr = Inr x \<longrightarrow> x = recs w p)"
    and entries: "invar w \<Longrightarrow> areaEntries A p w = (re, w') \<Longrightarrow> invar w' \<and> recs w' = recs w"
    and entries_list: "invar w \<Longrightarrow> areaEntries A p w = (Inr es, w') \<Longrightarrow> p \<noteq> [] \<Longrightarrow> n \<noteq> [] \<Longrightarrow> CHR ''/'' \<notin> set n \<Longrightarrow>
      recs w (p @ ''/'' @ n) \<noteq> None \<longleftrightarrow> (\<exists>e\<in>set es. EntryName e = n \<and> \<not> Directory e)"
    and ensure: "invar w \<Longrightarrow> areaEnsureDirectory A p w = (ru, w') \<Longrightarrow> invar w' \<and> recs w' = recs w"
    and write_exclusive: "invar w \<Longrightarrow> areaWriteExclusive A p d w = (ru, w') \<Longrightarrow>
      invar w' \<and> (recs w p = None \<and> recs w' = (recs w)(p \<mapsto> d) \<or> (\<exists>e. ru = Inl e) \<and> recs w' = recs w)"
    and replace: "invar w \<Longrightarrow> areaReplace A p d x w = (ru, w') \<Longrightarrow>
      invar w' \<and> (recs w p = x \<and> recs w' = (recs w)(p \<mapsto> d) \<or> (\<exists>e. ru = Inl e) \<and> recs w' = recs w)"
    and append: "invar w \<Longrightarrow> areaAppend A p d w = (ru, w') \<Longrightarrow>
      invar w' \<and> ((\<exists>k. recs w' = (recs w)(p \<mapsto> (case recs w p of None \<Rightarrow> [] | Some old \<Rightarrow> old) @ take k d) \<and> (ru = Inr () \<longrightarrow> k = length d))
        \<or> (\<exists>e. ru = Inl e) \<and> recs w' = recs w)"
    and remove_directory: "invar w \<Longrightarrow> areaRemoveDirectory A p w = (ru, w') \<Longrightarrow> invar w' \<and> recs w' = recs w"
    and remove_record: "invar w \<Longrightarrow> areaRemoveRecord A p d w = (ru, w') \<Longrightarrow>
      invar w' \<and> ((recs w p = None \<or> recs w p = Some d) \<and> recs w' = (recs w)(p := None) \<or> (\<exists>e. ru = Inl e) \<and> recs w' = recs w)"
    and sync: "invar w \<Longrightarrow> areaSync A p w = (ru, w') \<Longrightarrow> invar w' \<and> recs w' = recs w"

end
