(* ===== verification/Store.thy ===== *)
theory Store
  imports Area Lineage
begin

section \<open>The operation store\<close>

text \<open>
  \<open>internal/reconciliation/operationstore/store.go\<close>. A store reads and publishes the records of a
  context's operations through an area. What it remembers of the bytes it last saw at a path guards
  the replacement of them. The fields that never change are \<open>StoreConfig\<close>, the others \<open>Store\<close>, in
  which \<open>world\<close> is the state of the area and the clock. The blocks of an operation publish their
  records at the same time under mutexes; the model takes their calls one after the other.

  The clock returns the text of the current second in UTC. \<open>held\<close> descends into directories, as
  deep as an area may have entries (\<open>MaxEntries\<close>); \<open>StoreLaws.held_enough\<close> shows that more fuel
  never changes its answer.
\<close>

record reservation =
  reservedEntries :: int
  reservedBytes :: int

record 'w StoreConfig =
  storeArea :: "'w Area"
  clock :: "('w \<Rightarrow> string \<times> 'w) option"
  runningBuild :: "Executable option"
  quoting :: "string \<Rightarrow> string"

record 'w Store =
  world :: 'w
  expected :: "string \<rightharpoonup> string option"
  measured :: bool
  room :: int
  inflight :: "(string \<times> int) list"
  reserves :: "string \<rightharpoonup> reservation"

definition NewStore :: "'w \<Rightarrow> 'w Store" where
  "NewStore w =
     \<lparr>world = w, expected = Map.empty, measured = False, room = 0, inflight = [], reserves = Map.empty\<rparr>"

definition indexPath :: string where "indexPath = ''index.json''"

definition onArea :: "('w, 'a) action \<Rightarrow> ('w Store, 'a) action" where
  "onArea f = (\<lambda>s. case f (world s) of (r, w) \<Rightarrow> (r, s\<lparr>world := w\<rparr>))"

definition remember :: "string \<Rightarrow> string option \<Rightarrow> ('w Store, unit) action" where
  "remember target data = modifyA (\<lambda>s. s\<lparr>expected := (expected s)(target \<mapsto> data)\<rparr>)"

text \<open>What was last seen at a path, \<open>None\<close> where nothing was read.\<close>

definition expectation :: "string \<Rightarrow> ('w Store, string option option) action" where
  "expectation target = getA (\<lambda>s. expected s target)"

definition refused :: "string \<Rightarrow> ('w Store, 'a) action" where
  "refused message = failA (Refused (recordError message))"

definition now :: "'w StoreConfig \<Rightarrow> ('w Store, string) action" where
  "now cfg =
     (case clock cfg of
        None \<Rightarrow> refused ''lifecycle record timestamps require an injected clock''
      | Some c \<Rightarrow>
          bindA (onArea (\<lambda>w. case c w of (t, w') \<Rightarrow> (Inr t, w'))) (\<lambda>t.
          thenA (refuse (validateTimestamps [t])) (returnA t)))"

definition decoded :: "'w StoreConfig \<Rightarrow> shape \<Rightarrow> string \<Rightarrow> nat \<Rightarrow> ('w Store, rvalue) action" where
  "decoded cfg sh data maximum = liftR (decodeUnder (quoting cfg) sh data maximum (runningBuild cfg))"

definition readIndex :: "'w StoreConfig \<Rightarrow> ('w Store, Index) action" where
  "readIndex cfg =
     bindA (onArea (areaRead (storeArea cfg) indexPath MaxIndexBytes)) (\<lambda>found.
       case found of
         None \<Rightarrow> thenA (remember indexPath None) (returnA \<lparr>IndexVersion = 1, Current = []\<rparr>)
       | Some data \<Rightarrow>
           bindA (decoded cfg indexShape data MaxIndexBytes) (\<lambda>v.
           thenA (refuse (validateIndex (indexOf v)))
           (thenA (remember indexPath (Some data)) (returnA (indexOf v)))))"

subsection \<open>Admission\<close>

definition retainedMaximum :: string where
  "retainedMaximum = ''the context has retained the maximum number of lifecycle operations''"

definition AtTheBound :: "storeError \<Rightarrow> bool" where
  "AtTheBound e = (case e of AtBound f \<Rightarrow> True | _ \<Rightarrow> False)"

definition admitOperations :: "nat \<Rightarrow> Plan \<Rightarrow> storeError option" where
  "admitOperations retained plan =
     (let needed = AdmissionOperations plan in
      if retained + needed \<le> MaxOperations then None
      else (let holds = retainedMaximum @ '': it retains '' @ decimal retained @ '' of its '' @ decimal MaxOperations in
        Some (AtBound (recordError
          (if PlanVerb plan = Destroy then holds @ '', and this removal needs room for its own''
           else holds @ '', and this apply needs room for '' @ decimal needed
             @ '': its own and that of the removal that takes it back'')))))"

definition stopWith :: "storeError option \<Rightarrow> ('w Store, unit) action" where
  "stopWith e = (case e of None \<Rightarrow> returnA () | Some x \<Rightarrow> failA x)"

fun heldLoop ::
  "(string \<Rightarrow> ('w Store, nat \<times> int) action) \<Rightarrow> string \<Rightarrow> string \<Rightarrow> Entry list \<Rightarrow> nat \<Rightarrow> int \<Rightarrow> ('w Store, nat \<times> int) action" where
  "heldLoop nested target skip [] n z = returnA (n, z)"
| "heldLoop nested target skip (e # es) n z =
     (let name = path_join [target, EntryName e] in
      if name = skip then heldLoop nested target skip es n z
      else if Directory e then
        bindA (nested name) (\<lambda>(k, b).
          if n + 1 + k > MaxEntries then returnA (n + 1 + k, z + b)
          else heldLoop nested target skip es (n + 1 + k) (z + b))
      else if n + 1 > MaxEntries then returnA (n + 1, z + EntrySize e)
      else heldLoop nested target skip es (n + 1) (z + EntrySize e))"

fun heldUnder :: "nat \<Rightarrow> 'w StoreConfig \<Rightarrow> string \<Rightarrow> string \<Rightarrow> ('w Store, nat \<times> int) action" where
  "heldUnder 0 cfg skip target = failA (AreaError ''the area is nested deeper than it may have entries'')"
| "heldUnder (Suc n) cfg skip target =
     bindA (onArea (areaEntries (storeArea cfg) target)) (\<lambda>es. heldLoop (heldUnder n cfg skip) target skip es 0 0)"

definition held :: "'w StoreConfig \<Rightarrow> string \<Rightarrow> string \<Rightarrow> ('w Store, nat \<times> int) action" where
  "held cfg target skip = heldUnder (MaxEntries + 1) cfg skip target"

definition Claimed :: "'w StoreConfig \<Rightarrow> ('w Store, string list) action" where
  "Claimed cfg =
     bindA (onArea (areaEntries (storeArea cfg) [])) (\<lambda>es. returnA (map EntryName (filter Directory es)))"

definition operationPath :: "string \<Rightarrow> string" where
  "operationPath i = path_join [i, ''operation.json'']"

definition planPath :: "string \<Rightarrow> string" where
  "planPath i = path_join [i, ''plan.json'']"

text \<open>The record and the bytes it was read from; nothing is remembered.\<close>

definition readOperation :: "'w StoreConfig \<Rightarrow> string \<Rightarrow> ('w Store, Operation \<times> string) action" where
  "readOperation cfg i =
     (if \<not> ValidOperationID i then refused ''lifecycle operation identity is invalid''
      else bindA (onArea (areaRead (storeArea cfg) (operationPath i) MaxOperationBytes)) (\<lambda>found.
        case found of
          None \<Rightarrow> refused ''the named lifecycle operation has no durable record''
        | Some data \<Rightarrow>
            bindA (decoded cfg operationShape data MaxOperationBytes) (\<lambda>v.
            thenA (refuse (validateOperation (operationOf v)))
            (if OpID (operationOf v) \<noteq> i then refused ''lifecycle operation record contradicts its location''
             else returnA (operationOf v, data)))))"

definition ReadOperation :: "'w StoreConfig \<Rightarrow> string \<Rightarrow> ('w Store, Operation) action" where
  "ReadOperation cfg i =
     bindA (readOperation cfg i) (\<lambda>(op, data). thenA (remember (operationPath i) (Some data)) (returnA op))"

definition checkPredecessor :: "Operation \<Rightarrow> Plan \<Rightarrow> Failure option" where
  "checkPredecessor op plan =
     (if Predecessor op \<noteq> [] then None
      else if list_ex (\<lambda>b. elems (Prerequisites (Def b)) \<noteq> []) (blocks plan)
      then Some (recordError ''the frozen plan holds prerequisites beside an operation that names no predecessor'')
      else None)"

definition definitions :: "Plan \<Rightarrow> BlockDefinition list" where
  "definitions plan = map Def (blocks plan)"

definition ReadPlan :: "'w StoreConfig \<Rightarrow> string \<Rightarrow> ('w Store, Plan) action" where
  "ReadPlan cfg i =
     (if \<not> ValidOperationID i then refused ''lifecycle operation identity is invalid''
      else bindA (onArea (areaRead (storeArea cfg) (planPath i) MaxPlanBytes)) (\<lambda>found.
        case found of
          None \<Rightarrow> refused ''the named lifecycle operation has no frozen plan''
        | Some data \<Rightarrow>
            bindA (decoded cfg planShape data MaxPlanBytes) (\<lambda>v.
            let plan = planOfValue v in
            bindA (liftR (NewPlan (PlanVerb plan) (definitions plan))) (\<lambda>rebuilt.
            bindA (liftR (Digest plan)) (\<lambda>stored.
            if Digest rebuilt \<noteq> Inr stored
            then failA (Refused (NewFailureWithRemediation ''lifecycle.state''
              ''the frozen plan is not a plan this executable could have produced'' []
              ''destroy this context with the build that registered the operation, which its operation.json records''))
            else bindA (readOperation cfg i) (\<lambda>(op, _).
              if PlanDigest op \<noteq> stored \<or> OpVerb op \<noteq> PlanVerb plan
              then refused ''the frozen plan is not the plan its operation recorded''
              else thenA (refuse (checkPredecessor op plan)) (returnA plan)))))))"

text \<open>
  The applies an operation adds to, newest first. \<open>left\<close> is how many operations the context may
  still have retained beside those seen.
\<close>

fun predecessors :: "nat \<Rightarrow> 'w StoreConfig \<Rightarrow> string list \<Rightarrow> string \<Rightarrow> ('w Store, Plan list) action" where
  "predecessors left cfg seen i =
     (if i = [] then returnA []
      else if i \<in> set seen then refused
        ''the applies this operation adds to name one another in a cycle or exceed the operations a context retains''
      else (case left of
        0 \<Rightarrow> refused
          ''the applies this operation adds to name one another in a cycle or exceed the operations a context retains''
      | Suc k \<Rightarrow>
          bindA (readOperation cfg i) (\<lambda>(op, _).
          bindA (ReadPlan cfg i) (\<lambda>earlier.
          bindA (predecessors k cfg (i # seen) (Predecessor op)) (\<lambda>ps. returnA (earlier # ps))))))"

declare predecessors.simps [simp del]

definition lineageRemoval :: "'w StoreConfig \<Rightarrow> string \<Rightarrow> string \<Rightarrow> Plan \<Rightarrow> ('w Store, Plan) action" where
  "lineageRemoval cfg own predecessor plan =
     (if predecessor = [] then liftR (Inverse plan)
      else bindA (predecessors (MaxOperations - 1) cfg [own] predecessor) (\<lambda>ps.
        bindA (liftR (Lineage (rev (plan # ps)))) (\<lambda>lineage. liftR (Inverse lineage))))"

definition admitArea :: "'w StoreConfig \<Rightarrow> string \<Rightarrow> Plan \<Rightarrow> string \<Rightarrow> nat \<Rightarrow> ('w Store, unit) action" where
  "admitArea cfg i plan predecessor registration =
     bindA (held cfg [] i) (\<lambda>(n, size).
     bindA (if predecessor = [] then returnA (int (AdmissionEntries plan))
            else bindA (lineageRemoval cfg i predecessor plan) (\<lambda>removal.
              returnA (int (AdmissionEntries plan) + int (FirstPassEntries removal) - int (FirstPassEntries plan)))) (\<lambda>entries.
     let needed = AdmissionBytes plan registration in
     stopWith
       (if int n + entries > int MaxEntries then
          (let holds = retainedMaximum @ '': its operation area holds '' @ decimal n @ '' of its '' @ decimal MaxEntries @ '' entries'' in
           Some (AtBound (recordError
             (if PlanVerb plan = Destroy
              then holds @ '', and this removal needs '' @ signed_decimal entries
                @ '' more for its first attempts and the writes that complete them''
              else holds @ '', and this apply needs '' @ signed_decimal entries @ '' more: ''
                @ signed_decimal (entries - int ReservedEntries)
                @ '' for its first attempts and those of the removal that takes it back, and the ''
                @ decimal ReservedEntries @ '' it keeps for later attempts''))))
        else if size + needed \<le> MaxBytes then None
        else
          (let holds = retainedMaximum @ '': its operation area holds '' @ signed_decimal size @ '' of its ''
             @ signed_decimal MaxBytes @ '' bytes'' in
           Some (AtBound (recordError
             (if PlanVerb plan = Destroy
              then holds @ '', and this removal needs '' @ signed_decimal needed @ '' more for the records its registration writes''
              else holds @ '', and this apply needs the '' @ signed_decimal needed
                @ '' it keeps for its records and logs and those of the removal that takes it back'')))))))"

subsection \<open>Registration\<close>

definition ensureOperation :: "'w StoreConfig \<Rightarrow> string \<Rightarrow> ('w Store, unit) action" where
  "ensureOperation cfg i =
     foldA (\<lambda>directory _. onArea (areaEnsureDirectory (storeArea cfg) directory))
       [i, path_join [i, ''blocks''], path_join [i, ''logs'']] ()"

text \<open>The writes of a registration: the plan and the operation before the index names them.\<close>

definition publishRegistration :: "'w StoreConfig \<Rightarrow> string \<Rightarrow> string \<Rightarrow> string \<Rightarrow> string \<Rightarrow> ('w Store, unit) action" where
  "publishRegistration cfg i encodedPlan encoded index =
     thenA (ensureOperation cfg i)
     (thenA (onArea (areaWriteExclusive (storeArea cfg) (planPath i) encodedPlan))
     (thenA (onArea (areaWriteExclusive (storeArea cfg) (operationPath i) encoded))
     (thenA (remember (operationPath i) (Some encoded))
     (bindA (expectation indexPath) (\<lambda>current.
     thenA (onArea (areaReplace (storeArea cfg) indexPath index (case current of Some x \<Rightarrow> x | None \<Rightarrow> None)))
     (remember indexPath (Some index)))))))"

definition Register :: "'w StoreConfig \<Rightarrow> Operation \<Rightarrow> Plan \<Rightarrow> ('w Store, unit) action" where
  "Register cfg op plan =
     thenA (refuse (validateRegistration op))
     (bindA (liftR (Digest plan)) (\<lambda>digest.
     if digest \<noteq> PlanDigest op then refused ''lifecycle operation does not carry its own plan digest''
     else if PlanVerb plan \<noteq> OpVerb op then refused ''lifecycle plan and operation disagree about the verb''
     else thenA (refuse (checkPredecessor op plan))
     (bindA (Claimed cfg) (\<lambda>claimed.
     thenA (stopWith (admitOperations (length (filter (\<lambda>d. d \<noteq> OpID op) claimed)) plan))
     (case encode (planValue plan) MaxPlanBytes of
        Inl _ \<Rightarrow> refused ''lifecycle plan exceeds its encoded plan limit''
      | Inr encodedPlan \<Rightarrow>
     (bindA (liftR (encode (operationValue op) MaxOperationBytes)) (\<lambda>encoded.
     bindA (readIndex cfg) (\<lambda>retained.
     bindA (liftR (encode (indexValue (retained\<lparr>Current := OpID op\<rparr>)) MaxIndexBytes)) (\<lambda>index.
     thenA (admitArea cfg (OpID op) plan (Predecessor op) (length encodedPlan + length encoded + length index))
     (publishRegistration cfg (OpID op) encodedPlan encoded index))))))))))"

definition ClaimAdding :: "'w StoreConfig \<Rightarrow> string \<Rightarrow> Plan \<Rightarrow> string \<Rightarrow> ('w Store, unit) action" where
  "ClaimAdding cfg i plan predecessor =
     (if \<not> ValidOperationID i then refused ''lifecycle operation identity is invalid''
      else bindA (Claimed cfg) (\<lambda>claimed.
        thenA (stopWith (admitOperations (length claimed) plan))
        (if i \<in> set claimed then refused ''the lifecycle operation identity already has a directory''
         else thenA (admitArea cfg i plan predecessor 0) (ensureOperation cfg i))))"

definition Claim :: "'w StoreConfig \<Rightarrow> string \<Rightarrow> Plan \<Rightarrow> ('w Store, unit) action" where
  "Claim cfg i plan = ClaimAdding cfg i plan []"

definition UpdateOperation :: "'w StoreConfig \<Rightarrow> Operation \<Rightarrow> ('w Store, unit) action" where
  "UpdateOperation cfg op =
     thenA (refuse (validateOperation op))
     (bindA (now cfg) (\<lambda>updated.
     bindA (liftR (encode (operationValue (op\<lparr>OpUpdated := updated\<rparr>)) MaxOperationBytes)) (\<lambda>encoded.
     bindA (expectation (operationPath (OpID op))) (\<lambda>seen.
     case seen of
       Some (Some data) \<Rightarrow>
         thenA (onArea (areaReplace (storeArea cfg) (operationPath (OpID op)) encoded (Some data)))
         (remember (operationPath (OpID op)) (Some encoded))
     | _ \<Rightarrow> refused ''lifecycle operation replacement lacks its exact read expectation''))))"

end
