(* ===== verification/AttemptStore.thy ===== *)
theory AttemptStore
  imports Store
begin

section \<open>Blocks, attempts and resolutions in the operation store\<close>

text \<open>
  The rest of \<open>internal/reconciliation/operationstore/store.go\<close>: the records of a block's state,
  attempts and resolutions, the directories a claim left behind, and the room the area keeps for a
  removal. The function \<open>AdmitAttempt\<close> returns in the source is \<open>releaseAttempt\<close> of its block here.
\<close>

subsection \<open>Block records\<close>

definition blockDirectory :: "string \<Rightarrow> string \<Rightarrow> string" where
  "blockDirectory i block = path_join [i, ''blocks'', block]"

definition blockPath :: "string \<Rightarrow> string \<Rightarrow> string" where
  "blockPath i block = path_join [i, ''blocks'', block, ''state.json'']"

text \<open>The record, and whether it exists: an absent one reads as pending.\<close>

definition readBlockRecord :: "'w StoreConfig \<Rightarrow> string \<Rightarrow> string \<Rightarrow> ('w Store, BlockRecord \<times> bool) action" where
  "readBlockRecord cfg i block =
     bindA (onArea (areaRead (storeArea cfg) (blockPath i block) MaxAttemptBytes)) (\<lambda>found.
       case found of
         None \<Rightarrow> thenA (remember (blockPath i block) None)
           (returnA (\<lparr>RecVersion = 1, RecBlock = block, RecState = BlockPending, Attempts = 0\<rparr>, False))
       | Some data \<Rightarrow>
           bindA (decoded cfg blockShape data MaxAttemptBytes) (\<lambda>v.
           thenA (refuse (validateBlock (blockOf v)))
           (if RecBlock (blockOf v) \<noteq> block then refused ''lifecycle block record contradicts its location''
            else thenA (remember (blockPath i block) (Some data)) (returnA (blockOf v, True)))))"

definition readBlock :: "'w StoreConfig \<Rightarrow> string \<Rightarrow> string \<Rightarrow> ('w Store, BlockRecord) action" where
  "readBlock cfg i block = bindA (readBlockRecord cfg i block) (\<lambda>(r, _). returnA r)"

text \<open>The states of a plan's blocks, in frozen order.\<close>

definition readBlockStates :: "'w StoreConfig \<Rightarrow> string \<Rightarrow> Plan \<Rightarrow> ('w Store, (string \<times> BlockState) list) action" where
  "readBlockStates cfg i plan =
     foldA (\<lambda>b states. bindA (readBlock cfg i (blockID b)) (\<lambda>r. returnA (states @ [(blockID b, RecState r)]))) (blocks plan) []"

definition publishBlock :: "'w StoreConfig \<Rightarrow> string \<Rightarrow> BlockRecord \<Rightarrow> ('w Store, unit) action" where
  "publishBlock cfg i r =
     thenA (refuse (validateBlock r))
     (bindA (liftR (encode (blockValue r) MaxAttemptBytes)) (\<lambda>encoded.
     thenA (onArea (areaEnsureDirectory (storeArea cfg) (blockDirectory i (RecBlock r))))
     (bindA (expectation (blockPath i (RecBlock r))) (\<lambda>current.
     thenA (onArea (areaReplace (storeArea cfg) (blockPath i (RecBlock r)) encoded (case current of Some x \<Rightarrow> x | None \<Rightarrow> None)))
     (remember (blockPath i (RecBlock r)) (Some encoded))))))"

subsection \<open>Attempt records\<close>

definition attemptName :: "string \<Rightarrow> string" where
  "attemptName number = ''attempt-'' @ number @ ''.json''"

definition resolutionPrefix :: "string \<Rightarrow> string" where
  "resolutionPrefix number = ''attempt-'' @ number @ ''-resolution-''"

definition attemptPath :: "string \<Rightarrow> string \<Rightarrow> string \<Rightarrow> string" where
  "attemptPath i block number = path_join [i, ''blocks'', block, attemptName number]"

definition resolutionPath :: "string \<Rightarrow> string \<Rightarrow> string \<Rightarrow> string \<Rightarrow> string" where
  "resolutionPath i block attempt number = path_join [i, ''blocks'', block, resolutionPrefix attempt @ number @ ''.json'']"

definition readAttempt :: "'w StoreConfig \<Rightarrow> string \<Rightarrow> ('w Store, (Attempt \<times> string) option) action" where
  "readAttempt cfg target =
     bindA (onArea (areaRead (storeArea cfg) target MaxAttemptBytes)) (\<lambda>found.
       case found of
         None \<Rightarrow> returnA None
       | Some data \<Rightarrow>
           bindA (decoded cfg attemptShape data MaxAttemptBytes) (\<lambda>v. returnA (Some (attemptOf v, data))))"

definition readAttemptRecord :: "'w StoreConfig \<Rightarrow> string \<Rightarrow> string \<Rightarrow> int \<Rightarrow> ('w Store, Attempt) action" where
  "readAttemptRecord cfg i block number =
     bindA (liftR (FormatNumber number)) (\<lambda>name.
     bindA (readAttempt cfg (attemptPath i block name)) (\<lambda>found.
       case found of
         None \<Rightarrow> refused ''the lifecycle attempt record is missing''
       | Some (a, _) \<Rightarrow>
           thenA (refuse (validateAttempt a))
           (if AttBlock a \<noteq> block \<or> Number a \<noteq> number
            then refused ''the lifecycle attempt record contradicts its location'' else returnA a)))"

text \<open>Whether an entry is named exactly as an attempt or resolution record is.\<close>

definition attemptRecordEntry :: "Entry \<Rightarrow> bool" where
  "attemptRecordEntry e =
     (if Directory e then False
      else (case cut_prefix (EntryName e) ''attempt-'' of
        None \<Rightarrow> False
      | Some r \<Rightarrow>
          (case cut_suffix r ''.json'' of
             None \<Rightarrow> False
           | Some numbers \<Rightarrow>
               (case cut_at ''-resolution-'' numbers of (attempt, resolution, resolved) \<Rightarrow>
                  okR (ParseNumber attempt) \<and> (\<not> resolved \<or> okR (ParseNumber resolution))))))"

definition LostBlockRecords :: "'w StoreConfig \<Rightarrow> string \<Rightarrow> Plan \<Rightarrow> ('w Store, string list) action" where
  "LostBlockRecords cfg i plan =
     foldA (\<lambda>b lost.
       bindA (readBlockRecord cfg i (blockID b)) (\<lambda>(_, recorded).
       if recorded then returnA lost
       else bindA (onArea (areaEntries (storeArea cfg) (blockDirectory i (blockID b)))) (\<lambda>es.
         returnA (if list_ex attemptRecordEntry es then lost @ [blockID b] else lost)))) (blocks plan) []"

definition startedAttempt :: "string \<Rightarrow> int \<Rightarrow> int \<Rightarrow> bool \<Rightarrow> Build \<Rightarrow> string \<Rightarrow> Attempt" where
  "startedAttempt block number resolution removal build time =
     \<lparr>AttVersion = 1, AttBlock = block, Number = number, Resolution = resolution, Removal = removal, Phase = ''running'',
      AttOutcome = [], Effect = [], AttEvidence = None, Preparation = None, AttFailure = None, Warnings = None,
      AttBuild = build, Started = time, AttUpdated = time\<rparr>"

definition adoptable :: "'w StoreConfig \<Rightarrow> string \<Rightarrow> string \<Rightarrow> int \<Rightarrow> bool \<Rightarrow> string \<Rightarrow> ('w Store, Attempt) action" where
  "adoptable cfg i block number recorded data =
     (if \<not> recorded then refused ''the block holds an attempt record but no block record that counts it''
      else bindA (decoded cfg attemptShape data MaxAttemptBytes) (\<lambda>v.
        let a = attemptOf v in
        thenA (refuse (validateAttempt a))
        (if AttBlock a \<noteq> block \<or> Number a \<noteq> number \<or> Resolution a \<noteq> 0
         then refused ''the lifecycle attempt record contradicts its location''
         else if Phase a \<noteq> ''running'' \<or> elems (Preparation a) \<noteq> []
         then refused (''the block'' @ [CHR 0x27] @ ''s next attempt number already holds an attempt that may have begun its effect'')
         else bindA (liftR (FormatNumber number)) (\<lambda>name.
           bindA (onArea (areaEntries (storeArea cfg) (blockDirectory i block))) (\<lambda>es.
           if list_ex (\<lambda>e. has_prefix (EntryName e) (resolutionPrefix name)) es
           then refused (''the block'' @ [CHR 0x27] @ ''s next attempt number already has a resolution allocated against it'')
           else returnA a)))))"

definition adopt :: "'w StoreConfig \<Rightarrow> string \<Rightarrow> Attempt \<Rightarrow> Build \<Rightarrow> string \<Rightarrow> ('w Store, unit) action" where
  "adopt cfg target a build data =
     bindA (now cfg) (\<lambda>updated.
     let a' = a\<lparr>AttBuild := build, AttUpdated := updated\<rparr> in
     thenA (refuse (validateAttempt a'))
     (bindA (liftR (encode (attemptValue a') MaxAttemptBytes)) (\<lambda>encoded.
     onArea (areaReplace (storeArea cfg) target encoded (Some data)))))"

text \<open>The attempt's record before the block counts it: the interrupted start found there, or a new one.\<close>

definition beginRecord ::
  "'w StoreConfig \<Rightarrow> string \<Rightarrow> BlockRecord \<Rightarrow> bool \<Rightarrow> string \<Rightarrow> Build \<Rightarrow> string option \<Rightarrow> ('w Store, unit) action" where
  "beginRecord cfg i r recorded target build found =
     (case found of
        Some existing \<Rightarrow>
          bindA (adoptable cfg i (RecBlock r) (Attempts r + 1) recorded existing) (\<lambda>adopted.
          if AttBuild adopted \<noteq> build then adopt cfg target adopted build existing else returnA ())
      | None \<Rightarrow>
          thenA (if recorded then returnA () else publishBlock cfg i r)
          (bindA (now cfg) (\<lambda>started.
          bindA (liftR (encode (attemptValue (startedAttempt (RecBlock r) (Attempts r + 1) 0 False build started)) MaxAttemptBytes)) (\<lambda>encoded.
          thenA (onArea (areaEnsureDirectory (storeArea cfg) (blockDirectory i (RecBlock r))))
          (onArea (areaWriteExclusive (storeArea cfg) target encoded))))))"

definition StartAttempt :: "'w StoreConfig \<Rightarrow> string \<Rightarrow> string \<Rightarrow> Build \<Rightarrow> ('w Store, int) action" where
  "StartAttempt cfg i block build =
     thenA (refuse (validateBuild build))
     (bindA (readBlockRecord cfg i block) (\<lambda>(r, recorded).
     let number = Attempts r + 1 in
     bindA (liftR (FormatNumber number)) (\<lambda>name.
     let target = attemptPath i block name in
     bindA (onArea (areaRead (storeArea cfg) target MaxAttemptBytes)) (\<lambda>found.
     thenA (beginRecord cfg i r recorded target build found)
     (thenA (publishBlock cfg i (r\<lparr>Attempts := number, RecState := BlockRunning\<rparr>)) (returnA number))))))"

definition RecordPreparation :: "'w StoreConfig \<Rightarrow> string \<Rightarrow> string \<Rightarrow> int \<Rightarrow> string \<Rightarrow> ('w Store, unit) action" where
  "RecordPreparation cfg i block number preparation =
     bindA (liftR (FormatNumber number)) (\<lambda>name.
     bindA (readAttempt cfg (attemptPath i block name)) (\<lambda>found.
       case found of
         None \<Rightarrow> refused ''the lifecycle attempt record is missing its durable start''
       | Some (a, data) \<Rightarrow>
           if Phase a \<noteq> ''running'' \<or> AttBlock a \<noteq> block \<or> Number a \<noteq> number \<or> Resolution a \<noteq> 0
           then refused ''only a running lifecycle attempt may publish its before-state''
           else if elems (Preparation a) \<noteq> [] then
             (if elems (Preparation a) \<noteq> preparation
              then refused ''the lifecycle attempt published a different before-state'' else returnA ())
           else bindA (now cfg) (\<lambda>updated.
             let a' = a\<lparr>Preparation := Some preparation, AttUpdated := updated\<rparr> in
             thenA (refuse (validateAttempt a'))
             (bindA (liftR (encode (attemptValue a') MaxAttemptBytes)) (\<lambda>encoded.
             onArea (areaReplace (storeArea cfg) (attemptPath i block name) encoded (Some data)))))))"

definition warnedRecord :: "Attempt \<Rightarrow> Warning list \<Rightarrow> string result" where
  "warnedRecord a warnings =
     (let warned = a\<lparr>Warnings := Some warnings\<rparr>;
          bare = guardR (validateAttempt a) (encode (attemptValue a) MaxAttemptBytes) in
      if warnings \<noteq> [] \<and> validateAttempt warned = None
      then (case encode (attemptValue warned) MaxAttemptBytes of Inr data \<Rightarrow> Inr data | Inl _ \<Rightarrow> bare)
      else bare)"

definition observedAttempt ::
  "Attempt \<Rightarrow> Outcome \<Rightarrow> EffectState \<Rightarrow> char slice \<Rightarrow> ObservationFailure option \<Rightarrow> string \<Rightarrow> Attempt" where
  "observedAttempt a outcome effect evidence failure updated =
     a\<lparr>Phase := ''observed'', AttOutcome := outcome, Effect := effect, AttEvidence := evidence, AttFailure := failure,
       AttUpdated := updated\<rparr>"

definition completeRecord ::
  "'w StoreConfig \<Rightarrow> string \<Rightarrow> string \<Rightarrow> string \<Rightarrow> int \<Rightarrow> int \<Rightarrow> Outcome \<Rightarrow> EffectState \<Rightarrow> BlockState \<Rightarrow> char slice \<Rightarrow>
   ObservationFailure option \<Rightarrow> Warning list \<Rightarrow> ('w Store, unit) action" where
  "completeRecord cfg i block target number resolution outcome effect state evidence failure warnings =
     bindA (onArea (areaRead (storeArea cfg) target MaxAttemptBytes)) (\<lambda>found.
       case found of
         None \<Rightarrow> refused ''the lifecycle attempt record is missing its durable start''
       | Some data \<Rightarrow>
           bindA (now cfg) (\<lambda>updated.
           bindA (decoded cfg attemptShape data MaxAttemptBytes) (\<lambda>v.
           let a = attemptOf v in
           if Phase a \<noteq> ''running'' \<or> AttBlock a \<noteq> block \<or> Number a \<noteq> number \<or> Resolution a \<noteq> resolution
           then refused ''the lifecycle attempt record contradicts its completion''
           else bindA (liftR (warnedRecord (observedAttempt a outcome effect evidence failure updated) warnings)) (\<lambda>encoded.
             thenA (onArea (areaReplace (storeArea cfg) target encoded (Some data)))
             (bindA (readBlock cfg i block) (\<lambda>current.
             publishBlock cfg i (current\<lparr>RecState := state\<rparr>)))))))"

definition CompleteAttempt ::
  "'w StoreConfig \<Rightarrow> string \<Rightarrow> string \<Rightarrow> int \<Rightarrow> Outcome \<Rightarrow> EffectState \<Rightarrow> BlockState \<Rightarrow> char slice \<Rightarrow> Warning list \<Rightarrow> ('w Store, unit) action" where
  "CompleteAttempt cfg i block number outcome effect state evidence warnings =
     bindA (liftR (FormatNumber number)) (\<lambda>name.
     completeRecord cfg i block (attemptPath i block name) number 0 outcome effect state evidence None warnings)"

subsection \<open>Resolutions\<close>

text \<open>The number after the last resolution of an attempt, from the names of its block's directory.\<close>

fun nextResolution :: "string \<Rightarrow> Entry list \<Rightarrow> int \<Rightarrow> int result" where
  "nextResolution prefix [] n = Inr n"
| "nextResolution prefix (e # es) n =
     (if Directory e \<or> length (EntryName e) \<noteq> length prefix + 11 \<or> take (length prefix) (EntryName e) \<noteq> prefix
      then nextResolution prefix es n
      else bindR (ParseNumber (take 6 (drop (length prefix) (EntryName e)))) (\<lambda>k.
        nextResolution prefix es (if k \<ge> n then k + 1 else n)))"

definition StartResolution :: "'w StoreConfig \<Rightarrow> string \<Rightarrow> string \<Rightarrow> int \<Rightarrow> Build \<Rightarrow> bool \<Rightarrow> ('w Store, int) action" where
  "StartResolution cfg i block attempt build removal =
     thenA (refuse (validateBuild build))
     (bindA (liftR (FormatNumber attempt)) (\<lambda>attemptNumber.
     bindA (onArea (areaEntries (storeArea cfg) (blockDirectory i block))) (\<lambda>es.
     bindA (liftR (nextResolution (resolutionPrefix attemptNumber) es 1)) (\<lambda>n.
     bindA (liftR (FormatNumber n)) (\<lambda>name.
     bindA (now cfg) (\<lambda>started.
     bindA (liftR (encode (attemptValue (startedAttempt block attempt n removal build started)) MaxAttemptBytes)) (\<lambda>encoded.
     thenA (onArea (areaWriteExclusive (storeArea cfg) (resolutionPath i block attemptNumber name) encoded))
     (returnA n))))))))"

definition CompleteResolution ::
  "'w StoreConfig \<Rightarrow> string \<Rightarrow> string \<Rightarrow> int \<Rightarrow> int \<Rightarrow> Outcome \<Rightarrow> EffectState \<Rightarrow> BlockState \<Rightarrow> char slice \<Rightarrow>
   ObservationFailure option \<Rightarrow> ('w Store, unit) action" where
  "CompleteResolution cfg i block attempt resolution outcome effect state evidence failure =
     bindA (liftR (FormatNumber attempt)) (\<lambda>attemptNumber.
     bindA (liftR (FormatNumber resolution)) (\<lambda>name.
     completeRecord cfg i block (resolutionPath i block attemptNumber name) attempt resolution outcome effect state evidence failure []))"

fun lastResolution :: "string \<Rightarrow> Entry list \<Rightarrow> int \<Rightarrow> int result" where
  "lastResolution prefix [] n = Inr n"
| "lastResolution prefix (e # es) n =
     (case (if Directory e then None else cut_prefix (EntryName e) prefix) of
        None \<Rightarrow> lastResolution prefix es n
      | Some r \<Rightarrow>
          (case cut_suffix r ''.json'' of
             None \<Rightarrow> lastResolution prefix es n
           | Some digits \<Rightarrow> bindR (ParseNumber digits) (\<lambda>k. lastResolution prefix es (max n k))))"

definition LastResolution :: "'w StoreConfig \<Rightarrow> string \<Rightarrow> string \<Rightarrow> int \<Rightarrow> ('w Store, Attempt option) action" where
  "LastResolution cfg i block attempt =
     bindA (liftR (FormatNumber attempt)) (\<lambda>attemptNumber.
     bindA (onArea (areaEntries (storeArea cfg) (blockDirectory i block))) (\<lambda>es.
     bindA (liftR (lastResolution (resolutionPrefix attemptNumber) es 0)) (\<lambda>n.
     if n = 0 then returnA None
     else bindA (liftR (FormatNumber n)) (\<lambda>name.
       bindA (readAttempt cfg (resolutionPath i block attemptNumber name)) (\<lambda>found.
         case found of
           None \<Rightarrow> refused ''the lifecycle resolution record is missing''
         | Some (a, _) \<Rightarrow>
             thenA (refuse (validateAttempt a))
             (if AttBlock a \<noteq> block \<or> Number a \<noteq> attempt \<or> Resolution a \<noteq> n
              then refused ''the lifecycle resolution record contradicts its location'' else returnA (Some a)))))))"

definition LastAttempt :: "'w StoreConfig \<Rightarrow> string \<Rightarrow> string \<Rightarrow> ('w Store, int) action" where
  "LastAttempt cfg i block =
     bindA (readBlock cfg i block) (\<lambda>r.
     if Attempts r < 1 then refused ''the block has no durable attempt to resolve'' else returnA (Attempts r))"

subsection \<open>Idle directories\<close>

text \<open>The empty children of a directory that holds nothing else, \<open>None\<close> when it holds something.\<close>

definition holdsNothing :: "'w StoreConfig \<Rightarrow> string \<Rightarrow> ('w Store, string list option) action" where
  "holdsNothing cfg i =
     bindA (onArea (areaEntries (storeArea cfg) i)) (\<lambda>es.
     if list_ex (\<lambda>e. \<not> Directory e \<or> EntryName e \<noteq> ''blocks'' \<and> EntryName e \<noteq> ''logs'') es then returnA None
     else foldA (\<lambda>e children.
       case children of
         None \<Rightarrow> returnA None
       | Some cs \<Rightarrow>
           bindA (onArea (areaEntries (storeArea cfg) (path_join [i, EntryName e]))) (\<lambda>nested.
           returnA (if nested \<noteq> [] then None else Some (cs @ [EntryName e])))) es (Some []))"

definition eachIdle :: "'w StoreConfig \<Rightarrow> (string \<Rightarrow> string list \<Rightarrow> ('w Store, unit) action) \<Rightarrow> ('w Store, string list) action" where
  "eachIdle cfg visit =
     bindA (readIndex cfg) (\<lambda>index.
     bindA (Claimed cfg) (\<lambda>claimed.
     foldA (\<lambda>i visited.
       if i = Current index \<or> \<not> ValidOperationID i then returnA visited
       else bindA (holdsNothing cfg i) (\<lambda>children.
         case children of
           None \<Rightarrow> returnA visited
         | Some cs \<Rightarrow> thenA (visit i cs) (returnA (visited @ [i])))) claimed []))"

definition Reclaim :: "'w StoreConfig \<Rightarrow> ('w Store, string list) action" where
  "Reclaim cfg =
     eachIdle cfg (\<lambda>i children.
       thenA (foldA (\<lambda>child _. onArea (areaRemoveDirectory (storeArea cfg) (path_join [i, child]))) children ())
       (onArea (areaRemoveDirectory (storeArea cfg) i)))"

definition Idle :: "'w StoreConfig \<Rightarrow> ('w Store, string list) action" where
  "Idle cfg = eachIdle cfg (\<lambda>_ _. returnA ())"

definition StartedBlocks :: "'w StoreConfig \<Rightarrow> string \<Rightarrow> ('w Store, bool) action" where
  "StartedBlocks cfg i =
     bindA (onArea (areaEntries (storeArea cfg) (path_join [i, ''blocks'']))) (\<lambda>es. returnA (es \<noteq> []))"

subsection \<open>The room of the area\<close>

abbreviation AttemptEntries :: int where "AttemptEntries \<equiv> 6"
abbreviation AttemptLogBytes :: int where "AttemptLogBytes \<equiv> 131072"

definition AttemptBytes :: int where
  "AttemptBytes = 2 * int MaxAttemptBytes + AttemptLogBytes"

definition IntoTheReserve :: "storeError \<Rightarrow> bool" where
  "IntoTheReserve e = (case e of IntoReserve f \<Rightarrow> True | _ \<Rightarrow> False)"

definition refuseAttempt :: "bool \<Rightarrow> string \<Rightarrow> int \<Rightarrow> int \<Rightarrow> storeError" where
  "refuseAttempt apply holds needed kept =
     (let area = ''the context'' @ [CHR 0x27] @ ''s operation area '' in
      IntoReserve (recordError
        (if apply then area @ ''keeps what is left of it for the removal that takes this apply back: '' @ holds
           @ '', and this attempt needs '' @ signed_decimal needed @ '' more beside the '' @ signed_decimal kept @ '' that removal keeps''
         else if kept > 0 then area @ ''cannot hold another resolution before this removal registers: '' @ holds
           @ '', and it needs '' @ signed_decimal needed @ '' more beside the '' @ signed_decimal kept @ '' its registration keeps''
         else area @ ''cannot hold another attempt of this removal: '' @ holds @ '', and it needs '' @ signed_decimal needed @ '' more'')))"

text \<open>How many blocks may still need a resolution: the one asked for, those in flight, and those unproved.\<close>

definition resolutions :: "'w StoreConfig \<Rightarrow> string \<Rightarrow> Plan \<Rightarrow> string \<Rightarrow> ('w Store, nat) action" where
  "resolutions cfg i plan block =
     bindA (readBlockStates cfg i plan) (\<lambda>states.
     bindA (getA inflight) (\<lambda>flying.
     returnA (length (remdups (block # map fst flying
       @ map fst (filter (\<lambda>(_, state). state = BlockUnknown \<or> state = BlockRunning) states))))))"

definition removalReserve :: "'w StoreConfig \<Rightarrow> Operation \<Rightarrow> Plan \<Rightarrow> ('w Store, reservation) action" where
  "removalReserve cfg op plan =
     bindA (getA (\<lambda>s. reserves s (OpID op))) (\<lambda>kept.
     case kept of
       Some r \<Rightarrow> returnA r
     | None \<Rightarrow>
         bindA (lineageRemoval cfg (OpID op) (Predecessor op) plan) (\<lambda>removal.
         case encode (planValue removal) MaxPlanBytes of
           Inl _ \<Rightarrow> refused ''lifecycle plan exceeds its encoded plan limit''
         | Inr encodedPlan \<Rightarrow>
             bindA (liftR (encode (operationValue op) MaxOperationBytes)) (\<lambda>encoded.
             let r = \<lparr>reservedEntries = int (AdmissionEntries removal),
                      reservedBytes = int (length encodedPlan + length encoded + MaxIndexBytes)
                        + int (length (blocks removal)) * FirstPassBlockBytes\<rparr> in
             thenA (modifyA (\<lambda>s. s\<lparr>reserves := (reserves s)(OpID op \<mapsto> r)\<rparr>)) (returnA r))))"

text \<open>What an apply keeps beside its attempts: the reserve of its removal and of each resolution.\<close>

definition keptFor :: "'w StoreConfig \<Rightarrow> Operation \<Rightarrow> Plan \<Rightarrow> string \<Rightarrow> bool \<Rightarrow> ('w Store, int \<times> int) action" where
  "keptFor cfg op plan block removal =
     (if OpVerb op \<noteq> Apply then returnA (0, 0)
      else bindA (removalReserve cfg op plan) (\<lambda>r.
        if removal then returnA (reservedEntries r, reservedBytes r)
        else bindA (resolutions cfg (OpID op) plan block) (\<lambda>n.
          returnA (reservedEntries r + int n * AttemptEntries, reservedBytes r + int n * AttemptBytes))))"

definition countInflight :: "string \<Rightarrow> int \<Rightarrow> (string \<times> int) list \<Rightarrow> (string \<times> int) list" where
  "countInflight block k flying =
     (let n = (case map_of flying block of None \<Rightarrow> 0 | Some x \<Rightarrow> x) + k in
      (if n = 0 then [] else [(block, n)]) @ filter (\<lambda>(b, _). b \<noteq> block) flying)"

definition AdmitAttempt :: "'w StoreConfig \<Rightarrow> Operation \<Rightarrow> Plan \<Rightarrow> string \<Rightarrow> bool \<Rightarrow> ('w Store, unit) action" where
  "AdmitAttempt cfg op plan block removal =
     bindA (held cfg [] []) (\<lambda>(n, size).
     bindA (getA (\<lambda>s. 1 + sum_list (map snd (inflight s)))) (\<lambda>running.
     let apply = (OpVerb op = Apply \<and> \<not> removal);
         entries = running * AttemptEntries + (if apply then 0 else 1);
         bytes = running * AttemptBytes in
     bindA (keptFor cfg op plan block removal) (\<lambda>(keptEntries, keptBytes).
     thenA (stopWith
       (if int n + entries + keptEntries > int MaxEntries
        then Some (refuseAttempt apply
          (''it holds '' @ decimal n @ '' of its '' @ decimal MaxEntries @ '' entries'') entries keptEntries)
        else if size + bytes + keptBytes > MaxBytes
        then Some (refuseAttempt apply
          (''it holds '' @ signed_decimal size @ '' of its '' @ signed_decimal MaxBytes @ '' bytes'') bytes keptBytes)
        else None))
     (modifyA (\<lambda>s. s\<lparr>inflight := countInflight block 1 (inflight s)\<rparr>)))))"

definition releaseAttempt :: "string \<Rightarrow> ('w Store, unit) action" where
  "releaseAttempt block = modifyA (\<lambda>s. s\<lparr>inflight := countInflight block (-1) (inflight s)\<rparr>)"

definition outputRoom :: "'w StoreConfig \<Rightarrow> int \<Rightarrow> ('w Store, int) action" where
  "outputRoom cfg wanted =
     bindA (getA measured) (\<lambda>done.
     thenA (if done then returnA ()
            else bindA (held cfg [] []) (\<lambda>(_, size).
              modifyA (\<lambda>s. s\<lparr>measured := True, room := max (MaxBytes - ReservedBytes - size) 0\<rparr>)))
     (bindA (getA (\<lambda>s. min wanted (room s))) (\<lambda>taken.
     thenA (modifyA (\<lambda>s. s\<lparr>room := room s - taken\<rparr>)) (returnA taken))))"

definition returnRoom :: "int \<Rightarrow> ('w Store, unit) action" where
  "returnRoom n = modifyA (\<lambda>s. s\<lparr>room := room s + n\<rparr>)"

end
