(* ===== verification/CodecLaws.thy ===== *)
theory CodecLaws
  imports Codec
begin

section \<open>Records are read back as they were written\<close>

text \<open>
  \<^item> \<open>decodeUnder_sound\<close>: a record is accepted only from the bytes it encodes as;
  \<^item> \<open>decodeUnder_encode\<close>: what was written of a conforming value is accepted and read back;
  \<^item> one law for each record type, for instance \<open>operation_read\<close>: reading back what was written
    gives the record. A block record that passes its validation always conforms
    (\<open>block_conforms\<close>).
\<close>

subsection \<open>Names\<close>

lemma cut_at_absent: "CHR '','' \<notin> set n \<Longrightarrow> cut_at '','' n = (n, [], False)"
  by (induction n) (auto simp: has_prefix_def)

lemma cut_at_present: "CHR '','' \<notin> set n \<Longrightarrow> cut_at '','' (n @ CHR '','' # r) = (n, r, True)"
  by (induction n) (auto simp: has_prefix_def)

lemma field_simps [simp]:
  assumes "valid_name n"
  shows "jsonName (field n) = n" "fieldAction (field n) v = Write" "jsonName (omitting n) = n"
    "fieldAction (omitting n) v = (case emptyValue v of None \<Rightarrow> Refuse | Some True \<Rightarrow> Skip | Some False \<Rightarrow> Write)"
proof -
  have n: "valid_tag n" "n \<noteq> ''-''" "CHR '','' \<notin> set n"
    using assms by (simp_all add: valid_name_def)
  note c = cut_at_absent [OF n(3)] cut_at_present [OF n(3), of "''omitempty''"]
  show "jsonName (field n) = n" "fieldAction (field n) v = Write" "jsonName (omitting n) = n"
    using n c by (simp_all add: jsonName_def field_def omitting_def tagged_def tagName_def fieldAction_def tagOption_def)
  have "n @ '',omitempty'' \<noteq> ''-''" by (cases n) auto
  then show "fieldAction (omitting n) v = (case emptyValue v of None \<Rightarrow> Refuse | Some True \<Rightarrow> Skip | Some False \<Rightarrow> Write)"
    using n c by (simp add: omitting_def tagged_def fieldAction_def tagOption_def)
qed

lemma names_utf8 [simp]: "valid_name n \<Longrightarrow> utf8_valid n"
  by (simp add: valid_name_def)

subsection \<open>Valid bytes\<close>

lemma utf8_Cons_ascii [simp]: "byte_of c < 128 \<Longrightarrow> utf8_valid (c # s) = utf8_valid s"
  by (simp add: utf8_valid_Cons)

lemma utf8_ascii: "list_all (\<lambda>c. byte_of c < 128) s \<Longrightarrow> utf8_valid s"
  by (induction s) (simp_all add: utf8_valid_Cons)

text \<open>Names made of letters.\<close>

definition letter :: "char \<Rightarrow> bool" where
  "letter c \<longleftrightarrow> 65 \<le> byte_of c \<and> byte_of c \<le> 90 \<or> 97 \<le> byte_of c \<and> byte_of c \<le> 122"

lemma letters_valid:
  assumes "n \<noteq> []" and "list_all letter n"
  shows "valid_name n"
proof -
  have "list_all valid_tag_char n" "list_all (\<lambda>c. byte_of c < 128) n"
    using assms(2) by (auto simp: list_all_iff valid_tag_char_def letter_def)
  moreover have "n \<noteq> ''-''" "CHR '','' \<notin> set n"
    using assms(2) by (auto simp: list_all_iff letter_def)
  ultimately show ?thesis
    using assms(1) by (simp add: valid_name_def valid_tag_def utf8_ascii)
qed

lemma record_names [simp]:
  "valid_name ''version''" "valid_name ''current''" "valid_name ''commit''" "valid_name ''automationDigest''"
  "valid_name ''contentDigest''" "valid_name ''executable''" "valid_name ''modified''" "valid_name ''digest''"
  "valid_name ''python''" "valid_name ''ansible''" "valid_name ''id''" "valid_name ''verb''" "valid_name ''context''"
  "valid_name ''revision''" "valid_name ''inputDigest''" "valid_name ''planDigest''" "valid_name ''closure''"
  "valid_name ''source''" "valid_name ''replaces''" "valid_name ''predecessor''" "valid_name ''bindings''"
  "valid_name ''state''" "valid_name ''logFault''" "valid_name ''created''" "valid_name ''updated''"
  "valid_name ''block''" "valid_name ''attempts''" "valid_name ''code''" "valid_name ''message''"
  "valid_name ''remediation''" "valid_name ''kind''" "valid_name ''name''" "valid_name ''object''"
  "valid_name ''number''" "valid_name ''resolution''" "valid_name ''removal''" "valid_name ''phase''"
  "valid_name ''outcome''" "valid_name ''effect''" "valid_name ''evidence''" "valid_name ''preparation''"
  "valid_name ''failure''" "valid_name ''warnings''" "valid_name ''build''" "valid_name ''started''"
  "valid_name ''description''" "valid_name ''machines''" "valid_name ''stage''" "valid_name ''dependencies''"
  "valid_name ''prerequisites''" "valid_name ''exclusive''" "valid_name ''throttle''" "valid_name ''impacts''"
  "valid_name ''consumes''" "valid_name ''groups''" "valid_name ''implementation''" "valid_name ''request''"
  "valid_name ''requestDigest''" "valid_name ''blocks''"
  by (rule letters_valid; simp add: letter_def)+

lemma enc_ascii_bytes: "byte_of c < 128 \<Longrightarrow> list_all (\<lambda>c. byte_of c < 128) (enc_ascii c)"
proof -
  assume c: "byte_of c < 128"
  have "byte_of (hex_digit n) < 128" if "n < 16" for n
    using that by (simp add: hex_digit_def)
  moreover have "byte_of c div 16 < 16" "byte_of c mod 16 < 16" using c by auto
  ultimately show ?thesis
    using c by (auto simp: enc_ascii_def hex_low4_def)
qed

lemma utf8_enc_chars: "utf8_valid s \<Longrightarrow> utf8_valid (enc_chars s)"
proof (induction s rule: enc_chars.induct)
  case 1
  then show ?case by (simp add: enc_chars.simps)
next
  case (2 c s)
  define n where "n = rune_size (c # s)"
  from "2.prems" have n: "n \<noteq> 0" and v: "utf8_valid (drop (n - 1) s)"
    by (simp_all add: utf8_valid_Cons n_def)
  show ?case
  proof (cases "byte_of c < 128")
    case True
    then show ?thesis
      using "2.IH"(1) v n_def utf8_valid_append [OF utf8_ascii [OF enc_ascii_bytes]] by (simp add: enc_chars.simps)
  next
    case c: False
    show ?thesis
    proof (cases "is_line_separator (take n (c # s))")
      case True
      then show ?thesis
        using "2.IH"(3) [OF c n_def n True] v c n n_def by (simp add: enc_chars.simps Let_def)
    next
      case False
      have "take n (c # s) = c # take (n - 1) s" using n by (cases n) auto
      moreover have "rune_size (take n (c # s)) = n"
        using rune_size_append [of "c # s" n "[]"] n n_def by simp
      moreover have "length (take n (c # s)) = n"
        using rune_size_le [of "c # s"] n_def by simp
      ultimately have "utf8_valid (c # take (n - 1) s)"
        using utf8_valid_one [of "take n (c # s)"] by simp
      then show ?thesis
        using "2.IH"(4) [OF c n_def n False] v c n n_def False utf8_valid_append by (fastforce simp: enc_chars.simps Let_def)
    qed
  qed
qed

lemma utf8_enc_string: "utf8_valid s \<Longrightarrow> utf8_valid (enc_string s)"
  unfolding enc_string_def by (intro utf8_valid_append utf8_enc_chars) simp_all

lemma numeric_ascii: "numeric c \<Longrightarrow> byte_of c < 128"
  by (auto simp: numeric_def is_digit_def)

lemma utf8_print_gen:
  "wf_json d v \<Longrightarrow> utf8_valid (print_json v)"
  "\<forall>v\<in>set vs. wf_json d v \<Longrightarrow> utf8_valid (print_elems vs)"
  "\<forall>m\<in>set ms. utf8_valid (fst m) \<and> wf_json d (snd m) \<Longrightarrow> utf8_valid (print_members ms)"
proof (induction v and vs and ms arbitrary: d and d and d rule: print_json_print_elems_print_members.induct)
  case (3 s)
  then show ?case
    using p_number_numeric [of s s "[]"] numeric_ascii by (auto intro!: utf8_ascii simp: list_all_iff)
next
  case (5 vs)
  then show ?case using "5.IH" [of "Suc d"] by (simp add: utf8_valid_append)
next
  case (6 ms)
  then show ?case using "6.IH" [of "Suc d"] by (simp add: utf8_valid_append)
next
  case (10 m ms)
  then have "utf8_valid (print_json (snd m))" "ms \<noteq> [] \<Longrightarrow> utf8_valid (print_members ms)" "utf8_valid (fst m)"
    by (auto simp del: print_members.simps)
  then show ?case by (auto intro!: utf8_valid_append utf8_enc_string)
qed (auto intro!: utf8_valid_append utf8_enc_string)

subsection \<open>Reading and writing\<close>

lemma encode_Inr: "encode v maximum = Inr data \<Longrightarrow> Encode v True = Inr data \<and> data \<noteq> [] \<and> length data \<le> maximum"
  by (auto simp: encode_def Encode_def split: sum.splits option.splits if_splits)

lemma decodeUnder_sound: "decodeUnder quote sh data maximum running = Inr v \<Longrightarrow> encode v maximum = Inr data"
  by (auto simp: decodeUnder_def bindR_def split: if_splits sum.splits canon_error.splits)

lemma decodeUnder_encode:
  assumes "conforms sh 0 v" and "encode v maximum = Inr data"
  shows "decodeUnder quote sh data maximum running = Inr (readBack v)"
proof -
  note e = encode_Inr [OF assms(2)]
  then have d: "Decode sh data True = Inr (readBack v)"
    using Decode_Encode [OF assms(1)] by blast
  then have c: "DecodeClosed sh data = Inr (readBack v)" "Encode (readBack v) True = Inr data"
    using Decode_canonical by (auto simp: Decode_def bindR_def guardR_def split: sum.splits option.splits)
  obtain j where j: "wf_json 0 j" "marshal v = Some (print_json j)"
    using conforms_round_trip [OF assms(1)] by (auto simp: round_trip_def)
  then have "data = print_json j @ [CHR 0x0A]"
    using e by (simp add: Encode_def)
  then have "utf8_valid data"
    using utf8_valid_append [OF utf8_print_gen(1) [OF j(1)], of "[CHR 0x0A]"] by simp
  moreover have "encode (readBack v) maximum = Inr data"
    using c(2) assms(2) e by (auto simp: encode_def split: if_splits)
  ultimately show ?thesis
    using e c(1) by (simp add: decodeUnder_def bindR_def)
qed

lemma decodeUnder_result:
  assumes "decodeUnder quote sh data maximum running = Inr v"
  shows "data \<noteq> []" "length data \<le> maximum"
  using encode_Inr [OF decodeUnder_sound [OF assms]] by simp_all

subsection \<open>The record types\<close>

lemma slice_strings: "sliceOf strOf (strings s) = s"
proof -
  have "map strOf (map RString xs) = xs" for xs by (simp add: comp_def strOf_def)
  then show ?thesis by (cases s) (simp_all add: sliceOf_def del: map_map)
qed

lemma readBack_strings [simp]: "readBack (strings s) = strings s"
  by (cases s) (simp_all add: comp_def)

lemma index_read: "indexOf (readBack (indexValue i)) = i"
  by (simp add: indexOf_def indexValue_def value_simps)

lemma executable_read: "executableOf (readBack (executableValue e)) = e"
  by (simp add: executableOf_def executableValue_def value_simps)

lemma build_read: "buildOf (readBack (buildValue b)) = b"
  using executable_read [of "BuildExecutable b"]
  by (auto simp: buildOf_def buildValue_def value_simps omitted_def split: bool.splits)

lemma closure_read: "closureOf (readBack (closureValue c)) = c"
  by (simp add: closureOf_def closureValue_def value_simps)

lemma block_read: "blockOf (readBack (blockValue r)) = r"
  by (simp add: blockOf_def blockValue_def value_simps)

lemma slice_read:
  assumes "\<And>x. f (readBack (g x)) = x"
  shows "sliceOf f (readBack (RSlice (map_option (map g) s))) = s"
  by (cases s) (simp_all add: sliceOf_def comp_def assms)

text \<open>A field that is left out when empty: how it is read back.\<close>

definition unlessEmpty :: "rvalue \<Rightarrow> rvalue" where
  "unlessEmpty v =
     (case emptyValue v of Some False \<Rightarrow> readBack v | _ \<Rightarrow> omitted v)"

lemma readBack_struct:
  "readBack (RStruct []) = RStruct []"
  "valid_name n \<Longrightarrow> readBack (RStruct ((field n, v) # fs)) = (case readBack (RStruct fs) of RStruct r \<Rightarrow> RStruct ((field n, readBack v) # r))"
  "valid_name n \<Longrightarrow> readBack (RStruct ((omitting n, v) # fs)) = (case readBack (RStruct fs) of RStruct r \<Rightarrow> RStruct ((omitting n, unlessEmpty v) # r))"
  by (simp_all add: unlessEmpty_def split: option.splits bool.splits)

lemma unlessEmpty_simps [simp]:
  "unlessEmpty (RBool b) = RBool b" "unlessEmpty (RString s) = RString s"
  "unlessEmpty (RPointer None) = RPointer None" "unlessEmpty (RPointer (Some v)) = RPointer (Some (readBack v))"
  "unlessEmpty (RSlice vs) = (if elems vs = [] then RSlice None else readBack (RSlice vs))"
  "unlessEmpty (RRaw t) = (if elems t = [] then RRaw None else readBack (RRaw t))"
  by (simp_all add: unlessEmpty_def omitted_def split: bool.splits)

lemma ptr_unlessEmpty:
  assumes "\<And>x. f (readBack (g x)) = x"
  shows "ptrOf f (unlessEmpty (RPointer (map_option g x))) = x"
  by (cases x) (simp_all add: ptrOf_def assms)

lemma operation_read: "operationOf (readBack (operationValue op)) = op"
  using executable_read [of "OpExecutable op"] ptr_unlessEmpty [of closureOf closureValue "OpClosure op", OF closure_read]
    slice_strings [of "Bindings op"]
  unfolding operationOf_def operationValue_def
  by (simp only: readBack_struct record_names rvalue.case readBack_strings unlessEmpty_simps)
    (simp add: fieldAt_def structFields_def intOf_def strOf_def boolOf_def)

lemma readBack_leaf:
  "readBack (RString s) = RString s" "readBack (RInt n) = RInt n" "readBack (RBool b) = RBool b"
  by simp_all

lemma failure_read: "failureOf (readBack (failureValue f)) = f"
  unfolding failureOf_def failureValue_def
  by (simp only: readBack_struct record_names rvalue.case unlessEmpty_simps) (simp add: fieldAt_def structFields_def strOf_def)

lemma warned_read: "warnedOf (readBack (warnedValue w)) = w"
  by (simp add: warnedOf_def warnedValue_def value_simps)

lemma warning_read: "warningOf (readBack (warningValue w)) = w"
  using ptr_unlessEmpty [of warnedOf warnedValue "WarningOn w", OF warned_read]
  unfolding warningOf_def warningValue_def
  by (simp only: readBack_struct record_names rvalue.case unlessEmpty_simps) (simp add: fieldAt_def structFields_def strOf_def)

text \<open>An attempt as it is read back: absent evidence is null, and what is empty is absent.\<close>

definition attemptStored :: "Attempt \<Rightarrow> Attempt" where
  "attemptStored a =
     a\<lparr>AttEvidence := (case AttEvidence a of None \<Rightarrow> Some ''null'' | Some e \<Rightarrow> Some e),
       Preparation := (if elems (Preparation a) = [] then None else Preparation a),
       Warnings := (if elems (Warnings a) = [] then None else Warnings a)\<rparr>"

lemma attempt_read: "attemptOf (readBack (attemptValue a)) = attemptStored a"
proof -
  have w: "sliceOf warningOf (unlessEmpty (RSlice (map_option (map warningValue) (Warnings a)))) = Warnings (attemptStored a)"
    using slice_read [of warningOf warningValue "Warnings a", OF warning_read]
    by (cases "Warnings a") (simp_all add: attemptStored_def sliceOf_def)
  have p: "rawOf (unlessEmpty (RRaw (Preparation a))) = Preparation (attemptStored a)"
    by (cases "Preparation a") (simp_all add: attemptStored_def rawOf_def)
  have e: "rawOf (readBack (RRaw (AttEvidence a))) = AttEvidence (attemptStored a)"
    by (cases "AttEvidence a") (simp_all add: attemptStored_def rawOf_def)
  have a: "attemptOf (readBack (attemptValue a)) =
      a\<lparr>AttEvidence := rawOf (readBack (RRaw (AttEvidence a))), Preparation := rawOf (unlessEmpty (RRaw (Preparation a))),
        Warnings := sliceOf warningOf (unlessEmpty (RSlice (map_option (map warningValue) (Warnings a))))\<rparr>"
    using build_read [of "AttBuild a"] ptr_unlessEmpty [of failureOf failureValue "AttFailure a", OF failure_read]
    unfolding attemptOf_def attemptValue_def
    by (simp only: readBack_struct record_names rvalue.case unlessEmpty_simps(1,2) readBack_leaf)
      (rule Attempt.equality; simp add: fieldAt_def structFields_def intOf_def strOf_def boolOf_def del: unlessEmpty_simps readBack.simps)
  show ?thesis
    unfolding a w p e by (simp add: attemptStored_def)
qed

lemma group_read: "groupOf (readBack (groupValue g)) = g"
  using slice_strings [of "Machines g"]
  unfolding groupOf_def groupValue_def
  by (simp only: readBack_struct record_names rvalue.case readBack_strings) (simp add: fieldAt_def structFields_def strOf_def)

text \<open>A block as it is read back: what is left out when empty is absent.\<close>

definition blockStored :: "Block \<Rightarrow> Block" where
  "blockStored b = b\<lparr>Def := (Def b)\<lparr>Requires := [], Family := [],
     Prerequisites := (if elems (Prerequisites (Def b)) = [] then None else Prerequisites (Def b)),
     Exclusive := (if elems (Exclusive (Def b)) = [] then None else Exclusive (Def b)),
     Request := (if Request (Def b) = [] then ''null'' else Request (Def b))\<rparr>\<rparr>"

lemma strings_unlessEmpty: "sliceOf strOf (unlessEmpty (strings s)) = (if elems s = [] then None else s)"
  using slice_strings [of s] readBack_strings [of s] by (cases s) (auto simp del: readBack.simps simp: sliceOf_def)

lemma planBlock_read: "planBlockOf (readBack (planBlockValue b)) = blockStored b"
proof -
  have q: "elems (rawOf (readBack (RRaw (if Request (Def b) = [] then None else Some (Request (Def b)))))) =
      Request (Def (blockStored b))"
    by (simp add: rawOf_def blockStored_def)
  have "planBlockOf (readBack (planBlockValue b)) =
      b\<lparr>Def := (Def b)\<lparr>Requires := [], Family := [],
        Prerequisites := sliceOf strOf (unlessEmpty (strings (Prerequisites (Def b)))),
        Exclusive := sliceOf strOf (unlessEmpty (strings (Exclusive (Def b)))),
        Request := elems (rawOf (readBack (RRaw (if Request (Def b) = [] then None else Some (Request (Def b))))))\<rparr>\<rparr>"
    using slice_read [of groupOf groupValue "Groups (Def b)", OF group_read] slice_strings [of "Dependencies (Def b)"]
      slice_strings [of "Impacts (Def b)"] slice_strings [of "Consumes (Def b)"]
    unfolding planBlockOf_def planBlockValue_def Let_def
    by (simp only: readBack_struct record_names rvalue.case unlessEmpty_simps(1,2) readBack_strings readBack_leaf)
      (simp add: fieldAt_def structFields_def strOf_def del: unlessEmpty_simps readBack.simps)
  then show ?thesis
    unfolding strings_unlessEmpty q by (simp add: blockStored_def)
qed

definition planStored :: "Plan \<Rightarrow> Plan" where
  "planStored p = p\<lparr>Blocks := map_option (map blockStored) (Blocks p)\<rparr>"

lemma plan_read: "planOfValue (readBack (planValue p)) = planStored p"
proof -
  have "sliceOf planBlockOf (readBack (RSlice (map_option (map planBlockValue) (Blocks p)))) = map_option (map blockStored) (Blocks p)"
    by (cases "Blocks p") (simp_all add: sliceOf_def comp_def planBlock_read)
  then show ?thesis
    unfolding planOfValue_def planValue_def
    by (simp only: readBack_struct record_names rvalue.case readBack_leaf)
      (simp add: fieldAt_def structFields_def strOf_def planStored_def del: readBack.simps)
qed

subsection \<open>Conforming records\<close>

lemma segment_utf8: "ValidSegment s \<Longrightarrow> utf8_valid s"
proof (rule utf8_ascii)
  assume "ValidSegment s"
  then have "\<forall>i<length s. alphanumeric (s ! i) \<or> s ! i = CHR ''-''"
    unfolding ValidSegment_def by blast
  moreover have "alphanumeric c \<or> c = CHR ''-'' \<Longrightarrow> byte_of c < 128" for c
    by (auto simp: alphanumeric_def)
  ultimately show "list_all (\<lambda>c. byte_of c < 128) s"
    unfolding list_all_length by blast
qed

lemma block_conforms:
  assumes "validateBlock r = None"
  shows "conforms blockShape 0 (blockValue r)"
proof -
  have v: "RecVersion r = 1" "ValidSegment (RecBlock r)" "ValidBlockState (RecState r)" "0 \<le> Attempts r" "Attempts r \<le> MaxAttempt"
    using assms by (auto simp: validateBlock_def)
  have "utf8_valid (RecState r)"
    using v(3) by (auto simp: ValidBlockState_def intro: utf8_ascii)
  then show ?thesis
    using v segment_utf8 [OF v(2)] by (simp add: blockShape_def blockValue_def)
qed

lemma index_conforms: "IndexVersion i = 1 \<Longrightarrow> utf8_valid (Current i) \<Longrightarrow> conforms indexShape 0 (indexValue i)"
  by (simp add: indexShape_def indexValue_def)

text \<open>What was written is accepted and read back, for each record.\<close>

lemma decode_block:
  assumes "validateBlock r = None" and "encode (blockValue r) MaxAttemptBytes = Inr data"
  shows "map_sum id blockOf (decodeUnder quote blockShape data MaxAttemptBytes running) = Inr r"
  using decodeUnder_encode [OF block_conforms [OF assms(1)] assms(2)] by (simp add: block_read)

end
