(* ===== verification/Conforming.thy ===== *)
theory Conforming
  imports CodecLaws
begin

section \<open>Validated records conform to their shapes\<close>

text \<open>
  What \<open>validateBlock\<close>, \<open>validateAttempt\<close> and \<open>validateOperation\<close> accept is a value of the shape its
  decoder expects, so that its encoding is accepted and reads back. \<open>validateOperation\<close> bounds the
  identifiers of an operation and leaves their bytes to its callers, which \<open>textual\<close> states.
\<close>

lemma digest_utf8: "canonical_digest s \<Longrightarrow> utf8_valid s"
proof (rule utf8_ascii)
  assume "canonical_digest s"
  then obtain bs where "hex_encode bs = s" by (auto simp: canonical_digest_def split: option.splits)
  then have "list_all lower_hex s" using hex_encode_lower by metis
  then show "list_all (\<lambda>c. byte_of c < 128) s" by (auto simp: list_all_iff lower_hex_def)
qed

lemma identity_utf8: "ValidOperationID s \<Longrightarrow> utf8_valid s"
proof (rule utf8_ascii)
  assume "ValidOperationID s"
  then obtain h where "s = operationIDPrefix @ h" "list_all lower_hex h"
    by (auto simp: ValidOperationID_def validIdentity_iff)
  then show "list_all (\<lambda>c. byte_of c < 128) s" by (auto simp: list_all_iff lower_hex_def)
qed

lemma list_all2_in: "list_all2 P xs ys \<Longrightarrow> y \<in> set ys \<Longrightarrow> \<exists>x\<in>set xs. P x y"
  by (induction rule: list_all2_induct) auto

lemma timestamp_utf8: "canonical_timestamp s \<Longrightarrow> utf8_valid s"
proof (rule utf8_ascii)
  assume "canonical_timestamp s"
  then have "list_all2 (\<lambda>l c. if l = CHR ''d'' then is_digit c else c = l) ''dddd-dd-ddTdd:dd:ddZ'' s"
    by (simp only: canonical_timestamp_def matches_layout_def)
  then have l: "list_all2 (\<lambda>l c. byte_of l < 128 \<longrightarrow> byte_of c < 128) ''dddd-dd-ddTdd:dd:ddZ'' s"
    by (rule list_all2_mono) (auto simp: is_digit_def split: if_splits)
  have "list_all (\<lambda>c. byte_of c < 128) ''dddd-dd-ddTdd:dd:ddZ''" by simp
  then show "list_all (\<lambda>c. byte_of c < 128) s"
    unfolding list_all_iff using list_all2_in [OF l] by blast
qed

lemma timestamps_utf8: "validateTimestamps ts = None \<Longrightarrow> t \<in> set ts \<Longrightarrow> utf8_valid t"
  by (auto simp: validateTimestamps_def intro!: timestamp_utf8 split: if_splits)

lemma printable_utf8: "printable s n \<Longrightarrow> utf8_valid s"
  by (rule utf8_ascii) (auto simp: printable_def list_all_iff)

text \<open>An optional field is skipped exactly when it is empty.\<close>

lemma skip_or_write [simp]:
  "(case c of True \<Rightarrow> Skip | False \<Rightarrow> Write) = Skip \<longleftrightarrow> c" "(case c of True \<Rightarrow> Skip | False \<Rightarrow> Write) = Write \<longleftrightarrow> \<not> c"
  by (cases c; simp)+

lemma executable_conforms:
  "d < maxNestingDepth \<Longrightarrow> utf8_valid (ExeVersion e) \<Longrightarrow> utf8_valid (Commit e) \<Longrightarrow> conforms executableShape d (executableValue e)"
  by (simp add: executableShape_def executableValue_def)

lemma build_conforms:
  assumes "validateBuild b = None" and "d < 9999"
  shows "conforms buildShape d (buildValue b)"
proof -
  have "canonical_digest (BuildAutomationDigest b)" "canonical_digest (BuildContentDigest b)"
    "utf8_valid (ExeVersion (BuildExecutable b))" "utf8_valid (Commit (BuildExecutable b))"
    using assms(1) by (auto simp: validateBuild_def split: if_splits)
  then show ?thesis
    using executable_conforms [of "Suc d" "BuildExecutable b"] assms(2)
    by (simp add: buildShape_def buildValue_def digest_utf8 omitted_def)
qed

lemma in_split_on: "c \<in> set s \<Longrightarrow> c = sep \<or> (\<exists>t\<in>set (split_on sep s). c \<in> set t)"
  by (induction s) (auto split: list.splits)

lemma numerals_utf8: "list_all numeral_text (split_on (CHR ''.'') s) \<Longrightarrow> utf8_valid s"
proof (rule utf8_ascii)
  assume n: "list_all numeral_text (split_on (CHR ''.'') s)"
  have t: "byte_of c < 128" if "numeral_text t" "c \<in> set t" for t c
    using that by (auto simp: numeral_text_def list_all_iff is_digit_def)
  have "byte_of c < 128" if c: "c \<in> set s" for c
    using in_split_on [OF c, of "CHR ''.''"] n t by (auto simp: list_all_iff)
  then show "list_all (\<lambda>c. byte_of c < 128) s" by (simp add: list_all_iff)
qed

lemma closure_conforms:
  assumes "validateClosure (Some c) = None" and "d < maxNestingDepth"
  shows "conforms closureShape d (closureValue c)"
  using assms
  by (simp add: closureShape_def closureValue_def validateClosure_def closureABI_def closureRelease_def digest_utf8
      numerals_utf8 split: if_splits)

lemma failure_conforms: "validFailure a f \<Longrightarrow> d < maxNestingDepth \<Longrightarrow> conforms failureShape d (failureValue f)"
  by (simp add: failureShape_def failureValue_def validFailure_def omitted_def)

lemma warned_conforms: "printable (WarnedKind w) k \<Longrightarrow> printable (WarnedName w) k \<Longrightarrow> d < maxNestingDepth \<Longrightarrow> conforms warnedShape d (warnedValue w)"
  by (simp add: warnedShape_def warnedValue_def printable_utf8)

lemma warning_conforms:
  assumes "validWarning w" and "d < 9999"
  shows "conforms warningShape d (warningValue w)"
proof -
  have "conforms (SPtr warnedShape) (Suc d) (RPointer (map_option warnedValue (WarningOn w)))"
    using assms warned_conforms [of _ _ "Suc d"]
    by (cases "WarningOn w") (auto simp: validWarning_def warnedShape_def simp del: conforms.simps(7))
  moreover have "utf8_valid (WarningCode w)" "utf8_valid (WarningMessage w)"
    using assms(1) by (auto simp: validWarning_def dest: printable_utf8)
  ultimately show ?thesis
    using assms(2) by (simp add: warningShape_def warningValue_def omitted_def del: conforms.simps(5))
qed

definition canonicalRaw :: "char slice \<Rightarrow> bool" where
  "canonicalRaw s \<longleftrightarrow> (case s of None \<Rightarrow> True | Some t \<Rightarrow> canonical_text 1 t)"

lemma attempt_conforms:
  assumes v: "validateAttempt a = None"
    and raw: "canonicalRaw (AttEvidence a)" "elems (Preparation a) = [] \<or> canonicalRaw (Preparation a)"
  shows "conforms attemptShape 0 (attemptValue a)"
proof -
  have f: "AttVersion a = 1" "ValidSegment (AttBlock a)" "Phase a = ''running'' \<or> Phase a = ''observed''"
    "1 \<le> Number a" "Number a \<le> MaxAttempt" "0 \<le> Resolution a" "Resolution a \<le> MaxAttempt"
    "validateBuild (AttBuild a) = None" "validateTimestamps [Started a, AttUpdated a] = None" "phaseCheck a = None"
    "\<And>x. AttFailure a = Some x \<Longrightarrow> validFailure a x" "validWarnings a"
    using v by (auto simp: validateAttempt_def errorOf_def FormatNumber_def split: if_splits sum.splits)
  have o: "utf8_valid (AttOutcome a)" "utf8_valid (Effect a)"
    using f(10) by (auto simp: phaseCheck_def ValidOutcome_def ValidEffectState_def intro!: utf8_ascii split: if_splits)
  have w: "conforms (SSlice warningShape) 1 (RSlice (map_option (map warningValue) (Warnings a)))"
    using f(12) warning_conforms by (cases "Warnings a") (auto simp: validWarnings_def list_all_iff)
  have x: "conforms (SPtr failureShape) 1 (RPointer (map_option failureValue (AttFailure a)))"
    using f(11) failure_conforms by (cases "AttFailure a") (auto simp: failureShape_def simp del: conforms.simps(7))
  have e: "conforms SRaw 1 (RRaw (AttEvidence a))"
    using raw(1) by (auto simp: canonicalRaw_def split: option.splits)
  have p: "elems (Preparation a) \<noteq> [] \<Longrightarrow> conforms SRaw 1 (RRaw (Preparation a))"
    using raw(2) by (auto simp: canonicalRaw_def split: option.splits)
  have t: "utf8_valid (Started a)" "utf8_valid (AttUpdated a)" using timestamps_utf8 [OF f(9)] by simp_all
  have ph: "utf8_valid (Phase a)" using f(3) by (auto intro: utf8_ascii)
  show ?thesis
    using f(1-7) o w x e p t ph segment_utf8 [OF f(2)] build_conforms [OF f(8), of 1]
    unfolding attemptShape_def attemptValue_def
    by (simp add: omitted_def del: conforms.simps(1,5,6))
qed

text \<open>The identifiers whose bytes the callers vouch for.\<close>

definition textual :: "Operation \<Rightarrow> bool" where
  "textual op \<longleftrightarrow>
     list_all utf8_valid ([OpContext op, Revision op, InputDigest op, PlanDigest op, AutomationDigest op,
       ExeVersion (OpExecutable op), Commit (OpExecutable op)] @ elems (Bindings op))"

lemma operation_conforms:
  assumes v: "validateOperation op = None" and t: "textual op"
  shows "conforms operationShape 0 (operationValue op)"
proof -
  have c: "\<forall>c\<in>set (operationChecks op). fst c" "OpVersion op = OperationVersion"
    "validateClosure (OpClosure op) = None" "validateTimestamps [Created op, OpUpdated op] = None"
    using v by (auto simp: validateOperation_def split: if_splits)
  note r = validateOperation_references [OF v]
  note k = c(1) [unfolded operationChecks_def, simplified]
  have n: "utf8_valid []" "utf8_valid Apply" "utf8_valid Destroy" by (simp_all add: utf8_ascii)
  have u: "utf8_valid (OpID op)" "utf8_valid (OpSource op)" "utf8_valid (Replaces op)" "utf8_valid (Predecessor op)"
    using k identity_utf8 n(1) by metis+
  have w: "utf8_valid (OpVerb op)" "utf8_valid (Created op)" "utf8_valid (OpUpdated op)"
    using r(2) n timestamps_utf8 [OF c(4)] by auto
  have s: "ValidOperationState (OpState op)" using k by blast
  then have s: "utf8_valid (OpState op)" by (auto simp: ValidOperationState_def intro: utf8_ascii)
  obtain cl where cl: "OpClosure op = Some cl" "validateClosure (Some cl) = None"
    using c(3) by (cases "OpClosure op") (auto simp: validateClosure_def)
  have p: "conforms (SPtr closureShape) 1 (RPointer (map_option closureValue (OpClosure op)))"
    using closure_conforms [OF cl(2)] by (simp add: cl(1) closureShape_def del: conforms.simps(7))
  have b: "conforms (SSlice SString) 1 (strings (Bindings op))"
    using t by (cases "Bindings op") (auto simp: textual_def list_all_iff)
  have e: "conforms executableShape 1 (executableValue (OpExecutable op))"
    using t by (intro executable_conforms) (simp_all add: textual_def)
  show ?thesis
    using c(2) u w s p b e t unfolding operationShape_def operationValue_def textual_def
    by (simp add: omitted_def del: conforms.simps(5,6))
qed

text \<open>What was written is accepted and read back, for each record.\<close>

lemma decode_attempt:
  assumes "validateAttempt a = None" "canonicalRaw (AttEvidence a)" "elems (Preparation a) = [] \<or> canonicalRaw (Preparation a)"
    and "encode (attemptValue a) MaxAttemptBytes = Inr data"
  shows "map_sum id attemptOf (decodeUnder quote attemptShape data MaxAttemptBytes running) = Inr (attemptStored a)"
  using decodeUnder_encode [OF attempt_conforms [OF assms(1-3)] assms(4)] by (simp add: attempt_read)

lemma decode_operation:
  assumes "validateOperation op = None" and "textual op" and "encode (operationValue op) MaxOperationBytes = Inr data"
  shows "map_sum id operationOf (decodeUnder quote operationShape data MaxOperationBytes running) = Inr op"
  using decodeUnder_encode [OF operation_conforms [OF assms(1,2)] assms(3)] by (simp add: operation_read)

lemma decode_index:
  assumes "validateIndex i = None" and "encode (indexValue i) MaxIndexBytes = Inr data"
  shows "map_sum id indexOf (decodeUnder quote indexShape data MaxIndexBytes running) = Inr i"
proof -
  have "IndexVersion i = 1" "utf8_valid (Current i)"
    using assms(1) by (auto simp: validateIndex_def intro: identity_utf8 split: if_splits)
  from decodeUnder_encode [OF index_conforms [OF this] assms(2)] show ?thesis by (simp add: index_read)
qed

text \<open>A running attempt whose encoding succeeds has no evidence that is not a value.\<close>

lemma those_None: "None \<in> set xs \<Longrightarrow> those xs = None"
  by (induction xs) (auto split: option.splits)

lemma encode_evidence:
  assumes "encode (attemptValue a) n = Inr data"
  shows "AttEvidence a \<noteq> Some []"
proof
  assume "AttEvidence a = Some []"
  moreover have "\<not> json_valid []" by code_simp
  ultimately have "marshal (RRaw (AttEvidence a)) = None" by simp
  then have "marshal (attemptValue a) = None"
    unfolding attemptValue_def marshal.simps by (auto intro!: those_None)
  with assms show False by (simp add: encode_def Encode_def)
qed

lemma decode_running:
  assumes v: "validateAttempt a = None" and r: "Phase a = ''running''" "elems (Preparation a) = []"
    and e: "encode (attemptValue a) MaxAttemptBytes = Inr data"
  shows "map_sum id attemptOf (decodeUnder quote attemptShape data MaxAttemptBytes running) = Inr (attemptStored a)"
proof (rule decode_attempt [OF v _ _ e])
  have "elems (AttEvidence a) = [] \<or> elems (AttEvidence a) = ''null''"
    using v r(1) by (auto simp: validateAttempt_def phaseCheck_def)
  moreover have "canonical_text 1 ''null''" by code_simp
  ultimately show "canonicalRaw (AttEvidence a)"
    using encode_evidence [OF e] by (cases "AttEvidence a") (auto simp: canonicalRaw_def)
qed (use r(2) in simp)

lemma attemptStored_running:
  assumes "validateAttempt a = None" and "Phase a = ''running''"
  shows "validateAttempt (attemptStored a) = None"
proof -
  have p: "phaseCheck (attemptStored a) = None"
    using assms by (cases "AttEvidence a") (auto simp: validateAttempt_def phaseCheck_def attemptStored_def)
  have f: "AttFailure a = None"
    using assms by (cases "AttFailure a") (auto simp: validateAttempt_def validFailure_def)
  have w: "validWarnings (attemptStored a)"
    using assms by (cases "Warnings a") (auto simp: validateAttempt_def validWarnings_def attemptStored_def)
  have l: "length (elems (Preparation (attemptStored a))) \<le> MaxAttemptBytes"
    using assms by (simp add: validateAttempt_def attemptStored_def)
  show ?thesis
    using assms p f w l by (simp add: validateAttempt_def attemptStored_def split: if_split_asm)
qed

end
