(* ===== verification/StoreLaws.thy ===== *)
theory StoreLaws
  imports AttemptStore Conforming
begin

section \<open>Laws of the operation store\<close>

text \<open>
  What the calls of \<open>Store\<close> and \<open>AttemptStore\<close> make of the records of an area. \<open>does\<close> says of a call
  on the records \<open>m\<close> what it returns and leaves, and what it leaves when it fails, at whichever call
  to the area that is. Its rules are weakest preconditions, one for each action, so that a call is
  proved by \<open>intro\<close> with the rules of the calls it makes. The locale \<open>store\<close> is a store on an area
  that keeps its contract, with a clock that leaves the area alone.
\<close>

subsection \<open>Paths\<close>

lemma ValidSegment_segment: "ValidSegment s \<Longrightarrow> segment s"
proof -
  assume "ValidSegment s"
  then have s: "s \<noteq> []" and c: "\<forall>c\<in>set s. alphanumeric c \<or> c = CHR ''-''"
    unfolding ValidSegment_def by (simp, metis in_set_conv_nth)
  have "\<not> alphanumeric (CHR ''/'')" "\<not> alphanumeric (CHR ''.'')"
    by (simp_all add: alphanumeric_def)
  then show "segment s" using s c by (auto simp: segment_def)
qed

lemma ValidOperationID_segment: "ValidOperationID i \<Longrightarrow> segment i"
proof -
  assume "ValidOperationID i"
  then obtain h where h: "i = operationIDPrefix @ h" "list_all lower_hex h"
    by (auto simp: ValidOperationID_def validIdentity_iff)
  have "\<not> lower_hex (CHR ''/'')" by (simp add: lower_hex_def)
  then have "CHR ''/'' \<notin> set h" using h(2) by (auto simp: list_all_iff)
  then show "segment i" by (simp add: h(1) segment_def)
qed

lemma FormatNumber_digits: "FormatNumber n = Inr s \<Longrightarrow> length s = 6 \<and> list_all is_digit s"
proof -
  assume f: "FormatNumber n = Inr s"
  then have n: "1 \<le> n" "n \<le> MaxAttempt" and s: "s = decimal_padded 6 (nat n)"
    by (auto simp: FormatNumber_def split: if_splits)
  have "length s = 6" using n unfolding s by (intro length_decimal_padded) simp_all
  moreover have "list_all is_digit s"
    using decimal_digits [of "nat n"] by (auto simp: s decimal_padded_def list_all_iff is_digit_def)
  ultimately show ?thesis by simp
qed

lemma FormatNumber_inj: "FormatNumber n = Inr s \<Longrightarrow> FormatNumber k = Inr s \<Longrightarrow> n = k"
  by (auto dest!: ParseNumber_Format)

lemma digits_no_slash: "list_all is_digit s \<Longrightarrow> CHR ''/'' \<notin> set s \<and> CHR ''-'' \<notin> set s"
proof -
  have "\<not> is_digit (CHR ''/'')" "\<not> is_digit (CHR ''-'')" by (simp_all add: is_digit_def)
  then show "list_all is_digit s \<Longrightarrow> ?thesis" unfolding list_all_iff by blast
qed

lemma attemptName_segment: "FormatNumber n = Inr s \<Longrightarrow> segment (attemptName s)"
  by (auto simp: attemptName_def segment_def dest!: FormatNumber_digits digits_no_slash)

lemma resolutionName_segment:
  "FormatNumber n = Inr s \<Longrightarrow> FormatNumber k = Inr t \<Longrightarrow> segment (resolutionPrefix s @ t @ ''.json'')"
  by (auto simp: resolutionPrefix_def segment_def dest!: FormatNumber_digits digits_no_slash)

text \<open>The paths of the records of valid identities are pairwise distinct.\<close>

lemma fixed_segments [simp]:
  "segment ''blocks''" "segment ''state.json''" "segment ''operation.json''" "segment ''plan.json''" "segment ''index.json''"
  by (simp_all add: segment_def)

lemma names_differ [simp]:
  "attemptName s \<noteq> ''state.json''" "resolutionPrefix s @ r \<noteq> ''state.json''"
  by (simp_all add: attemptName_def resolutionPrefix_def)

lemma index_path: "indexPath = path_join [''index.json'']"
  by (simp add: indexPath_def path_join_segments)

lemmas record_paths = index_path operationPath_def planPath_def blockPath_def attemptPath_def resolutionPath_def

lemma blockPath_eq:
  assumes "ValidOperationID i" and "ValidSegment b" and "ValidOperationID j" and "ValidSegment c"
  shows "blockPath i b = blockPath j c \<longleftrightarrow> i = j \<and> b = c"
  using assms
  by (simp add: record_paths join_segments_eq ValidSegment_segment ValidOperationID_segment)

lemma blockPath_distinct:
  assumes "ValidOperationID i" and "ValidSegment b" and "ValidOperationID j"
  shows "blockPath i b \<noteq> indexPath" "blockPath i b \<noteq> operationPath j" "blockPath i b \<noteq> planPath j"
  using assms
  by (simp_all add: record_paths join_segments_eq ValidSegment_segment ValidOperationID_segment)

lemma attemptPath_distinct:
  assumes "ValidOperationID i" and "ValidSegment b" and "ValidOperationID j" and "ValidSegment c" and "FormatNumber n = Inr s"
  shows "attemptPath i b s \<noteq> blockPath j c" "attemptPath i b s \<noteq> indexPath"
  using assms
  by (simp_all add: record_paths join_segments_eq ValidSegment_segment ValidOperationID_segment attemptName_segment)

lemma resolutionPath_distinct:
  assumes "ValidOperationID i" and "ValidSegment b" and "ValidOperationID j" and "ValidSegment c" and "FormatNumber n = Inr s"
    and "FormatNumber k = Inr t"
  shows "resolutionPath i b s t \<noteq> blockPath j c" "resolutionPath i b s t \<noteq> indexPath"
  using assms
  by (simp_all add: record_paths join_segments_eq ValidSegment_segment ValidOperationID_segment resolutionName_segment)

subsection \<open>Deeper descents\<close>

text \<open>More fuel never changes what a measure of the area returns.\<close>

lemma bindA_Inr: "bindA f g s = (Inr b, t) \<longleftrightarrow> (\<exists>a u. f s = (Inr a, u) \<and> g a u = (Inr b, t))"
  by (auto simp: bindA_def split: prod.splits sum.splits)

lemma heldLoop_more:
  assumes "\<And>p s x t. nested p s = (Inr x, t) \<Longrightarrow> deeper p s = (Inr x, t)"
  shows "heldLoop nested target skip es n z s = (Inr x, t) \<Longrightarrow> heldLoop deeper target skip es n z s = (Inr x, t)"
proof (induction es arbitrary: n z s)
  case (Cons e es)
  then show ?case
    by (auto simp: Let_def bindA_Inr split: if_splits prod.splits) (use assms in blast)+
qed simp

lemma held_enough: "heldUnder n cfg skip p s = (Inr x, t) \<Longrightarrow> heldUnder (n + k) cfg skip p s = (Inr x, t)"
proof (induction n arbitrary: p s x t)
  case (Suc n)
  then obtain es u where "onArea (areaEntries (storeArea cfg) p) s = (Inr es, u)"
    "heldLoop (heldUnder n cfg skip) p skip es 0 0 u = (Inr x, t)"
    by (auto simp: bindA_Inr)
  then show ?case using heldLoop_more [OF Suc.IH] by (simp add: bindA_Inr)
qed (simp add: failA_def)

subsection \<open>What a call makes of the records\<close>

type_synonym recordsOf = "string \<rightharpoonup> string"

definition doesOn ::
  "('w \<Rightarrow> recordsOf) \<Rightarrow> ('w \<Rightarrow> bool) \<Rightarrow> recordsOf \<Rightarrow> ('w Store, 'a) action \<Rightarrow> ('a \<Rightarrow> recordsOf \<Rightarrow> bool) \<Rightarrow> (recordsOf \<Rightarrow> bool) \<Rightarrow> bool" where
  "doesOn recs invar m f Q E \<longleftrightarrow>
     runs (\<lambda>s. invar (world s) \<and> recs (world s) = m) f
       (\<lambda>a s. invar (world s) \<and> Q a (recs (world s))) (\<lambda>_ s. invar (world s) \<and> E (recs (world s)))"

lemma doesOn_Inr:
  "doesOn recs invar (recs (world s)) f Q E \<Longrightarrow> invar (world s) \<Longrightarrow> f s = (Inr a, s') \<Longrightarrow> Q a (recs (world s'))"
  unfolding doesOn_def by (drule runs_Inr) auto

lemma doesOn_case:
  assumes d: "doesOn recs invar (recs (world s)) f Q E" and i: "invar (world s)"
  shows "case f s of (Inr a, s') \<Rightarrow> Q a (recs (world s')) | (Inl e, s') \<Rightarrow> E (recs (world s'))"
proof -
  obtain r s' where f: "f s = (r, s')" by (cases "f s")
  show ?thesis
  proof (cases r)
    case (Inl e)
    then have "f s = (Inl e, s')" using f by simp
    from runs_Inl [OF d [unfolded doesOn_def] _ this] have "E (recs (world s'))" using i by simp
    then show ?thesis using f Inl by simp
  next
    case (Inr a)
    then have "f s = (Inr a, s')" using f by simp
    from runs_Inr [OF d [unfolded doesOn_def] _ this] have "Q a (recs (world s'))" using i by simp
    then show ?thesis using f Inr by simp
  qed
qed

lemma doesOn_any:
  assumes "doesOn recs invar (recs (world s)) f (\<lambda>_. I) I" and "invar (world s)" and "f s = (r, s')"
  shows "invar (world s') \<and> I (recs (world s'))"
proof (cases r)
  case (Inl e)
  then show ?thesis using assms unfolding doesOn_def by (auto dest!: runs_Inl)
next
  case (Inr a)
  then show ?thesis using assms unfolding doesOn_def by (auto dest!: runs_Inr)
qed

text \<open>What a block's record reads as, and whether there is one.\<close>

definition blockRead :: "'w StoreConfig \<Rightarrow> recordsOf \<Rightarrow> string \<Rightarrow> string \<Rightarrow> BlockRecord \<Rightarrow> bool \<Rightarrow> bool" where
  "blockRead cfg m i b r recorded \<longleftrightarrow>
     (case m (blockPath i b) of
        None \<Rightarrow> \<not> recorded \<and> r = \<lparr>RecVersion = 1, RecBlock = b, RecState = BlockPending, Attempts = 0\<rparr>
      | Some d \<Rightarrow>
          recorded \<and> validateBlock r = None \<and> RecBlock r = b \<and>
          (\<exists>v. decodeUnder (quoting cfg) blockShape d MaxAttemptBytes (runningBuild cfg) = Inr v \<and> r = blockOf v))"

text \<open>A listing names the records of a directory.\<close>

definition lists :: "recordsOf \<Rightarrow> string \<Rightarrow> Entry list \<Rightarrow> bool" where
  "lists m p es \<longleftrightarrow>
     (\<forall>n. p \<noteq> [] \<longrightarrow> n \<noteq> [] \<longrightarrow> CHR ''/'' \<notin> set n \<longrightarrow>
        (m (p @ ''/'' @ n) \<noteq> None \<longleftrightarrow> (\<exists>e\<in>set es. EntryName e = n \<and> \<not> Directory e)))"

named_theorems store_rules \<open>what the calls of a store make of the records\<close>

locale store = area "storeArea cfg" recs invar
  for cfg :: "'w StoreConfig" and recs :: "'w \<Rightarrow> string \<rightharpoonup> string" and invar :: "'w \<Rightarrow> bool" +
  assumes clock_keeps: "clock cfg = Some c \<Longrightarrow> invar w \<Longrightarrow> c w = (t, w') \<Longrightarrow> invar w' \<and> recs w' = recs w"
begin

abbreviation "does \<equiv> doesOn recs invar"

lemma does_weaken:
  assumes "does m f Q' E'" and "\<And>a m'. Q' a m' \<Longrightarrow> Q a m'" and "\<And>m'. E' m' \<Longrightarrow> E m'"
  shows "does m f Q E"
  using assms(1) unfolding doesOn_def by (rule runs_weaken) (use assms(2,3) in auto)

lemma does_bind [store_rules]:
  assumes "does m f (\<lambda>a m'. does m' (g a) Q E) E"
  shows "does m (bindA f g) Q E"
  unfolding doesOn_def
proof (rule runs_bind)
  show "runs (\<lambda>s. invar (world s) \<and> recs (world s) = m) f (\<lambda>a s. invar (world s) \<and> does (recs (world s)) (g a) Q E)
      (\<lambda>_ s. invar (world s) \<and> E (recs (world s)))"
    using assms unfolding doesOn_def .
  show "runs (\<lambda>s. invar (world s) \<and> does (recs (world s)) (g a) Q E) (g a) (\<lambda>a s. invar (world s) \<and> Q a (recs (world s)))
      (\<lambda>_ s. invar (world s) \<and> E (recs (world s)))" for a
    by (auto simp: doesOn_def runs_def)
qed

lemma does_then [store_rules]: "does m f (\<lambda>_ m'. does m' g Q E) E \<Longrightarrow> does m (thenA f g) Q E"
  unfolding thenA_def by (rule does_bind)

lemma does_return [store_rules]: "Q a m \<Longrightarrow> does m (returnA a) Q E"
  unfolding doesOn_def by (rule runs_return) simp

lemma does_fail [store_rules]: "E m \<Longrightarrow> does m (failA e) Q E"
  unfolding doesOn_def by (rule runs_fail) simp

lemma does_refused [store_rules]: "E m \<Longrightarrow> does m (refused e) Q E"
  unfolding refused_def by (rule does_fail)

lemma does_get [store_rules]: "(\<And>x. Q x m) \<Longrightarrow> does m (getA f) Q E"
  unfolding doesOn_def by (rule runs_get) simp

lemma does_modify: "(\<And>s. world (f s) = world s) \<Longrightarrow> Q () m \<Longrightarrow> does m (modifyA f) Q E"
  unfolding doesOn_def by (rule runs_modify) simp

lemma does_remember [store_rules]: "Q () m \<Longrightarrow> does m (remember p d) Q E"
  unfolding remember_def by (rule does_modify) simp

lemma does_expectation [store_rules]: "(\<And>x. Q x m) \<Longrightarrow> does m (expectation p) Q E"
  unfolding expectation_def by (rule does_get)

lemma does_refuse [store_rules]: "(e = None \<Longrightarrow> Q () m) \<Longrightarrow> E m \<Longrightarrow> does m (refuse e) Q E"
  unfolding doesOn_def by (rule runs_refuse) auto

lemma does_lift [store_rules]: "(\<And>a. r = Inr a \<Longrightarrow> Q a m) \<Longrightarrow> E m \<Longrightarrow> does m (liftR r) Q E"
  unfolding doesOn_def by (rule runs_lift) auto

lemma does_stop [store_rules]: "(e = None \<Longrightarrow> Q () m) \<Longrightarrow> E m \<Longrightarrow> does m (stopWith e) Q E"
  by (cases e) (simp_all add: stopWith_def does_return does_fail)

lemma does_if [store_rules]: "(c \<Longrightarrow> does m f Q E) \<Longrightarrow> (\<not> c \<Longrightarrow> does m g Q E) \<Longrightarrow> does m (if c then f else g) Q E"
  by simp

lemma does_let [store_rules]: "does m (f x) Q E \<Longrightarrow> does m (let y = x in f y) Q E"
  by simp

lemma does_option [store_rules]:
  "(x = None \<Longrightarrow> does m f Q E) \<Longrightarrow> (\<And>a. x = Some a \<Longrightarrow> does m (g a) Q E) \<Longrightarrow> does m (case x of None \<Rightarrow> f | Some a \<Rightarrow> g a) Q E"
  by (cases x) simp_all

lemma does_sum [store_rules]:
  "(\<And>e. x = Inl e \<Longrightarrow> does m (f e) Q E) \<Longrightarrow> (\<And>a. x = Inr a \<Longrightarrow> does m (g a) Q E) \<Longrightarrow>
   does m (case x of Inl e \<Rightarrow> f e | Inr a \<Rightarrow> g a) Q E"
  by (cases x) simp_all

lemma does_prod [store_rules]: "(\<And>a b. x = (a, b) \<Longrightarrow> does m (f a b) Q E) \<Longrightarrow> does m (case x of (a, b) \<Rightarrow> f a b) Q E"
  by (cases x) simp

lemma does_fold:
  assumes "\<And>x acc m. x \<in> set xs \<Longrightarrow> I acc m \<Longrightarrow> does m (f x acc) I E" and "I acc m" and "\<And>acc m. I acc m \<Longrightarrow> Q acc m"
  shows "does m (foldA f xs acc) Q E"
proof (rule does_weaken)
  show "does m (foldA f xs acc) I E"
    using assms(1,2)
  proof (induction xs arbitrary: acc m)
    case (Cons x xs)
    have "does m (f x acc) (\<lambda>a m'. does m' (foldA f xs a) I E) E"
      by (rule does_weaken [OF Cons.prems(1)]) (use Cons in auto)
    then show ?case by (simp add: does_bind)
  qed (simp add: does_return)
qed (use assms(3) in auto)

lemma does_area:
  assumes "\<And>w r w'. invar w \<Longrightarrow> recs w = m \<Longrightarrow> f w = (r, w') \<Longrightarrow>
      invar w' \<and> (case r of Inr a \<Rightarrow> Q a (recs w') | Inl _ \<Rightarrow> E (recs w'))"
  shows "does m (onArea f) Q E"
  unfolding doesOn_def
proof (rule runsI)
  fix s :: "'w Store"
  assume s: "invar (world s) \<and> recs (world s) = m"
  obtain r w where f: "f (world s) = (r, w)" by (cases "f (world s)")
  show "case onArea f s of (Inr a, s') \<Rightarrow> invar (world s') \<and> Q a (recs (world s')) | (Inl e, s') \<Rightarrow> invar (world s') \<and> E (recs (world s'))"
    using assms [of "world s" r w] s f by (cases r) (simp_all add: onArea_def)
qed

lemma does_read [store_rules]: "Q (m p) m \<Longrightarrow> E m \<Longrightarrow> does m (onArea (areaRead (storeArea cfg) p n)) Q E"
  by (rule does_area, drule (1) read) (auto split: sum.splits)

lemma does_entries [store_rules]:
  assumes "\<And>es. lists m p es \<Longrightarrow> Q es m" and "E m"
  shows "does m (onArea (areaEntries (storeArea cfg) p)) Q E"
proof (rule does_area)
  fix w r w'
  assume w: "invar w" "recs w = m" "areaEntries (storeArea cfg) p w = (r, w')"
  then have k: "invar w' \<and> recs w' = m" using entries by metis
  show "invar w' \<and> (case r of Inr a \<Rightarrow> Q a (recs w') | Inl _ \<Rightarrow> E (recs w'))"
  proof (cases r)
    case (Inr es)
    have "Q es m"
      by (rule assms(1)) (use entries_list [OF w(1)] w Inr in \<open>auto simp: lists_def\<close>)
    then show ?thesis using k Inr by simp
  qed (use k assms(2) in simp)
qed

lemma does_ensure [store_rules]: "Q () m \<Longrightarrow> E m \<Longrightarrow> does m (onArea (areaEnsureDirectory (storeArea cfg) p)) Q E"
  by (rule does_area, drule (1) ensure) (auto split: sum.splits)

lemma does_removeDirectory [store_rules]: "Q () m \<Longrightarrow> E m \<Longrightarrow> does m (onArea (areaRemoveDirectory (storeArea cfg) p)) Q E"
  by (rule does_area, drule (1) remove_directory) (auto split: sum.splits)

lemma does_write [store_rules]:
  assumes "m p = None \<Longrightarrow> Q () (m(p \<mapsto> d))" and "m p = None \<Longrightarrow> E (m(p \<mapsto> d))" and "E m"
  shows "does m (onArea (areaWriteExclusive (storeArea cfg) p d)) Q E"
  by (rule does_area, drule (1) write_exclusive) (use assms in \<open>auto split: sum.splits\<close>)

lemma does_replace [store_rules]:
  assumes "m p = x \<Longrightarrow> Q () (m(p \<mapsto> d))" and "m p = x \<Longrightarrow> E (m(p \<mapsto> d))" and "E m"
  shows "does m (onArea (areaReplace (storeArea cfg) p d x)) Q E"
  by (rule does_area, drule (1) replace) (use assms in \<open>auto split: sum.splits\<close>)

lemma does_now [store_rules]:
  assumes "\<And>t. validateTimestamps [t] = None \<Longrightarrow> Q t m" and "E m"
  shows "does m (now cfg) Q E"
proof (cases "clock cfg")
  case (Some c)
  have "does m (onArea (\<lambda>w. case c w of (t, w') \<Rightarrow> (Inr t, w'))) (\<lambda>t m'. does m' (thenA (refuse (validateTimestamps [t])) (returnA t)) Q E) E"
    by (rule does_area) (use clock_keeps [OF Some] assms in \<open>auto split: prod.splits intro!: store_rules\<close>)
  then show ?thesis by (simp add: now_def Some does_bind)
qed (use assms in \<open>auto simp: now_def intro: store_rules\<close>)

lemma does_decoded [store_rules]:
  "(\<And>v. decodeUnder (quoting cfg) sh d n (runningBuild cfg) = Inr v \<Longrightarrow> Q v m) \<Longrightarrow> E m \<Longrightarrow> does m (decoded cfg sh d n) Q E"
  unfolding decoded_def by (rule does_lift)

subsection \<open>Calls that read\<close>

lemma does_readIndex [store_rules]: "(\<And>i. validateIndex i = None \<Longrightarrow> Q i m) \<Longrightarrow> E m \<Longrightarrow> does m (readIndex cfg) Q E"
  unfolding readIndex_def by (intro store_rules) (auto simp: validateIndex_def)

lemma does_heldLoop:
  assumes "\<And>p Q E. (\<And>a. Q a m) \<Longrightarrow> E m \<Longrightarrow> does m (nested p) Q E" and "\<And>a. Q a m" and "E m"
  shows "does m (heldLoop nested p skip es n z) Q E"
proof (induction es arbitrary: n z)
  case (Cons e es)
  then show ?case
    unfolding heldLoop.simps by (intro store_rules assms(1)) (auto intro: assms)
qed (auto intro: store_rules assms)

lemma does_heldUnder: "(\<And>a. Q a m) \<Longrightarrow> E m \<Longrightarrow> does m (heldUnder n cfg skip p) Q E"
proof (induction n arbitrary: p Q E)
  case (Suc n)
  then show ?case
    unfolding heldUnder.simps by (intro store_rules does_heldLoop) auto
qed (auto intro: store_rules)

lemma does_held [store_rules]: "(\<And>a. Q a m) \<Longrightarrow> E m \<Longrightarrow> does m (held cfg p skip) Q E"
  unfolding held_def by (rule does_heldUnder)

lemma does_Claimed [store_rules]: "(\<And>a. Q a m) \<Longrightarrow> E m \<Longrightarrow> does m (Claimed cfg) Q E"
  unfolding Claimed_def by (intro store_rules) auto

lemma does_readOperation [store_rules]:
  assumes "\<And>op d v. ValidOperationID i \<Longrightarrow> m (operationPath i) = Some d \<Longrightarrow>
      decodeUnder (quoting cfg) operationShape d MaxOperationBytes (runningBuild cfg) = Inr v \<Longrightarrow> op = operationOf v \<Longrightarrow>
      validateOperation op = None \<Longrightarrow> OpID op = i \<Longrightarrow> Q (op, d) m" and "E m"
  shows "does m (readOperation cfg i) Q E"
  unfolding readOperation_def by (intro store_rules) (use assms in auto)

lemma does_ReadOperation [store_rules]:
  "(\<And>op. validateOperation op = None \<Longrightarrow> OpID op = i \<Longrightarrow> Q op m) \<Longrightarrow> E m \<Longrightarrow> does m (ReadOperation cfg i) Q E"
  unfolding ReadOperation_def by (intro store_rules) auto

text \<open>A plan that is read back is one that can be frozen, and the one its operation recorded.\<close>

lemma does_ReadPlan [store_rules]:
  assumes "\<And>plan op rebuilt v d. NewPlan (PlanVerb plan) (definitions plan) = Inr rebuilt \<Longrightarrow> Digest rebuilt = Inr (PlanDigest op) \<Longrightarrow>
      Digest plan = Inr (PlanDigest op) \<Longrightarrow> OpVerb op = PlanVerb plan \<Longrightarrow> OpID op = i \<Longrightarrow> validateOperation op = None \<Longrightarrow>
      checkPredecessor op plan = None \<Longrightarrow> m (operationPath i) = Some d \<Longrightarrow>
      decodeUnder (quoting cfg) operationShape d MaxOperationBytes (runningBuild cfg) = Inr v \<Longrightarrow> op = operationOf v \<Longrightarrow>
      Q plan m" and "E m"
  shows "does m (ReadPlan cfg i) Q E"
  unfolding ReadPlan_def by (intro store_rules) (use assms in auto)

lemma does_predecessors [store_rules]: "(\<And>a. Q a m) \<Longrightarrow> E m \<Longrightarrow> does m (predecessors n cfg seen i) Q E"
proof (induction n arbitrary: seen i Q E)
  case 0
  then show ?case by (subst predecessors.simps, simp only: nat.case) (intro store_rules, auto)
next
  case (Suc n)
  then show ?case by (subst predecessors.simps, simp only: nat.case) (intro store_rules Suc.IH, auto)
qed

lemma does_lineageRemoval [store_rules]: "(\<And>a. Q a m) \<Longrightarrow> E m \<Longrightarrow> does m (lineageRemoval cfg own i plan) Q E"
  unfolding lineageRemoval_def by (intro store_rules) auto

lemma does_admitArea [store_rules]: "(\<And>a. Q a m) \<Longrightarrow> E m \<Longrightarrow> does m (admitArea cfg i plan j n) Q E"
  unfolding admitArea_def by (intro store_rules) auto

lemma does_ensureOperation [store_rules]: "Q () m \<Longrightarrow> E m \<Longrightarrow> does m (ensureOperation cfg i) Q E"
  unfolding ensureOperation_def by (rule does_fold [where I = "\<lambda>_ m'. m' = m"]) (auto intro: store_rules)

lemma does_readBlockRecord [store_rules]:
  assumes "\<And>r recorded. blockRead cfg m i b r recorded \<Longrightarrow> Q (r, recorded) m" and "E m"
  shows "does m (readBlockRecord cfg i b) Q E"
  unfolding readBlockRecord_def by (intro store_rules) (use assms in \<open>auto simp: blockRead_def\<close>)

lemma does_readBlock [store_rules]:
  "(\<And>r recorded. blockRead cfg m i b r recorded \<Longrightarrow> Q r m) \<Longrightarrow> E m \<Longrightarrow> does m (readBlock cfg i b) Q E"
  unfolding readBlock_def by (intro store_rules) auto

lemma does_readBlockStates [store_rules]: "(\<And>a. Q a m) \<Longrightarrow> E m \<Longrightarrow> does m (readBlockStates cfg i plan) Q E"
  unfolding readBlockStates_def by (rule does_fold [where I = "\<lambda>_ m'. m' = m"]) (auto intro!: store_rules)

lemma does_readAttempt [store_rules]:
  assumes "m p = None \<Longrightarrow> Q None m"
    and "\<And>d v. m p = Some d \<Longrightarrow> decodeUnder (quoting cfg) attemptShape d MaxAttemptBytes (runningBuild cfg) = Inr v \<Longrightarrow>
      Q (Some (attemptOf v, d)) m" and "E m"
  shows "does m (readAttempt cfg p) Q E"
  unfolding readAttempt_def by (intro store_rules) (use assms in auto)

lemma does_readAttemptRecord [store_rules]: "(\<And>a. Q a m) \<Longrightarrow> E m \<Longrightarrow> does m (readAttemptRecord cfg i b n) Q E"
  unfolding readAttemptRecord_def by (intro store_rules) auto

lemma does_LostBlockRecords [store_rules]: "(\<And>a. Q a m) \<Longrightarrow> E m \<Longrightarrow> does m (LostBlockRecords cfg i plan) Q E"
  unfolding LostBlockRecords_def by (rule does_fold [where I = "\<lambda>_ m'. m' = m"]) (auto intro!: store_rules)

lemma does_adoptable [store_rules]:
  assumes "\<And>a v. recorded \<Longrightarrow> decodeUnder (quoting cfg) attemptShape d MaxAttemptBytes (runningBuild cfg) = Inr v \<Longrightarrow>
      a = attemptOf v \<Longrightarrow> validateAttempt a = None \<Longrightarrow> AttBlock a = b \<Longrightarrow> Number a = n \<Longrightarrow> Resolution a = 0 \<Longrightarrow>
      Phase a = ''running'' \<Longrightarrow> elems (Preparation a) = [] \<Longrightarrow> Q a m" and "E m"
  shows "does m (adoptable cfg i b n recorded d) Q E"
  unfolding adoptable_def by (intro store_rules) (use assms in auto)

lemma does_LastAttempt [store_rules]: "(\<And>a. Q a m) \<Longrightarrow> E m \<Longrightarrow> does m (LastAttempt cfg i b) Q E"
  unfolding LastAttempt_def by (intro store_rules) auto

lemma does_holdsNothing [store_rules]: "(\<And>a. Q a m) \<Longrightarrow> E m \<Longrightarrow> does m (holdsNothing cfg i) Q E"
  unfolding holdsNothing_def
  by (intro store_rules does_fold [where I = "\<lambda>_ m'. m' = m"]) (auto intro!: store_rules split: option.splits)

lemma does_eachIdle:
  assumes "\<And>i cs Q E. Q () m \<Longrightarrow> E m \<Longrightarrow> does m (visit i cs) Q E" and "\<And>a. Q a m" and "E m"
  shows "does m (eachIdle cfg visit) Q E"
  unfolding eachIdle_def
  by (intro store_rules does_fold [where I = "\<lambda>_ m'. m' = m"]) (auto intro!: store_rules assms)

text \<open>Neither listing nor removing idle directories changes a record.\<close>

lemma does_Reclaim [store_rules]: "(\<And>a. Q a m) \<Longrightarrow> E m \<Longrightarrow> does m (Reclaim cfg) Q E"
  unfolding Reclaim_def
  by (intro does_eachIdle store_rules does_fold [where I = "\<lambda>_ m'. m' = m"]) (auto intro!: store_rules)

lemma does_Idle [store_rules]: "(\<And>a. Q a m) \<Longrightarrow> E m \<Longrightarrow> does m (Idle cfg) Q E"
  unfolding Idle_def by (intro does_eachIdle store_rules) auto

lemma does_StartedBlocks [store_rules]: "(\<And>a. Q a m) \<Longrightarrow> E m \<Longrightarrow> does m (StartedBlocks cfg i) Q E"
  unfolding StartedBlocks_def by (intro store_rules) auto

lemma does_resolutions [store_rules]: "(\<And>a. Q a m) \<Longrightarrow> E m \<Longrightarrow> does m (resolutions cfg i plan b) Q E"
  unfolding resolutions_def by (intro store_rules) auto

lemma does_removalReserve [store_rules]: "(\<And>a. Q a m) \<Longrightarrow> E m \<Longrightarrow> does m (removalReserve cfg op plan) Q E"
  unfolding removalReserve_def by (intro store_rules does_modify) auto

lemma does_keptFor [store_rules]: "(\<And>a. Q a m) \<Longrightarrow> E m \<Longrightarrow> does m (keptFor cfg op plan b removal) Q E"
  unfolding keptFor_def by (intro store_rules) auto

lemma does_AdmitAttempt [store_rules]: "Q () m \<Longrightarrow> E m \<Longrightarrow> does m (AdmitAttempt cfg op plan b removal) Q E"
  unfolding AdmitAttempt_def by (intro store_rules does_modify) auto

lemma does_outputRoom [store_rules]: "(\<And>a. Q a m) \<Longrightarrow> E m \<Longrightarrow> does m (outputRoom cfg n) Q E"
  unfolding outputRoom_def by (intro store_rules does_modify) auto

end

end
