(* ===== verification/Publication.thy ===== *)
theory Publication
  imports StoreLaws
begin

section \<open>The order in which the store publishes\<close>

text \<open>
  An abstract view of the store: \<open>recordStep\<close> is one durable write, with what holds of the records
  when it is made. A block's record exists before its attempts, an attempt's record before the
  block counts it, a plan and an operation before the index names them; an attempt's record changes
  only while it is running. Every call of the store is a sequence of such writes, whichever call to
  the area fails (\<open>calls_publish\<close>), so what the writes keep holds after every sequence of calls.
\<close>

definition decodedBlock :: "'w StoreConfig \<Rightarrow> string \<Rightarrow> BlockRecord \<Rightarrow> bool" where
  "decodedBlock cfg d r \<longleftrightarrow>
     (\<exists>v. decodeUnder (quoting cfg) blockShape d MaxAttemptBytes (runningBuild cfg) = Inr v \<and> r = blockOf v) \<and>
     validateBlock r = None"

definition decodedAttempt :: "'w StoreConfig \<Rightarrow> string \<Rightarrow> Attempt \<Rightarrow> bool" where
  "decodedAttempt cfg d a \<longleftrightarrow>
     (\<exists>v. decodeUnder (quoting cfg) attemptShape d MaxAttemptBytes (runningBuild cfg) = Inr v \<and> a = attemptOf v)"

definition decodedIndex :: "'w StoreConfig \<Rightarrow> string \<Rightarrow> Index \<Rightarrow> bool" where
  "decodedIndex cfg d x \<longleftrightarrow>
     (\<exists>v. decodeUnder (quoting cfg) indexShape d MaxIndexBytes (runningBuild cfg) = Inr v \<and> x = indexOf v)"

text \<open>The record of an attempt that runs under a build and whose effect has not begun.\<close>

definition startedRecord :: "'w StoreConfig \<Rightarrow> string \<Rightarrow> int \<Rightarrow> Build \<Rightarrow> string \<Rightarrow> bool" where
  "startedRecord cfg b n build d \<longleftrightarrow>
     (\<exists>a. decodedAttempt cfg d a \<and> validateAttempt a = None \<and> AttBlock a = b \<and> Number a = n \<and> Resolution a = 0 \<and>
        Phase a = ''running'' \<and> elems (Preparation a) = [] \<and> AttBuild a = build)"

text \<open>Where the record of an attempt is, and that of each of its resolutions.\<close>

definition recordPath :: "string \<Rightarrow> string \<Rightarrow> int \<Rightarrow> int \<Rightarrow> string \<Rightarrow> bool" where
  "recordPath i b n k p \<longleftrightarrow>
     (\<exists>s. FormatNumber n = Inr s \<and>
        (k = 0 \<and> p = attemptPath i b s \<or> (\<exists>t. FormatNumber k = Inr t \<and> p = resolutionPath i b s t)))"

abbreviation sameAttempt :: "Attempt \<Rightarrow> Attempt \<Rightarrow> bool" where
  "sameAttempt a a' \<equiv> AttBlock a' = AttBlock a \<and> Number a' = Number a \<and> Resolution a' = Resolution a \<and>
     Removal a' = Removal a \<and> AttBuild a' = AttBuild a \<and> Started a' = Started a"

inductive recordStep :: "'w StoreConfig \<Rightarrow> recordsOf \<Rightarrow> recordsOf \<Rightarrow> bool" for cfg where
  pend: "ValidOperationID i \<Longrightarrow> ValidSegment b \<Longrightarrow> m (blockPath i b) = None \<Longrightarrow>
    decodedBlock cfg d \<lparr>RecVersion = 1, RecBlock = b, RecState = BlockPending, Attempts = 0\<rparr> \<Longrightarrow>
    recordStep cfg m (m(blockPath i b \<mapsto> d))"
| start: "ValidOperationID i \<Longrightarrow> ValidSegment b \<Longrightarrow> blockRead cfg m i b r True \<Longrightarrow> FormatNumber (Attempts r + 1) = Inr s \<Longrightarrow>
    (\<forall>old. m (attemptPath i b s) = Some old \<longrightarrow> (\<exists>earlier. startedRecord cfg b (Attempts r + 1) earlier old)) \<Longrightarrow>
    startedRecord cfg b (Attempts r + 1) build d \<Longrightarrow> recordStep cfg m (m(attemptPath i b s \<mapsto> d))"
| counted: "ValidOperationID i \<Longrightarrow> ValidSegment b \<Longrightarrow> blockRead cfg m i b r True \<Longrightarrow> FormatNumber (Attempts r + 1) = Inr s \<Longrightarrow>
    m (attemptPath i b s) = Some p \<Longrightarrow> startedRecord cfg b (Attempts r + 1) build p \<Longrightarrow>
    decodedBlock cfg d (r\<lparr>Attempts := Attempts r + 1, RecState := BlockRunning\<rparr>) \<Longrightarrow>
    recordStep cfg m (m(blockPath i b \<mapsto> d))"
| prepared: "ValidOperationID i \<Longrightarrow> ValidSegment b \<Longrightarrow> recordPath i b n 0 p \<Longrightarrow> m p = Some old \<Longrightarrow>
    decodedAttempt cfg old a \<Longrightarrow> Phase a = ''running'' \<Longrightarrow> AttBlock a = b \<Longrightarrow> Number a = n \<Longrightarrow> Resolution a = 0 \<Longrightarrow>
    elems (Preparation a) = [] \<Longrightarrow> Phase a' = ''running'' \<Longrightarrow> sameAttempt a a' \<Longrightarrow> validateAttempt a' = None \<Longrightarrow>
    encode (attemptValue a') MaxAttemptBytes = Inr d \<Longrightarrow> recordStep cfg m (m(p \<mapsto> d))"
| observed: "ValidOperationID i \<Longrightarrow> ValidSegment b \<Longrightarrow> recordPath i b n k p \<Longrightarrow> m p = Some old \<Longrightarrow>
    decodedAttempt cfg old a \<Longrightarrow> Phase a = ''running'' \<Longrightarrow> AttBlock a = b \<Longrightarrow> Number a = n \<Longrightarrow> Resolution a = k \<Longrightarrow>
    Phase a' = ''observed'' \<Longrightarrow> sameAttempt a a' \<Longrightarrow> Preparation a' = Preparation a \<Longrightarrow> validateAttempt a' = None \<Longrightarrow>
    encode (attemptValue a') MaxAttemptBytes = Inr d \<Longrightarrow> recordStep cfg m (m(p \<mapsto> d))"
| settled: "ValidOperationID i \<Longrightarrow> ValidSegment b \<Longrightarrow> blockRead cfg m i b r recorded \<Longrightarrow>
    decodedBlock cfg d (r\<lparr>RecState := state\<rparr>) \<Longrightarrow> recordStep cfg m (m(blockPath i b \<mapsto> d))"
| resolving: "ValidOperationID i \<Longrightarrow> ValidSegment b \<Longrightarrow> FormatNumber n = Inr s \<Longrightarrow> FormatNumber k = Inr t \<Longrightarrow>
    m (resolutionPath i b s t) = None \<Longrightarrow> encode (attemptValue (startedAttempt b n k removal build time)) MaxAttemptBytes = Inr d \<Longrightarrow>
    recordStep cfg m (m(resolutionPath i b s t \<mapsto> d))"
| planned: "ValidOperationID i \<Longrightarrow> m (planPath i) = None \<Longrightarrow> encode (planValue plan) MaxPlanBytes = Inr d \<Longrightarrow>
    recordStep cfg m (m(planPath i \<mapsto> d))"
| registered: "validateOperation op = None \<Longrightarrow> m (operationPath (OpID op)) = None \<Longrightarrow> m (planPath (OpID op)) \<noteq> None \<Longrightarrow>
    encode (operationValue op) MaxOperationBytes = Inr d \<Longrightarrow> recordStep cfg m (m(operationPath (OpID op) \<mapsto> d))"
| indexed: "ValidOperationID (Current x) \<Longrightarrow> m (planPath (Current x)) \<noteq> None \<Longrightarrow> m (operationPath (Current x)) \<noteq> None \<Longrightarrow>
    decodedIndex cfg d x \<Longrightarrow> recordStep cfg m (m(indexPath \<mapsto> d))"
| updated: "validateOperation op = None \<Longrightarrow> m (operationPath (OpID op)) \<noteq> None \<Longrightarrow>
    encode (operationValue (op\<lparr>OpUpdated := time\<rparr>)) MaxOperationBytes = Inr d \<Longrightarrow>
    recordStep cfg m (m(operationPath (OpID op) \<mapsto> d))"

abbreviation publishes :: "'w StoreConfig \<Rightarrow> recordsOf \<Rightarrow> recordsOf \<Rightarrow> bool" where
  "publishes cfg \<equiv> (recordStep cfg)\<^sup>*\<^sup>*"

lemma publish_last: "publishes cfg m m' \<Longrightarrow> recordStep cfg m' m'' \<Longrightarrow> publishes cfg m m''"
  by (rule rtranclp.rtrancl_into_rtrancl)

subsection \<open>Records that were just encoded\<close>

lemma encoded_block: "validateBlock r = None \<Longrightarrow> encode (blockValue r) MaxAttemptBytes = Inr d \<Longrightarrow> decodedBlock cfg d r"
  using decode_block [of r d "quoting cfg" "runningBuild cfg"]
  by (cases "decodeUnder (quoting cfg) blockShape d MaxAttemptBytes (runningBuild cfg)") (auto simp: decodedBlock_def)

lemma encoded_index: "validateIndex x = None \<Longrightarrow> encode (indexValue x) MaxIndexBytes = Inr d \<Longrightarrow> decodedIndex cfg d x"
  using decode_index [of x d "quoting cfg" "runningBuild cfg"]
  by (cases "decodeUnder (quoting cfg) indexShape d MaxIndexBytes (runningBuild cfg)") (auto simp: decodedIndex_def)

lemma encoded_running:
  assumes "validateAttempt a = None" "Phase a = ''running''" "elems (Preparation a) = []" "Resolution a = 0"
    and "encode (attemptValue a) MaxAttemptBytes = Inr d"
  shows "startedRecord cfg (AttBlock a) (Number a) (AttBuild a) d"
proof -
  have "decodedAttempt cfg d (attemptStored a)"
    using decode_running [OF assms(1-3,5), of "quoting cfg" "runningBuild cfg"]
    by (cases "decodeUnder (quoting cfg) attemptShape d MaxAttemptBytes (runningBuild cfg)") (auto simp: decodedAttempt_def)
  then show ?thesis
    using attemptStored_running [OF assms(1,2)] assms(2-4)
    by (auto simp: startedRecord_def attemptStored_def intro!: exI [of _ "attemptStored a"])
qed

lemma startedAttempt_valid:
  assumes "ValidSegment b" "FormatNumber n = Inr s" "validateBuild build = None" "validateTimestamps [t] = None"
  shows "validateAttempt (startedAttempt b n 0 False build t) = None"
  using assms
  by (auto simp: validateAttempt_def startedAttempt_def phaseCheck_def validWarnings_def errorOf_def validateTimestamps_def
      split: if_splits)

text \<open>The records between the two writes of a start.\<close>

definition begun :: "'w StoreConfig \<Rightarrow> recordsOf \<Rightarrow> string \<Rightarrow> BlockRecord \<Rightarrow> string \<Rightarrow> Build \<Rightarrow> recordsOf \<Rightarrow> bool" where
  "begun cfg m i r s build m' \<longleftrightarrow>
     publishes cfg m m' \<and> blockRead cfg m' i (RecBlock r) r True \<and>
     (\<exists>p. m' (attemptPath i (RecBlock r) s) = Some p \<and> startedRecord cfg (RecBlock r) (Attempts r + 1) build p) \<and>
     (\<forall>q. q \<noteq> attemptPath i (RecBlock r) s \<longrightarrow> q \<noteq> blockPath i (RecBlock r) \<longrightarrow> m' q = m q)"

lemma begun_publishes: "begun cfg m i r s build m' \<Longrightarrow> publishes cfg m m'"
  by (simp add: begun_def)

text \<open>The records a registration leaves: three new ones, the index naming the operation.\<close>

definition registeredAs :: "'w StoreConfig \<Rightarrow> recordsOf \<Rightarrow> Operation \<Rightarrow> Plan \<Rightarrow> recordsOf \<Rightarrow> bool" where
  "registeredAs cfg m op plan m' \<longleftrightarrow>
     (\<exists>p d e x. m' = m(planPath (OpID op) \<mapsto> p, operationPath (OpID op) \<mapsto> d, indexPath \<mapsto> e) \<and>
        m (planPath (OpID op)) = None \<and> m (operationPath (OpID op)) = None \<and>
        encode (planValue plan) MaxPlanBytes = Inr p \<and> encode (operationValue op) MaxOperationBytes = Inr d \<and>
        decodedIndex cfg e x \<and> Current x = OpID op)"

text \<open>The records a start that returns a number leaves.\<close>

definition started :: "'w StoreConfig \<Rightarrow> recordsOf \<Rightarrow> string \<Rightarrow> string \<Rightarrow> Build \<Rightarrow> int \<Rightarrow> recordsOf \<Rightarrow> bool" where
  "started cfg m i b build n m' \<longleftrightarrow>
     (\<exists>r recorded s p d. blockRead cfg m i b r recorded \<and> n = Attempts r + 1 \<and> FormatNumber n = Inr s \<and>
        m' (attemptPath i b s) = Some p \<and> startedRecord cfg b n build p \<and>
        m' (blockPath i b) = Some d \<and> decodedBlock cfg d (r\<lparr>Attempts := n, RecState := BlockRunning\<rparr>) \<and>
        (\<forall>q. q \<noteq> attemptPath i b s \<longrightarrow> q \<noteq> blockPath i b \<longrightarrow> m' q = m q))"

lemma blockRead_decoded:
  "decodedBlock cfg d r \<Longrightarrow> RecBlock r = b \<Longrightarrow> m (blockPath i b) = Some d \<Longrightarrow> blockRead cfg m i b r True"
  by (simp add: blockRead_def decodedBlock_def)

lemma blockRead_block: "blockRead cfg m i b r recorded \<Longrightarrow> RecBlock r = b"
  by (auto simp: blockRead_def split: option.splits)

lemma blockRead_other: "p \<noteq> blockPath i b \<Longrightarrow> blockRead cfg (m(p \<mapsto> d)) i b r recorded = blockRead cfg m i b r recorded"
  by (simp add: blockRead_def)

subsection \<open>Every call publishes in order\<close>

context store
begin

lemma does_publishBlock [store_rules]:
  assumes "\<And>d. validateBlock r = None \<Longrightarrow> decodedBlock cfg d r \<Longrightarrow> Q () (m(blockPath i (RecBlock r) \<mapsto> d))"
    and "\<And>d. validateBlock r = None \<Longrightarrow> decodedBlock cfg d r \<Longrightarrow> E (m(blockPath i (RecBlock r) \<mapsto> d))" and "E m"
  shows "does m (publishBlock cfg i r) Q E"
  unfolding publishBlock_def by (intro store_rules) (use assms in \<open>auto intro: encoded_block\<close>)

lemma does_adopt:
  assumes "\<And>t d'. m p = Some d \<Longrightarrow> validateAttempt (a\<lparr>AttBuild := build, AttUpdated := t\<rparr>) = None \<Longrightarrow>
      encode (attemptValue (a\<lparr>AttBuild := build, AttUpdated := t\<rparr>)) MaxAttemptBytes = Inr d' \<Longrightarrow> Q () (m(p \<mapsto> d')) \<and> E (m(p \<mapsto> d'))"
    and "E m"
  shows "does m (adopt cfg p a build d) Q E"
  unfolding adopt_def by (intro store_rules) (use assms in auto)

text \<open>The attempt's record is in place, and the block has a record, before the block counts it.\<close>

lemma begunI:
  assumes v: "ValidOperationID i" "ValidSegment (RecBlock r)" and n: "FormatNumber (Attempts r + 1) = Inr s"
    and m: "publishes cfg m m'" "blockRead cfg m' i (RecBlock r) r True" "\<forall>q. q \<noteq> blockPath i (RecBlock r) \<longrightarrow> m' q = m q"
    and d: "startedRecord cfg (RecBlock r) (Attempts r + 1) build d"
      "\<forall>old. m' (attemptPath i (RecBlock r) s) = Some old \<longrightarrow> (\<exists>earlier. startedRecord cfg (RecBlock r) (Attempts r + 1) earlier old)"
  shows "begun cfg m i r s build (m'(attemptPath i (RecBlock r) s \<mapsto> d))"
  using publish_last [OF m(1) start [OF v m(2) n d(2,1)]] attemptPath_distinct(1) [OF v v n] m d(1)
  by (auto simp: begun_def blockRead_other)

lemma does_beginRecord:
  assumes v: "ValidOperationID i" "ValidSegment (RecBlock r)" and r: "blockRead cfg m i (RecBlock r) r recorded"
    and n: "FormatNumber (Attempts r + 1) = Inr s" and build: "validateBuild build = None"
  shows "does m (beginRecord cfg i r recorded (attemptPath i (RecBlock r) s) build (m (attemptPath i (RecBlock r) s)))
    (\<lambda>_. begun cfg m i r s build) (publishes cfg m)"
proof -
  let ?b = "RecBlock r"
  let ?p = "attemptPath i ?b s"
  note ne = attemptPath_distinct(1) [OF v v n] and begunI = begunI [OF v n]
  have fresh: "startedRecord cfg ?b (Attempts r + 1) build d"
    if "validateTimestamps [t] = None" "encode (attemptValue (startedAttempt ?b (Attempts r + 1) 0 False build t)) MaxAttemptBytes = Inr d" for t d
    using encoded_running [OF startedAttempt_valid [OF v(2) n build that(1)] _ _ _ that(2)] by (simp add: startedAttempt_def)
  have pending: "publishes cfg m (m(blockPath i ?b \<mapsto> d))" "blockRead cfg (m(blockPath i ?b \<mapsto> d)) i ?b r True"
    if "\<not> recorded" "decodedBlock cfg d r" for d
    using that r pend [OF v, of m cfg d] blockRead_decoded [OF that(2) refl] by (auto simp: blockRead_def split: option.splits)
  have ready: "publishes cfg m m" by simp
  show ?thesis
  proof (cases "m ?p")
    case None
    have inplace: "begun cfg m i r s build (m(?p \<mapsto> d))"
      if "recorded" "startedRecord cfg ?b (Attempts r + 1) build d" for d
      using begunI [OF ready _ _ that(2)] that(1) r None by simp
    have both: "begun cfg m i r s build (m(blockPath i ?b \<mapsto> d0, ?p \<mapsto> d))"
      if "\<not> recorded" "decodedBlock cfg d0 r" "startedRecord cfg ?b (Attempts r + 1) build d" for d d0
      using begunI [OF pending [OF that(1,2)] _ that(3)] None ne by simp
    show ?thesis
      unfolding beginRecord_def None option.case
      by (intro store_rules; (rule ready | (rule inplace both begun_publishes pending, assumption+, rule fresh, assumption+) | (rule begun_publishes, rule inplace both, assumption+, rule fresh, assumption+) | (rule pending, assumption+)))
  next
    case (Some old)
    have kept: "begun cfg m i r s build m"
      if "recorded" "startedRecord cfg ?b (Attempts r + 1) build old"
      using that ready r Some by (auto simp: begun_def)
    have again: "begun cfg m i r s build (m(?p \<mapsto> d))"
      if "recorded" "startedRecord cfg ?b (Attempts r + 1) earlier old" "startedRecord cfg ?b (Attempts r + 1) build d" for d earlier
      using begunI [OF ready _ _ that(3)] that(1,2) r Some by auto
    show ?thesis
      unfolding beginRecord_def Some option.case
    proof (intro store_rules does_adopt, goal_cases)
      case (1 a v t d')
      then have "startedRecord cfg ?b (Attempts r + 1) (AttBuild a) old"
        by (auto simp: startedRecord_def decodedAttempt_def)
      moreover have "startedRecord cfg ?b (Attempts r + 1) build d'"
        using encoded_running [OF 1(12) _ _ _ 1(13)] 1 by simp
      ultimately show ?case using again 1(1) begun_publishes by blast
    next
      case (3 a v)
      then have "startedRecord cfg ?b (Attempts r + 1) build old"
        by (auto simp: startedRecord_def decodedAttempt_def)
      then show ?case using kept 3(1) by blast
    qed simp_all
  qed
qed

text \<open>A start returns only once the block counts the attempt, and the attempt's record names its build.\<close>

lemma does_StartAttempt:
  assumes v: "ValidOperationID i" "ValidSegment b"
  shows "does m (StartAttempt cfg i b build) (\<lambda>n m'. publishes cfg m m' \<and> started cfg m i b build n m') (publishes cfg m)"
proof -
  have rest: "does m' (thenA (publishBlock cfg i (r\<lparr>Attempts := Attempts r + 1, RecState := BlockRunning\<rparr>)) (returnA (Attempts r + 1)))
      (\<lambda>n m'. publishes cfg m m' \<and> started cfg m i b build n m') (publishes cfg m)"
    if r: "blockRead cfg m i b r recorded" "FormatNumber (Attempts r + 1) = Inr s" "begun cfg m i r s build m'" for r recorded s m'
  proof -
    note b = blockRead_block [OF r(1)]
    have p: "publishes cfg m (m'(blockPath i b \<mapsto> d))" "started cfg m i b build (Attempts r + 1) (m'(blockPath i b \<mapsto> d))"
      if d: "decodedBlock cfg d (r\<lparr>Attempts := Attempts r + 1, RecState := BlockRunning\<rparr>)" for d
    proof -
      obtain p where p: "m' (attemptPath i b s) = Some p" "startedRecord cfg b (Attempts r + 1) build p"
        and m: "publishes cfg m m'" "blockRead cfg m' i b r True"
        and q: "\<forall>q. q \<noteq> attemptPath i b s \<longrightarrow> q \<noteq> blockPath i b \<longrightarrow> m' q = m q"
        using r(3) by (auto simp: begun_def b)
      show "publishes cfg m (m'(blockPath i b \<mapsto> d))"
        by (rule publish_last [OF m(1) counted [OF v m(2) r(2) p d]])
      show "started cfg m i b build (Attempts r + 1) (m'(blockPath i b \<mapsto> d))"
        using r(1,2) p q d b attemptPath_distinct(1) [OF v v r(2)]
        unfolding started_def
        by (intro exI [of _ r] exI [of _ recorded] exI [of _ s] exI [of _ p] exI [of _ d]) simp
    qed
    then show ?thesis
      using begun_publishes [OF r(3)] b by (intro store_rules) simp_all
  qed
  have first: "does m (beginRecord cfg i r recorded (attemptPath i b s) build (m (attemptPath i b s)))
      (\<lambda>_ m'. does m' (thenA (publishBlock cfg i (r\<lparr>Attempts := Attempts r + 1, RecState := BlockRunning\<rparr>)) (returnA (Attempts r + 1)))
        (\<lambda>n m'. publishes cfg m m' \<and> started cfg m i b build n m') (publishes cfg m)) (publishes cfg m)"
    if "validateBuild build = None" and r: "blockRead cfg m i b r recorded" "FormatNumber (Attempts r + 1) = Inr s" for r recorded s
  proof -
    note b = blockRead_block [OF r(1)]
    show ?thesis
      by (rule does_weaken [OF does_beginRecord [of i r m recorded s build, unfolded b, OF v r that(1)]]) (rule rest [OF r])
  qed
  show ?thesis
    unfolding StartAttempt_def
    by (intro does_then does_bind does_refuse does_readBlockRecord does_prod does_let does_lift does_read) (use first in auto)
qed

lemma publish_one: "recordStep cfg m m' \<Longrightarrow> publishes cfg m m'"
  by (rule r_into_rtranclp)

lemma does_RecordPreparation:
  assumes v: "ValidOperationID i" "ValidSegment b"
  shows "does m (RecordPreparation cfg i b n x) (\<lambda>_. publishes cfg m) (publishes cfg m)"
proof -
  have "publishes cfg m (m(attemptPath i b s \<mapsto> d))"
    if "FormatNumber n = Inr s" "m (attemptPath i b s) = Some old"
      "decodeUnder (quoting cfg) attemptShape old MaxAttemptBytes (runningBuild cfg) = Inr v"
      "\<not> (Phase (attemptOf v) \<noteq> ''running'' \<or> AttBlock (attemptOf v) \<noteq> b \<or> Number (attemptOf v) \<noteq> n \<or> Resolution (attemptOf v) \<noteq> 0)"
      "elems (Preparation (attemptOf v)) = []"
      "validateAttempt ((attemptOf v)\<lparr>Preparation := Some x, AttUpdated := t\<rparr>) = None"
      "encode (attemptValue ((attemptOf v)\<lparr>Preparation := Some x, AttUpdated := t\<rparr>)) MaxAttemptBytes = Inr d" for s old v t d
    using that v
    by (intro publish_one prepared [where i = i and b = b and n = n and old = old and a = "attemptOf v"
          and a' = "(attemptOf v)\<lparr>Preparation := Some x, AttUpdated := t\<rparr>"]) (auto simp: recordPath_def decodedAttempt_def)
  then show ?thesis
    unfolding RecordPreparation_def by (intro store_rules) auto
qed

lemma warnedRecord_Inr:
  assumes "warnedRecord a ws = Inr d"
  obtains a' where "validateAttempt a' = None" "encode (attemptValue a') MaxAttemptBytes = Inr d" "sameAttempt a a'"
    "Phase a' = Phase a" "Preparation a' = Preparation a"
proof -
  have "validateAttempt (a\<lparr>Warnings := Some ws\<rparr>) = None \<and> encode (attemptValue (a\<lparr>Warnings := Some ws\<rparr>)) MaxAttemptBytes = Inr d
      \<or> validateAttempt a = None \<and> encode (attemptValue a) MaxAttemptBytes = Inr d"
    using assms by (auto simp: warnedRecord_def guardR_def Let_def split: if_splits sum.splits option.splits)
  then show thesis
    using that [of "a\<lparr>Warnings := Some ws\<rparr>"] that [of a] by auto
qed

lemma does_completeRecord:
  assumes v: "ValidOperationID i" "ValidSegment b" and p: "recordPath i b n k p"
  shows "does m (completeRecord cfg i b p n k outcome effect state evidence failure ws) (\<lambda>_. publishes cfg m) (publishes cfg m)"
proof -
  have complete: "publishes cfg m (m(p \<mapsto> d))"
    if "m p = Some old" "decodeUnder (quoting cfg) attemptShape old MaxAttemptBytes (runningBuild cfg) = Inr u"
      "\<not> (Phase (attemptOf u) \<noteq> ''running'' \<or> AttBlock (attemptOf u) \<noteq> b \<or> Number (attemptOf u) \<noteq> n \<or> Resolution (attemptOf u) \<noteq> k)"
      "warnedRecord (observedAttempt (attemptOf u) outcome effect evidence failure t) ws = Inr d" for old u t d
  proof -
    note w = that(4)
    obtain a' where a': "validateAttempt a' = None" "encode (attemptValue a') MaxAttemptBytes = Inr d"
      "sameAttempt (attemptOf u) a'" "Phase a' = ''observed''" "Preparation a' = Preparation (attemptOf u)"
      using warnedRecord_Inr [OF w] unfolding observedAttempt_def by auto
    show ?thesis
      using that(1-3) a' v p
      by (intro publish_one observed [where i = i and b = b and n = n and k = k and old = old and a = "attemptOf u" and a' = a'])
        (auto simp: decodedAttempt_def)
  qed
  have settle: "publishes cfg m (m'(blockPath i (RecBlock r) \<mapsto> d))"
    if "publishes cfg m m'" "blockRead cfg m' i b r recorded" "decodedBlock cfg d (r\<lparr>RecState := state\<rparr>)" for m' r recorded d
    using publish_last [OF that(1) settled [OF v that(2,3)]] blockRead_block [OF that(2)] by simp
  show ?thesis
    unfolding completeRecord_def by (intro store_rules) (use complete settle in auto)
qed

lemma does_CompleteAttempt:
  assumes "ValidOperationID i" "ValidSegment b"
  shows "does m (CompleteAttempt cfg i b n outcome effect state evidence ws) (\<lambda>_. publishes cfg m) (publishes cfg m)"
  unfolding CompleteAttempt_def using assms by (intro store_rules does_completeRecord) (auto simp: recordPath_def)

lemma does_CompleteResolution:
  assumes "ValidOperationID i" "ValidSegment b"
  shows "does m (CompleteResolution cfg i b n k outcome effect state evidence failure) (\<lambda>_. publishes cfg m) (publishes cfg m)"
  unfolding CompleteResolution_def using assms by (intro store_rules does_completeRecord) (auto simp: recordPath_def)

lemma does_UpdateOperation: "does m (UpdateOperation cfg op) (\<lambda>_. publishes cfg m) (publishes cfg m)"
proof -
  have "publishes cfg m (m(operationPath (OpID op) \<mapsto> d))"
    if "validateOperation op = None" "encode (operationValue (op\<lparr>OpUpdated := t\<rparr>)) MaxOperationBytes = Inr d"
      "m (operationPath (OpID op)) = Some old" for t d old
    using that by (intro publish_one updated [where time = t]) auto
  then show ?thesis
    unfolding UpdateOperation_def by (intro store_rules) auto
qed

lemma does_ClaimAdding: "does m (ClaimAdding cfg i plan predecessor) (\<lambda>_ m'. m' = m) (\<lambda>m'. m' = m)"
  unfolding ClaimAdding_def by (intro store_rules) auto

text \<open>The plan and the operation are in place before the index names them.\<close>

lemma planPath_operationPath: "ValidOperationID i \<Longrightarrow> ValidOperationID j \<Longrightarrow> planPath i \<noteq> operationPath j"
  by (simp add: record_paths join_segments_eq ValidOperationID_segment)

lemma does_publishRegistration:
  assumes op: "validateOperation op = None" and ep: "encode (planValue plan) MaxPlanBytes = Inr p"
    and eo: "encode (operationValue op) MaxOperationBytes = Inr d" and ix: "validateIndex x = None" "Current x = OpID op"
    and ei: "encode (indexValue x) MaxIndexBytes = Inr e"
  shows "does m (publishRegistration cfg (OpID op) p d e)
    (\<lambda>_ m'. publishes cfg m m' \<and> m' = m(planPath (OpID op) \<mapsto> p, operationPath (OpID op) \<mapsto> d, indexPath \<mapsto> e) \<and>
       m (planPath (OpID op)) = None \<and> m (operationPath (OpID op)) = None) (publishes cfg m)"
proof -
  let ?i = "OpID op"
  note v = validateOperation_references(1) [OF op]
  let ?m1 = "m(planPath ?i \<mapsto> p)"
  let ?m2 = "?m1(operationPath ?i \<mapsto> d)"
  have 1: "publishes cfg m ?m1" if "m (planPath ?i) = None"
    using publish_one [OF planned [where m = m, OF v that ep]] .
  have 2: "publishes cfg m ?m2" if "m (planPath ?i) = None" "?m1 (operationPath ?i) = None"
    using publish_last [OF 1 [OF that(1)] registered [where m = ?m1, OF op that(2) _ eo]] by simp
  have 3: "publishes cfg m (?m2(indexPath \<mapsto> e))" if "m (planPath ?i) = None" "?m1 (operationPath ?i) = None"
    using publish_last [OF 2 [OF that] indexed [where m = ?m2 and x = x and d = e]] encoded_index [OF ix(1) ei, of cfg] v ix(2) by auto
  show ?thesis
    unfolding publishRegistration_def
    by (intro store_rules) (use 1 2 3 planPath_operationPath [OF v v] in auto)
qed

lemma does_Register:
  "does m (Register cfg op plan)
    (\<lambda>_ m'. publishes cfg m m' \<and> registeredAs cfg m op plan m') (publishes cfg m)"
proof -
  have reg: "validateOperation op = None" if "validateRegistration op = None"
    using that by (auto simp: validateRegistration_def split: if_splits)
  have ix: "validateIndex (x\<lparr>Current := OpID op\<rparr>) = None" if "validateIndex x = None" "validateRegistration op = None" for x
    using that(1) validateOperation_references(1) [OF reg [OF that(2)]] by (auto simp: validateIndex_def split: if_splits)
  have publication: "does m (publishRegistration cfg (OpID op) p d e)
      (\<lambda>_ m'. publishes cfg m m' \<and> registeredAs cfg m op plan m') (publishes cfg m)"
    if "validateRegistration op = None" "encode (planValue plan) MaxPlanBytes = Inr p"
      "encode (operationValue op) MaxOperationBytes = Inr d" "validateIndex x = None"
      "encode (indexValue (x\<lparr>Current := OpID op\<rparr>)) MaxIndexBytes = Inr e" for p d e x
    by (rule does_weaken [OF does_publishRegistration [OF reg [OF that(1)] that(2,3) ix [OF that(4,1)] _ that(5)]])
      (use that encoded_index [OF ix [OF that(4,1)] that(5), of cfg] in
        \<open>auto simp: registeredAs_def intro!: exI [of _ e] exI [of _ "x\<lparr>Current := OpID op\<rparr>"]\<close>)
  show ?thesis
    unfolding Register_def by (intro store_rules) (use publication in auto)
qed

end

end
