(* ===== verification/Resolutions.thy ===== *)
theory Resolutions
  imports Publication
begin

section \<open>The numbers of resolutions\<close>

text \<open>
  A resolution takes a number above every resolution record its attempt has, although it reads
  only the names of the block's directory, and the last resolution that is read back is the one
  started last.
\<close>

lemma nextResolution_above:
  "nextResolution prefix es n = Inr k \<Longrightarrow> n \<le> k \<and>
     (\<forall>e\<in>set es. \<forall>j u. \<not> Directory e \<longrightarrow> EntryName e = prefix @ u @ ''.json'' \<longrightarrow> FormatNumber j = Inr u \<longrightarrow> j < k)"
proof (induction es arbitrary: n)
  case (Cons e es)
  show ?case
  proof (cases "Directory e \<or> length (EntryName e) \<noteq> length prefix + 11 \<or> take (length prefix) (EntryName e) \<noteq> prefix")
    case True
    then have "nextResolution prefix es n = Inr k" using Cons.prems by simp
    from Cons.IH [OF this] show ?thesis using True by (auto dest!: FormatNumber_digits)
  next
    case False
    with Cons.prems obtain j where j: "ParseNumber (take 6 (drop (length prefix) (EntryName e))) = Inr j"
      "nextResolution prefix es (if j \<ge> n then j + 1 else n) = Inr k"
      by (auto simp: bindR_def split: sum.splits)
    have "j' < k" if "EntryName e = prefix @ u @ ''.json''" "FormatNumber j' = Inr u" for u j'
    proof -
      have "ParseNumber u = Inr j" using that FormatNumber_digits [OF that(2)] j(1) by simp
      then have "j' = j" using ParseNumber_Format [OF that(2)] by simp
      then show ?thesis using Cons.IH [OF j(2)] by (auto split: if_splits)
    qed
    then show ?thesis using Cons.IH [OF j(2)] by (auto split: if_splits)
  qed
qed simp

lemma lastResolution_above:
  "lastResolution prefix es n = Inr k \<Longrightarrow> n \<le> k \<and>
     (\<forall>e\<in>set es. \<forall>j u. \<not> Directory e \<longrightarrow> EntryName e = prefix @ u @ ''.json'' \<longrightarrow> FormatNumber j = Inr u \<longrightarrow> j \<le> k)"
proof (induction es arbitrary: n)
  case (Cons e es)
  show ?case
  proof (cases "\<exists>j u. \<not> Directory e \<and> EntryName e = prefix @ u @ ''.json'' \<and> FormatNumber j = Inr u")
    case True
    then obtain j u where u: "\<not> Directory e" "EntryName e = prefix @ u @ ''.json''" "FormatNumber j = Inr u" by blast
    have "cut_suffix (u @ ''.json'') ''.json'' = Some u"
      by (simp add: cut_suffix_def)
    then have "lastResolution prefix es (max n j) = Inr k"
      using Cons.prems u ParseNumber_Format [OF u(3)] by (simp add: cut_prefix_def has_prefix_def bindR_def)
    from Cons.IH [OF this] show ?thesis using u FormatNumber_inj by auto
  next
    case False
    obtain n' where "n \<le> n'" "lastResolution prefix es n' = Inr k"
      using Cons.prems by (auto simp: bindR_def split: option.splits sum.splits if_splits) (metis max.cobounded1)
    from Cons.IH [OF this(2)] this(1) show ?thesis using False by auto
  qed
qed simp

lemma resolutionPath_in:
  assumes "ValidOperationID i" "ValidSegment b" "FormatNumber n = Inr s" "FormatNumber k = Inr t"
  shows "resolutionPath i b s t = blockDirectory i b @ ''/'' @ (resolutionPrefix s @ t @ ''.json'')"
proof -
  note sg = ValidOperationID_segment [OF assms(1)] ValidSegment_segment [OF assms(2)] resolutionName_segment [OF assms(3,4)]
  show ?thesis
    using sg by (simp add: resolutionPath_def blockDirectory_def path_join_segments)
qed

lemma resolutionName_plain:
  "FormatNumber n = Inr s \<Longrightarrow> FormatNumber k = Inr t \<Longrightarrow> CHR ''/'' \<notin> set (resolutionPrefix s @ t @ ''.json'')"
  using resolutionName_segment by (auto simp: segment_def)

lemma blockDirectory_nonempty: "ValidOperationID i \<Longrightarrow> ValidSegment b \<Longrightarrow> blockDirectory i b \<noteq> []"
  by (simp add: blockDirectory_def path_join_segments ValidOperationID_segment ValidSegment_segment join_Cons)

text \<open>The resolution records an attempt has.\<close>

definition resolved :: "recordsOf \<Rightarrow> string \<Rightarrow> string \<Rightarrow> int \<Rightarrow> int \<Rightarrow> bool" where
  "resolved m i b n k \<longleftrightarrow>
     (\<exists>s t. FormatNumber n = Inr s \<and> FormatNumber k = Inr t \<and> m (resolutionPath i b s t) \<noteq> None)"

lemma resolved_pos: "resolved m i b n k \<Longrightarrow> 1 \<le> k"
  by (auto simp: resolved_def FormatNumber_def split: if_splits)

context store
begin

lemma listed_resolution:
  assumes v: "ValidOperationID i" "ValidSegment b" and n: "FormatNumber n = Inr s" "FormatNumber j = Inr u"
    and es: "lists m (blockDirectory i b) es"
    and m: "m (resolutionPath i b s u) \<noteq> None"
  obtains e where "e \<in> set es" "EntryName e = resolutionPrefix s @ u @ ''.json''" "\<not> Directory e"
proof -
  have "m (blockDirectory i b @ ''/'' @ (resolutionPrefix s @ u @ ''.json'')) \<noteq> None"
    using m resolutionPath_in [OF v n] by simp
  then have "\<exists>e\<in>set es. EntryName e = resolutionPrefix s @ u @ ''.json'' \<and> \<not> Directory e"
    using es blockDirectory_nonempty [OF v] resolutionName_plain [OF n] unfolding lists_def by (simp add: resolutionPrefix_def)
  then show thesis using that by blast
qed

lemma resolutionPath_inj:
  assumes "ValidOperationID i" "ValidSegment b" "FormatNumber n = Inr s" "FormatNumber k = Inr t" "FormatNumber j = Inr u"
    and "resolutionPath i b s t = resolutionPath i b s u"
  shows "k = j"
proof -
  have "t = u" using assms(6) resolutionPath_in [OF assms(1-4)] resolutionPath_in [OF assms(1-3,5)] by simp
  then show ?thesis using FormatNumber_inj assms(4,5) by blast
qed

lemma does_StartResolution:
  assumes v: "ValidOperationID i" "ValidSegment b"
  shows "does m (StartResolution cfg i b n build removal)
    (\<lambda>k m'. publishes cfg m m' \<and> resolved m' i b n k \<and> (\<forall>j. resolved m i b n j \<longrightarrow> j < k) \<and>
       (\<forall>j. resolved m' i b n j \<longrightarrow> resolved m i b n j \<or> j = k)) (publishes cfg m)"
proof -
  have written: "publishes cfg m (m(resolutionPath i b s t \<mapsto> d))"
    if "FormatNumber n = Inr s" "FormatNumber k = Inr t" "m (resolutionPath i b s t) = None"
      "encode (attemptValue (startedAttempt b n k removal build time)) MaxAttemptBytes = Inr d" for s k t time d
    using publish_one [OF resolving [where m = m, OF v that]] .
  have above: "j < k"
    if "lists m (blockDirectory i b) es"
      and s: "FormatNumber n = Inr s" "nextResolution (resolutionPrefix s) es 1 = Inr k" and "resolved m i b n j" for es s k j
  proof -
    note listed = that(1) and r = that(4)
    obtain u where u: "FormatNumber j = Inr u" "m (resolutionPath i b s u) \<noteq> None"
      using r s(1) by (auto simp: resolved_def)
    obtain e where "e \<in> set es" "EntryName e = resolutionPrefix s @ u @ ''.json''" "\<not> Directory e"
      using listed_resolution [OF v s(1) u(1) listed u(2)] by blast
    then show "j < k" using nextResolution_above [OF s(2)] u(1) by blast
  qed
  have fresh: "resolved (m(resolutionPath i b s t \<mapsto> d)) i b n k \<and>
      (\<forall>j. resolved (m(resolutionPath i b s t \<mapsto> d)) i b n j \<longrightarrow> resolved m i b n j \<or> j = k)"
    if "FormatNumber n = Inr s" "FormatNumber k = Inr t" for s t k d
  proof (intro conjI allI impI)
    show "resolved (m(resolutionPath i b s t \<mapsto> d)) i b n k" using that by (simp add: resolved_def)
    show "resolved m i b n j \<or> j = k" if r: "resolved (m(resolutionPath i b s t \<mapsto> d)) i b n j" for j
      using r \<open>FormatNumber n = Inr s\<close> resolutionPath_inj [OF v \<open>FormatNumber n = Inr s\<close> \<open>FormatNumber k = Inr t\<close>]
      by (auto simp: resolved_def split: if_splits)
  qed
  show ?thesis
    unfolding StartResolution_def
    by (intro store_rules) (use written above fresh in auto)
qed

text \<open>The last resolution read back has the greatest number there is a record of.\<close>

lemma does_LastResolution:
  assumes v: "ValidOperationID i" "ValidSegment b"
  shows "does m (LastResolution cfg i b n)
    (\<lambda>a m'. m' = m \<and> (case a of None \<Rightarrow> \<forall>j. \<not> resolved m i b n j
       | Some a \<Rightarrow> AttBlock a = b \<and> Number a = n \<and> resolved m i b n (Resolution a) \<and> (\<forall>j. resolved m i b n j \<longrightarrow> j \<le> Resolution a)))
    (\<lambda>m'. m' = m)"
proof -
  have above: "j \<le> k"
    if "lists m (blockDirectory i b) es"
      and s: "FormatNumber n = Inr s" "lastResolution (resolutionPrefix s) es 0 = Inr k" and "resolved m i b n j" for es s k j
  proof -
    note listed = that(1) and r = that(4)
    obtain u where u: "FormatNumber j = Inr u" "m (resolutionPath i b s u) \<noteq> None"
      using r s(1) by (auto simp: resolved_def)
    obtain e where "e \<in> set es" "EntryName e = resolutionPrefix s @ u @ ''.json''" "\<not> Directory e"
      using listed_resolution [OF v s(1) u(1) listed u(2)] by blast
    then show "j \<le> k" using lastResolution_above [OF s(2)] u(1) by blast
  qed
  have none: "\<not> resolved m i b n j"
    if "\<And>j. resolved m i b n j \<Longrightarrow> j \<le> 0" for j
    using that [of j] resolved_pos [of m i b n j] by linarith
  show ?thesis
    unfolding LastResolution_def
    by (intro store_rules) (use above none in \<open>auto simp: resolved_def [where k = "Resolution _"]\<close>)
qed

end

end
