(* ===== verification/MemoryArea.thy ===== *)
theory MemoryArea
  imports Area "HOL-Library.AList"
begin

section \<open>The in-memory area\<close>

text \<open>
  The area the store's own tests run on (\<open>operationstore/area_test.go\<close>), whose admission and listing
  are \<open>operationstore/areadouble/admit.go\<close>: records and directories by path, and failures injected
  by operation and target. It keeps the contract \<open>area\<close>, by the interpretation at the end.
\<close>

subsection \<open>Operations\<close>

record memoryArea =
  files :: "(string \<times> string) list"
  directories :: "string list"
  failing :: "string \<Rightarrow> string \<Rightarrow> string option"
  cancelledWith :: "string option"
  ticks :: "string list"

text \<open>\<open>fs.ValidPath\<close> of a path other than the area itself.\<close>

definition valid_path :: "string \<Rightarrow> bool" where
  "valid_path p \<longleftrightarrow> utf8_valid p \<and> (\<forall>s\<in>set (split_on (CHR ''/'') p). s \<noteq> [] \<and> s \<noteq> ''.'' \<and> s \<noteq> ''..'')"

text \<open>The directories above a valid path, from \<open>path.Dir\<close> of it upwards.\<close>

definition parents :: "string \<Rightarrow> string list" where
  "parents p = (let ss = split_on (CHR ''/'') p in rev (map (\<lambda>i. join ''/'' (take (Suc i) ss)) [0..<length ss - 1]))"

definition IsDirectory :: "memoryArea \<Rightarrow> string \<Rightarrow> bool" where
  "IsDirectory m target \<longleftrightarrow>
     target \<in> set (directories m) \<or> list_ex (\<lambda>(name, data). has_prefix name (target @ ''/'')) (files m)"

definition AdmitTarget :: "memoryArea \<Rightarrow> string \<Rightarrow> bool \<Rightarrow> string option" where
  "AdmitTarget m target record =
     (case cancelledWith m of
        Some e \<Rightarrow> Some e
      | None \<Rightarrow>
          if \<not> valid_path target \<and> (record \<or> target \<noteq> []) then Some ''path escapes the area''
          else if target \<noteq> [] \<and> list_ex (\<lambda>p. map_of (files m) p \<noteq> None) (parents target) then Some ''path lies beneath a record''
          else if \<not> record \<and> map_of (files m) target \<noteq> None then Some ''not a directory''
          else if record \<and> IsDirectory m target then Some ''is a directory''
          else None)"

text \<open>The names a directory holds, each with its size, or with \<open>-1\<close> for a directory.\<close>

definition listFile :: "string \<Rightarrow> string \<times> string \<Rightarrow> (string \<times> int) list \<Rightarrow> (string \<times> int) list" where
  "listFile prefix f sizes =
     (case cut_prefix (fst f) prefix of
        None \<Rightarrow> sizes
      | Some rest \<Rightarrow>
          if rest = [] then sizes
          else (case cut_at ''/'' rest of (head, tail, nested) \<Rightarrow>
            if nested then insert_member head (-1) sizes
            else insert_member rest (int (length (snd f))) sizes))"

definition listDirectory :: "string \<Rightarrow> string \<Rightarrow> (string \<times> int) list \<Rightarrow> (string \<times> int) list" where
  "listDirectory prefix name sizes =
     (case cut_prefix name prefix of
        None \<Rightarrow> sizes
      | Some rest \<Rightarrow> if rest = [] \<or> CHR ''/'' \<in> set rest then sizes else insert_member rest (-1) sizes)"

definition Entries :: "memoryArea \<Rightarrow> string \<Rightarrow> Entry list" where
  "Entries m target =
     (let prefix = (if target = [] then [] else target @ ''/'');
          sizes = fold (listDirectory prefix) (directories m) (fold (listFile prefix) (files m) []) in
      map (\<lambda>(n, size). \<lparr>EntryName = n, Directory = (size < 0), EntrySize = (if size < 0 then 0 else size)\<rparr>) sizes)"

text \<open>A call that is admitted, and that no injected failure stops.\<close>

definition admitted :: "string \<Rightarrow> string \<Rightarrow> bool \<Rightarrow> (memoryArea, 'a) action \<Rightarrow> (memoryArea, 'a) action" where
  "admitted operation target record f = (\<lambda>m.
     case AdmitTarget m target record of
       Some e \<Rightarrow> (Inl (AreaError e), m)
     | None \<Rightarrow>
         (case failing m operation target of
            Some e \<Rightarrow> (Inl (AreaError e), m)
          | None \<Rightarrow> f m))"

text \<open>The removal of the area itself, which is refused before a failure is injected.\<close>

definition admittedArea :: "(memoryArea, unit) action" where
  "admittedArea = (\<lambda>m.
     case AdmitTarget m [] False of
       Some e \<Rightarrow> (Inl (AreaError e), m)
     | None \<Rightarrow> (Inl (AreaError ''the area itself is not removable''), m))"

definition memoryOperations :: "memoryArea Area" where
  "memoryOperations =
     \<lparr>areaRead = (\<lambda>target maximum. admitted ''read'' target True (\<lambda>m.
        case map_of (files m) target of
          None \<Rightarrow> (Inr None, m)
        | Some data \<Rightarrow>
            if maximum > 0 \<and> length data > maximum then (Inl (AreaError ''bounds''), m) else (Inr (Some data), m))),
      areaEntries = (\<lambda>target. admitted ''entries'' target False (\<lambda>m. (Inr (Entries m target), m))),
      areaEnsureDirectory = (\<lambda>target. admitted ''ensure'' target False (\<lambda>m.
        (Inr (), if target = [] then m else m\<lparr>directories := target # parents target @ directories m\<rparr>))),
      areaWriteExclusive = (\<lambda>target data. admitted ''write'' target True (\<lambda>m.
        if map_of (files m) target \<noteq> None then (Inl (AreaError ''exists''), m)
        else (Inr (), m\<lparr>files := (target, data) # files m\<rparr>))),
      areaReplace = (\<lambda>target data expectation. admitted ''replace'' target True (\<lambda>m.
        if map_of (files m) target \<noteq> expectation
        then (Inl (AreaError (if expectation = None then ''destination exists'' else ''expectation'')), m)
        else (Inr (), m\<lparr>files := AList.update target data (files m)\<rparr>))),
      areaAppend = (\<lambda>target data. admitted ''append'' target True (\<lambda>m.
        (Inr (), m\<lparr>files := AList.update target
          ((case map_of (files m) target of None \<Rightarrow> [] | Some old \<Rightarrow> old) @ data) (files m)\<rparr>))),
      areaRemoveDirectory = (\<lambda>target. if target = [] then admittedArea else admitted ''remove'' target False (\<lambda>m.
        if list_ex (\<lambda>d. has_prefix d (target @ ''/'')) (directories m @ map fst (files m))
        then (Inl (AreaError ''directory not empty''), m)
        else (Inr (), m\<lparr>directories := removeAll target (directories m)\<rparr>))),
      areaRemoveRecord = (\<lambda>target expectation. admitted ''unlink'' target True (\<lambda>m.
        case map_of (files m) target of
          None \<Rightarrow> (Inr (), m)
        | Some data \<Rightarrow>
            if data \<noteq> expectation then (Inl (AreaError ''the record changed before its removal''), m)
            else (Inr (), m\<lparr>files := AList.delete target (files m), directories := parents target @ directories m\<rparr>))),
      areaSync = (\<lambda>target. admitted ''sync'' target False (\<lambda>m. (Inr (), m))),
      areaLocation = [], areaReference = []\<rparr>"

definition memoryInvar :: "memoryArea \<Rightarrow> bool" where
  "memoryInvar m \<longleftrightarrow>
     distinct (map fst (files m)) \<and> (\<forall>f\<in>fst ` set (files m). \<not> IsDirectory m f)"

subsection \<open>The in-memory area keeps the contract\<close>

lemma parents_iff: "q \<in> set (parents p) \<longleftrightarrow> has_prefix p (q @ ''/'')"
proof
  assume "q \<in> set (parents p)"
  then obtain i where i: "i < length (split_on (CHR ''/'') p) - 1" "q = join ''/'' (take (Suc i) (split_on (CHR ''/'') p))"
    by (auto simp: parents_def Let_def)
  have "join ''/'' (take (Suc i) (split_on (CHR ''/'') p) @ drop (Suc i) (split_on (CHR ''/'') p)) =
      q @ ''/'' @ join ''/'' (drop (Suc i) (split_on (CHR ''/'') p))"
    unfolding i(2) using i(1) by (intro join_append) auto
  then show "has_prefix p (q @ ''/'')"
    using join_split [of "CHR ''/''" p] by (auto simp: has_prefix_iff)
next
  assume "has_prefix p (q @ ''/'')"
  then obtain r where p: "p = q @ CHR ''/'' # r" by (auto simp: has_prefix_iff)
  let ?n = "length (split_on (CHR ''/'') q)"
  have "0 < ?n" "0 < length (split_on (CHR ''/'') r)" by simp_all
  moreover have "take (Suc (?n - 1)) (split_on (CHR ''/'') p) = split_on (CHR ''/'') q"
    using \<open>0 < ?n\<close> by (simp add: p split_on_append)
  moreover have "q = join ''/'' (split_on (CHR ''/'') q)"
    by (simp add: join_split)
  moreover have "?n - 1 \<in> set [0..<length (split_on (CHR ''/'') p) - 1]"
    using calculation(1,2) unfolding p split_on_append length_append set_upt by (simp del: length_greater_0_conv)
  ultimately show "q \<in> set (parents p)"
    unfolding parents_def Let_def set_rev set_map
    by (intro image_eqI [of _ _ "?n - 1"]) simp_all
qed

lemma IsDirectory_iff:
  "IsDirectory m p \<longleftrightarrow> p \<in> set (directories m) \<or> (\<exists>f\<in>fst ` set (files m). p \<in> set (parents f))"
  by (fastforce simp: IsDirectory_def list_ex_iff parents_iff)

lemma map_of_None_iff: "map_of xs k = None \<longleftrightarrow> k \<notin> fst ` set xs"
  by (simp add: map_of_eq_None_iff)

lemma AdmitTarget_None:
  "AdmitTarget m p isRecord = None \<longleftrightarrow>
     cancelledWith m = None \<and> (valid_path p \<or> \<not> isRecord \<and> p = []) \<and> (\<forall>q\<in>set (parents p). q \<notin> fst ` set (files m)) \<and>
     (if isRecord then \<not> IsDirectory m p else p \<notin> fst ` set (files m))"
proof -
  have "parents [] = []" by (simp add: parents_def)
  then show ?thesis
    by (cases "cancelledWith m"; cases isRecord; cases "p = []") (simp_all add: AdmitTarget_def list_ex_iff map_of_None_iff)
qed

lemma invar_add:
  assumes inv: "memoryInvar m" and adm: "AdmitTarget m p True = None"
  shows "memoryInvar (m\<lparr>files := AList.update p d (files m)\<rparr>)"
proof -
  have "\<not> IsDirectory m p" "\<forall>q\<in>set (parents p). q \<notin> fst ` set (files m)" "valid_path p"
    using adm by (simp_all add: AdmitTarget_None)
  moreover have "fst ` set (AList.update p d (files m)) = insert p (fst ` set (files m))"
    by (simp add: dom_update)
  moreover have "p \<notin> set (parents p)"
    by (auto simp: parents_iff has_prefix_iff)
  ultimately show ?thesis
    using inv by (auto simp: memoryInvar_def IsDirectory_iff distinct_update)
qed

lemma invar_directories:
  assumes "memoryInvar m" and "set ds \<inter> fst ` set (files m) = {}"
  shows "memoryInvar (m\<lparr>directories := ds @ directories m\<rparr>)"
  using assms by (auto simp: memoryInvar_def IsDirectory_def)

text \<open>A listing: every direct child once, a record with its size.\<close>

lemma map_of_insert_member [simp]: "map_of (insert_member k v ms) = (map_of ms)(k \<mapsto> v)"
  by (induction ms) auto

lemma listFile_map_of:
  "map_of (listFile prefix f sizes) =
     (case cut_prefix (fst f) prefix of None \<Rightarrow> map_of sizes | Some rest \<Rightarrow>
        if rest = [] then map_of sizes
        else if CHR ''/'' \<in> set rest then (map_of sizes)(fst (cut_at ''/'' rest) \<mapsto> -1)
        else (map_of sizes)(rest \<mapsto> int (length (snd f))))"
proof -
  have "snd (snd (cut_at ''/'' rest)) \<longleftrightarrow> CHR ''/'' \<in> set rest" for rest
    by (induction rest) (auto simp: has_prefix_def split: prod.splits)
  then show ?thesis
    by (auto simp: listFile_def split: option.splits prod.splits) (metis snd_conv)+
qed

lemma cut_prefix_iff: "cut_prefix s p = Some r \<longleftrightarrow> s = p @ r"
  by (auto simp: cut_prefix_def has_prefix_iff)

lemma cut_at_slash: "CHR ''/'' \<in> set r \<Longrightarrow> \<exists>t. r = fst (cut_at ''/'' r) @ CHR ''/'' # t"
  by (induction r) (auto simp: has_prefix_def split: prod.splits)

text \<open>What listing the records does to the entry of one name without a slash.\<close>

lemma listFile_record:
  assumes "CHR ''/'' \<notin> set n" "n \<noteq> []" "distinct (map fst fs)" "\<forall>f\<in>fst ` set fs. \<not> has_prefix f (prefix @ n @ ''/'')"
  shows "map_of (fold (listFile prefix) fs sizes) n =
    (case map_of fs (prefix @ n) of Some d \<Rightarrow> Some (int (length d)) | None \<Rightarrow> map_of sizes n)"
  using assms(3,4)
proof (induction fs arbitrary: sizes)
  case (Cons f fs)
  have other: "map_of (listFile prefix f sizes) n = map_of sizes n" if "fst f \<noteq> prefix @ n"
  proof (cases "cut_prefix (fst f) prefix")
    case (Some r)
    then have f: "fst f = prefix @ r" by (simp add: cut_prefix_iff)
    have "fst (cut_at ''/'' r) \<noteq> n" if "CHR ''/'' \<in> set r"
      using cut_at_slash [OF that] Cons.prems(2) f by (auto simp: has_prefix_iff)
    then show ?thesis
      using that f Some by (auto simp: listFile_map_of)
  qed (simp add: listFile_map_of)
  have own: "map_of (listFile prefix f sizes) n = Some (int (length (snd f)))" if "fst f = prefix @ n"
    using that assms(1,2) cut_prefix_iff [of "prefix @ n" prefix n] by (simp add: listFile_map_of)
  have IH: "map_of (fold (listFile prefix) fs (listFile prefix f sizes)) n =
      (case map_of fs (prefix @ n) of Some d \<Rightarrow> Some (int (length d)) | None \<Rightarrow> map_of (listFile prefix f sizes) n)"
    using Cons by simp
  show ?case
  proof (cases "fst f = prefix @ n")
    case True
    then have "map_of fs (prefix @ n) = None" using Cons.prems(1) by (auto simp: map_of_None_iff)
    then show ?thesis using True IH own by (cases f) simp
  next
    case False
    then show ?thesis using IH other [OF False] by (cases f) (auto split: option.splits)
  qed
qed simp

lemma listFile_absent:
  assumes "CHR ''/'' \<notin> set n" "prefix @ n \<notin> fst ` set fs" "map_of sizes n = None \<or> map_of sizes n = Some (-1)"
  shows "map_of (fold (listFile prefix) fs sizes) n = None \<or> map_of (fold (listFile prefix) fs sizes) n = Some (-1)"
  using assms(2,3)
proof (induction fs arbitrary: sizes)
  case (Cons f fs)
  have "map_of (listFile prefix f sizes) n = None \<or> map_of (listFile prefix f sizes) n = Some (-1)"
  proof (cases "cut_prefix (fst f) prefix")
    case (Some r)
    then have "fst f = prefix @ r" by (simp add: cut_prefix_iff)
    with Some Cons.prems show ?thesis by (auto simp: listFile_map_of)
  qed (use Cons.prems in \<open>simp add: listFile_map_of\<close>)
  with Cons show ?case by simp
qed simp

lemma listDirectory_map_of:
  "map_of (fold (listDirectory prefix) ds sizes) n =
     (if n \<noteq> [] \<and> CHR ''/'' \<notin> set n \<and> prefix @ n \<in> set ds then Some (-1) else map_of sizes n)"
proof (induction ds arbitrary: sizes)
  case (Cons d ds)
  then show ?case
    by (cases "cut_prefix d prefix") (auto simp: listDirectory_def cut_prefix_iff, auto simp: cut_prefix_def has_prefix_iff)
qed simp

lemma sorted_listing: "sorted_wrt (<) (map fst sizes) \<Longrightarrow> sorted_wrt (<) (map fst (listFile prefix f sizes))"
  "sorted_wrt (<) (map fst sizes) \<Longrightarrow> sorted_wrt (<) (map fst (listDirectory prefix d sizes))"
  by (auto simp: listFile_def listDirectory_def sorted_insert_member split: option.splits prod.splits)

lemma distinct_listing:
  "distinct (map fst (fold (listDirectory prefix) ds (fold (listFile prefix) fs [])))"
proof -
  have f: "sorted_wrt (<) (map fst sizes) \<Longrightarrow> sorted_wrt (<) (map fst (fold (listFile prefix) fs sizes))" for sizes
    by (induction fs arbitrary: sizes) (simp_all add: sorted_listing)
  have d: "sorted_wrt (<) (map fst sizes) \<Longrightarrow> sorted_wrt (<) (map fst (fold (listDirectory prefix) ds sizes))" for sizes
    by (induction ds arbitrary: sizes) (simp_all add: sorted_listing)
  show ?thesis
    using d [OF f [of "[]"]] by (simp add: strict_sorted_iff)
qed

lemma Entries_records:
  assumes inv: "memoryInvar m" and "p \<noteq> []" "n \<noteq> []" "CHR ''/'' \<notin> set n"
  shows "map_of (files m) (p @ ''/'' @ n) \<noteq> None \<longleftrightarrow> (\<exists>e\<in>set (Entries m p). EntryName e = n \<and> \<not> Directory e)"
proof -
  let ?prefix = "p @ ''/''"
  let ?sizes = "fold (listDirectory ?prefix) (directories m) (fold (listFile ?prefix) (files m) [])"
  have "(\<exists>e\<in>set (Entries m p). EntryName e = n \<and> \<not> Directory e) \<longleftrightarrow> (\<exists>size\<ge>0. (n, size) \<in> set ?sizes)"
  proof -
    have "(\<exists>e\<in>set (Entries m p). EntryName e = n \<and> \<not> Directory e) \<longleftrightarrow> (\<exists>x\<in>set ?sizes. fst x = n \<and> \<not> snd x < 0)"
      using assms(2) by (simp add: Entries_def Let_def split_beta)
    then show ?thesis by (metis fst_conv not_less prod.collapse snd_conv)
  qed
  also have "\<dots> \<longleftrightarrow> (\<exists>size\<ge>0. map_of ?sizes n = Some size)"
    using distinct_listing by simp
  also have "\<dots> \<longleftrightarrow> map_of (files m) (?prefix @ n) \<noteq> None"
  proof (cases "map_of (files m) (?prefix @ n)")
    case None
    then have "?prefix @ n \<notin> fst ` set (files m)" by (simp add: map_of_None_iff)
    then show ?thesis
      using listFile_absent [OF assms(4), of ?prefix "files m" "[]"] None by (auto simp: listDirectory_map_of)
  next
    case (Some d)
    then have f: "?prefix @ n \<in> fst ` set (files m)" by (metis map_of_None_iff option.distinct(1))
    then have "\<not> IsDirectory m (?prefix @ n)" using inv unfolding memoryInvar_def by blast
    then have "?prefix @ n \<notin> set (directories m)" "\<forall>f\<in>fst ` set (files m). \<not> has_prefix f (?prefix @ n @ ''/'')"
      by (auto simp: IsDirectory_def list_ex_iff)
    then show ?thesis
      using listFile_record [OF assms(4,3), of "files m" ?prefix "[]"] inv Some
      by (simp add: listDirectory_map_of memoryInvar_def)
  qed
  finally show ?thesis by simp
qed

abbreviation memoryRecords :: "memoryArea \<Rightarrow> string \<rightharpoonup> string" where
  "memoryRecords m \<equiv> map_of (files m)"

lemma admitted_cases:
  assumes "admitted operation p isRecord f m = (r, m')"
  obtains (stopped) e where "r = Inl e" "m' = m" | (runs) "AdmitTarget m p isRecord = None" "f m = (r, m')"
  using assms by (auto simp: admitted_def split: option.splits)

lemma invar_delete:
  assumes "memoryInvar m" and "\<forall>q\<in>set (parents p). q \<notin> fst ` set (files m)"
  shows "memoryInvar (m\<lparr>files := AList.delete p (files m), directories := parents p @ directories m\<rparr>)"
proof -
  have "fst ` set (AList.delete p (files m)) = fst ` set (files m) - {p}"
    by (auto simp: AList.delete_eq image_iff)
  then show ?thesis
    using assms by (auto simp: memoryInvar_def IsDirectory_iff distinct_delete)
qed

lemma memory_read:
  fixes m m' :: memoryArea and p :: string and maximum :: nat and rr :: "storeError + string option"
  assumes inv: "memoryInvar m" and op: "areaRead memoryOperations p maximum m = (rr, m')"
  shows "memoryInvar m' \<and> memoryRecords m' = memoryRecords m \<and> (\<forall>x. rr = Inr x \<longrightarrow> x = memoryRecords m p)"
proof -
  have adm: "admitted ''read'' p True (\<lambda>m. case map_of (files m) p of None \<Rightarrow> (Inr None, m)
      | Some data \<Rightarrow> if maximum > 0 \<and> length data > maximum then (Inl (AreaError ''bounds''), m) else (Inr (Some data), m)) m = (rr, m')"
    using op by (simp add: memoryOperations_def)
  from adm show ?thesis
    using inv by (cases rule: admitted_cases) (auto split: option.splits if_splits)
qed

lemma memory_entries:
  fixes m m' :: memoryArea and p :: string and re :: "storeError + Entry list"
  assumes inv: "memoryInvar m" and op: "areaEntries memoryOperations p m = (re, m')"
  shows "memoryInvar m' \<and> memoryRecords m' = memoryRecords m"
proof -
  have adm: "admitted ''entries'' p False (\<lambda>m. (Inr (Entries m p), m)) m = (re, m')"
    using op by (simp add: memoryOperations_def)
  from adm show ?thesis
    using inv by (cases rule: admitted_cases) auto
qed

lemma memory_entries_list:
  fixes m m' :: memoryArea and p n :: string and es :: "Entry list"
  assumes inv: "memoryInvar m" and e: "areaEntries memoryOperations p m = (Inr es, m')" and n: "p \<noteq> []" "n \<noteq> []" "CHR ''/'' \<notin> set n"
  shows "memoryRecords m (p @ ''/'' @ n) \<noteq> None \<longleftrightarrow> (\<exists>e\<in>set es. EntryName e = n \<and> \<not> Directory e)"
proof -
  have "admitted ''entries'' p False (\<lambda>m. (Inr (Entries m p), m)) m = (Inr es, m')"
    using e by (simp add: memoryOperations_def)
  then have "es = Entries m p"
    by (cases rule: admitted_cases) auto
  then show ?thesis
    using Entries_records [OF inv n] by simp
qed

lemma memory_ensure:
  fixes m m' :: memoryArea and p :: string and ru :: "storeError + unit"
  assumes inv: "memoryInvar m" and op: "areaEnsureDirectory memoryOperations p m = (ru, m')"
  shows "memoryInvar m' \<and> memoryRecords m' = memoryRecords m"
proof -
  have adm: "admitted ''ensure'' p False (\<lambda>m. (Inr (), if p = [] then m else m\<lparr>directories := p # parents p @ directories m\<rparr>)) m = (ru, m')"
    using op by (simp add: memoryOperations_def)
  from adm show ?thesis
  proof (cases rule: admitted_cases)
    case runs
    then have "set (p # parents p) \<inter> fst ` set (files m) = {}"
      by (auto simp: AdmitTarget_None)
    then have "memoryInvar (m\<lparr>directories := (p # parents p) @ directories m\<rparr>)"
      using inv by (intro invar_directories)
    with runs inv show ?thesis by (auto split: if_splits)
  qed (use inv in auto)
qed

lemma memory_write:
  fixes m m' :: memoryArea and p d :: string and ru :: "storeError + unit"
  assumes inv: "memoryInvar m" and op: "areaWriteExclusive memoryOperations p d m = (ru, m')"
  shows "memoryInvar m' \<and> (memoryRecords m p = None \<and> memoryRecords m' = (memoryRecords m)(p \<mapsto> d) \<or>
      (\<exists>e. ru = Inl e) \<and> memoryRecords m' = memoryRecords m)"
proof -
  have adm: "admitted ''write'' p True (\<lambda>m. if map_of (files m) p \<noteq> None then (Inl (AreaError ''exists''), m)
      else (Inr (), m\<lparr>files := (p, d) # files m\<rparr>)) m = (ru, m')"
    using op by (simp add: memoryOperations_def)
  from adm show ?thesis
  proof (cases rule: admitted_cases)
    case runs
    show ?thesis
    proof (cases "map_of (files m) p")
      case None
      have "memoryInvar (m\<lparr>files := (p, d) # files m\<rparr>)"
      proof -
        have "\<not> IsDirectory m p" "\<forall>q\<in>set (parents p). q \<notin> fst ` set (files m)"
          using runs(1) by (simp_all add: AdmitTarget_None)
        moreover have "p \<notin> set (parents p)" by (auto simp: parents_iff has_prefix_iff)
        ultimately show ?thesis
          using inv None by (auto simp: memoryInvar_def IsDirectory_iff map_of_None_iff)
      qed
      with None runs(2) show ?thesis by auto
    qed (use inv runs(2) in auto)
  qed (use inv in auto)
qed

lemma memory_replace:
  fixes m m' :: memoryArea and p d :: string and x :: "string option" and ru :: "storeError + unit"
  assumes inv: "memoryInvar m" and op: "areaReplace memoryOperations p d x m = (ru, m')"
  shows "memoryInvar m' \<and> (memoryRecords m p = x \<and> memoryRecords m' = (memoryRecords m)(p \<mapsto> d) \<or>
      (\<exists>e. ru = Inl e) \<and> memoryRecords m' = memoryRecords m)"
proof -
  have adm: "admitted ''replace'' p True (\<lambda>m. if map_of (files m) p \<noteq> x
      then (Inl (AreaError (if x = None then ''destination exists'' else ''expectation'')), m)
      else (Inr (), m\<lparr>files := AList.update p d (files m)\<rparr>)) m = (ru, m')"
    using op by (simp add: memoryOperations_def)
  from adm show ?thesis
    using inv by (cases rule: admitted_cases) (auto simp: update_conv' intro: invar_add split: if_splits)
qed

lemma memory_append:
  fixes m m' :: memoryArea and p d :: string and ru :: "storeError + unit"
  assumes inv: "memoryInvar m" and op: "areaAppend memoryOperations p d m = (ru, m')"
  shows "memoryInvar m' \<and> ((\<exists>k. memoryRecords m' = (memoryRecords m)(p \<mapsto> (case memoryRecords m p of None \<Rightarrow> [] | Some old \<Rightarrow> old) @ take k d) \<and>
      (ru = Inr () \<longrightarrow> k = length d)) \<or> (\<exists>e. ru = Inl e) \<and> memoryRecords m' = memoryRecords m)"
proof -
  have adm: "admitted ''append'' p True (\<lambda>m. (Inr (), m\<lparr>files := AList.update p
      ((case map_of (files m) p of None \<Rightarrow> [] | Some old \<Rightarrow> old) @ d) (files m)\<rparr>)) m = (ru, m')"
    using op by (simp add: memoryOperations_def)
  from adm show ?thesis
    using inv by (cases rule: admitted_cases) (auto simp: update_conv' intro: invar_add intro!: exI [of _ "length d"])
qed

lemma memory_remove_directory:
  fixes m m' :: memoryArea and p :: string and ru :: "storeError + unit"
  assumes inv: "memoryInvar m" and r: "areaRemoveDirectory memoryOperations p m = (ru, m')"
  shows "memoryInvar m' \<and> memoryRecords m' = memoryRecords m"
proof -
  show ?thesis
  proof (cases "p = []")
    case True
    with r inv show ?thesis by (auto simp: memoryOperations_def admittedArea_def split: option.splits)
  next
    case False
    then have "admitted ''remove'' p False (\<lambda>m. if list_ex (\<lambda>d. has_prefix d (p @ ''/'')) (directories m @ map fst (files m))
        then (Inl (AreaError ''directory not empty''), m) else (Inr (), m\<lparr>directories := removeAll p (directories m)\<rparr>)) m = (ru, m')"
      using r by (simp add: memoryOperations_def)
    moreover have "memoryInvar (m\<lparr>directories := removeAll p (directories m)\<rparr>)"
      using inv by (auto simp: memoryInvar_def IsDirectory_def)
    ultimately show ?thesis
      using inv by (cases rule: admitted_cases) (auto split: if_splits)
  qed
qed

lemma memory_remove_record:
  fixes m m' :: memoryArea and p d :: string and ru :: "storeError + unit"
  assumes inv: "memoryInvar m" and op: "areaRemoveRecord memoryOperations p d m = (ru, m')"
  shows "memoryInvar m' \<and> ((memoryRecords m p = None \<or> memoryRecords m p = Some d) \<and> memoryRecords m' = (memoryRecords m)(p := None) \<or>
      (\<exists>e. ru = Inl e) \<and> memoryRecords m' = memoryRecords m)"
proof -
  have adm: "admitted ''unlink'' p True (\<lambda>m. case map_of (files m) p of None \<Rightarrow> (Inr (), m)
      | Some data \<Rightarrow> if data \<noteq> d then (Inl (AreaError ''the record changed before its removal''), m)
        else (Inr (), m\<lparr>files := AList.delete p (files m), directories := parents p @ directories m\<rparr>)) m = (ru, m')"
    using op by (simp add: memoryOperations_def)
  from adm show ?thesis
  proof (cases rule: admitted_cases)
    case runs
    have "\<forall>q\<in>set (parents p). q \<notin> fst ` set (files m)"
      using runs(1) by (simp add: AdmitTarget_None)
    then have "memoryInvar (m\<lparr>files := AList.delete p (files m), directories := parents p @ directories m\<rparr>)"
      using inv invar_delete by blast
    with runs(2) inv show ?thesis
      by (auto simp: delete_conv' map_upd_triv split: option.splits if_splits)
  qed (use inv in auto)
qed

lemma memory_sync:
  fixes m m' :: memoryArea and p :: string and ru :: "storeError + unit"
  assumes inv: "memoryInvar m" and op: "areaSync memoryOperations p m = (ru, m')"
  shows "memoryInvar m' \<and> memoryRecords m' = memoryRecords m"
proof -
  have adm: "admitted ''sync'' p False (\<lambda>m. (Inr (), m)) m = (ru, m')"
    using op by (simp add: memoryOperations_def)
  from adm show ?thesis
    using inv by (cases rule: admitted_cases) auto
qed

interpretation memory: area memoryOperations memoryRecords memoryInvar
  by unfold_locales (fact memory_read memory_entries memory_entries_list memory_ensure memory_write memory_replace memory_append memory_remove_directory memory_remove_record memory_sync)+

end
