(* ===== verification/StoreInvariants.thy ===== *)
theory StoreInvariants
  imports Resolutions MemoryArea
begin

section \<open>What holds of a context's records after any calls\<close>

text \<open>
  \<open>storeCall\<close> is any public call of the store, on any store over the world: the calls of several
  commands one after the other are a sequence of them, with whatever each store remembers, and
  each returns or fails. What every write of \<open>Publication\<close> keeps holds after every such sequence.
\<close>

subsection \<open>Paths\<close>

lemma recordPath_distinct:
  assumes "ValidOperationID i" and "ValidSegment b" and "recordPath i b n k p" and "ValidOperationID j" and "ValidSegment c"
  shows "p \<noteq> blockPath j c" "p \<noteq> indexPath" "p \<noteq> operationPath j" "p \<noteq> planPath j"
proof -
  note sg = ValidOperationID_segment [OF assms(1)] ValidSegment_segment [OF assms(2)] ValidOperationID_segment [OF assms(4)]
    ValidSegment_segment [OF assms(5)]
  consider s where "FormatNumber n = Inr s" "p = attemptPath i b s"
    | s t where "FormatNumber n = Inr s" "FormatNumber k = Inr t" "p = resolutionPath i b s t"
    using assms(3) by (auto simp: recordPath_def)
  then have "p \<noteq> blockPath j c \<and> p \<noteq> indexPath \<and> p \<noteq> operationPath j \<and> p \<noteq> planPath j"
    by cases (simp_all add: record_paths join_segments_eq sg attemptName_segment resolutionName_segment)
  then show "p \<noteq> blockPath j c" "p \<noteq> indexPath" "p \<noteq> operationPath j" "p \<noteq> planPath j" by simp_all
qed

lemma planPath_distinct:
  assumes "ValidOperationID i"
  shows "ValidOperationID j \<Longrightarrow> planPath i \<noteq> operationPath j" "planPath i \<noteq> indexPath"
  using assms by (simp_all add: record_paths join_segments_eq ValidOperationID_segment)

lemma operation_not_index: "ValidOperationID i \<Longrightarrow> operationPath i \<noteq> indexPath"
  by (simp add: record_paths join_segments_eq ValidOperationID_segment)

lemma attempt_recordPath: "FormatNumber n = Inr s \<Longrightarrow> recordPath i b n 0 (attemptPath i b s)"
  by (auto simp: recordPath_def)

lemma resolution_recordPath: "FormatNumber n = Inr s \<Longrightarrow> FormatNumber k = Inr t \<Longrightarrow> recordPath i b n k (resolutionPath i b s t)"
  by (auto simp: recordPath_def)

subsection \<open>A block counts only attempts that have a record\<close>

definition countsAttempts :: "'w StoreConfig \<Rightarrow> recordsOf \<Rightarrow> bool" where
  "countsAttempts cfg m \<longleftrightarrow>
     (\<forall>i b r k s. ValidOperationID i \<longrightarrow> ValidSegment b \<longrightarrow> blockRead cfg m i b r True \<longrightarrow> 1 \<le> k \<longrightarrow> k \<le> Attempts r \<longrightarrow>
        FormatNumber k = Inr s \<longrightarrow> m (attemptPath i b s) \<noteq> None)"

lemma counts_other:
  assumes "countsAttempts cfg m" and "\<And>i b. ValidOperationID i \<Longrightarrow> ValidSegment b \<Longrightarrow> p \<noteq> blockPath i b"
  shows "countsAttempts cfg (m(p \<mapsto> d))"
  unfolding countsAttempts_def
proof (intro allI impI)
  fix i b r k s
  assume v: "ValidOperationID i" "ValidSegment b" and r: "blockRead cfg (m(p \<mapsto> d)) i b r True" and k: "1 \<le> k" "k \<le> Attempts r" "FormatNumber k = Inr s"
  have "blockRead cfg m i b r True" using r blockRead_other [OF assms(2) [OF v], of cfg m d r True] by simp
  then have "m (attemptPath i b s) \<noteq> None" using assms(1) v k unfolding countsAttempts_def by blast
  then show "(m(p \<mapsto> d)) (attemptPath i b s) \<noteq> None" by simp
qed

lemma counts_block:
  assumes c: "countsAttempts cfg m" and v: "ValidOperationID i" "ValidSegment b" and d: "decodedBlock cfg d r"
    and k: "\<And>k s. 1 \<le> k \<Longrightarrow> k \<le> Attempts r \<Longrightarrow> FormatNumber k = Inr s \<Longrightarrow> m (attemptPath i b s) \<noteq> None"
  shows "countsAttempts cfg (m(blockPath i b \<mapsto> d))"
  unfolding countsAttempts_def
proof (intro allI impI)
  fix j e q n s
  assume w: "ValidOperationID j" "ValidSegment e" and q: "blockRead cfg (m(blockPath i b \<mapsto> d)) j e q True"
    and n: "1 \<le> n" "n \<le> Attempts q" "FormatNumber n = Inr s"
  have "m (attemptPath j e s) \<noteq> None"
  proof (cases "i = j \<and> b = e")
    case True
    then have "q = r" using q d by (auto simp: blockRead_def decodedBlock_def)
    then show ?thesis using True k n by blast
  next
    case False
    then have "blockRead cfg m j e q True"
      using q blockPath_eq [OF v w] by (subst (asm) blockRead_other) auto
    then show ?thesis using c w n unfolding countsAttempts_def by blast
  qed
  then show "(m(blockPath i b \<mapsto> d)) (attemptPath j e s) \<noteq> None" by simp
qed

lemma step_counts:
  assumes "recordStep cfg m m'" and "countsAttempts cfg m"
  shows "countsAttempts cfg m'"
  using assms
proof (cases rule: recordStep.cases)
  case (pend i b d)
  then show ?thesis using counts_block [OF assms(2) pend(2,3,5)] by auto
next
  case (start i b r s build d)
  then show ?thesis using counts_other [OF assms(2)] attemptPath_distinct(1) by blast
next
  case (counted i b r s p build d)
  have "m (attemptPath i b u) \<noteq> None" if "1 \<le> k" "k \<le> Attempts r + 1" "FormatNumber k = Inr u" for k u
  proof (cases "k = Attempts r + 1")
    case True
    then show ?thesis using counted(5,6) that(3) by simp
  next
    case False
    then have "k \<le> Attempts r" using that(2) by simp
    then show ?thesis using assms(2) counted(2-4) that(1,3) unfolding countsAttempts_def by blast
  qed
  then show ?thesis using counts_block [OF assms(2) counted(2,3,8)] counted(1) by simp
next
  case (prepared i b n p old a a' d)
  then show ?thesis using counts_other [OF assms(2)] recordPath_distinct(1) by blast
next
  case (observed i b n k p old a a' d)
  then show ?thesis using counts_other [OF assms(2)] recordPath_distinct(1) by blast
next
  case (settled i b r recorded d state)
  have "m (attemptPath i b u) \<noteq> None" if "1 \<le> k" "k \<le> Attempts r" "FormatNumber k = Inr u" for k u
  proof -
    have "blockRead cfg m i b r True"
      using settled(4) that by (auto simp: blockRead_def split: option.splits)
    then show ?thesis using assms(2) settled(2,3) that unfolding countsAttempts_def by blast
  qed
  then show ?thesis using counts_block [OF assms(2) settled(2,3,5)] settled(1) by simp
next
  case (resolving i b n s k t removal build time d)
  then show ?thesis using counts_other [OF assms(2)] resolutionPath_distinct(1) by blast
next
  case (planned i plan d)
  then show ?thesis using counts_other [OF assms(2)] blockPath_distinct(3) by metis
next
  case (registered op d)
  then show ?thesis using counts_other [OF assms(2)] blockPath_distinct(2) validateOperation_references(1) by metis
next
  case (indexed x d)
  then show ?thesis using counts_other [OF assms(2)] blockPath_distinct(1) by metis
next
  case (updated op time d)
  then show ?thesis using counts_other [OF assms(2)] blockPath_distinct(2) validateOperation_references(1) by metis
qed

subsection \<open>The index names an operation whose records are in place\<close>

definition indexNames :: "'w StoreConfig \<Rightarrow> recordsOf \<Rightarrow> bool" where
  "indexNames cfg m \<longleftrightarrow>
     (\<forall>d x. m indexPath = Some d \<longrightarrow> decodedIndex cfg d x \<longrightarrow> Current x \<noteq> [] \<longrightarrow>
        m (planPath (Current x)) \<noteq> None \<and> m (operationPath (Current x)) \<noteq> None)"

lemma index_other: "indexNames cfg m \<Longrightarrow> p \<noteq> indexPath \<Longrightarrow> indexNames cfg (m(p \<mapsto> d))"
  by (auto simp: indexNames_def)

lemma step_index:
  assumes "recordStep cfg m m'" and "indexNames cfg m"
  shows "indexNames cfg m'"
  using assms(1)
proof (cases rule: recordStep.cases)
  case (indexed x d)
  have "x' = x" if "decodedIndex cfg d x'" for x' using that indexed(5) by (auto simp: decodedIndex_def)
  then show ?thesis unfolding indexNames_def indexed(1) using indexed(3,4) by fastforce
next
  case (pend i b d)
  then show ?thesis using index_other [OF assms(2)] blockPath_distinct(1) by simp
next
  case (start i b r s build d)
  then show ?thesis using index_other [OF assms(2)] attemptPath_distinct(2) by simp
next
  case (counted i b r s p build d)
  then show ?thesis using index_other [OF assms(2)] blockPath_distinct(1) by simp
next
  case (prepared i b n p old a a' d)
  then show ?thesis using index_other [OF assms(2)] recordPath_distinct(2) by blast
next
  case (observed i b n k p old a a' d)
  then show ?thesis using index_other [OF assms(2)] recordPath_distinct(2) by blast
next
  case (settled i b r recorded d state)
  then show ?thesis using index_other [OF assms(2)] blockPath_distinct(1) by simp
next
  case (resolving i b n s k t removal build time d)
  then show ?thesis using index_other [OF assms(2)] resolutionPath_distinct(2) by simp
next
  case (planned i plan d)
  then show ?thesis using index_other [OF assms(2)] planPath_distinct(2) by simp
next
  case (registered op d)
  then show ?thesis using index_other [OF assms(2)] operation_not_index validateOperation_references(1) by simp
next
  case (updated op time d)
  then show ?thesis using index_other [OF assms(2)] operation_not_index validateOperation_references(1) by simp
qed

subsection \<open>What is written once\<close>

text \<open>A record stays, a frozen plan as it was written, and an attempt that was observed as it was observed.\<close>

lemma step_kept: "recordStep cfg m m' \<Longrightarrow> m p \<noteq> None \<Longrightarrow> m' p \<noteq> None"
  by (auto elim!: recordStep.cases)

lemma step_plan:
  assumes "recordStep cfg m m'" and "m (planPath i) = Some d" and "ValidOperationID i"
  shows "m' (planPath i) = Some d"
  using assms(1)
proof (cases rule: recordStep.cases)
  case (pend j b e)
  then show ?thesis using assms blockPath_distinct(3) [OF pend(2,3) assms(3)] by simp
next
  case (start j b r s build e)
  then show ?thesis
    using assms recordPath_distinct(4) [OF start(2,3) attempt_recordPath [OF start(5)] assms(3) start(3)] by auto
next
  case (counted j b r s p build e)
  then show ?thesis using assms blockPath_distinct(3) [OF counted(2,3) assms(3)] by simp
next
  case (prepared j b n p old a a' e)
  then show ?thesis using assms recordPath_distinct(4) [OF prepared(2-4) assms(3) prepared(3)] by auto
next
  case (observed j b n k p old a a' e)
  then show ?thesis using assms recordPath_distinct(4) [OF observed(2-4) assms(3) observed(3)] by auto
next
  case (settled j b r recorded e state)
  then show ?thesis using assms blockPath_distinct(3) [OF settled(2,3) assms(3)] by simp
next
  case (resolving j b n s k t removal build time e)
  then show ?thesis
    using assms recordPath_distinct(4) [OF resolving(2,3) resolution_recordPath [OF resolving(4,5)] assms(3) resolving(3)] by auto
next
  case (planned j plan e)
  then show ?thesis using assms by auto
next
  case (registered op e)
  then show ?thesis using assms planPath_distinct(1) [OF assms(3) validateOperation_references(1) [OF registered(2)]] by simp
next
  case (indexed x e)
  then show ?thesis using assms planPath_distinct(2) [OF assms(3)] by simp
next
  case (updated op time e)
  then show ?thesis using assms planPath_distinct(1) [OF assms(3) validateOperation_references(1) [OF updated(2)]] by simp
qed

lemma decodedAttempt_unique: "decodedAttempt cfg d a \<Longrightarrow> decodedAttempt cfg d a' \<Longrightarrow> a = a'"
  by (auto simp: decodedAttempt_def)

lemma step_observed:
  assumes "recordStep cfg m m'" and v: "ValidOperationID i" "ValidSegment b" and p: "recordPath i b n k p"
    and d: "m p = Some d" "decodedAttempt cfg d a" "Phase a \<noteq> ''running''"
  shows "m' p = Some d"
proof -
  note unique = decodedAttempt_unique [OF d(2)] and distinct = recordPath_distinct [OF v p]
  show ?thesis
    using assms(1)
  proof (cases rule: recordStep.cases)
    case (pend j c e)
    then show ?thesis using d distinct(1) [OF pend(2,3)] by simp
  next
    case (start j c r s build e)
    have "p \<noteq> attemptPath j c s"
    proof
      assume "p = attemptPath j c s"
      then obtain a' where "decodedAttempt cfg d a'" "Phase a' = ''running''"
        using start(6) d(1) unfolding startedRecord_def by metis
      then show False using unique d(3) by simp
    qed
    then show ?thesis using d(1) start(1) by simp
  next
    case (counted j c r s q build e)
    then show ?thesis using d distinct(1) [OF counted(2,3)] by simp
  next
    case (prepared j c n q old a1 a2 e)
    have "p \<noteq> q" using prepared(5,6,7) d(1,3) unique [of a1] by auto
    then show ?thesis using d(1) prepared(1) by simp
  next
    case (observed j c n k q old a1 a2 e)
    have "p \<noteq> q" using observed(5,6,7) d(1,3) unique [of a1] by auto
    then show ?thesis using d(1) observed(1) by simp
  next
    case (settled j c r recorded e state)
    then show ?thesis using d distinct(1) [OF settled(2,3)] by simp
  next
    case (resolving j c n s k t removal build time e)
    then show ?thesis using d by auto
  next
    case (planned j plan e)
    then show ?thesis using d by auto
  next
    case (registered op e)
    then show ?thesis using d by auto
  next
    case (indexed x e)
    then show ?thesis using d distinct(2) [OF v] by simp
  next
    case (updated op time e)
    then show ?thesis using d distinct(3) [OF validateOperation_references(1) [OF updated(2)] v(2)] by simp
  qed
qed

lemma publishes_keep:
  assumes "publishes cfg m m'" and "P m" and "\<And>m m'. recordStep cfg m m' \<Longrightarrow> P m \<Longrightarrow> P m'"
  shows "P m'"
  using assms by (induction rule: rtranclp_induct) auto

subsection \<open>Any calls\<close>

inductive storeCall :: "'w StoreConfig \<Rightarrow> 'w \<Rightarrow> 'w \<Rightarrow> bool" for cfg where
  "Register cfg op plan s = (r, s') \<Longrightarrow> storeCall cfg (world s) (world s')"
| "ClaimAdding cfg i plan predecessor s = (r, s') \<Longrightarrow> storeCall cfg (world s) (world s')"
| "UpdateOperation cfg op s = (r, s') \<Longrightarrow> storeCall cfg (world s) (world s')"
| "ValidOperationID i \<Longrightarrow> ValidSegment b \<Longrightarrow> StartAttempt cfg i b build s = (rn, s') \<Longrightarrow> storeCall cfg (world s) (world s')"
| "ValidOperationID i \<Longrightarrow> ValidSegment b \<Longrightarrow> RecordPreparation cfg i b n x s = (r, s') \<Longrightarrow> storeCall cfg (world s) (world s')"
| "ValidOperationID i \<Longrightarrow> ValidSegment b \<Longrightarrow> CompleteAttempt cfg i b n outcome effect state evidence ws s = (r, s') \<Longrightarrow>
    storeCall cfg (world s) (world s')"
| "ValidOperationID i \<Longrightarrow> ValidSegment b \<Longrightarrow> StartResolution cfg i b n build removal s = (rn, s') \<Longrightarrow> storeCall cfg (world s) (world s')"
| "ValidOperationID i \<Longrightarrow> ValidSegment b \<Longrightarrow> CompleteResolution cfg i b n k outcome effect state evidence failure s = (r, s') \<Longrightarrow>
    storeCall cfg (world s) (world s')"
| "ValidOperationID i \<Longrightarrow> ValidSegment b \<Longrightarrow> LastResolution cfg i b n s = (rl, s') \<Longrightarrow> storeCall cfg (world s) (world s')"
| "Reclaim cfg s = (ri, s') \<Longrightarrow> storeCall cfg (world s) (world s')"
| "Idle cfg s = (ri, s') \<Longrightarrow> storeCall cfg (world s) (world s')"
| "readIndex cfg s = (rx, s') \<Longrightarrow> storeCall cfg (world s) (world s')"
| "Claimed cfg s = (ri, s') \<Longrightarrow> storeCall cfg (world s) (world s')"
| "ReadOperation cfg i s = (ro, s') \<Longrightarrow> storeCall cfg (world s) (world s')"
| "ReadPlan cfg i s = (rp, s') \<Longrightarrow> storeCall cfg (world s) (world s')"
| "readBlock cfg i b s = (rb, s') \<Longrightarrow> storeCall cfg (world s) (world s')"
| "readBlockStates cfg i plan s = (rs, s') \<Longrightarrow> storeCall cfg (world s) (world s')"
| "readAttemptRecord cfg i b n s = (ra, s') \<Longrightarrow> storeCall cfg (world s) (world s')"
| "LostBlockRecords cfg i plan s = (ri, s') \<Longrightarrow> storeCall cfg (world s) (world s')"
| "LastAttempt cfg i b s = (rn, s') \<Longrightarrow> storeCall cfg (world s) (world s')"
| "StartedBlocks cfg i s = (rt, s') \<Longrightarrow> storeCall cfg (world s) (world s')"
| "AdmitAttempt cfg op plan b removal s = (r, s') \<Longrightarrow> storeCall cfg (world s) (world s')"
| "outputRoom cfg n s = (rn, s') \<Longrightarrow> storeCall cfg (world s) (world s')"

context store
begin

lemma does_world:
  assumes "f s = (r, s')" and "invar (world s)"
    and "does (recs (world s)) f (\<lambda>_. publishes cfg (recs (world s))) (publishes cfg (recs (world s)))"
  shows "invar (world s') \<and> publishes cfg (recs (world s)) (recs (world s'))"
  using doesOn_any [OF assms(3,2,1)] .

lemma call_publishes: "storeCall cfg w w' \<Longrightarrow> invar w \<Longrightarrow> invar w' \<and> publishes cfg (recs w) (recs w')"
proof (induction rule: storeCall.induct)
  case (1 op plan s r s')
  show ?case by (rule does_world [where f = "Register cfg op plan", OF 1]) (rule does_weaken [OF does_Register], auto)
next
  case (2 i plan predecessor s r s')
  show ?case by (rule does_world [where f = "ClaimAdding cfg i plan predecessor", OF 2]) (rule does_weaken [OF does_ClaimAdding], auto)
next
  case (3 op s r s')
  show ?case by (rule does_world [where f = "UpdateOperation cfg op", OF 3 does_UpdateOperation])
next
  case (4 i b build s rn s')
  show ?case by (rule does_world [where f = "StartAttempt cfg i b build", OF 4(3,4)]) (rule does_weaken [OF does_StartAttempt [OF 4(1,2)]], auto)
next
  case (5 i b n x s r s')
  show ?case by (rule does_world [where f = "RecordPreparation cfg i b n x", OF 5(3,4) does_RecordPreparation [OF 5(1,2)]])
next
  case (6 i b n outcome effect state evidence ws s r s')
  show ?case by (rule does_world [where f = "CompleteAttempt cfg i b n outcome effect state evidence ws", OF 6(3,4) does_CompleteAttempt [OF 6(1,2)]])
next
  case (7 i b n build removal s rn s')
  show ?case by (rule does_world [where f = "StartResolution cfg i b n build removal", OF 7(3,4)]) (rule does_weaken [OF does_StartResolution [OF 7(1,2)]], auto)
next
  case (8 i b n k outcome effect state evidence failure s r s')
  show ?case by (rule does_world [where f = "CompleteResolution cfg i b n k outcome effect state evidence failure", OF 8(3,4) does_CompleteResolution [OF 8(1,2)]])
next
  case (9 i b n s rl s')
  show ?case by (rule does_world [where f = "LastResolution cfg i b n", OF 9(3,4)]) (rule does_weaken [OF does_LastResolution [OF 9(1,2)]], auto)
next
  case (10 s ri s')
  show ?case by (rule does_world [where f = "Reclaim cfg", OF 10]) (intro store_rules; simp)
next
  case (11 s ri s')
  show ?case by (rule does_world [where f = "Idle cfg", OF 11]) (intro store_rules; simp)
next
  case (12 s rx s')
  show ?case by (rule does_world [where f = "readIndex cfg", OF 12]) (intro store_rules; simp)
next
  case (13 s ri s')
  show ?case by (rule does_world [where f = "Claimed cfg", OF 13]) (intro store_rules; simp)
next
  case (14 i s ro s')
  show ?case by (rule does_world [where f = "ReadOperation cfg i", OF 14]) (intro store_rules; simp)
next
  case (15 i s rp s')
  show ?case by (rule does_world [where f = "ReadPlan cfg i", OF 15]) (intro store_rules; simp)
next
  case (16 i b s rb s')
  show ?case by (rule does_world [where f = "readBlock cfg i b", OF 16]) (intro store_rules; simp)
next
  case (17 i plan s rs s')
  show ?case by (rule does_world [where f = "readBlockStates cfg i plan", OF 17]) (intro store_rules; simp)
next
  case (18 i b n s ra s')
  show ?case by (rule does_world [where f = "readAttemptRecord cfg i b n", OF 18]) (intro store_rules; simp)
next
  case (19 i plan s ri s')
  show ?case by (rule does_world [where f = "LostBlockRecords cfg i plan", OF 19]) (intro store_rules; simp)
next
  case (20 i b s rn s')
  show ?case by (rule does_world [where f = "LastAttempt cfg i b", OF 20]) (intro store_rules; simp)
next
  case (21 i s rt s')
  show ?case by (rule does_world [where f = "StartedBlocks cfg i", OF 21]) (intro store_rules; simp)
next
  case (22 op plan b removal s r s')
  show ?case by (rule does_world [where f = "AdmitAttempt cfg op plan b removal", OF 22]) (intro store_rules; simp)
next
  case (23 n s rn s')
  show ?case by (rule does_world [where f = "outputRoom cfg n", OF 23]) (intro store_rules; simp)
qed

lemma calls_publish: "(storeCall cfg)\<^sup>*\<^sup>* w w' \<Longrightarrow> invar w \<Longrightarrow> invar w' \<and> publishes cfg (recs w) (recs w')"
proof (induction rule: rtranclp_induct)
  case (step w' w'')
  then show ?case using call_publishes [OF step(2)] by auto
qed simp

lemma calls_keep:
  assumes "(storeCall cfg)\<^sup>*\<^sup>* w w'" and "invar w" and "P (recs w)" and "\<And>m m'. recordStep cfg m m' \<Longrightarrow> P m \<Longrightarrow> P m'"
  shows "P (recs w')"
  using publishes_keep [where P = P] calls_publish [OF assms(1,2)] assms(3,4) by blast

end

subsection \<open>A store on the in-memory area\<close>

text \<open>The clock is the area's list of times, the last of which stays.\<close>

definition memoryClock :: "memoryArea \<Rightarrow> string \<times> memoryArea" where
  "memoryClock m =
     (case ticks m of
        [] \<Rightarrow> (''1970-01-01T00:00:00Z'', m)
      | [t] \<Rightarrow> (t, m)
      | t # ts \<Rightarrow> (t, m\<lparr>ticks := ts\<rparr>))"

definition memoryConfig :: "memoryArea StoreConfig" where
  "memoryConfig = \<lparr>storeArea = memoryOperations, clock = Some memoryClock, runningBuild = None, quoting = id\<rparr>"

lemma invar_ticks [simp]: "memoryInvar (m\<lparr>ticks := ts\<rparr>) = memoryInvar m"
  by (simp add: memoryInvar_def IsDirectory_def)

interpretation memory_store: store memoryConfig memoryRecords memoryInvar
proof -
  have "store_axioms memoryConfig memoryRecords memoryInvar"
    by (unfold_locales) (auto simp: memoryConfig_def memoryClock_def split: list.splits)
  then show "store memoryConfig memoryRecords memoryInvar"
    using memory.area_axioms by (simp add: store_def memoryConfig_def)
qed

end
