(* ===== verification/StoreSamples.thy ===== *)
theory StoreSamples
  imports StoreInvariants
begin

section \<open>A start on the in-memory area\<close>

text \<open>The first start of a block in an area that holds nothing, evaluated call by call.\<close>

definition sampleDigest :: string where "sampleDigest = concat (replicate 8 ''0123abcd'')"

definition sampleBuild :: Build where
  "sampleBuild = \<lparr>BuildAutomationDigest = sampleDigest, BuildContentDigest = sampleDigest,
     BuildExecutable = \<lparr>ExeVersion = ''v1'', Commit = []\<rparr>, Modified = False\<rparr>"

definition sampleID :: string where "sampleID = ''op-'' @ concat (replicate 8 ''0abc'')"

definition sampleTime :: string where "sampleTime = ''1970-01-01T00:00:00Z''"

text \<open>An area in which no call fails.\<close>

definition calmArea :: "(string \<times> string) list \<Rightarrow> string list \<Rightarrow> memoryArea" where
  "calmArea fs ds = \<lparr>files = fs, directories = ds, failing = (\<lambda>_ _. None), cancelledWith = None, ticks = []\<rparr>"

definition sampleStore :: "memoryArea Store" where "sampleStore = NewStore (calmArea [] [])"

lemma sample_facts:
  "ValidOperationID sampleID" "ValidSegment ''m1''" "validateBuild sampleBuild = None" "validateTimestamps [sampleTime] = None"
proof -
  show "ValidOperationID sampleID"
    unfolding sampleID_def by (rule plain_identity) (simp_all add: length_concat sum_list_replicate list_all_iff lower_hex_def)
  have "canonical_digest sampleDigest"
    by (rule plain_digest) (simp_all add: sampleDigest_def length_concat sum_list_replicate list_all_iff lower_hex_def)
  then show "validateBuild sampleBuild = None" by (simp add: validateBuild_def sampleBuild_def utf8_ascii)
  show "ValidSegment ''m1''" "validateTimestamps [sampleTime] = None" by code_simp+
qed

lemma sample_number: "FormatNumber 1 = Inr ''000001''"
proof -
  have "decimal_padded 6 1 = ''000001''" by code_simp
  then show ?thesis by (simp add: FormatNumber_def)
qed

lemma sample_fits: "memoryInvar (world sampleStore)" "memoryRecords (world sampleStore) = Map.empty"
  by (simp_all add: sampleStore_def NewStore_def calmArea_def memoryInvar_def)

subsection \<open>The encodings\<close>

lemma sample_lengths:
  "length (enc_string ''version'') = 9" "length (enc_string ''block'') = 7" "length (enc_string ''m1'') = 4"
  "length (enc_string ''number'') = 8" "length (enc_string ''resolution'') = 12" "length (enc_string ''phase'') = 7"
  "length (enc_string ''running'') = 9" "length (enc_string ''outcome'') = 9" "length (enc_string []) = 2"
  "length (enc_string ''effect'') = 8" "length (enc_string ''evidence'') = 10" "length (enc_string ''build'') = 7"
  "length (enc_string ''automationDigest'') = 18" "length (enc_string ''contentDigest'') = 15"
  "length (enc_string sampleDigest) = 66" "length (enc_string ''executable'') = 12" "length (enc_string ''v1'') = 4"
  "length (enc_string ''commit'') = 8" "length (enc_string ''started'') = 9" "length (enc_string sampleTime) = 22"
  "length (enc_string ''updated'') = 9" "length (enc_string ''state'') = 7" "length (enc_string ''attempts'') = 10"
  "length (enc_string ''pending'') = 9" "length (signed_decimal 1) = 1" "length (signed_decimal 0) = 1"
  by code_simp+

lemma encode_bound:
  assumes "marshal v = Some t" and "length t < n"
  shows "\<exists>d. encode v n = Inr d"
  using assms by (simp add: encode_def Encode_def)

definition firstRecord :: BlockRecord where
  "firstRecord = \<lparr>RecVersion = 1, RecBlock = ''m1'', RecState = BlockPending, Attempts = 0\<rparr>"

abbreviation sampleAttempt :: Attempt where
  "sampleAttempt \<equiv> startedAttempt ''m1'' 1 0 False sampleBuild sampleTime"

lemma sample_encodings:
  "\<exists>d. encode (blockValue firstRecord) MaxAttemptBytes = Inr d"
  "\<exists>d. encode (blockValue (firstRecord\<lparr>Attempts := 1, RecState := BlockRunning\<rparr>)) MaxAttemptBytes = Inr d"
  "\<exists>d. encode (attemptValue sampleAttempt) MaxAttemptBytes = Inr d"
  by (rule encode_bound,
      simp add: blockValue_def firstRecord_def attemptValue_def startedAttempt_def buildValue_def executableValue_def sampleBuild_def,
      simp add: enc_object_def sample_lengths)+

subsection \<open>The calls to the area\<close>

definition sampleBlockPath :: string where "sampleBlockPath = blockPath sampleID ''m1''"
definition sampleAttemptPath :: string where "sampleAttemptPath = attemptPath sampleID ''m1'' ''000001''"
definition sampleDirectory :: string where "sampleDirectory = blockDirectory sampleID ''m1''"

lemma sample_paths:
  "valid_path sampleBlockPath" "valid_path sampleAttemptPath" "valid_path sampleDirectory"
  "sampleBlockPath \<noteq> sampleAttemptPath" "sampleDirectory \<noteq> sampleAttemptPath" "sampleDirectory \<noteq> sampleBlockPath"
  "sampleBlockPath \<notin> set (parents sampleAttemptPath)" "sampleAttemptPath \<notin> set (parents sampleBlockPath)"
  "sampleBlockPath \<notin> set (parents sampleBlockPath)" "sampleAttemptPath \<notin> set (parents sampleAttemptPath)"
  "sampleBlockPath \<notin> set (parents sampleDirectory)" "sampleAttemptPath \<notin> set (parents sampleDirectory)"
  "sampleDirectory \<noteq> []"
  by code_simp+

lemma calm_simps [simp]:
  "files (calmArea fs ds) = fs" "directories (calmArea fs ds) = ds" "cancelledWith (calmArea fs ds) = None"
  "(calmArea fs ds)\<lparr>files := fs'\<rparr> = calmArea fs' ds" "(calmArea fs ds)\<lparr>directories := ds'\<rparr> = calmArea fs ds'"
  by (simp_all add: calmArea_def)

lemma calm_admitted:
  "AdmitTarget (calmArea fs ds) p isRecord = None \<Longrightarrow> admitted operation p isRecord f (calmArea fs ds) = f (calmArea fs ds)"
  by (simp add: admitted_def calmArea_def)

text \<open>The records of a start, and the directories above them, admit what it does next.\<close>

definition sampleArea :: "(string \<times> string) list \<Rightarrow> string list \<Rightarrow> bool" where
  "sampleArea fs ds \<longleftrightarrow> fst ` set fs \<subseteq> {sampleBlockPath, sampleAttemptPath} \<and> set ds \<subseteq> insert sampleDirectory (set (parents sampleDirectory))"

lemma sample_admit:
  assumes "sampleArea fs ds"
  shows "AdmitTarget (calmArea fs ds) sampleBlockPath True = None" "AdmitTarget (calmArea fs ds) sampleAttemptPath True = None"
    "AdmitTarget (calmArea fs ds) sampleDirectory False = None"
proof -
  have f: "p = sampleBlockPath \<or> p = sampleAttemptPath" if "(p, x) \<in> set fs" for p x
    using assms that by (force simp: sampleArea_def)
  have d: "p = sampleDirectory \<or> p \<in> set (parents sampleDirectory)" if "p \<in> set ds" for p
    using assms that by (auto simp: sampleArea_def)
  show "AdmitTarget (calmArea fs ds) sampleBlockPath True = None" "AdmitTarget (calmArea fs ds) sampleAttemptPath True = None"
    "AdmitTarget (calmArea fs ds) sampleDirectory False = None"
    using sample_paths by (auto simp: AdmitTarget_None IsDirectory_iff dest!: f d)
qed

text \<open>Each call on such an area.\<close>

lemma calm_calls:
  assumes "sampleArea fs ds" and "world s = calmArea fs ds"
  shows "p = sampleBlockPath \<or> p = sampleAttemptPath \<Longrightarrow> map_of fs p = None \<Longrightarrow>
      onArea (areaRead memoryOperations p n) s = (Inr None, s)"
    "p = sampleBlockPath \<or> p = sampleAttemptPath \<Longrightarrow> map_of fs p = None \<Longrightarrow>
      onArea (areaWriteExclusive memoryOperations p d) s = (Inr (), s\<lparr>world := calmArea ((p, d) # fs) ds\<rparr>)"
    "p = sampleBlockPath \<or> p = sampleAttemptPath \<Longrightarrow> map_of fs p = x \<Longrightarrow>
      onArea (areaReplace memoryOperations p d x) s = (Inr (), s\<lparr>world := calmArea (AList.update p d fs) ds\<rparr>)"
    "onArea (areaEnsureDirectory memoryOperations sampleDirectory) s =
       (Inr (), s\<lparr>world := calmArea fs (sampleDirectory # parents sampleDirectory @ ds)\<rparr>)"
proof -
  have same: "s\<lparr>world := calmArea fs ds\<rparr> = s" using assms(2) by (metis Store.surjective Store.update_convs(1))
  show "p = sampleBlockPath \<or> p = sampleAttemptPath \<Longrightarrow> map_of fs p = None \<Longrightarrow> onArea (areaRead memoryOperations p n) s = (Inr None, s)"
    using sample_admit [OF assms(1)] by (auto simp: onArea_def assms(2) memoryOperations_def calm_admitted same)
qed (use sample_admit [OF assms(1)] sample_paths(13) in \<open>auto simp: onArea_def assms(2) memoryOperations_def calm_admitted\<close>)

lemma sampleArea_grows:
  assumes "sampleArea fs ds" and "p = sampleBlockPath \<or> p = sampleAttemptPath"
  shows "sampleArea ((p, d) # fs) ds" "sampleArea (AList.update p d fs) ds" "sampleArea fs (sampleDirectory # parents sampleDirectory @ ds)"
  using assms by (auto simp: sampleArea_def dom_update)

lemmas action_simps = bindA_def thenA_def returnA_def refuse_def liftR_def remember_def modifyA_def expectation_def getA_def

lemma sample_now: "world s = calmArea fs ds \<Longrightarrow> now memoryConfig s = (Inr sampleTime, s)"
proof -
  assume s: "world s = calmArea fs ds"
  have "memoryClock (calmArea fs ds) = (sampleTime, calmArea fs ds)"
    by (simp add: memoryClock_def calmArea_def sampleTime_def)
  then have "onArea (\<lambda>w. case memoryClock w of (t, w') \<Rightarrow> (Inr t, w')) s = (Inr sampleTime, s)"
    using s by (simp add: onArea_def)
  then show ?thesis
    using sample_facts(4) by (simp add: now_def memoryConfig_def action_simps)
qed

subsection \<open>The start\<close>

text \<open>A block is published: its directory is made, then its record.\<close>

lemma sample_publish:
  assumes s: "world s = calmArea fs ds" "expected s sampleBlockPath = Some (map_of fs sampleBlockPath)" and fs: "sampleArea fs ds"
    and r: "validateBlock r = None" "RecBlock r = ''m1''" "encode (blockValue r) MaxAttemptBytes = Inr d"
  shows "publishBlock memoryConfig sampleID r s =
    (Inr (), s\<lparr>world := calmArea (AList.update sampleBlockPath d fs) (sampleDirectory # parents sampleDirectory @ ds),
       expected := (expected s)(sampleBlockPath \<mapsto> Some d)\<rparr>)"
proof -
  let ?ds = "sampleDirectory # parents sampleDirectory @ ds"
  have e: "onArea (areaEnsureDirectory memoryOperations sampleDirectory) s = (Inr (), s\<lparr>world := calmArea fs ?ds\<rparr>)"
    by (rule calm_calls(4) [OF fs s(1)])
  have w: "onArea (areaReplace memoryOperations sampleBlockPath d (map_of fs sampleBlockPath)) (s\<lparr>world := calmArea fs ?ds\<rparr>) =
      (Inr (), s\<lparr>world := calmArea (AList.update sampleBlockPath d fs) ?ds\<rparr>)"
    using calm_calls(3) [OF sampleArea_grows(3) [OF fs], of sampleBlockPath "s\<lparr>world := calmArea fs ?ds\<rparr>" sampleBlockPath] by simp
  show ?thesis
    using r s(2) e w
    by (simp add: publishBlock_def action_simps memoryConfig_def sampleBlockPath_def [symmetric] sampleDirectory_def [symmetric])
qed

lemma sample_start: "\<exists>s'. StartAttempt memoryConfig sampleID ''m1'' sampleBuild sampleStore = (Inr 1, s')"
proof -
  obtain d0 d1 d2 where d: "encode (blockValue firstRecord) MaxAttemptBytes = Inr d0"
    "encode (attemptValue sampleAttempt) MaxAttemptBytes = Inr d1"
    "encode (blockValue (firstRecord\<lparr>Attempts := 1, RecState := BlockRunning\<rparr>)) MaxAttemptBytes = Inr d2"
    using sample_encodings by auto
  have r: "validateBlock firstRecord = None" "validateBlock (firstRecord\<lparr>Attempts := 1, RecState := BlockRunning\<rparr>) = None"
    using sample_facts(2) by (simp_all add: firstRecord_def validateBlock_def ValidBlockState_def)
  have f: "RecBlock firstRecord = ''m1''" "Attempts firstRecord = 0" by (simp_all add: firstRecord_def)
  let ?s0 = "sampleStore\<lparr>expected := [sampleBlockPath \<mapsto> None]\<rparr>"
  let ?ds = "sampleDirectory # parents sampleDirectory"
  let ?s1 = "?s0\<lparr>world := calmArea [(sampleBlockPath, d0)] ?ds, expected := [sampleBlockPath \<mapsto> Some d0]\<rparr>"
  let ?ds2 = "sampleDirectory # parents sampleDirectory @ ?ds"
  let ?s2 = "?s1\<lparr>world := calmArea [(sampleBlockPath, d0)] ?ds2\<rparr>"
  let ?s3 = "?s1\<lparr>world := calmArea [(sampleAttemptPath, d1), (sampleBlockPath, d0)] ?ds2\<rparr>"
  have w0: "world ?s0 = calmArea [] []" "world sampleStore = calmArea [] []" "expected sampleStore = Map.empty"
    by (simp_all add: sampleStore_def NewStore_def)
  have a0: "sampleArea [] []" "sampleArea [(sampleBlockPath, d0)] ?ds" "sampleArea [(sampleBlockPath, d0)] ?ds2"
    "sampleArea [(sampleAttemptPath, d1), (sampleBlockPath, d0)] ?ds2"
    by (auto simp: sampleArea_def)
  have read: "onArea (areaRead memoryOperations sampleBlockPath MaxAttemptBytes) sampleStore = (Inr None, sampleStore)"
    "onArea (areaRead memoryOperations sampleAttemptPath MaxAttemptBytes) ?s0 = (Inr None, ?s0)"
    using calm_calls(1) [OF a0(1) w0(2)] calm_calls(1) [OF a0(1) w0(1)] by simp_all
  have block: "readBlockRecord memoryConfig sampleID ''m1'' sampleStore = (Inr (firstRecord, False), ?s0)"
    using read(1) w0(3)
    by (simp add: readBlockRecord_def action_simps memoryConfig_def firstRecord_def sampleBlockPath_def [symmetric])
  have pub: "publishBlock memoryConfig sampleID firstRecord ?s0 = (Inr (), ?s1)"
    using sample_publish [OF w0(1) _ a0(1) r(1) f(1) d(1)] by simp
  have w1: "world ?s1 = calmArea [(sampleBlockPath, d0)] ?ds" by simp
  have ens: "onArea (areaEnsureDirectory memoryOperations sampleDirectory) ?s1 = (Inr (), ?s2)"
    using calm_calls(4) [OF a0(2) w1] by simp
  have w2: "world ?s2 = calmArea [(sampleBlockPath, d0)] ?ds2" by simp
  have attempt: "onArea (areaWriteExclusive memoryOperations sampleAttemptPath d1) ?s2 = (Inr (), ?s3)"
    using calm_calls(2) [OF a0(3) w2] sample_paths(4) by simp
  have beg: "beginRecord memoryConfig sampleID firstRecord False sampleAttemptPath sampleBuild None ?s0 = (Inr (), ?s3)"
    using pub sample_now [OF w1] ens attempt d(2)
    by (simp add: beginRecord_def action_simps memoryConfig_def f sampleDirectory_def [symmetric])
  have w3: "world ?s3 = calmArea [(sampleAttemptPath, d1), (sampleBlockPath, d0)] ?ds2" by simp
  obtain s' where "publishBlock memoryConfig sampleID (firstRecord\<lparr>Attempts := 1, RecState := BlockRunning\<rparr>) ?s3 = (Inr (), s')"
    using sample_publish [OF w3 _ a0(4) r(2) _ d(3)] sample_paths(4) f(1) by simp
  then have "StartAttempt memoryConfig sampleID ''m1'' sampleBuild sampleStore = (Inr 1, s')"
    using sample_facts(3) sample_number block beg read(2)
    by (simp add: StartAttempt_def action_simps f sampleAttemptPath_def [symmetric] memoryConfig_def)
  then show ?thesis by blast
qed

end
