(* ===== verification/Logs.thy ===== *)
theory Logs
  imports AttemptStore
begin

section \<open>Private logs and retained output\<close>

text \<open>
  \<open>operationstore/logs.go\<close>. A log and an adapter's output are appended to through the area of their
  store. Both are objects with a state of their own, the second component of the state of their
  calls. The writes of an adapter process arrive under a mutex, one after the other.
\<close>

subsection \<open>Log records\<close>

abbreviation MaxLogBytes :: int where "MaxLogBytes \<equiv> 8388608"
abbreviation truncationMarkerBytes :: int where "truncationMarkerBytes \<equiv> 64"
abbreviation logTailBytes :: int where "logTailBytes \<equiv> 32768"
abbreviation MaxAdapterOutputBytes :: int where "MaxAdapterOutputBytes \<equiv> 4194304"
abbreviation maxLogDetail :: nat where "maxLogDetail \<equiv> 512"

record LogRecord =
  LogTime :: string
  LogEvent :: string
  LogBlock :: string
  LogGroup :: string
  LogDetail :: string

definition logRecordValue :: "LogRecord \<Rightarrow> rvalue" where
  "logRecordValue r = RStruct
     [(field ''time'', RString (LogTime r)), (field ''event'', RString (LogEvent r)),
      (omitting ''block'', RString (LogBlock r)), (omitting ''group'', RString (LogGroup r)),
      (omitting ''detail'', RString (LogDetail r))]"

text \<open>\<open>strings.ToValidUTF8\<close> with nothing in place of the bytes that are not valid.\<close>

function to_valid :: "string \<Rightarrow> string" where
  "to_valid s =
     (if s = [] then []
      else if rune_size s = 0 then to_valid (tl s)
      else take (rune_size s) s @ to_valid (drop (rune_size s) s))"
  by pat_completeness auto
termination
  by (relation "measure length") auto

declare to_valid.simps [simp del]

function trim_invalid :: "string \<Rightarrow> string" where
  "trim_invalid s = (if \<not> utf8_valid s \<and> s \<noteq> [] then trim_invalid (butlast s) else s)"
  by pat_completeness auto
termination
  by (relation "measure length") auto

declare trim_invalid.simps [simp del]

text \<open>\<open>strings.Map\<close> drops the control characters: of a valid text, the bytes below 32 and 127.\<close>

definition safeLogText :: "string \<Rightarrow> nat \<Rightarrow> string" where
  "safeLogText v limit =
     (if v = [] then []
      else (let bounded =
          (if \<not> utf8_valid v \<or> length v > limit then
             (let valid = to_valid v in if length valid > limit then trim_invalid (take limit valid) else valid)
           else v) in
        filter (\<lambda>c. \<not> (byte_of c < 32 \<or> byte_of c = 127)) bounded))"

definition safeRecord :: "LogRecord \<Rightarrow> string \<Rightarrow> LogRecord" where
  "safeRecord r stamp =
     \<lparr>LogTime = stamp, LogEvent = safeLogText (LogEvent r) maxLogDetail, LogBlock = safeLogText (LogBlock r) maxLogDetail,
      LogGroup = safeLogText (LogGroup r) maxLogDetail, LogDetail = safeLogText (LogDetail r) maxLogDetail\<rparr>"

subsection \<open>Logs\<close>

record Log =
  logPath :: string
  logLimit :: int
  logWritten :: int
  logDropped :: int
  logClosed :: bool
  logFailed :: "storeError option"

definition onStore :: "('w Store, 'a) action \<Rightarrow> ('w Store \<times> 'l, 'a) action" where
  "onStore f = (\<lambda>(s, l). case f s of (r, s') \<Rightarrow> (r, (s', l)))"

text \<open>A call whose failure stays with the log.\<close>

definition sticky :: "('w Store, 'a) action \<Rightarrow> ('w Store \<times> Log, 'a) action" where
  "sticky f = (\<lambda>(s, l). case f s of
     (Inl e, s') \<Rightarrow> (Inl e, (s', l\<lparr>logFailed := Some e\<rparr>))
   | (Inr a, s') \<Rightarrow> (Inr a, (s', l)))"

definition onLog :: "('l \<Rightarrow> 'l) \<Rightarrow> ('w Store \<times> 'l, unit) action" where
  "onLog f = modifyA (\<lambda>(s, l). (s, f l))"

definition logLine :: "rvalue \<Rightarrow> string option" where
  "logLine v = map_option (\<lambda>t. t @ [CHR 0x0A]) (marshal v)"

text \<open>A line is written while the marker still fits after it; a group's line leaves the tail of the log to others.\<close>

definition writeLine :: "'w StoreConfig \<Rightarrow> Log \<Rightarrow> LogRecord \<Rightarrow> string \<Rightarrow> ('w Store \<times> Log, unit) action" where
  "writeLine cfg l r line =
     (let limit = logLimit l - (if LogEvent r = ''group'' then logTailBytes else 0) in
      if logWritten l + int (length line) + truncationMarkerBytes > limit
      then onLog (\<lambda>l. l\<lparr>logDropped := logDropped l + 1\<rparr>)
      else thenA (sticky (onArea (areaAppend (storeArea cfg) (logPath l) line)))
        (onLog (\<lambda>l. l\<lparr>logWritten := logWritten l + int (length line)\<rparr>)))"

definition AppendLog :: "'w StoreConfig \<Rightarrow> LogRecord \<Rightarrow> ('w Store \<times> Log, unit) action" where
  "AppendLog cfg given =
     bindA (getA snd) (\<lambda>l.
     if logClosed l then failA (Refused (recordError ''the private operation log is not open''))
     else (case logFailed l of
       Some e \<Rightarrow> failA e
     | None \<Rightarrow>
         bindA (sticky (now cfg)) (\<lambda>stamp.
         let r = safeRecord given stamp in
         if LogEvent r = [] then failA (Refused (recordError ''a private operation log record requires its event''))
         else (case logLine (logRecordValue r) of
           None \<Rightarrow> failA (Refused (recordError ''a private operation log record could not be encoded''))
         | Some line \<Rightarrow> writeLine cfg l r line))))"

definition markerValue :: "int \<Rightarrow> rvalue" where
  "markerValue n = RStruct [(field ''truncated'', RBool True), (field ''dropped'', RInt n)]"

definition CloseLog :: "'w StoreConfig \<Rightarrow> ('w Store \<times> Log, unit) action" where
  "CloseLog cfg =
     bindA (getA snd) (\<lambda>l.
     if logClosed l then returnA ()
     else thenA (onLog (\<lambda>l. l\<lparr>logClosed := True\<rparr>))
       (if logDropped l = 0 \<or> logFailed l \<noteq> None then returnA ()
        else (case logLine (markerValue (logDropped l)) of
          None \<Rightarrow> failA (Refused (recordError ''the private operation log truncation marker could not be encoded''))
        | Some line \<Rightarrow> onStore (onArea (areaAppend (storeArea cfg) (logPath l) line)))))"

definition attemptLog :: "string \<Rightarrow> bool" where
  "attemptLog target \<longleftrightarrow>
     (case split_on (CHR ''/'') target of
        [i, logs, bs, block, name] \<Rightarrow> logs = ''logs'' \<and> bs = ''blocks'' \<and> has_prefix name ''attempt-''
      | _ \<Rightarrow> False)"

definition openedLog :: "string \<Rightarrow> Entry list \<Rightarrow> Log" where
  "openedLog target es =
     \<lparr>logPath = target, logLimit = (if attemptLog target then AttemptLogBytes else MaxLogBytes),
      logWritten = fold (\<lambda>e n. if EntryName e = path_base target \<and> \<not> Directory e then EntrySize e else n) es 0,
      logDropped = 0, logClosed = False, logFailed = None\<rparr>"

definition OpenLog :: "'w StoreConfig \<Rightarrow> string \<Rightarrow> ('w Store, Log) action" where
  "OpenLog cfg target =
     thenA (onArea (areaEnsureDirectory (storeArea cfg) (path_dir target)))
     (bindA (onArea (areaEntries (storeArea cfg) (path_dir target))) (\<lambda>es s.
        case AppendLog cfg \<lparr>LogTime = [], LogEvent = ''opened'', LogBlock = [], LogGroup = [], LogDetail = []\<rparr> (s, openedLog target es) of
          (Inl e, (s', l)) \<Rightarrow> (Inl e, s')
        | (Inr u, (s', l)) \<Rightarrow> (Inr l, s')))"

subsection \<open>Paths of logs\<close>

definition OperationLogPath :: "string \<Rightarrow> string" where
  "OperationLogPath i = path_join [i, ''logs'', ''operation.jsonl'']"

definition LogDirectory :: "'w StoreConfig \<Rightarrow> string \<Rightarrow> string" where
  "LogDirectory cfg i =
     (if areaLocation (storeArea cfg) = [] \<or> i = [] then [] else path_join [areaLocation (storeArea cfg), i, ''logs''])"

definition AttemptLogPath :: "string \<Rightarrow> string \<Rightarrow> int \<Rightarrow> int \<Rightarrow> string result" where
  "AttemptLogPath i block attempt resolution =
     bindR (FormatNumber attempt) (\<lambda>name.
     bindR (if resolution = 0 then Inr [] else bindR (FormatNumber resolution) (\<lambda>suffix. Inr (''-resolution-'' @ suffix))) (\<lambda>rest.
     Inr (path_join [i, ''logs'', ''blocks'', block, ''attempt-'' @ name @ rest @ ''.jsonl''])))"

definition AdapterOutputPath :: "string \<Rightarrow> string result" where
  "AdapterOutputPath p =
     (case cut_suffix p ''.jsonl'' of
        Some trimmed \<Rightarrow>
          if trimmed = [] then Inl (recordError ''an adapter output path requires its attempt log'') else Inr (trimmed @ ''.output'')
      | None \<Rightarrow> Inl (recordError ''an adapter output path requires its attempt log''))"

text \<open>The logs of a block in the order of their names, each with the output retained beside it.\<close>

definition blockLogs :: "string \<Rightarrow> string \<Rightarrow> Entry list \<Rightarrow> string list" where
  "blockLogs reference directory es =
     (let records = map EntryName (filter (\<lambda>e. \<not> Directory e) es);
          names = sort (filter (\<lambda>n. cut_suffix n ''.jsonl'' \<noteq> None) records) in
      concat (map (\<lambda>name.
        let output = take (length name - 6) name @ ''.output'' in
        path_join [reference, directory, name]
          # (if output \<in> set records then [path_join [reference, directory, output]] else [])) names))"

definition LogPaths :: "'w StoreConfig \<Rightarrow> string \<Rightarrow> Plan \<Rightarrow> ('w Store, string list) action" where
  "LogPaths cfg i plan =
     (let reference = areaReference (storeArea cfg) in
      if reference = [] then returnA []
      else bindA (onArea (areaRead (storeArea cfg) (OperationLogPath i) 0)) (\<lambda>found.
        foldA (\<lambda>b paths.
          let directory = path_join [i, ''logs'', ''blocks'', blockID b] in
          bindA (onArea (areaEntries (storeArea cfg) directory)) (\<lambda>es.
          returnA (paths @ blockLogs reference directory es)))
        (blocks plan) (if found = None then [] else [path_join [reference, OperationLogPath i]])))"

subsection \<open>Retained output\<close>

record AdapterOutput =
  outputPath :: string
  outputShared :: bool
  outputPending :: string
  outputWritten :: int
  outputLimit :: int
  outputTruncated :: bool
  outputClosed :: bool

text \<open>An output in the directory of an operation shares the room of its area.\<close>

definition OpenAdapterOutput :: "string \<Rightarrow> AdapterOutput" where
  "OpenAdapterOutput target =
     \<lparr>outputPath = target, outputShared = ValidOperationID (fst (cut_at ''/'' target)), outputPending = [], outputWritten = 0,
      outputLimit = MaxAdapterOutputBytes, outputTruncated = False, outputClosed = False\<rparr>"

text \<open>An append to a shared output that fails gives its room back.\<close>

definition appendOutput :: "'w StoreConfig \<Rightarrow> AdapterOutput \<Rightarrow> ('w Store, unit) action" where
  "appendOutput cfg o1 = (\<lambda>s.
     case onArea (areaAppend (storeArea cfg) (outputPath o1) (outputPending o1)) s of
       (Inr u, s') \<Rightarrow> (Inr u, s')
     | (Inl e, s') \<Rightarrow>
         (Inl e, if outputShared o1 then snd (returnRoom (int (length (outputPending o1))) s') else s'))"

definition publishOutput :: "'w StoreConfig \<Rightarrow> ('w Store \<times> AdapterOutput, unit) action" where
  "publishOutput cfg =
     bindA (getA snd) (\<lambda>o1.
     thenA (onStore (appendOutput cfg o1))
     (onLog (\<lambda>o1. o1\<lparr>outputWritten := outputWritten o1 + int (length (outputPending o1)), outputPending := []\<rparr>)))"

definition flush :: "'w StoreConfig \<Rightarrow> ('w Store \<times> AdapterOutput, unit) action" where
  "flush cfg =
     bindA (getA snd) (\<lambda>o1.
     if outputPending o1 = [] then returnA ()
     else if \<not> outputShared o1 then publishOutput cfg
     else bindA (onStore (outputRoom cfg (int (length (outputPending o1))))) (\<lambda>taken.
       thenA (onLog (\<lambda>o1. if taken < int (length (outputPending o1))
            then o1\<lparr>outputPending := take (nat taken) (outputPending o1), outputLimit := outputWritten o1 + taken, outputTruncated := True\<rparr>
            else o1))
         (if taken = 0 then returnA () else publishOutput cfg)))"

text \<open>What is kept of a value that is written, before it is flushed.\<close>

definition buffered :: "string \<Rightarrow> AdapterOutput \<Rightarrow> AdapterOutput" where
  "buffered v o1 =
     (let room = outputLimit o1 - outputWritten o1 - int (length (outputPending o1)) in
      if room < int (length v)
      then o1\<lparr>outputTruncated := True, outputPending := outputPending o1 @ take (nat (max room 0)) v\<rparr>
      else o1\<lparr>outputPending := outputPending o1 @ v\<rparr>)"

text \<open>A write always reports the whole value, and a failed flush keeps what is pending.\<close>

definition WriteOutput :: "'w StoreConfig \<Rightarrow> string \<Rightarrow> ('w Store \<times> AdapterOutput, nat) action" where
  "WriteOutput cfg v = (\<lambda>(s, o1).
     if outputClosed o1 then (Inr (length v), (s, o1))
     else (case flush cfg (s, buffered v o1) of (r, t) \<Rightarrow> (Inr (length v), t)))"

definition CloseOutput :: "'w StoreConfig \<Rightarrow> ('w Store \<times> AdapterOutput, unit) action" where
  "CloseOutput cfg =
     bindA (getA snd) (\<lambda>o1.
     if outputClosed o1 then returnA ()
     else thenA (onLog (\<lambda>o1. o1\<lparr>outputClosed := True\<rparr>)) (flush cfg))"

definition Retained :: "AdapterOutput \<Rightarrow> int \<times> bool" where
  "Retained o1 = (outputWritten o1, outputTruncated o1)"

end
