(* ===== verification/LogLaws.thy ===== *)
theory LogLaws
  imports Logs StoreInvariants
begin

section \<open>Laws of logs and retained output\<close>

text \<open>
  What a log accepts is bounded text without control characters, a log stays within its limit with
  room for the marker its closing writes, and retained output stays within what it may keep.
\<close>

subsection \<open>Text\<close>

lemma rune_head:
  assumes "rune_size s \<noteq> 0"
  shows "utf8_valid (take (rune_size s) s)"
proof -
  have "rune_size (take (rune_size s) s @ []) = rune_size s"
    by (rule rune_size_append) (use assms in auto)
  then show ?thesis
    using rune_size_le [of s] assms by (intro utf8_valid_one) (auto simp: rune_size_def)
qed

lemma to_valid_valid: "utf8_valid (to_valid s)"
proof (induction s rule: to_valid.induct)
  case (1 s)
  then show ?case
    by (subst to_valid.simps) (auto intro!: utf8_valid_append rune_head)
qed

lemma trim_invalid_valid: "utf8_valid (trim_invalid s) \<and> length (trim_invalid s) \<le> length s"
proof (induction s rule: trim_invalid.induct)
  case (1 s)
  show ?case
  proof (cases "\<not> utf8_valid s \<and> s \<noteq> []")
    case True
    then show ?thesis using 1 by (subst (1 2) trim_invalid.simps) auto
  next
    case False
    then show ?thesis by (subst (1 2) trim_invalid.simps) auto
  qed
qed

text \<open>The bytes of an encoding of more than one byte are not control characters.\<close>

lemma rune_bytes:
  assumes "rune_size s \<noteq> 0" and "rune_size s \<noteq> 1"
  shows "list_all (\<lambda>c. 128 \<le> byte_of c) (take (rune_size s) s)"
proof (cases s)
  case (Cons c r)
  define n where "n = rune_size s"
  have n: "n = rune_need (byte_of c)" "tail_ok (byte_of c) (take (n - 1) r)" "n \<noteq> 0" "n \<noteq> 1"
    using assms by (auto simp: n_def Cons rune_size_def Let_def split: if_splits)
  have c: "128 \<le> byte_of c" using n(1,3,4) by (auto simp: rune_need_def split: if_splits)
  have "list_all (\<lambda>c. 128 \<le> byte_of c) (take (n - 1) r)"
    using n(2) by (cases "take (n - 1) r") (auto simp: tail_ok_def second_ok_def cont_byte_def list_all_iff split: if_splits)
  moreover have "take n s = c # take (n - 1) r" using n(3) by (cases n) (simp_all add: Cons)
  ultimately show ?thesis using c by (simp add: n_def)
qed (use assms in \<open>simp add: rune_size_def\<close>)

lemma utf8_filter:
  assumes "\<And>c. 128 \<le> byte_of c \<Longrightarrow> P c"
  shows "utf8_valid s \<Longrightarrow> utf8_valid (filter P s)"
proof (induction s rule: utf8_valid.induct)
  case (1 s)
  show ?case
  proof (cases "s = []")
    case False
    let ?n = "rune_size s"
    have n: "?n \<noteq> 0" "utf8_valid (drop ?n s)" using 1(2) False by (simp_all add: utf8_valid_drop)
    have IH: "utf8_valid (filter P (drop ?n s))" using 1(1) [OF False n(1) n(2)] .
    have "utf8_valid (filter P (take ?n s))"
    proof (cases "?n = 1")
      case True
      obtain c r where s: "s = c # r" using False by (cases s) auto
      have "byte_of c < 128"
        using True by (auto simp: s rune_size_def rune_need_def Let_def split: if_splits)
      then show ?thesis using True by (simp add: s utf8_ascii)
    next
      case False
      have "filter P (take ?n s) = take ?n s"
        using rune_bytes [OF n(1) False] assms by (intro filter_True) (auto simp: list_all_iff)
      then show ?thesis using rune_head [OF n(1)] by simp
    qed
    then have "utf8_valid (filter P (take ?n s) @ filter P (drop ?n s))" by (rule utf8_valid_append [OF _ IH])
    then show ?thesis by (metis filter_append append_take_drop_id)
  qed simp
qed

lemma safeLogText_safe:
  "utf8_valid (safeLogText v limit) \<and> length (safeLogText v limit) \<le> limit \<and>
   list_all (\<lambda>c. 32 \<le> byte_of c \<and> byte_of c \<noteq> 127) (safeLogText v limit)"
proof -
  define bounded where "bounded =
    (if \<not> utf8_valid v \<or> length v > limit then
       (let valid = to_valid v in if length valid > limit then trim_invalid (take limit valid) else valid)
     else v)"
  have b: "utf8_valid bounded" "length bounded \<le> limit"
    using to_valid_valid [of v] trim_invalid_valid [of "take limit (to_valid v)"]
    by (auto simp: bounded_def Let_def)
  have "utf8_valid (filter (\<lambda>c. \<not> (byte_of c < 32 \<or> byte_of c = 127)) bounded)"
    by (rule utf8_filter [OF _ b(1)]) simp
  moreover have "length (filter (\<lambda>c. \<not> (byte_of c < 32 \<or> byte_of c = 127)) bounded) \<le> limit"
    using b(2) length_filter_le order_trans by blast
  moreover have "safeLogText v limit = (if v = [] then [] else filter (\<lambda>c. \<not> (byte_of c < 32 \<or> byte_of c = 127)) bounded)"
    by (simp only: safeLogText_def bounded_def Let_def)
  ultimately show ?thesis by (auto simp: list_all_iff)
qed

text \<open>Plain text is kept as it is.\<close>

lemma safeLogText_plain:
  "utf8_valid v \<Longrightarrow> length v \<le> limit \<Longrightarrow> list_all (\<lambda>c. 32 \<le> byte_of c \<and> byte_of c \<noteq> 127) v \<Longrightarrow> safeLogText v limit = v"
  by (auto simp: safeLogText_def list_all_iff intro!: filter_True)

subsection \<open>The path of a log\<close>

lemma concat_slashes: "xs \<noteq> [] \<Longrightarrow> concat (map (\<lambda>s. s @ ''/'') xs) = join ''/'' xs @ ''/''"
proof (induction xs)
  case (Cons x xs)
  then show ?case by (cases "xs = []") (simp_all add: join_Cons)
qed simp

lemma split_segments: "ss \<noteq> [] \<Longrightarrow> \<forall>s\<in>set ss. segment s \<Longrightarrow> split_on (CHR ''/'') (join ''/'' ss) = ss"
  by (rule split_on_join) (auto simp: segment_def)

lemma join_segments:
  assumes "ss \<noteq> []" and "\<forall>s\<in>set ss. segment s"
  shows "join ''/'' ss \<noteq> []" "hd (join ''/'' ss) \<noteq> CHR ''/''"
proof -
  obtain s rest where ss: "ss = s # rest" using assms(1) by (cases ss) auto
  have "segment s" using assms(2) ss by simp
  then obtain x t where "s = x # t" "x \<noteq> CHR ''/''" by (cases s) (auto simp: segment_def)
  then show "join ''/'' ss \<noteq> []" "hd (join ''/'' ss) \<noteq> CHR ''/''" by (cases rest; simp add: ss)+
qed

lemma path_dir_join:
  assumes "ss \<noteq> []" and "\<forall>s\<in>set ss. segment s" and "segment b"
  shows "path_dir (join ''/'' (ss @ [b])) = join ''/'' ss"
proof -
  let ?p = "join ''/'' ss"
  note sp = split_segments [of "ss @ [b]"] split_segments [OF assms(1,2)]
  note p = join_segments [OF assms(1,2)]
  have "split_on (CHR ''/'') (?p @ ''/'') = ss @ [[]]"
    using split_on_append [of "CHR ''/''" ?p "[]"] sp(2) by simp
  moreover have "clean_segments False (ss @ [[]]) [] = rev ss"
  proof -
    have "\<forall>s\<in>set ss. segment s \<Longrightarrow> clean_segments False (ss @ [[]]) acc = rev ss @ acc" for ss acc
      by (induction ss arbitrary: acc) (simp_all add: segment_def)
    then show ?thesis using assms(2) by simp
  qed
  ultimately have "path_clean (?p @ ''/'') = ?p"
    using p by (simp add: path_clean_def Let_def)
  then show ?thesis
    using sp(1) assms(2,3) concat_slashes [OF assms(1)] by (simp add: path_dir_def)
qed

lemma trim_right_same: "s \<noteq> [] \<Longrightarrow> last s \<noteq> c \<Longrightarrow> trim_right c s = s"
  by (cases s rule: rev_cases) (simp_all add: trim_right_def)

lemma path_base_join:
  assumes "ss \<noteq> []" and "\<forall>s\<in>set ss. segment s" and b: "segment b"
  shows "path_base (join ''/'' (ss @ [b])) = b"
proof -
  let ?p = "join ''/'' (ss @ [b])"
  have sp: "split_on (CHR ''/'') ?p = ss @ [b]" by (rule split_segments) (use assms in auto)
  have eq: "?p = join ''/'' ss @ ''/'' @ b" using join_append [OF assms(1), of "[b]" "''/''"] by simp
  have "b \<noteq> []" "CHR ''/'' \<notin> set b" using b by (simp_all add: segment_def)
  then have ne: "b \<noteq> []" "last b \<noteq> CHR ''/''" using last_in_set [of b] by metis+
  have "?p \<noteq> []" unfolding eq by simp
  moreover have "last ?p \<noteq> CHR ''/''" unfolding eq using ne by simp
  ultimately have "?p \<noteq> []" "last ?p \<noteq> CHR ''/''" by simp_all
  then have "trim_right (CHR ''/'') ?p = ?p" "?p \<noteq> []" using trim_right_same by blast+
  then show ?thesis using sp by (simp add: path_base_def Let_def)
qed

text \<open>The logs of an operation: its own, and those of its attempts and resolutions.\<close>

definition logTarget :: "string \<Rightarrow> bool" where
  "logTarget target \<longleftrightarrow>
     (\<exists>i. ValidOperationID i \<and> (target = OperationLogPath i \<or> (\<exists>b n k. ValidSegment b \<and> AttemptLogPath i b n k = Inr target)))"

lemma logTarget_split:
  assumes "logTarget target"
  shows "\<exists>p n. target = p @ ''/'' @ n \<and> path_dir target = p \<and> path_base target = n \<and> p \<noteq> [] \<and> n \<noteq> [] \<and> CHR ''/'' \<notin> set n"
proof -
  have s: "\<exists>ss b. target = path_join (ss @ [b]) \<and> ss \<noteq> [] \<and> (\<forall>s\<in>set ss. segment s) \<and> segment b"
  proof -
    obtain i where i: "ValidOperationID i"
      and t: "target = OperationLogPath i \<or> (\<exists>b n k. ValidSegment b \<and> AttemptLogPath i b n k = Inr target)"
      using assms by (auto simp: logTarget_def)
    have fixed: "segment i" "segment ''logs''" "segment ''blocks''" "segment ''operation.jsonl''"
      using ValidOperationID_segment [OF i] by (simp_all add: segment_def)
    show ?thesis
      using t
    proof
      assume "target = OperationLogPath i"
      then show ?thesis using fixed
        by (intro exI [of _ "[i, ''logs'']"] exI [of _ "''operation.jsonl''"]) (simp add: OperationLogPath_def)
    next
      assume "\<exists>b n k. ValidSegment b \<and> AttemptLogPath i b n k = Inr target"
      then obtain b n k where b: "ValidSegment b" and p: "AttemptLogPath i b n k = Inr target" by blast
      then obtain name rest where f: "FormatNumber n = Inr name"
        and rest: "(if k = 0 then Inr [] else bindR (FormatNumber k) (\<lambda>x. Inr (''-resolution-'' @ x))) = (Inr rest :: string result)"
        and t: "path_join [i, ''logs'', ''blocks'', b, ''attempt-'' @ name @ rest @ ''.jsonl''] = target"
        unfolding AttemptLogPath_def bindR_eq_Inr sum.inject by blast
      have r: "rest = [] \<or> (\<exists>x. FormatNumber k = Inr x \<and> rest = ''-resolution-'' @ x)"
        using rest by (auto simp: result_simps split: if_splits)
      have "CHR ''/'' \<notin> set name \<union> set rest"
        using r digits_no_slash [OF conjunct2 [OF FormatNumber_digits [OF f]]] digits_no_slash [OF conjunct2 [OF FormatNumber_digits]]
        by auto
      then have "segment (''attempt-'' @ name @ rest @ ''.jsonl'')" by (auto simp: segment_def)
      then show ?thesis using t fixed ValidSegment_segment [OF b]
        by (intro exI [of _ "[i, ''logs'', ''blocks'', b]"] exI [of _ "''attempt-'' @ name @ rest @ ''.jsonl''"]) simp
    qed
  qed
  then obtain ss b where ss: "target = path_join (ss @ [b])" "ss \<noteq> []" "\<forall>s\<in>set ss. segment s" "segment b" by blast
  then have t: "target = join ''/'' (ss @ [b])" by (simp add: path_join_segments)
  have "target = join ''/'' ss @ ''/'' @ b" using join_append [OF ss(2), of "[b]" "''/''"] by (simp add: t)
  moreover have "join ''/'' ss \<noteq> []" by (rule join_segments(1) [OF ss(2,3)])
  ultimately show ?thesis
    using path_dir_join [OF ss(2-4)] path_base_join [OF ss(2-4)] ss(4)
    by (intro exI [of _ "join ''/'' ss"] exI [of _ b]) (simp add: t [symmetric] segment_def)
qed

subsection \<open>A log stays within its limit\<close>

definition recordSize :: "recordsOf \<Rightarrow> string \<Rightarrow> int" where
  "recordSize m p = (case m p of None \<Rightarrow> 0 | Some d \<Rightarrow> int (length d))"

definition logSize :: "recordsOf \<Rightarrow> Log \<Rightarrow> int" where
  "logSize m l = recordSize m (logPath l)"

text \<open>
  An open log leaves room for its marker, unless it had none when it was opened, at the size
  \<open>base\<close>; and it knows its size until a write fails.
\<close>

definition logWithin :: "int \<Rightarrow> recordsOf \<Rightarrow> Log \<Rightarrow> bool" where
  "logWithin base m l \<longleftrightarrow>
     logSize m l \<le> max (logLimit l - truncationMarkerBytes) base \<and> (logFailed l = None \<longrightarrow> logSize m l = logWritten l)"

lemmas log_defs = logWithin_def logSize_def recordSize_def

lemma marker_length:
  assumes "0 \<le> n" and "n < 10 ^ 30" and "logLine (markerValue n) = Some line"
  shows "int (length line) \<le> truncationMarkerBytes"
proof -
  have n: "valid_name ''truncated''" "valid_name ''dropped''"
    by (rule letters_valid; simp add: letter_def)+
  have "length (decimal (nat n)) \<le> 30"
    by (rule decimal_length_bound) (use assms(1,2) in \<open>simp_all add: nat_less_iff\<close>)
  moreover have "length (enc_string ''truncated'') = 11" "length (enc_string ''dropped'') = 9" by code_simp+
  moreover have "length line = 10 + length (enc_string ''truncated'') + length (enc_string ''dropped'') + length (decimal (nat n))"
    using assms(1,3) n by (auto simp: logLine_def markerValue_def enc_object_def signed_decimal_def)
  ultimately show ?thesis by simp
qed

context store
begin

lemma now_keeps: "invar (world s) \<Longrightarrow> now cfg s = (r, s') \<Longrightarrow> invar (world s') \<and> recs (world s') = recs (world s)"
  by (rule doesOn_any [where f = "now cfg" and I = "\<lambda>m. m = recs (world s)"]) (auto intro: does_now)

lemma append_keeps:
  assumes "invar (world s)" and "onArea (areaAppend (storeArea cfg) p d) s = (r, s')"
  shows "invar (world s') \<and> ((\<exists>k. recs (world s') = (recs (world s))(p \<mapsto> (case recs (world s) p of None \<Rightarrow> [] | Some old \<Rightarrow> old) @ take k d)
      \<and> (r = Inr () \<longrightarrow> k = length d)) \<or> (\<exists>e. r = Inl e) \<and> recs (world s') = recs (world s))"
proof -
  obtain w where w: "areaAppend (storeArea cfg) p d (world s) = (r, w)" "s' = s\<lparr>world := w\<rparr>"
    using assms(2) by (auto simp: onArea_def split: prod.splits)
  show ?thesis using append [OF assms(1) w(1)] w(2) by simp
qed

lemma append_log_within:
  assumes inv: "invar (world s)" and l: "logWithin base (recs (world s)) l" and a: "AppendLog cfg given (s, l) = (r, (s', l'))"
  shows "invar (world s') \<and> logWithin base (recs (world s')) l' \<and> logPath l' = logPath l \<and> logLimit l' = logLimit l \<and>
    (\<forall>p. p \<noteq> logPath l \<longrightarrow> recs (world s') p = recs (world s) p) \<and> logDropped l \<le> logDropped l' \<and> logDropped l' \<le> logDropped l + 1"
proof (cases "logClosed l \<or> logFailed l \<noteq> None")
  case True
  then have "s' = s" "l' = l"
    using a by (auto simp: AppendLog_def bindA_def getA_def failA_def split: option.splits if_splits)
  then show ?thesis using inv l by simp
next
  case False
  then have f: "\<not> logClosed l" "logFailed l = None" by simp_all
  then have size: "logSize (recs (world s)) l = logWritten l" using l by (simp add: logWithin_def)
  obtain t u where t: "now cfg s = (t, u)" by (cases "now cfg s")
  have u: "invar (world u)" "recs (world u) = recs (world s)" using now_keeps [OF inv t] by simp_all
  show ?thesis
  proof (cases t)
    case (Inl e)
    then have "s' = u" "l' = l\<lparr>logFailed := Some e\<rparr>"
      using a f t by (simp_all add: AppendLog_def bindA_def getA_def sticky_def)
    then show ?thesis using u l by (simp add: logWithin_def logSize_def)
  next
    case (Inr stamp)
    define q where "q = safeRecord given stamp"
    show ?thesis
    proof (cases "LogEvent q = [] \<or> logLine (logRecordValue q) = None")
      case True
      then have "s' = u" "l' = l"
        using a f t Inr by (auto simp: AppendLog_def bindA_def getA_def sticky_def failA_def Let_def q_def split: option.splits if_splits)
      then show ?thesis using u l by (simp add: logWithin_def logSize_def)
    next
      case False
      then obtain line where line: "logLine (logRecordValue q) = Some line" and ev: "LogEvent q \<noteq> []" by auto
      have rest: "writeLine cfg l q line (u, l) = (r, (s', l'))"
        using a f t Inr line ev by (simp add: AppendLog_def bindA_def getA_def sticky_def Let_def q_def)
      show ?thesis
      proof (cases "logWritten l + int (length line) + truncationMarkerBytes > logLimit l - (if LogEvent q = ''group'' then logTailBytes else 0)")
        case True
        then have "s' = u" "l' = l\<lparr>logDropped := logDropped l + 1\<rparr>"
          using rest by (simp_all add: writeLine_def onLog_def modifyA_def)
        then show ?thesis using u l by (simp add: logWithin_def logSize_def)
      next
        case False
        then have room: "logWritten l + int (length line) + truncationMarkerBytes \<le> logLimit l"
          by (simp split: if_splits)
        obtain w v where w: "onArea (areaAppend (storeArea cfg) (logPath l) line) u = (w, v)"
          by (cases "onArea (areaAppend (storeArea cfg) (logPath l) line) u")
        have l': "s' = v" "l' = (case w of Inl e \<Rightarrow> l\<lparr>logFailed := Some e\<rparr> | Inr _ \<Rightarrow> l\<lparr>logWritten := logWritten l + int (length line)\<rparr>)"
          using rest False w by (auto simp: writeLine_def thenA_def bindA_def sticky_def onLog_def modifyA_def split: sum.splits)
        have k: "invar (world v)" "(\<exists>k. recs (world v) = (recs (world s))(logPath l \<mapsto>
              (case recs (world s) (logPath l) of None \<Rightarrow> [] | Some old \<Rightarrow> old) @ take k line) \<and> (w = Inr () \<longrightarrow> k = length line))
            \<or> (\<exists>e. w = Inl e) \<and> recs (world v) = recs (world s)"
          using append_keeps [OF u(1) w] u(2) by auto
        have grown: "logSize (recs (world v)) l \<le> logWritten l + int (length line)"
            "w = Inr () \<Longrightarrow> logSize (recs (world v)) l = logWritten l + int (length line)"
          using k(2) size by (auto simp: logSize_def recordSize_def split: option.splits)
        have "logSize (recs (world v)) l' = logSize (recs (world v)) l"
          by (auto simp: l' logSize_def split: sum.splits)
        then have "logWithin base (recs (world v)) l'"
          using grown room by (cases w) (auto simp: logWithin_def l')
        moreover have "\<forall>p. p \<noteq> logPath l \<longrightarrow> recs (world v) p = recs (world s) p"
          using k(2) by auto
        ultimately show ?thesis using k(1) by (cases w) (auto simp: l')
      qed
    qed
  qed
qed

text \<open>The marker a closing writes fits in the room that was left, and a closed log takes nothing more.\<close>

lemma close_log_within:
  assumes inv: "invar (world s)" and l: "logWithin base (recs (world s)) l" and n: "0 \<le> logDropped l" "logDropped l < 10 ^ 30"
    and c: "CloseLog cfg (s, l) = (r, (s', l'))"
  shows "invar (world s') \<and> logSize (recs (world s')) l' \<le> max (logLimit l) (base + truncationMarkerBytes) \<and> logClosed l' \<and>
    logPath l' = logPath l \<and> (\<forall>p. p \<noteq> logPath l \<longrightarrow> recs (world s') p = recs (world s) p)"
proof (cases "logClosed l \<or> logDropped l = 0 \<or> logFailed l \<noteq> None \<or> logLine (markerValue (logDropped l)) = None")
  case True
  then have "s' = s" "l' = l \<or> l' = l\<lparr>logClosed := True\<rparr>" "logClosed l'"
    using c by (auto simp: CloseLog_def bindA_def thenA_def getA_def returnA_def failA_def onLog_def modifyA_def split: option.splits if_splits)
  then show ?thesis using inv l by (auto simp: logWithin_def logSize_def)
next
  case False
  then obtain line where line: "logLine (markerValue (logDropped l)) = Some line" by auto
  obtain w v where w: "onArea (areaAppend (storeArea cfg) (logPath l) line) s = (w, v)"
    by (cases "onArea (areaAppend (storeArea cfg) (logPath l) line) s")
  have l': "s' = v" "l' = l\<lparr>logClosed := True\<rparr>"
    using c False line w by (auto simp: CloseLog_def bindA_def thenA_def getA_def onLog_def modifyA_def onStore_def)
  have "logSize (recs (world v)) l \<le> logSize (recs (world s)) l + int (length line)"
    using append_keeps [OF inv w] by (auto simp: logSize_def recordSize_def split: option.splits)
  then show ?thesis
    using append_keeps [OF inv w] l marker_length [OF n line] by (auto simp: l' logWithin_def logSize_def)
qed

end

subsection \<open>Retained output stays within what it may keep\<close>

definition outputFits :: "AdapterOutput \<Rightarrow> bool" where
  "outputFits o1 \<longleftrightarrow>
     0 \<le> outputWritten o1 \<and> outputWritten o1 + int (length (outputPending o1)) \<le> outputLimit o1 \<and>
     outputLimit o1 \<le> MaxAdapterOutputBytes"

lemma onArea_room: "onArea f s = (r, s') \<Longrightarrow> room s' = room s"
  by (auto simp: onArea_def split: prod.splits)

lemma heldLoop_room:
  assumes "\<And>p s x t. nested p s = (x, t) \<Longrightarrow> room t = room s"
  shows "heldLoop nested target skip es n z s = (x, t) \<Longrightarrow> room t = room s"
proof (induction es arbitrary: n z s)
  case (Cons e es)
  then show ?case
    by (auto simp: Let_def bindA_def returnA_def split: if_splits prod.splits sum.splits dest!: assms)
qed (simp add: returnA_def)

lemma heldUnder_room: "heldUnder n cfg skip p s = (x, t) \<Longrightarrow> room t = room s"
proof (induction n arbitrary: p s x t)
  case (Suc n)
  then show ?case
    using onArea_room heldLoop_room [OF Suc.IH]
    by (auto simp: bindA_def split: prod.splits sum.splits)
qed (simp add: failA_def)

lemma outputRoom_room:
  assumes "outputRoom cfg n s = (r, t)" and "0 \<le> room s" and "0 \<le> n"
  shows "0 \<le> room t" and "r = Inr k \<Longrightarrow> 0 \<le> k \<and> k \<le> n"
proof -
  have m: "0 \<le> room u"
    if "(if measured s then returnA () else bindA (held cfg [] []) (\<lambda>(_, size).
        modifyA (\<lambda>s. s\<lparr>measured := True, room := max (MaxBytes - ReservedBytes - size) 0\<rparr>))) s = (x, u)" for x u
    using that assms(2) heldUnder_room [of _ cfg "[]" "[]" s]
    by (auto simp: bindA_def returnA_def modifyA_def held_def split: if_splits prod.splits sum.splits)
  show "0 \<le> room t" "r = Inr k \<Longrightarrow> 0 \<le> k \<and> k \<le> n"
    using assms(1,3) m
    by (auto simp: outputRoom_def bindA_def thenA_def getA_def modifyA_def returnA_def split: prod.splits sum.splits)
qed

lemma appendOutput_room:
  "appendOutput cfg o1 s = (r, t) \<Longrightarrow> 0 \<le> room s \<Longrightarrow> 0 \<le> room t"
  using onArea_room by (fastforce simp: appendOutput_def returnRoom_def modifyA_def split: prod.splits sum.splits if_splits)

lemma publishOutput_fits:
  assumes "publishOutput cfg (s, o1) = (r, (t, o2))" and "outputFits o1" and "0 \<le> room s"
  shows "outputFits o2 \<and> 0 \<le> room t \<and> outputClosed o2 = outputClosed o1"
  using assms appendOutput_room [of cfg o1 s]
  by (auto simp: publishOutput_def bindA_def thenA_def getA_def onStore_def onLog_def modifyA_def outputFits_def
      split: prod.splits sum.splits)

lemma flush_fits:
  assumes f: "flush cfg (s, o1) = (r, (t, o2))" and o1: "outputFits o1" and s: "0 \<le> room s"
  shows "outputFits o2 \<and> 0 \<le> room t \<and> outputClosed o2 = outputClosed o1"
proof (cases "outputPending o1 = [] \<or> \<not> outputShared o1")
  case True
  then show ?thesis
    using f o1 s publishOutput_fits [of cfg s o1 r t o2]
    by (auto simp: flush_def bindA_def getA_def returnA_def split: if_splits)
next
  case False
  obtain x u where x: "outputRoom cfg (int (length (outputPending o1))) s = (x, u)"
    by (cases "outputRoom cfg (int (length (outputPending o1))) s")
  note u = outputRoom_room [OF x s]
  show ?thesis
  proof (cases x)
    case (Inl e)
    then show ?thesis using f False x u o1 by (auto simp: flush_def bindA_def getA_def onStore_def)
  next
    case (Inr taken)
    then have k: "0 \<le> taken" "taken \<le> int (length (outputPending o1))" using u(2) by simp_all
    define o' where "o' = (if taken < int (length (outputPending o1))
      then o1\<lparr>outputPending := take (nat taken) (outputPending o1), outputLimit := outputWritten o1 + taken, outputTruncated := True\<rparr> else o1)"
    have o': "outputFits o'" "outputClosed o' = outputClosed o1"
      using o1 k by (auto simp: o'_def outputFits_def)
    have "(if taken = 0 then returnA () else publishOutput cfg) (u, o') = (r, (t, o2))"
      using f False x Inr unfolding o'_def
      by (simp add: flush_def bindA_def thenA_def getA_def onStore_def onLog_def modifyA_def split: if_splits)
    then show ?thesis
      using o' u(1) publishOutput_fits [of cfg u o' r t o2] by (auto simp: returnA_def split: if_splits)
  qed
qed

lemma buffered_fits: "outputFits o1 \<Longrightarrow> outputFits (buffered v o1)"
  by (auto simp: buffered_def outputFits_def Let_def)

lemma WriteOutput_fits:
  assumes "WriteOutput cfg v (s, o1) = (r, (t, o2))" and "outputFits o1" and "0 \<le> room s"
  shows "r = Inr (length v) \<and> outputFits o2 \<and> 0 \<le> room t"
  using assms flush_fits [of cfg s "buffered v o1" _ t o2] buffered_fits
  by (auto simp: WriteOutput_def split: if_splits prod.splits)

end
