(* ===== verification/LogSessions.thy ===== *)
theory LogSessions
  imports LogLaws
begin

section \<open>The log of an invocation\<close>

text \<open>
  A log is opened by an invocation, appended to and closed, and opened again by the next. From
  opening to closing it stays within its limit if it was opened with room for its marker
  (\<open>session_bounded\<close>). A log that had none gains a marker each time all the same, since \<open>OpenLog\<close>
  counts the record it drops: \<open>LogExamples\<close> has a log that passes its limit. The size of a log
  that is opened is the size its area lists, which the locale \<open>sized_store\<close> adds to the contract.
\<close>

locale sized_store = store cfg recs invar
  for cfg :: "'w StoreConfig" and recs :: "'w \<Rightarrow> string \<rightharpoonup> string" and invar :: "'w \<Rightarrow> bool" +
  assumes entry_size: "invar w \<Longrightarrow> areaEntries (storeArea cfg) p w = (Inr es, w') \<Longrightarrow> p \<noteq> [] \<Longrightarrow> n \<noteq> [] \<Longrightarrow> CHR ''/'' \<notin> set n \<Longrightarrow>
      e \<in> set es \<Longrightarrow> EntryName e = n \<Longrightarrow> \<not> Directory e \<Longrightarrow> recs w (p @ ''/'' @ n) = Some d \<Longrightarrow> EntrySize e = int (length d)"

subsection \<open>The in-memory area lists sizes\<close>

lemma memory_entry_size:
  fixes m m' :: memoryArea and p n d :: string and es :: "Entry list"
  assumes inv: "memoryInvar m" and op: "areaEntries memoryOperations p m = (Inr es, m')" and n: "p \<noteq> []" "n \<noteq> []" "CHR ''/'' \<notin> set n"
    and e: "e \<in> set es" "EntryName e = n" "\<not> Directory e" and d: "memoryRecords m (p @ ''/'' @ n) = Some d"
  shows "EntrySize e = int (length d)"
proof -
  let ?prefix = "p @ ''/''"
  let ?files = "fold (listFile ?prefix) (files m) []"
  let ?sizes = "fold (listDirectory ?prefix) (directories m) ?files"
  have "admitted ''entries'' p False (\<lambda>m. (Inr (Entries m p), m)) m = (Inr es, m')"
    using op by (simp add: memoryOperations_def)
  then have "es = Entries m p" by (cases rule: admitted_cases) auto
  then obtain size where size: "(n, size) \<in> set ?sizes" "0 \<le> size" "EntrySize e = size"
    using e n(1) by (auto simp: Entries_def Let_def)
  then have at: "map_of ?sizes n = Some size" using distinct_listing by simp
  have f: "?prefix @ n \<in> fst ` set (files m)" using d by (metis append_assoc map_of_None_iff option.distinct(1))
  then have "\<not> IsDirectory m (?prefix @ n)" using inv unfolding memoryInvar_def by blast
  then have "?prefix @ n \<notin> set (directories m)" "\<forall>f\<in>fst ` set (files m). \<not> has_prefix f (?prefix @ n @ ''/'')"
    by (auto simp: IsDirectory_def list_ex_iff)
  then have "map_of ?sizes n = Some (int (length d))"
    using listFile_record [OF n(3,2), of "files m" ?prefix "[]"] inv d by (simp add: listDirectory_map_of memoryInvar_def)
  then show ?thesis using at size(3) by simp
qed

interpretation memory_sized: sized_store memoryConfig memoryRecords memoryInvar
proof unfold_locales
  fix w w' :: memoryArea and p n d :: string and es and e :: Entry
  show "memoryInvar w \<Longrightarrow> areaEntries (storeArea memoryConfig) p w = (Inr es, w') \<Longrightarrow> p \<noteq> [] \<Longrightarrow> n \<noteq> [] \<Longrightarrow> CHR ''/'' \<notin> set n \<Longrightarrow>
      e \<in> set es \<Longrightarrow> EntryName e = n \<Longrightarrow> \<not> Directory e \<Longrightarrow> memoryRecords w (p @ ''/'' @ n) = Some d \<Longrightarrow> EntrySize e = int (length d)"
    unfolding memoryConfig_def StoreConfig.simps by (rule memory_entry_size)
qed

subsection \<open>Opening\<close>

lemma openedLog_simps [simp]:
  "logPath (openedLog t es) = t" "logDropped (openedLog t es) = 0" "logFailed (openedLog t es) = None" "logClosed (openedLog t es) = False"
  "logLimit (openedLog t es) = (if attemptLog t then AttemptLogBytes else MaxLogBytes)"
  by (simp_all add: openedLog_def)

text \<open>Entries of one name that agree on a size give it, and none give the size of a log that is new.\<close>

lemma opened_size:
  assumes "\<And>e. e \<in> set es \<Longrightarrow> EntryName e = path_base t \<Longrightarrow> \<not> Directory e \<Longrightarrow> EntrySize e = z"
    and "(\<exists>e\<in>set es. EntryName e = path_base t \<and> \<not> Directory e) \<or> z = 0"
  shows "logWritten (openedLog t es) = z"
proof -
  let ?f = "\<lambda>e n. if EntryName e = path_base t \<and> \<not> Directory e then EntrySize e else n"
  have "fold ?f es x = (if \<exists>e\<in>set es. EntryName e = path_base t \<and> \<not> Directory e then z else x)"
    if "\<And>e. e \<in> set es \<Longrightarrow> EntryName e = path_base t \<Longrightarrow> \<not> Directory e \<Longrightarrow> EntrySize e = z" for es :: "Entry list" and x
    using that by (induction es arbitrary: x) auto
  then show ?thesis using assms by (auto simp: openedLog_def)
qed

text \<open>Any number of appends, whatever they return.\<close>

fun appendAll :: "'w StoreConfig \<Rightarrow> LogRecord list \<Rightarrow> 'w Store \<times> Log \<Rightarrow> 'w Store \<times> Log" where
  "appendAll cfg [] s = s"
| "appendAll cfg (e # es) s = appendAll cfg es (snd (AppendLog cfg e s))"

context sized_store
begin

lemma listed_size:
  assumes "invar w" and "areaEntries (storeArea cfg) (path_dir t) w = (Inr es, w')" and "logTarget t"
  shows "logWritten (openedLog t es) = recordSize (recs w) t"
proof -
  obtain p n where t: "t = p @ ''/'' @ n" "path_dir t = p" "path_base t = n" "p \<noteq> []" "n \<noteq> []" "CHR ''/'' \<notin> set n"
    using logTarget_split [OF assms(3)] by blast
  have es: "areaEntries (storeArea cfg) p w = (Inr es, w')" using assms(2) t(2) by simp
  note listed = entries_list [OF assms(1) es t(4-6)]
  show ?thesis
  proof (rule opened_size)
    fix e assume e: "e \<in> set es" "EntryName e = path_base t" "\<not> Directory e"
    then obtain d where "recs w (p @ ''/'' @ n) = Some d" using listed t(3) by blast
    then show "EntrySize e = recordSize (recs w) t"
      using entry_size [OF assms(1) es t(4-6) e(1)] e(2,3) t(1,3) by (simp add: recordSize_def)
  next
    show "(\<exists>e\<in>set es. EntryName e = path_base t \<and> \<not> Directory e) \<or> recordSize (recs w) t = 0"
      using listed t(1,3) by (cases "recs w t") (auto simp: recordSize_def)
  qed
qed

lemma open_log_within:
  assumes inv: "invar (world s)" and t: "logTarget t" and opened: "OpenLog cfg t s = (Inr l, s')"
  shows "invar (world s') \<and> logWithin (recordSize (recs (world s)) t) (recs (world s')) l \<and> logPath l = t \<and>
    logLimit l = (if attemptLog t then AttemptLogBytes else MaxLogBytes) \<and> 0 \<le> logDropped l \<and> logDropped l \<le> 1 \<and>
    (\<forall>p. p \<noteq> t \<longrightarrow> recs (world s') p = recs (world s) p)"
proof -
  let ?e = "\<lparr>LogTime = [], LogEvent = ''opened'', LogBlock = [], LogGroup = [], LogDetail = []\<rparr>"
  obtain x u v es where d: "onArea (areaEnsureDirectory (storeArea cfg) (path_dir t)) s = (Inr x, u)"
    and es: "onArea (areaEntries (storeArea cfg) (path_dir t)) u = (Inr es, v)"
    and c: "(case AppendLog cfg ?e (v, openedLog t es) of (Inl e, (s', l)) \<Rightarrow> (Inl e, s') | (Inr u, (s', l)) \<Rightarrow> (Inr l, s')) = (Inr l, s')"
    using opened unfolding OpenLog_def thenA_def bindA_Inr by blast
  obtain r where a: "AppendLog cfg ?e (v, openedLog t es) = (r, (s', l))"
    using c by (cases "AppendLog cfg ?e (v, openedLog t es)") (auto split: sum.splits)
  have u: "invar (world u)" "recs (world u) = recs (world s)"
    using d ensure [OF inv] by (auto simp: onArea_def split: prod.splits)
  obtain w where w: "areaEntries (storeArea cfg) (path_dir t) (world u) = (Inr es, w)" "v = u\<lparr>world := w\<rparr>"
    using es by (auto simp: onArea_def split: prod.splits)
  have v: "invar (world v)" "recs (world v) = recs (world s)"
    using entries [OF u(1) w(1)] u(2) w(2) by simp_all
  have "logWithin (recordSize (recs (world s)) t) (recs (world v)) (openedLog t es)"
    using listed_size [OF u(1) w(1) t] u(2) v(2) by (simp add: logWithin_def logSize_def)
  from append_log_within [OF v(1) this a] show ?thesis using v(2) by simp
qed

lemma append_all_within:
  "invar (world s) \<Longrightarrow> logWithin base (recs (world s)) l \<Longrightarrow> appendAll cfg es (s, l) = (s', l') \<Longrightarrow>
   invar (world s') \<and> logWithin base (recs (world s')) l' \<and> logPath l' = logPath l \<and> logLimit l' = logLimit l \<and>
   (\<forall>p. p \<noteq> logPath l \<longrightarrow> recs (world s') p = recs (world s) p) \<and>
   logDropped l \<le> logDropped l' \<and> logDropped l' \<le> logDropped l + int (length es)"
proof (induction es arbitrary: s l)
  case (Cons e es)
  obtain r u k where a: "AppendLog cfg e (s, l) = (r, (u, k))" by (metis surj_pair)
  note f = append_log_within [OF Cons.prems(1,2) a]
  have "appendAll cfg es (u, k) = (s', l')" using Cons.prems(3) a by simp
  from Cons.IH [OF _ _ this] f show ?case by auto
qed simp

lemma session_bounded:
  assumes inv: "invar (world s)" and t: "logTarget t" and o1: "OpenLog cfg t s = (Inr l, u)"
    and a: "appendAll cfg es (u, l) = (v, k)" and n: "int (length es) < 10 ^ 29" and c: "CloseLog cfg (v, k) = (r, (w, k'))"
  shows "logClosed k' \<and> recordSize (recs (world w)) t \<le> max (logLimit l) (recordSize (recs (world s)) t + truncationMarkerBytes) \<and>
    (\<forall>p. p \<noteq> t \<longrightarrow> recs (world w) p = recs (world s) p)"
proof -
  note f = open_log_within [OF inv t o1]
  note g = append_all_within [OF conjunct1 [OF f] conjunct1 [OF conjunct2 [OF f]] a]
  have d: "0 \<le> logDropped k" "logDropped k < 10 ^ 30" using f g n by auto
  note h = close_log_within [OF conjunct1 [OF g] conjunct1 [OF conjunct2 [OF g]] d c]
  have "logPath k' = t" "logLimit k = logLimit l" "logClosed k'" "\<forall>p. p \<noteq> t \<longrightarrow> recs (world w) p = recs (world s) p"
    using f g h by simp_all
  then show ?thesis using conjunct1 [OF conjunct2 [OF h]] by (simp add: logSize_def)
qed

end

end
