(* ===== verification/StoreExamples.thy ===== *)
theory StoreExamples
  imports StoreSamples LogSessions Conforming RunSamples
begin

section \<open>The records the examples are about\<close>

text \<open>
  The concrete input of the examples beside the theorems about the operation store: the records
  after the first start of \<open>StoreSamples\<close>, an attempt that was observed, an area that holds a frozen
  plan, and a resolution that is started and read back.
\<close>

subsection \<open>After the first start\<close>

definition sampleAfter :: "memoryArea Store" where
  "sampleAfter = snd (StartAttempt memoryConfig sampleID ''m1'' sampleBuild sampleStore)"

lemma sample_run: "StartAttempt memoryConfig sampleID ''m1'' sampleBuild sampleStore = (Inr 1, sampleAfter)"
  using sample_start by (auto simp: sampleAfter_def)

lemma sample_call: "(storeCall memoryConfig)\<^sup>*\<^sup>* (world sampleStore) (world sampleAfter)"
  using storeCall.intros(4) [OF sample_facts(1,2) sample_run] by (rule r_into_rtranclp)

lemma empty_records: "countsAttempts cfg Map.empty" "indexNames cfg Map.empty"
  by (auto simp: countsAttempts_def indexNames_def blockRead_def)

lemma sample_records: "validateBlock firstRecord = None" "validateAttempt sampleAttempt = None"
  using sample_facts startedAttempt_valid [OF sample_facts(2) sample_number sample_facts(3,4)]
  by (simp_all add: firstRecord_def validateBlock_def ValidBlockState_def)

lemma operation_lengths:
  "length (enc_string ''id'') = 4" "length (enc_string ''verb'') = 6" "length (enc_string ''context'') = 9"
  "length (enc_string ''revision'') = 10" "length (enc_string ''inputDigest'') = 13" "length (enc_string ''planDigest'') = 12"
  "length (enc_string ''closure'') = 9" "length (enc_string ''digest'') = 8" "length (enc_string ''python'') = 8"
  "length (enc_string ''ansible'') = 9" "length (enc_string ''source'') = 8" "length (enc_string ''bindings'') = 10"
  "length (enc_string ''logFault'') = 10" "length (enc_string ''created'') = 9" "length (enc_string ''apply'') = 7"
  "length (enc_string ''lab'') = 5" "length (enc_string ''r1'') = 4" "length (enc_string ''d1'') = 4"
  "length (enc_string ''d2'') = 4" "length (enc_string ''d3'') = 4" "length (enc_string ''3.12'') = 6"
  "length (enc_string ''2.18.1'') = 8" "length (enc_string ''b1'') = 4" "length (enc_string ''2024-02-29T23:59:59Z'') = 22"
  "length (enc_string ''2024-03-01T00:00:00Z'') = 22" "length (enc_string ''observed'') = 10" "length (enc_string ''changed'') = 9"
  "length (enc_string ''completed'') = 11" "length (enc_string ''null'') = 6"
  "length (enc_string (CHR ''o'' # CHR ''p'' # CHR ''-'' # replicate 32 CHR ''a'')) = 37" "length (enc_string (replicate 64 CHR ''a'')) = 66"
  by code_simp+

subsection \<open>An attempt that was observed\<close>

definition observedSample :: Attempt where
  "observedSample = observedAttempt sampleAttempt ''changed'' ''completed'' None None sampleTime"

definition observedText :: string where
  "observedText = projr (encode (attemptValue observedSample) MaxAttemptBytes)"

definition observedArea :: memoryArea where
  "observedArea = calmArea [(sampleAttemptPath, observedText)] []"

lemma observed_valid: "validateAttempt observedSample = None"
  using sample_records(2)
  by (auto simp: validateAttempt_def observedSample_def observedAttempt_def startedAttempt_def phaseCheck_def validWarnings_def
      ValidOutcome_def ValidEffectState_def errorOf_def validateTimestamps_def)

lemma observed_encoding: "encode (attemptValue observedSample) MaxAttemptBytes = Inr observedText"
proof -
  have "\<exists>d. encode (attemptValue observedSample) MaxAttemptBytes = Inr d"
    by (rule encode_bound,
        simp add: observedSample_def observedAttempt_def attemptValue_def startedAttempt_def buildValue_def executableValue_def sampleBuild_def,
        simp add: enc_object_def sample_lengths operation_lengths)
  then show ?thesis by (auto simp: observedText_def)
qed

lemma observed_sample:
  "memoryInvar observedArea"
  "recordPath sampleID ''m1'' 1 0 sampleAttemptPath"
  "memoryRecords observedArea sampleAttemptPath = Some observedText"
  "decodedAttempt memoryConfig observedText (attemptStored observedSample)"
  "Phase (attemptStored observedSample) \<noteq> ''running''"
proof -
  have "\<not> has_prefix sampleAttemptPath (sampleAttemptPath @ ''/'')" by (auto simp: has_prefix_iff)
  then show "memoryInvar observedArea" by (simp add: observedArea_def memoryInvar_def IsDirectory_def)
  show "recordPath sampleID ''m1'' 1 0 sampleAttemptPath"
    using sample_number by (simp add: recordPath_def sampleAttemptPath_def)
  show "memoryRecords observedArea sampleAttemptPath = Some observedText"
    by (simp add: observedArea_def)
  show "Phase (attemptStored observedSample) \<noteq> ''running''"
    by (simp add: observedSample_def observedAttempt_def attemptStored_def)
  have "map_sum id attemptOf (decodeUnder (quoting memoryConfig) attemptShape observedText MaxAttemptBytes (runningBuild memoryConfig)) =
      Inr (attemptStored observedSample)"
    by (rule decode_attempt [OF observed_valid _ _ observed_encoding])
      (simp_all add: observedSample_def observedAttempt_def startedAttempt_def canonicalRaw_def)
  then show "decodedAttempt memoryConfig observedText (attemptStored observedSample)"
    by (cases "decodeUnder (quoting memoryConfig) attemptShape observedText MaxAttemptBytes (runningBuild memoryConfig)")
      (auto simp: decodedAttempt_def)
qed

lemma observed_call:
  "(storeCall memoryConfig)\<^sup>*\<^sup>* observedArea
     (world (snd (CompleteAttempt memoryConfig sampleID ''m1'' 1 ''failed'' ''unknown'' ''failed'' None [] (NewStore observedArea))))"
proof -
  let ?f = "CompleteAttempt memoryConfig sampleID ''m1'' 1 ''failed'' ''unknown'' ''failed'' None []"
  have "?f (NewStore observedArea) = (fst (?f (NewStore observedArea)), snd (?f (NewStore observedArea)))" by simp
  from r_into_rtranclp [of "storeCall memoryConfig", OF storeCall.intros(6) [OF sample_facts(1,2) this]] show ?thesis
    by (simp add: NewStore_def)
qed

subsection \<open>A frozen plan\<close>

definition plannedArea :: memoryArea where
  "plannedArea = calmArea [(planPath sampleID, ''{}'')] []"

lemma planned_sample:
  "memoryInvar plannedArea"
  "(storeCall memoryConfig)\<^sup>*\<^sup>* plannedArea (world (snd (Reclaim memoryConfig (NewStore plannedArea))))"
  "memoryRecords plannedArea (planPath sampleID) = Some ''{}''"
proof -
  have "\<not> has_prefix (planPath sampleID) (planPath sampleID @ ''/'')" by (auto simp: has_prefix_iff)
  then show "memoryInvar plannedArea" by (simp add: plannedArea_def memoryInvar_def IsDirectory_def)
  have "storeCall memoryConfig (world (NewStore plannedArea)) (world (snd (Reclaim memoryConfig (NewStore plannedArea))))"
    by (rule storeCall.intros(10) [where ri = "fst (Reclaim memoryConfig (NewStore plannedArea))"]) simp
  then show "(storeCall memoryConfig)\<^sup>*\<^sup>* plannedArea (world (snd (Reclaim memoryConfig (NewStore plannedArea))))"
    by (simp add: NewStore_def r_into_rtranclp)
  show "memoryRecords plannedArea (planPath sampleID) = Some ''{}''"
    by (simp add: plannedArea_def)
qed

subsection \<open>A resolution\<close>

text \<open>The first resolution of an attempt in an area that holds nothing, and what is read back of it.\<close>

definition resolutionName :: string where "resolutionName = ''attempt-000001-resolution-000001.json''"
definition sampleResolutionPath :: string where "sampleResolutionPath = resolutionPath sampleID ''m1'' ''000001'' ''000001''"

abbreviation sampleResolution :: Attempt where
  "sampleResolution \<equiv> startedAttempt ''m1'' 1 1 False sampleBuild sampleTime"

definition resolutionText :: string where
  "resolutionText = projr (encode (attemptValue sampleResolution) MaxAttemptBytes)"

definition sampleResolving :: "memoryArea Store" where
  "sampleResolving = sampleStore\<lparr>world := calmArea [(sampleResolutionPath, resolutionText)] []\<rparr>"

lemma resolution_paths:
  "valid_path sampleResolutionPath" "valid_path sampleDirectory" "sampleDirectory \<noteq> []"
  "sampleResolutionPath \<notin> set (parents sampleResolutionPath)" "sampleResolutionPath \<notin> set (parents sampleDirectory)"
  "sampleResolutionPath \<noteq> sampleDirectory"
  "cut_prefix sampleResolutionPath (sampleDirectory @ ''/'') = Some resolutionName"
  "cut_at ''/'' resolutionName = (resolutionName, [], False)" "resolutionName \<noteq> []"
  "cut_prefix resolutionName (resolutionPrefix ''000001'') = Some ''000001.json''"
  "cut_suffix ''000001.json'' ''.json'' = Some ''000001''"
  by code_simp+

lemma resolution_encoding: "encode (attemptValue sampleResolution) MaxAttemptBytes = Inr resolutionText"
proof -
  have "\<exists>d. encode (attemptValue sampleResolution) MaxAttemptBytes = Inr d"
    by (rule encode_bound,
        simp add: attemptValue_def startedAttempt_def buildValue_def executableValue_def sampleBuild_def,
        simp add: enc_object_def sample_lengths operation_lengths)
  then show ?thesis by (auto simp: resolutionText_def)
qed

lemma resolution_entries:
  "Entries (calmArea [(sampleResolutionPath, resolutionText)] []) sampleDirectory =
     [\<lparr>EntryName = resolutionName, Directory = False, EntrySize = int (length resolutionText)\<rparr>]"
  "Entries (calmArea [] []) sampleDirectory = []"
  using resolution_paths by (simp_all add: Entries_def listFile_def Let_def)

lemma sample_resolution:
  "StartResolution memoryConfig sampleID ''m1'' 1 sampleBuild False sampleStore = (Inr 1, sampleResolving)"
proof -
  have w: "world sampleStore = calmArea [] []" by (simp add: sampleStore_def NewStore_def)
  have e: "onArea (areaEntries memoryOperations sampleDirectory) sampleStore = (Inr [], sampleStore)"
    using resolution_paths
    by (simp add: onArea_def w memoryOperations_def calm_admitted AdmitTarget_None resolution_entries)
  have a: "onArea (areaWriteExclusive memoryOperations sampleResolutionPath resolutionText) sampleStore = (Inr (), sampleResolving)"
    using resolution_paths
    by (simp add: onArea_def w memoryOperations_def calm_admitted AdmitTarget_None IsDirectory_iff sampleResolving_def)
  show ?thesis
    using sample_facts(3) sample_number e a sample_now [OF w] resolution_encoding
    by (simp add: StartResolution_def action_simps memoryConfig_def sampleDirectory_def [symmetric] sampleResolutionPath_def [symmetric])
qed

lemma sample_last: "\<exists>a. LastResolution memoryConfig sampleID ''m1'' 1 sampleResolving = (Inr (Some a), sampleResolving)"
proof -
  let ?a = "attemptStored sampleResolution"
  have w: "world sampleResolving = calmArea [(sampleResolutionPath, resolutionText)] []" by (simp add: sampleResolving_def)
  have same: "sampleResolving\<lparr>world := calmArea [(sampleResolutionPath, resolutionText)] []\<rparr> = sampleResolving"
    by (simp add: sampleResolving_def)
  have adm: "AdmitTarget (calmArea [(sampleResolutionPath, resolutionText)] []) sampleDirectory False = None"
    "AdmitTarget (calmArea [(sampleResolutionPath, resolutionText)] []) sampleResolutionPath True = None"
    using resolution_paths by (auto simp: AdmitTarget_None IsDirectory_iff)
  have e: "onArea (areaEntries memoryOperations sampleDirectory) sampleResolving =
      (Inr [\<lparr>EntryName = resolutionName, Directory = False, EntrySize = int (length resolutionText)\<rparr>], sampleResolving)"
    using adm by (simp add: onArea_def w memoryOperations_def calm_admitted resolution_entries same)
  have size: "length resolutionText \<le> MaxAttemptBytes"
    using resolution_encoding by (auto simp: encode_def Encode_def split: option.splits if_splits dest!: arg_cong [where f = length and y = resolutionText])
  have r: "onArea (areaRead memoryOperations sampleResolutionPath MaxAttemptBytes) sampleResolving = (Inr (Some resolutionText), sampleResolving)"
    using adm size by (simp add: onArea_def w memoryOperations_def calm_admitted same)
  have l: "lastResolution (resolutionPrefix ''000001'') [\<lparr>EntryName = resolutionName, Directory = False, EntrySize = z\<rparr>] 0 = Inr 1" for z
    using resolution_paths(10,11) ParseNumber_Format [OF sample_number] by simp
  have v: "validateAttempt sampleResolution = None"
    using sample_records(2) sample_number
    by (auto simp: validateAttempt_def startedAttempt_def phaseCheck_def validWarnings_def errorOf_def validateTimestamps_def)
  have "map_sum id attemptOf (decodeUnder (quoting memoryConfig) attemptShape resolutionText MaxAttemptBytes (runningBuild memoryConfig)) = Inr ?a"
    by (rule decode_running [OF v _ _ resolution_encoding]) (simp_all add: startedAttempt_def)
  then obtain u where u: "decodeUnder (quoting memoryConfig) attemptShape resolutionText MaxAttemptBytes (runningBuild memoryConfig) = Inr u" "attemptOf u = ?a"
    by (cases "decodeUnder (quoting memoryConfig) attemptShape resolutionText MaxAttemptBytes (runningBuild memoryConfig)") auto
  have s: "validateAttempt ?a = None" "AttBlock ?a = ''m1''" "Number ?a = 1" "Resolution ?a = 1"
    using attemptStored_running [OF v] by (simp_all add: startedAttempt_def attemptStored_def)
  show ?thesis
    using sample_number e r l u s
    by (simp add: LastResolution_def readAttempt_def decoded_def action_simps memoryConfig_def sampleDirectory_def [symmetric]
        sampleResolutionPath_def [symmetric])
qed

lemma resolving_fits: "memoryInvar (world sampleResolving)"
proof -
  have "storeCall memoryConfig (world sampleStore) (world sampleResolving)"
    by (rule storeCall.intros(7) [OF sample_facts(1,2) sample_resolution])
  then show ?thesis using memory_store.call_publishes sample_fits(1) by blast
qed

subsection \<open>The encoding of an operation\<close>

lemma sample_textual: "textual sampleOperation"
  by code_simp

lemma sample_operation_encoding: "\<exists>d. encode (operationValue sampleOperation) MaxOperationBytes = Inr d"
  by (rule encode_bound,
      simp add: operationValue_def sampleOperation_def executableValue_def closureValue_def,
      simp add: enc_object_def enc_array_def sample_lengths operation_lengths)

end
