(* ===== verification/Turns.thy ===== *)
theory Turns
  imports Scheduling
begin

section \<open>How often an invocation observes and attempts a block\<close>

text \<open>
  The moves of a run of the scheduler, each an observation or an attempt that starts or a block that
  settles, in their order. In every run from the state an invocation starts in, however long and
  whatever its environment reports, no block is observed twice and none is attempted twice
  (\<open>moves_distinct\<close>), so that a run makes at most four moves for each block (\<open>moves_bounded\<close>). Each
  turn of the loop \<open>converge\<close> but the last settles a block: \<open>convergeWithin\<close> is the loop with a count
  of its turns, and two for each block and one are enough (\<open>converge_within\<close>).
\<close>

datatype move = ObservesBlock string | AttemptsBlock string | SettlesBlock string

fun startsOf :: "move list \<Rightarrow> move list" where
  "startsOf [] = []"
| "startsOf (SettlesBlock i # ms) = startsOf ms"
| "startsOf (m # ms) = m # startsOf ms"

definition startMove :: "SchedulerState \<Rightarrow> Block \<Rightarrow> move" where
  "startMove s b = (if unproved (stateAt (states s) (blockID b)) then ObservesBlock (blockID b) else AttemptsBlock (blockID b))"

text \<open>An admission that starts no block leaves at most the proofs of the boundaries behind, and is no move.\<close>

inductive moves :: "SchedulerConfig \<Rightarrow> BlockStates \<Rightarrow> move list \<Rightarrow> SchedulerState \<Rightarrow> bool" for c sts where
  none: "moves c sts [] (newScheduler sts)"
| starts: "moves c sts ms s \<Longrightarrow> mayAdmit c s \<Longrightarrow> admitOne c q s = (s', True) \<Longrightarrow> nextBlock c s = Some (b, i) \<Longrightarrow>
    moves c sts (ms @ [startMove s b]) s'"
| waits: "moves c sts ms s \<Longrightarrow> mayAdmit c s \<Longrightarrow> admitOne c q s = (s', False) \<Longrightarrow> moves c sts ms s'"
| settles: "moves c sts ms s \<Longrightarrow> i \<in> set (running s) \<Longrightarrow> flights s i = Some f \<Longrightarrow>
    moves c sts (ms @ [SettlesBlock i]) (settle c (finished i f rep) s)"

lemma startsOf_append [simp]: "startsOf (ms @ ns) = startsOf ms @ startsOf ns"
  by (induction ms rule: startsOf.induct) simp_all

lemma startsOf_start [simp]: "startsOf [startMove s b] = [startMove s b]"
  by (simp add: startMove_def)

lemma moves_reached: "moves c sts ms s \<Longrightarrow> reached c sts s"
  by (induction rule: moves.induct) (auto intro: reached.intros scheduled.intros)

lemma reached_moves: "reached c sts s \<Longrightarrow> \<exists>ms. moves c sts ms s"
proof (induction rule: reached.induct)
  case (step s s')
  then obtain ms where ms: "moves c sts ms s" by blast
  from step.hyps(2) show ?case
  proof cases
    case (admits q r)
    show ?thesis
    proof (cases r)
      case True
      then have a: "admitOne c q s = (s', True)" using admits(2) by simp
      then obtain b i where "nextBlock c s = Some (b, i)"
        by (cases "nextBlock c s") (auto simp: admitOne_def)
      then show ?thesis using moves.starts [OF ms admits(1) a] by blast
    next
      case False
      then have "admitOne c q s = (s', False)" using admits(2) by simp
      then show ?thesis using moves.waits [OF ms admits(1)] by blast
    qed
  next
    case (settles i f rep)
    then show ?thesis using moves.settles [OF ms] by blast
  qed
qed (blast intro: moves.none)

text \<open>A start, whatever the boundaries proved before it, is the start of the block that was chosen.\<close>

lemma admitOne_start:
  assumes "admitOne c q s = (s', True)" and "nextBlock c s = Some (b, i)"
  obtains t where "sameWork s t" "s' = start c b i t"
  using assms(1)
proof (cases rule: admitOne_cases)
  case (started b' i' t)
  then show ?thesis using assms(2) that by simp
qed simp

subsection \<open>At most once\<close>

definition movesOK :: "SchedulerConfig \<Rightarrow> move list \<Rightarrow> SchedulerState \<Rightarrow> bool" where
  "movesOK c ms s \<longleftrightarrow>
     distinct (startsOf ms) \<and> set (startsOf ms) \<subseteq> ObservesBlock ` observed s \<union> AttemptsBlock ` worked s \<and>
     set (startsOf ms) \<subseteq> (ObservesBlock ` (blockID ` set (planOf c))) \<union> (AttemptsBlock ` (blockID ` set (planOf c))) \<and>
     length ms + length (running s) = 2 * length (startsOf ms)"

lemma movesOK_start:
  assumes r: "movesOK c ms s" and n: "nextBlock c s = Some (b, i)" and w: "sameWork s t"
  shows "movesOK c (ms @ [startMove s b]) (start c b i t)"
proof -
  note b = chosen_block [OF n]
  have new: "unproved (stateAt (states s) (blockID b)) \<Longrightarrow> blockID b \<notin> observed s"
    using nextBlock_resolve [OF n] nextBlock_unproved [OF n] by simp
  have "running (start c b i t) = running s @ [blockID b]"
    using b(2) w by (simp add: start_running sameWork_simps)
  then show ?thesis
    using r b(1,3) new unfolding movesOK_def
    by (auto simp: startMove_def sameWork_simps [OF w])
qed

lemma movesOK_settle:
  assumes r: "movesOK c ms s" and i: "i \<in> set (running s)" "distinct (running s)"
  shows "movesOK c (ms @ [SettlesBlock i]) (settle c (finished i f rep) s)"
proof -
  have "Suc (length (removeAll i (running s))) = length (running s)"
    using i by (simp add: distinct_remove1_removeAll [symmetric] length_remove1) (metis length_pos_if_in_set Suc_pred)
  then show ?thesis using r by (simp add: movesOK_def)
qed

lemma moves_keep:
  assumes "moves c sts ms s" and "distinct (map blockID (planOf c))"
  shows "movesOK c ms s"
  using assms(1)
proof (induction rule: moves.induct)
  case none
  then show ?case by (simp add: movesOK_def newScheduler_def)
next
  case (starts ms s q s' b i)
  obtain t where "sameWork s t" "s' = start c b i t" using admitOne_start [OF starts(3,4)] .
  then show ?case using movesOK_start [OF starts.IH starts(4)] by simp
next
  case (waits ms s q s')
  from waits(3) have "sameWork s s'" by (cases rule: admitOne_cases) simp_all
  then show ?case using waits.IH by (simp add: movesOK_def sameWork_simps)
next
  case (settles ms s i f rep)
  have "distinct (running s)"
    using reached_OK [OF moves_reached [OF settles(1)] assms(2)] by (simp add: schedulerOK_def flightsOK_def)
  then show ?case by (rule movesOK_settle [OF settles.IH settles(2)])
qed

lemma moves_distinct:
  assumes "moves c sts ms s" and "distinct (map blockID (planOf c))"
  shows "distinct (startsOf ms)"
  using moves_keep [OF assms] by (simp add: movesOK_def)

lemma moves_bounded:
  assumes "moves c sts ms s" and "distinct (map blockID (planOf c))"
  shows "length ms \<le> 4 * length (planOf c)"
proof -
  let ?ids = "blockID ` set (planOf c)"
  note r = moves_keep [OF assms, unfolded movesOK_def]
  have "length (startsOf ms) = card (set (startsOf ms))" using r by (simp add: distinct_card)
  also have "\<dots> \<le> card (ObservesBlock ` ?ids \<union> AttemptsBlock ` ?ids)" using r by (intro card_mono) auto
  also have "\<dots> \<le> card (ObservesBlock ` ?ids) + card (AttemptsBlock ` ?ids)" by (rule card_Un_le)
  also have "\<dots> = 2 * card ?ids" by (simp add: card_image inj_on_def)
  also have "\<dots> = 2 * length (planOf c)"
    using distinct_card [OF assms(2)] by simp
  finally show ?thesis using r by linarith
qed

subsection \<open>The turns of the loop\<close>

fun convergeWithin :: "nat \<Rightarrow> SchedulerConfig \<Rightarrow> Environment \<Rightarrow> SchedulerState \<Rightarrow> SchedulerState option" where
  "convergeWithin 0 c env s = None"
| "convergeWithin (Suc n) c env s =
     (let s1 = (if cancelled env s then s else admit c env s) in
      if running s1 = [] then Some s1 else convergeWithin n c env (settleNext c env s1))"

lemma admit_turn: "budget c (admit c env s) + length (running (admit c env s)) \<le> budget c s + length (running s)"
proof (induction c env s rule: admit.induct)
  case (1 c env s)
  obtain s' r where a: "admitOne c (quiescence env s) s = (s', r)" by fastforce
  show ?case
  proof (cases "mayAdmit c s \<and> \<not> logFaulted env s")
    case True
    from a show ?thesis
    proof (cases rule: admitOne_cases)
      case stop
      with True a show ?thesis
        by (simp add: admit.simps [of c env s] budget_sameWork sameWork_simps)
    next
      case (started b i t)
      then have "budget c s' + length (running s') \<le> budget c s + length (running s)"
        using start_progress [OF started(2,3)] by simp
      moreover have "admit c env s = admit c env s'"
        using True a started(1) by (simp add: admit.simps [of c env s])
      ultimately show ?thesis
        using 1 [OF True a [symmetric]] started(1) by simp
    qed
  next
    case False
    then show ?thesis by (subst (1 2) admit.simps) auto
  qed
qed

lemma converge_turns:
  "budget c s + length (running s) < n \<Longrightarrow> convergeWithin n c env s = Some (converge c env s)"
proof (induction n arbitrary: s)
  case (Suc n)
  define s1 where "s1 = (if cancelled env s then s else admit c env s)"
  have m: "budget c s1 + length (running s1) \<le> budget c s + length (running s)"
    using admit_turn by (simp add: s1_def)
  have c: "converge c env s = (if running s1 = [] then s1 else converge c env (settleNext c env s1))"
    by (subst converge.simps) (simp add: s1_def [symmetric] Let_def)
  show ?case
  proof (cases "running s1 = []")
    case True
    then show ?thesis using c by (simp add: s1_def [symmetric] Let_def)
  next
    case False
    have "budget c (settleNext c env s1) + length (running (settleNext c env s1)) < n"
      using settleNext_measure [OF False, of c env] m Suc.prems by simp
    then show ?thesis using False c Suc.IH by (simp add: s1_def [symmetric] Let_def)
  qed
qed simp

lemma converge_within:
  assumes "distinct (map blockID (planOf c))"
  shows "convergeWithin (2 * length (planOf c) + 1) c env (newScheduler sts) = Some (converge c env (newScheduler sts))"
  by (rule converge_turns) (simp add: budget_start [OF assms], simp add: newScheduler_def)

end
