(* ===== verification/LogExamples.thy ===== *)
theory LogExamples
  imports StoreSamples LogSessions
begin

section \<open>The log of the first attempt, opened and opened again\<close>

text \<open>
  A log on the in-memory area. Opened on an area that holds nothing, it holds the record of its
  opening. Opened when it is too full for that record, it gains nothing but the marker its closing
  writes, each time (\<open>reopened_log_grows\<close>); so a log closed within its limit passes it when it is
  opened again twice (\<open>reopened_log_exceeds\<close>).
\<close>

definition firstLog :: string where
  "firstLog = path_join [sampleID, ''logs'', ''blocks'', ''m1'', ''attempt-000001.jsonl'']"

definition logDirectory :: string where "logDirectory = path_dir firstLog"

lemma firstLog_paths:
  "valid_path firstLog" "valid_path logDirectory" "logDirectory \<noteq> []" "firstLog \<noteq> logDirectory" "firstLog \<notin> set (parents firstLog)"
  "firstLog \<notin> set (parents logDirectory)" "attemptLog firstLog"
  by code_simp+

lemma log_target: "logTarget firstLog"
proof -
  have "AttemptLogPath sampleID ''m1'' 1 0 = Inr firstLog"
    using sample_number by (simp add: AttemptLogPath_def firstLog_def)
  then show ?thesis unfolding logTarget_def using sample_facts(1,2) by blast
qed

text \<open>The record of an opening, and the marker of one dropped record.\<close>

abbreviation openedEvent :: LogRecord where
  "openedEvent \<equiv> \<lparr>LogTime = [], LogEvent = ''opened'', LogBlock = [], LogGroup = [], LogDetail = []\<rparr>"

definition openedLine :: string where "openedLine = the (logLine (logRecordValue (safeRecord openedEvent sampleTime)))"
definition markerLine :: string where "markerLine = the (logLine (markerValue 1))"

lemma opened_record:
  "safeRecord openedEvent sampleTime = \<lparr>LogTime = sampleTime, LogEvent = ''opened'', LogBlock = [], LogGroup = [], LogDetail = []\<rparr>"
proof -
  have "safeLogText ''opened'' maxLogDetail = ''opened''" by (rule safeLogText_plain) (simp_all add: utf8_ascii)
  then show ?thesis by (simp add: safeRecord_def safeLogText_def)
qed

lemma line_lengths:
  "length (enc_string ''time'') = 6" "length (enc_string ''event'') = 7" "length (enc_string ''opened'') = 8"
  "length (enc_string ''truncated'') = 11" "length (enc_string ''dropped'') = 9"
  by code_simp+

lemma line_names:
  "valid_name ''time''" "valid_name ''event''" "valid_name ''block''" "valid_name ''group''" "valid_name ''detail''"
  "valid_name ''truncated''" "valid_name ''dropped''"
  by (rule letters_valid; simp add: letter_def)+

lemma opened_line: "logLine (logRecordValue (safeRecord openedEvent sampleTime)) = Some openedLine" "length openedLine = 49"
proof -
  obtain t where t: "logLine (logRecordValue (safeRecord openedEvent sampleTime)) = Some t" "length t = 49"
    unfolding opened_record logRecordValue_def logLine_def using line_names by (simp add: enc_object_def line_lengths sample_lengths)
  then show "logLine (logRecordValue (safeRecord openedEvent sampleTime)) = Some openedLine" "length openedLine = 49"
    by (simp_all add: openedLine_def)
qed

lemma marker_line: "logLine (markerValue 1) = Some markerLine" "length markerLine = 31"
proof -
  obtain t where t: "logLine (markerValue 1) = Some t" "length t = 31"
    unfolding markerValue_def logLine_def using line_names by (simp add: enc_object_def line_lengths sample_lengths)
  then show "logLine (markerValue 1) = Some markerLine" "length markerLine = 31"
    by (simp_all add: markerLine_def)
qed

subsection \<open>The calls to the area\<close>

text \<open>An area with nothing but the log, and the directories above it.\<close>

definition logArea :: "(string \<times> string) list \<Rightarrow> string list \<Rightarrow> bool" where
  "logArea fs ds \<longleftrightarrow> (fs = [] \<or> (\<exists>text. fs = [(firstLog, text)])) \<and> set ds \<subseteq> insert logDirectory (set (parents logDirectory))"

lemma logArea_admits:
  assumes "logArea fs ds"
  shows "AdmitTarget (calmArea fs ds) firstLog True = None" "AdmitTarget (calmArea fs ds) logDirectory False = None"
    "memoryInvar (calmArea fs ds)" "logArea fs (logDirectory # parents logDirectory @ ds)"
  using assms firstLog_paths by (auto simp: logArea_def AdmitTarget_None IsDirectory_iff memoryInvar_def)

lemma log_calls:
  assumes "logArea fs ds" and "world s = calmArea fs ds"
  shows "onArea (areaEnsureDirectory memoryOperations logDirectory) s =
      (Inr (), s\<lparr>world := calmArea fs (logDirectory # parents logDirectory @ ds)\<rparr>)"
    "\<exists>es. onArea (areaEntries memoryOperations logDirectory) s = (Inr es, s) \<and>
      logWritten (openedLog firstLog es) = recordSize (map_of fs) firstLog"
    "onArea (areaAppend memoryOperations firstLog d) s =
      (Inr (), s\<lparr>world := calmArea [(firstLog, (case map_of fs firstLog of None \<Rightarrow> [] | Some old \<Rightarrow> old) @ d)] ds\<rparr>)"
proof -
  note adm = logArea_admits [OF assms(1)]
  have same: "s\<lparr>world := calmArea fs ds\<rparr> = s" using assms(2) by (metis Store.surjective Store.update_convs(1))
  show "onArea (areaEnsureDirectory memoryOperations logDirectory) s =
      (Inr (), s\<lparr>world := calmArea fs (logDirectory # parents logDirectory @ ds)\<rparr>)"
    using adm firstLog_paths(3) by (simp add: onArea_def assms(2) memoryOperations_def calm_admitted)
  have e: "areaEntries memoryOperations logDirectory (calmArea fs ds) = (Inr (Entries (calmArea fs ds) logDirectory), calmArea fs ds)"
    using adm by (simp add: memoryOperations_def calm_admitted)
  have "logWritten (openedLog firstLog (Entries (calmArea fs ds) logDirectory)) = recordSize (memoryRecords (calmArea fs ds)) firstLog"
    by (rule memory_sized.listed_size [OF adm(3) _ log_target]) (simp add: memoryConfig_def e logDirectory_def [symmetric])
  then show "\<exists>es. onArea (areaEntries memoryOperations logDirectory) s = (Inr es, s) \<and>
      logWritten (openedLog firstLog es) = recordSize (map_of fs) firstLog"
    using e by (simp add: onArea_def assms(2) same)
  show "onArea (areaAppend memoryOperations firstLog d) s =
      (Inr (), s\<lparr>world := calmArea [(firstLog, (case map_of fs firstLog of None \<Rightarrow> [] | Some old \<Rightarrow> old) @ d)] ds\<rparr>)"
    using adm assms(1) by (auto simp: onArea_def assms(2) memoryOperations_def calm_admitted logArea_def)
qed

subsection \<open>Opening and closing\<close>

lemma log_open:
  assumes "logArea fs ds" and "world s = calmArea fs ds"
  shows "\<exists>l. OpenLog memoryConfig firstLog s =
      (Inr l, s\<lparr>world := calmArea (if recordSize (map_of fs) firstLog + 113 > AttemptLogBytes then fs
          else [(firstLog, (case map_of fs firstLog of None \<Rightarrow> [] | Some old \<Rightarrow> old) @ openedLine)]) (logDirectory # parents logDirectory @ ds)\<rparr>) \<and>
    logPath l = firstLog \<and> \<not> logClosed l \<and> logFailed l = None \<and> logDropped l = (if recordSize (map_of fs) firstLog + 113 > AttemptLogBytes then 1 else 0)"
proof -
  let ?ds = "logDirectory # parents logDirectory @ ds"
  let ?s = "s\<lparr>world := calmArea fs ?ds\<rparr>"
  have a: "logArea fs ?ds" by (rule logArea_admits(4) [OF assms(1)])
  have w: "world ?s = calmArea fs ?ds" by simp
  obtain es where es: "onArea (areaEntries memoryOperations logDirectory) ?s = (Inr es, ?s)"
    "logWritten (openedLog firstLog es) = recordSize (map_of fs) firstLog"
    using log_calls(2) [OF a w] by blast
  have line: "logLine (logRecordValue (safeRecord openedEvent sampleTime)) = Some openedLine" "LogEvent (safeRecord openedEvent sampleTime) = ''opened''"
    using opened_line(1) opened_record by simp_all
  show ?thesis
    using log_calls(1) [OF assms] es sample_now [OF w] line opened_line(2) log_calls(3) [OF a w, of openedLine] firstLog_paths(7)
    by (simp add: OpenLog_def AppendLog_def writeLine_def sticky_def onLog_def action_simps memoryConfig_def logDirectory_def [symmetric] Let_def)
qed

text \<open>One invocation that opens a log and closes it, with nothing to record between.\<close>

definition reopened :: "'w StoreConfig \<Rightarrow> string \<Rightarrow> 'w Store \<Rightarrow> 'w Store \<Rightarrow> bool" where
  "reopened cfg t s s' \<longleftrightarrow> (\<exists>l u k. OpenLog cfg t s = (Inr l, u) \<and> CloseLog cfg (u, l) = (Inr (), (s', k)))"

lemma reopened_log_grows:
  assumes "logArea [(firstLog, text)] ds" and "world s = calmArea [(firstLog, text)] ds" and "int (length text) + 113 > AttemptLogBytes"
  shows "\<exists>s' ds'. reopened memoryConfig firstLog s s' \<and> logArea [(firstLog, text @ markerLine)] ds' \<and>
    world s' = calmArea [(firstLog, text @ markerLine)] ds'"
proof -
  let ?ds = "logDirectory # parents logDirectory @ ds"
  let ?s = "s\<lparr>world := calmArea [(firstLog, text)] ?ds\<rparr>"
  obtain l where l: "OpenLog memoryConfig firstLog s = (Inr l, ?s)" "logPath l = firstLog" "\<not> logClosed l" "logFailed l = None" "logDropped l = 1"
    using log_open [OF assms(1,2)] assms(3) by (auto simp: recordSize_def)
  have a: "logArea [(firstLog, text)] ?ds" by (rule logArea_admits(4) [OF assms(1)])
  have w: "world ?s = calmArea [(firstLog, text)] ?ds" by simp
  have "CloseLog memoryConfig (?s, l) = (Inr (), (s\<lparr>world := calmArea [(firstLog, text @ markerLine)] ?ds\<rparr>, l\<lparr>logClosed := True\<rparr>))"
    using l(2-5) marker_line(1) log_calls(3) [OF a w, of markerLine]
    by (simp add: CloseLog_def onLog_def onStore_def action_simps memoryConfig_def)
  then have "reopened memoryConfig firstLog s (s\<lparr>world := calmArea [(firstLog, text @ markerLine)] ?ds\<rparr>)"
    unfolding reopened_def using l(1) by blast
  moreover have "logArea [(firstLog, text @ markerLine)] ?ds" using a by (simp add: logArea_def)
  ultimately show ?thesis by (intro exI [of _ "s\<lparr>world := calmArea [(firstLog, text @ markerLine)] ?ds\<rparr>"] exI [of _ ?ds]) simp
qed

lemma reopened_log_exceeds:
  assumes "world s = calmArea [(firstLog, text)] []" and "int (length text) = AttemptLogBytes - 33"
  shows "\<exists>t u. reopened memoryConfig firstLog s t \<and> reopened memoryConfig firstLog t u \<and>
    recordSize (memoryRecords (world s)) firstLog \<le> AttemptLogBytes \<and> recordSize (memoryRecords (world u)) firstLog = AttemptLogBytes + 29"
proof -
  have a: "logArea [(firstLog, text)] []" by (simp add: logArea_def)
  obtain t ds where t: "reopened memoryConfig firstLog s t" "logArea [(firstLog, text @ markerLine)] ds" "world t = calmArea [(firstLog, text @ markerLine)] ds"
    using reopened_log_grows [OF a assms(1)] assms(2) by auto
  obtain u ds' where "reopened memoryConfig firstLog t u" "world u = calmArea [(firstLog, (text @ markerLine) @ markerLine)] ds'"
    using reopened_log_grows [OF t(2,3)] assms(2) by auto
  then show ?thesis
    using t(1) assms marker_line(2) by (intro exI [of _ t] exI [of _ u]) (simp add: recordSize_def)
qed

subsection \<open>A log that is new\<close>

definition sampleEvent :: LogRecord where
  "sampleEvent = \<lparr>LogTime = [], LogEvent = ''started'', LogBlock = ''m1'', LogGroup = [], LogDetail = []\<rparr>"

lemma new_log: "\<exists>l u. OpenLog memoryConfig firstLog sampleStore = (Inr l, u) \<and> recordSize (memoryRecords (world u)) firstLog = 49"
proof -
  have "logArea [] []" "world sampleStore = calmArea [] []" by (simp_all add: logArea_def sampleStore_def NewStore_def)
  from log_open [OF this] show ?thesis using opened_line(2) by (auto simp: recordSize_def)
qed

end
