(* ===== verification/Lineages.thy ===== *)
theory Lineages
  imports StoreInvariants Phases
begin

section \<open>The applies an operation adds to\<close>

text \<open>
  \<open>lifecycle/lineage.go\<close>: the chain of applies that ends at an operation, read from the operation
  store, and which of them holds a block. A nil chain is the empty list and a nil map of states the
  empty map. \<open>does_lineageOf\<close> says what a chain that is read is: applies, each naming the one before
  it, none twice, at most as many as a context retains, and that reading it changes no record.
\<close>

subsection \<open>Reading a lineage\<close>

record lineageMember =
  memberOperation :: Operation
  memberPlan :: Plan
  memberStates :: BlockStates

type_synonym lineage = "lineageMember list"

definition fails :: "string \<Rightarrow> string \<Rightarrow> ('s, 'a) action" where
  "fails message remediation = failA (Refused (failure ''lifecycle.state'' message remediation))"

definition BlockStatesOf :: "'w StoreConfig \<Rightarrow> string \<Rightarrow> Plan \<Rightarrow> ('w Store, BlockStates) action" where
  "BlockStatesOf cfg i plan = bindA (readBlockStates cfg i plan) (\<lambda>states. returnA (map_of states))"

text \<open>The loop from a predecessor on, nearest first; \<open>left\<close> is what a context may still retain beside those seen.\<close>

fun lineageFrom :: "nat \<Rightarrow> 'w StoreConfig \<Rightarrow> string list \<Rightarrow> string \<Rightarrow> ('w Store, lineage) action" where
  "lineageFrom left cfg seen i =
     (if i = [] then returnA []
      else if i \<in> set seen then fails ''the applies this operation adds to name one another in a cycle'' ''restore the context store''
      else (case left of
        0 \<Rightarrow> fails ''the applies this operation adds to exceed the operations a context retains'' ''restore the context store''
      | Suc k \<Rightarrow>
          bindA (ReadOperation cfg i) (\<lambda>r.
          if OpVerb r \<noteq> Apply then fails ''the operation this apply adds to is no apply'' ''restore the context store''
          else bindA (ReadPlan cfg i) (\<lambda>plan.
          bindA (BlockStatesOf cfg i plan) (\<lambda>states.
          bindA (lineageFrom k cfg (i # seen) (Predecessor r)) (\<lambda>rest.
          returnA (\<lparr>memberOperation = r, memberPlan = plan, memberStates = states\<rparr> # rest)))))))"

declare lineageFrom.simps [simp del]

definition lineageOf :: "'w StoreConfig \<Rightarrow> lineageMember \<Rightarrow> ('w Store, lineage) action" where
  "lineageOf cfg head =
     (let op = memberOperation head in
      if OpVerb op \<noteq> Apply
      then fails (''the operation '' @ OpID op @ '' heads a lineage and is no apply'') ''restore the context store''
      else bindA (lineageFrom (MaxOperations - 1) cfg [OpID op] (Predecessor op)) (\<lambda>rest. returnA (rev (head # rest))))"

definition notAnApply :: "('s, 'a) action" where
  "notAnApply = fails ''the operation this removal takes back is no apply'' ''restore the context store''"

definition sourceApply :: "'w StoreConfig \<Rightarrow> string \<Rightarrow> ('w Store, Operation) action" where
  "sourceApply cfg source =
     bindA (ReadOperation cfg source) (\<lambda>applied. if OpVerb applied \<noteq> Apply then notAnApply else returnA applied)"

definition appliedLineage :: "'w StoreConfig \<Rightarrow> Operation \<Rightarrow> ('w Store, lineage) action" where
  "appliedLineage cfg op =
     (let chain = (\<lambda>applied.
        bindA (ReadPlan cfg (OpID applied)) (\<lambda>plan.
        lineageOf cfg \<lparr>memberOperation = applied, memberPlan = plan, memberStates = Map.empty\<rparr>)) in
      if OpVerb op = Apply then chain op
      else if OpSource op = [] then returnA []
      else bindA (sourceApply cfg (OpSource op)) chain)"

definition predecessorLineage :: "'w StoreConfig \<Rightarrow> Operation \<Rightarrow> ('w Store, lineage) action" where
  "predecessorLineage cfg op = (if OpVerb op \<noteq> Apply \<or> Predecessor op = [] then returnA [] else appliedLineage cfg op)"

definition sourceLineage :: "'w StoreConfig \<Rightarrow> string \<Rightarrow> ('w Store, lineage) action" where
  "sourceLineage cfg source = bindA (sourceApply cfg source) (appliedLineage cfg)"

subsection \<open>What a lineage holds\<close>

definition holdsBlock :: "string \<Rightarrow> lineageMember \<Rightarrow> bool" where
  "holdsBlock block m \<longleftrightarrow> findBlock (memberPlan m) block \<noteq> None"

definition ownerOf :: "lineage \<Rightarrow> string \<Rightarrow> lineageMember option" where
  "ownerOf chain block = List.find (holdsBlock block) chain"

definition lineagePlan :: "lineage \<Rightarrow> Plan result" where
  "lineagePlan chain = (case chain of [m] \<Rightarrow> Inr (memberPlan m) | _ \<Rightarrow> Lineage (map memberPlan chain))"

definition lineageStates :: "lineage \<Rightarrow> BlockStates" where
  "lineageStates chain =
     (case chain of [m] \<Rightarrow> memberStates m | _ \<Rightarrow> fold (\<lambda>m union. union ++ memberStates m) chain Map.empty)"

definition joinBindings :: "string list \<Rightarrow> string list \<Rightarrow> string list" where
  "joinBindings known bs = fold (\<lambda>b known. if b \<noteq> [] \<and> b \<notin> set known then known @ [b] else known) bs known"

definition lineageHeldBindings :: "lineage \<Rightarrow> string list" where
  "lineageHeldBindings chain = fold (\<lambda>m known. joinBindings known (elems (Bindings (memberOperation m)))) chain []"

definition lineageDefinitions :: "lineage \<Rightarrow> BlockDefinition list" where
  "lineageDefinitions chain = concat (map (\<lambda>m. definitions (memberPlan m)) chain)"

definition routed :: "lineage \<Rightarrow> string \<Rightarrow> lineageMember result" where
  "routed chain block =
     (case chain of
        [] \<Rightarrow> Inl (failure ''lifecycle.state'' (''the operation names no apply to route the block '' @ block @ '' to'') ''restore the context store'')
      | [m] \<Rightarrow> Inr m
      | _ \<Rightarrow>
          (case ownerOf chain block of
             None \<Rightarrow> Inl (failure ''lifecycle.state''
               (''no apply of the lineage of '' @ OpID (memberOperation (last chain)) @ '' holds the block '' @ block)
               ''restore the context store'')
           | Some owner \<Rightarrow> Inr owner))"

definition ownerFor :: "lineage \<Rightarrow> string \<Rightarrow> string result" where
  "ownerFor chain block = (if chain = [] then Inr [] else bindR (routed chain block) (\<lambda>owner. Inr (OpID (memberOperation owner))))"

definition owned :: "lineage \<Rightarrow> (string \<times> Block) list" where
  "owned chain = concat (map (\<lambda>m. map (\<lambda>b. (OpID (memberOperation m), b)) (blocks (memberPlan m))) chain)"

definition lending :: "lineage \<Rightarrow> Plan \<Rightarrow> BlockDefinition list" where
  "lending chain plan =
     definitions plan @ (if length chain < 2 then [] else filter (\<lambda>d. findBlock plan (ID d) = None) (lineageDefinitions chain))"

definition routedIn :: "'w StoreConfig \<Rightarrow> Operation \<Rightarrow> string \<Rightarrow> ('w Store, Operation) action" where
  "routedIn cfg applied block =
     (if Predecessor applied = [] then returnA applied
      else bindA (appliedLineage cfg applied) (\<lambda>chain.
        bindA (liftR (routed chain block)) (\<lambda>owner. returnA (memberOperation owner))))"

definition ownerIn :: "'w StoreConfig \<Rightarrow> Operation \<Rightarrow> string \<Rightarrow> ('w Store, string) action" where
  "ownerIn cfg applied block = bindA (routedIn cfg applied block) (\<lambda>owner. returnA (OpID owner))"

definition ownerID :: "'w StoreConfig \<Rightarrow> Operation \<Rightarrow> string \<Rightarrow> ('w Store, string) action" where
  "ownerID cfg op block =
     (if OpVerb op = Apply then ownerIn cfg op block
      else if OpSource op = [] then returnA []
      else bindA (sourceApply cfg (OpSource op)) (\<lambda>applied. ownerIn cfg applied block))"

definition appliedView ::
  "'w StoreConfig \<Rightarrow> Operation \<Rightarrow> Plan \<Rightarrow> BlockStates \<Rightarrow> ('w Store, Plan \<times> BlockStates) action" where
  "appliedView cfg applied plan states =
     (if Predecessor applied = [] then returnA (plan, states)
      else bindA (lineageOf cfg \<lparr>memberOperation = applied, memberPlan = plan, memberStates = states\<rparr>) (\<lambda>chain.
        bindA (liftR (lineagePlan chain)) (\<lambda>merged. returnA (merged, lineageStates chain))))"

record LineageEntry =
  EntryOperation :: string
  EntryVerb :: string
  EntryState :: string

definition lineageEntries ::
  "'w StoreConfig \<Rightarrow> Operation \<Rightarrow> Plan \<Rightarrow> BlockStates \<Rightarrow> ('w Store, LineageEntry list) action" where
  "lineageEntries cfg op plan states =
     (if OpVerb op \<noteq> Apply \<or> Predecessor op = [] then returnA []
      else bindA (lineageOf cfg \<lparr>memberOperation = op, memberPlan = plan, memberStates = states\<rparr>) (\<lambda>chain.
        returnA (map (\<lambda>m. \<lparr>EntryOperation = OpID (memberOperation m), EntryVerb = OpVerb (memberOperation m),
          EntryState = OpState (memberOperation m)\<rparr>) chain)))"

text \<open>The blocks of a frozen plan whose record reads anything but done, each with the state it reads.\<close>

definition unfinishedBlocks :: "Plan \<Rightarrow> BlockStates \<Rightarrow> string list" where
  "unfinishedBlocks plan states =
     map (\<lambda>b. let state = stateAt states (blockID b) in
         blockID b @ '' ('' @ (if state = [] then BlockPending else state) @ '')'')
       (filter (\<lambda>b. stateAt states (blockID b) \<noteq> BlockDone) (blocks plan))"

definition unfinishedOver :: "'w StoreConfig \<Rightarrow> Operation \<Rightarrow> Plan \<Rightarrow> BlockStates \<Rightarrow> ('w Store, string list) action" where
  "unfinishedOver cfg op plan states =
     (if OpVerb op \<noteq> Apply \<or> Predecessor op = [] then returnA (unfinishedBlocks plan states)
      else bindA (lineageOf cfg \<lparr>memberOperation = op, memberPlan = plan, memberStates = states\<rparr>) (\<lambda>chain.
        returnA (concat (map (\<lambda>m. unfinishedBlocks (memberPlan m) (memberStates m)) chain))))"

definition lineageBindings :: "'w StoreConfig \<Rightarrow> string \<Rightarrow> ('w Store, string list) action" where
  "lineageBindings cfg i =
     bindA (ReadOperation cfg i) (\<lambda>head.
     if Predecessor head = [] then returnA []
     else bindA (ReadPlan cfg i) (\<lambda>plan.
       bindA (lineageOf cfg \<lparr>memberOperation = head, memberPlan = plan, memberStates = Map.empty\<rparr>) (\<lambda>chain.
       returnA (lineageHeldBindings chain))))"

subsection \<open>What a lineage that is read is\<close>

abbreviation memberID :: "lineageMember \<Rightarrow> string" where "memberID m \<equiv> OpID (memberOperation m)"

text \<open>Each member names the one before it, the first none.\<close>

fun chained :: "string \<Rightarrow> lineage \<Rightarrow> bool" where
  "chained earlier [] \<longleftrightarrow> True"
| "chained earlier (m # ms) \<longleftrightarrow>
     Predecessor (memberOperation m) = earlier \<and> OpVerb (memberOperation m) = Apply \<and> chained (memberID m) ms"

definition lineageEnds :: "lineage \<Rightarrow> Operation \<Rightarrow> bool" where
  "lineageEnds chain op \<longleftrightarrow>
     chain \<noteq> [] \<and> memberOperation (last chain) = op \<and> chained [] chain \<and> distinct (map memberID chain) \<and> length chain \<le> MaxOperations"

lemma chained_append:
  "chained i (xs @ ys) \<longleftrightarrow> chained i xs \<and> chained (if xs = [] then i else memberID (last xs)) ys"
  by (induction xs arbitrary: i) auto

context store
begin

lemma does_BlockStatesOf [store_rules]: "(\<And>a. Q a m) \<Longrightarrow> E m \<Longrightarrow> does m (BlockStatesOf cfg i plan) Q E"
  unfolding BlockStatesOf_def by (intro store_rules) auto

lemma does_fails [store_rules]: "E m \<Longrightarrow> does m (fails message remediation) Q E"
  unfolding fails_def by (rule does_fail)

lemma does_lineageFrom:
  assumes "\<And>rest. chained [] (rev rest) \<Longrightarrow> (if rest = [] then [] else memberID (hd rest)) = i \<Longrightarrow> distinct (map memberID rest) \<Longrightarrow>
      set (map memberID rest) \<inter> set seen = {} \<Longrightarrow> length rest \<le> left \<Longrightarrow> Q rest m" and "E m"
  shows "does m (lineageFrom left cfg seen i) Q E"
  using assms
proof (induction left arbitrary: seen i Q)
  case 0
  then show ?case
    by (subst lineageFrom.simps, simp only: nat.case) (intro store_rules, auto)
next
  case (Suc k)
  have further: "does m (lineageFrom k cfg (i # seen) (Predecessor r))
      (\<lambda>rest m'. does m' (returnA (\<lparr>memberOperation = r, memberPlan = plan, memberStates = states\<rparr> # rest)) Q E) E"
    if "i \<noteq> []" "i \<notin> set seen" "OpVerb r = Apply" "OpID r = i" for r plan states
  proof (rule Suc.IH)
    fix rest
    assume rest: "chained [] (rev rest)" "(if rest = [] then [] else memberID (hd rest)) = Predecessor r" "distinct (map memberID rest)"
      "set (map memberID rest) \<inter> set (i # seen) = {}" "length rest \<le> k"
    show "does m (returnA (\<lparr>memberOperation = r, memberPlan = plan, memberStates = states\<rparr> # rest)) Q E"
      using that rest
      by (intro does_return Suc.prems(1)) (auto simp: chained_append last_rev)
  qed (rule Suc.prems(2))
  show ?case
    by (subst lineageFrom.simps, simp only: nat.case)
      (intro store_rules, use Suc.prems further in auto)
qed

lemma does_lineageOf [store_rules]:
  assumes "\<And>chain. lineageEnds chain (memberOperation head) \<Longrightarrow> last chain = head \<Longrightarrow> Q chain m" and "E m"
  shows "does m (lineageOf cfg head) Q E"
proof -
  have ends: "lineageEnds (rev (head # rest)) (memberOperation head)"
    if "chained [] (rev rest)" "(if rest = [] then [] else memberID (hd rest)) = Predecessor (memberOperation head)"
      "distinct (map memberID rest)" "set (map memberID rest) \<inter> set [memberID head] = {}" "length rest \<le> MaxOperations - 1"
      "OpVerb (memberOperation head) = Apply" for rest
    using that by (auto simp: lineageEnds_def chained_append last_rev rev_map [symmetric])
  show ?thesis
    unfolding lineageOf_def Let_def
    by (intro store_rules does_lineageFrom) (use ends assms in auto)
qed

lemma does_sourceApply [store_rules]:
  "(\<And>op. validateOperation op = None \<Longrightarrow> OpID op = i \<Longrightarrow> OpVerb op = Apply \<Longrightarrow> Q op m) \<Longrightarrow> E m \<Longrightarrow> does m (sourceApply cfg i) Q E"
  unfolding sourceApply_def notAnApply_def by (intro store_rules) auto

lemma does_appliedLineage [store_rules]:
  assumes "OpVerb op \<noteq> Apply \<Longrightarrow> OpSource op = [] \<Longrightarrow> Q [] m"
    and "\<And>chain applied. lineageEnds chain applied \<Longrightarrow> (if OpVerb op = Apply then applied = op else OpID applied = OpSource op) \<Longrightarrow> Q chain m"
    and "E m"
  shows "does m (appliedLineage cfg op) Q E"
  unfolding appliedLineage_def Let_def by (intro store_rules) (use assms in auto)

lemma does_sourceLineage [store_rules]:
  assumes "\<And>chain applied. lineageEnds chain applied \<Longrightarrow> OpID applied = i \<Longrightarrow> Q chain m" and "E m"
  shows "does m (sourceLineage cfg i) Q E"
  unfolding sourceLineage_def by (intro store_rules) (use assms in auto)

lemma does_routedIn [store_rules]: "(\<And>a. Q a m) \<Longrightarrow> E m \<Longrightarrow> does m (routedIn cfg op b) Q E"
  unfolding routedIn_def by (intro store_rules) auto

lemma does_ownerID [store_rules]: "(\<And>a. Q a m) \<Longrightarrow> E m \<Longrightarrow> does m (ownerID cfg op b) Q E"
  unfolding ownerID_def ownerIn_def by (intro store_rules) auto

end

end
