(* ===== verification/RegisterSamples.thy ===== *)
theory RegisterSamples
  imports StoreExamples Lineages
begin

section \<open>A registration on the in-memory area\<close>

text \<open>
  The plan of one block, registered by an apply on an area that holds nothing: the texts of its
  three records, the calls that publish them, and what is read back from the area they leave: the
  operation, the frozen plan and the lineage of one apply.
\<close>

subsection \<open>The operation\<close>

definition baseDigest :: string where "baseDigest = projr (Digest sampleBase)"

definition baseOperation :: Operation where "baseOperation = sampleOperation\<lparr>OpID := sampleID, PlanDigest := baseDigest\<rparr>"

lemma base_marshal: "marshal_raw ''{}'' = Some ''{}''" "json_valid ''{}''" "\<not> is_html CHR ''{''" "\<not> is_html CHR ''}''"
  by code_simp+

lemma base_digest: "Digest sampleBase = Inr baseDigest" "length baseDigest = 64" "list_all lower_hex baseDigest"
proof -
  have "Request (Def (frozen sampleMachine)) = ''{}''"
    by (simp add: frozen_def deliberate_def clone_def sampleMachine_def sampleDefinition_def)
  then have "\<exists>m. Digest sampleBase = Inr (sha256_hex m)"
    using base_marshal(1) by (simp add: Digest_def sampleBase_def enc_block_slice_def enc_block_def) blast
  then obtain m where m: "Digest sampleBase = Inr (sha256_hex m)" by blast
  then have d: "baseDigest = sha256_hex m" by (simp add: baseDigest_def)
  then show "Digest sampleBase = Inr baseDigest" using m by simp
  show "length baseDigest = 64" "list_all lower_hex baseDigest"
    using validDigest_sha256 [of m] by (simp_all add: d validDigest_iff)
qed

lemma hex_utf8: "list_all lower_hex s \<Longrightarrow> utf8_valid s"
  by (rule utf8_ascii) (auto simp: list_all_iff lower_hex_def)

lemma base_operation: "validateOperation baseOperation = None" "textual baseOperation"
proof -
  have p: "PlanDigest baseOperation \<noteq> []" "length (PlanDigest baseOperation) \<le> maxRecordIdentifier"
    using base_digest(2) by (auto simp: baseOperation_def)
  have s: "OpVersion sampleOperation = OperationVersion" "validateClosure (OpClosure sampleOperation) = None"
    "validateTimestamps [Created sampleOperation, OpUpdated sampleOperation] = None" "\<forall>c\<in>set (operationChecks sampleOperation). fst c"
    using sample_operation by (auto simp: validateOperation_def split: if_splits)
  have "\<forall>c\<in>set (operationChecks baseOperation). fst c"
    using s(4) p sample_facts(1) unfolding operationChecks_def by (simp add: baseOperation_def sampleOperation_def)
  then show "validateOperation baseOperation = None"
    using s(1-3) by (auto simp: validateOperation_def baseOperation_def firstCheck_def)
  show "textual baseOperation"
    using sample_textual hex_utf8 [OF base_digest(3)] by (simp add: textual_def baseOperation_def)
qed

subsection \<open>The plan\<close>

lemma base_request_digest: "length (digestOf sampleMachine) = 64" "list_all lower_hex (digestOf sampleMachine)"
proof -
  have "\<exists>m. requestDigest sampleMachine = Inr (sha256_hex m)"
    using base_marshal sample_request by (simp add: requestDigest_def sampleMachine_def sampleDefinition_def guardR_def) blast
  then obtain m where "digestOf sampleMachine = sha256_hex m" by (auto simp: digestOf_def)
  then show "length (digestOf sampleMachine) = 64" "list_all lower_hex (digestOf sampleMachine)"
    using validDigest_sha256 [of m] by (simp_all add: validDigest_iff)
qed

lemma base_block:
  "frozen sampleMachine =
     \<lparr>Def = (sampleDefinition ''m1'' StageMachines ''m1'' [] [])\<lparr>Impacts := Some [], Consumes := Some [], Groups := Some []\<rparr>,
      RequestDigest = digestOf sampleMachine\<rparr>"
  by (simp add: frozen_def deliberate_def clone_def orEmpty_def sampleMachine_def sampleDefinition_def)

lemma hex_plain: "lower_hex c \<Longrightarrow> byte_of c < 128 \<and> enc_ascii c = [c]"
proof -
  assume c: "lower_hex c"
  then have b: "32 \<le> byte_of c" "byte_of c < 128" by (auto simp: lower_hex_def)
  have "c \<noteq> x" if "\<not> lower_hex x" for x using that c by blast
  moreover have "\<not> lower_hex x" if "x \<in> {quote_char, backslash, CHR 0x08, CHR 0x0C, CHR 0x0A, CHR 0x0D, CHR 0x09, CHR ''<'', CHR ''>'', CHR ''&''}" for x
    using that by (auto simp: lower_hex_def)
  ultimately show ?thesis using b by (simp add: enc_ascii_def)
qed

lemma hex_string: "list_all lower_hex s \<Longrightarrow> length (enc_string s) = length s + 2"
proof -
  have "list_all lower_hex s \<Longrightarrow> enc_chars s = s"
  proof (induction s)
    case (Cons c s)
    then show ?case using hex_plain [of c] by (simp add: enc_chars.simps)
  qed (simp add: enc_chars.simps)
  then show "list_all lower_hex s \<Longrightarrow> ?thesis" by (simp add: enc_string_def)
qed

lemma plan_conforms: "conforms planShape 0 (planValue sampleBase)"
proof -
  have r: "canonical_text n ''{}''" if "n < maxNestingDepth" for n
    using canonical_text_print [of n "JObj []"] that by simp
  have a: "utf8_valid (replicate 64 CHR ''a'')" by (rule utf8_ascii) (simp add: list_all_iff)
  have t: "utf8_valid ''m1''" "utf8_valid ''block''" "utf8_valid StageMachines" "utf8_valid ''Machine''" "utf8_valid ''impl''" "utf8_valid Apply"
    by (simp_all add: utf8_ascii)
  show ?thesis
    unfolding sampleBase_def base_block planShape_def planValue_def planBlockShape_def planBlockValue_def groupShape_def sampleDefinition_def
    using r [of "Suc (Suc (Suc 0))"] a t hex_utf8 [OF base_request_digest(2)] by (simp add: omitted_def)
qed

lemma plan_lengths:
  "length (enc_string ''blocks'') = 8" "length (enc_string ''description'') = 13" "length (enc_string ''stage'') = 7"
  "length (enc_string ''dependencies'') = 14" "length (enc_string ''impacts'') = 9" "length (enc_string ''consumes'') = 10"
  "length (enc_string ''groups'') = 8" "length (enc_string ''kind'') = 6" "length (enc_string ''object'') = 8"
  "length (enc_string ''implementation'') = 16" "length (enc_string ''request'') = 9" "length (enc_string ''requestDigest'') = 15"
  "length (enc_string ''machines'') = 10" "length (enc_string ''Machine'') = 9" "length (enc_string ''impl'') = 6"
  by code_simp+

definition planText :: string where "planText = projr (encode (planValue sampleBase) MaxPlanBytes)"
definition operationText :: string where "operationText = projr (encode (operationValue baseOperation) MaxOperationBytes)"
definition indexText :: string where "indexText = projr (encode (indexValue \<lparr>IndexVersion = 1, Current = sampleID\<rparr>) MaxIndexBytes)"

lemma plan_encoding: "encode (planValue sampleBase) MaxPlanBytes = Inr planText"
proof -
  have "\<exists>d. encode (planValue sampleBase) MaxPlanBytes = Inr d"
    by (rule encode_bound,
        simp add: sampleBase_def base_block planValue_def planBlockValue_def sampleDefinition_def base_marshal,
        simp add: enc_object_def enc_array_def base_marshal(3,4) sample_lengths operation_lengths plan_lengths hex_string [OF base_request_digest(2)] base_request_digest(1))
  then show ?thesis by (auto simp: planText_def)
qed

lemma id_length: "length (enc_string sampleID) = 37" "length (enc_string ''current'') = 9"
  by code_simp+

lemma operation_encoding: "encode (operationValue baseOperation) MaxOperationBytes = Inr operationText"
proof -
  have "\<exists>d. encode (operationValue baseOperation) MaxOperationBytes = Inr d"
    by (rule encode_bound,
        simp add: operationValue_def baseOperation_def sampleOperation_def executableValue_def closureValue_def,
        simp add: enc_object_def enc_array_def sample_lengths operation_lengths id_length hex_string [OF base_digest(3)] base_digest(2))
  then show ?thesis by (auto simp: operationText_def)
qed

lemma index_encoding: "encode (indexValue \<lparr>IndexVersion = 1, Current = sampleID\<rparr>) MaxIndexBytes = Inr indexText"
proof -
  have "\<exists>d. encode (indexValue \<lparr>IndexVersion = 1, Current = sampleID\<rparr>) MaxIndexBytes = Inr d"
    by (rule encode_bound, simp add: indexValue_def, simp add: enc_object_def sample_lengths id_length)
  then show ?thesis by (auto simp: indexText_def)
qed

subsection \<open>The paths\<close>

definition basePaths :: "string list" where "basePaths = [planPath sampleID, operationPath sampleID, indexPath]"

definition baseDirectories :: "string list" where
  "baseDirectories = [sampleID, path_join [sampleID, ''blocks''], path_join [sampleID, ''logs'']]"

lemma base_paths:
  "\<forall>p\<in>set basePaths. valid_path p \<and> p \<notin> set baseDirectories \<and> set (parents p) \<subseteq> {sampleID}"
  "\<forall>d\<in>set baseDirectories. valid_path d \<and> d \<noteq> [] \<and> set (parents d) \<subseteq> {sampleID}" "distinct basePaths"
  by code_simp+

text \<open>Areas with some of the records, and some of the directories, of the registration.\<close>

definition baseArea :: "(string \<times> string) list \<Rightarrow> string list \<Rightarrow> bool" where
  "baseArea fs ds \<longleftrightarrow> fst ` set fs \<subseteq> set basePaths \<and> set ds \<subseteq> set baseDirectories"

lemma base_admits:
  assumes "baseArea fs ds"
  shows "p \<in> set basePaths \<Longrightarrow> AdmitTarget (calmArea fs ds) p True = None"
    "d \<in> set baseDirectories \<Longrightarrow> AdmitTarget (calmArea fs ds) d False = None"
proof -
  have k: "sampleID \<in> set baseDirectories" by (simp add: baseDirectories_def)
  have f: "q \<in> set basePaths" if "q \<in> fst ` set fs" for q using assms that by (auto simp: baseArea_def)
  have d: "q \<in> set baseDirectories" if "q \<in> set ds" for q using assms that by (auto simp: baseArea_def)
  have apart: "q \<notin> set baseDirectories" "set (parents q) \<subseteq> {sampleID}" "valid_path q" if "q \<in> set basePaths" for q
    using base_paths(1) that by blast+
  have above: "set (parents q) \<subseteq> {sampleID}" "valid_path q" if "q \<in> set baseDirectories" for q
    using base_paths(2) that by blast+
  show "AdmitTarget (calmArea fs ds) p True = None" if p: "p \<in> set basePaths"
    unfolding AdmitTarget_None IsDirectory_iff calm_simps if_True
    using apart [OF p] apart k f d by (metis singletonD subsetD)
  show "AdmitTarget (calmArea fs ds) d False = None" if "d \<in> set baseDirectories"
    unfolding AdmitTarget_None calm_simps if_False
    using above [OF that] apart k f that by (metis singletonD subsetD)
qed

text \<open>Each call on such an area.\<close>

lemma base_calls:
  assumes "baseArea fs ds" and "world s = calmArea fs ds"
  shows "p \<in> set basePaths \<Longrightarrow> map_of fs p = None \<Longrightarrow> onArea (areaRead memoryOperations p n) s = (Inr None, s)"
    "p \<in> set basePaths \<Longrightarrow> map_of fs p = Some d \<Longrightarrow> length d \<le> n \<Longrightarrow> onArea (areaRead memoryOperations p n) s = (Inr (Some d), s)"
    "p \<in> set basePaths \<Longrightarrow> map_of fs p = None \<Longrightarrow>
      onArea (areaWriteExclusive memoryOperations p d) s = (Inr (), s\<lparr>world := calmArea ((p, d) # fs) ds\<rparr>)"
    "p \<in> set basePaths \<Longrightarrow> map_of fs p = None \<Longrightarrow>
      onArea (areaReplace memoryOperations p d None) s = (Inr (), s\<lparr>world := calmArea (AList.update p d fs) ds\<rparr>)"
    "q \<in> set baseDirectories \<Longrightarrow>
      onArea (areaEnsureDirectory memoryOperations q) s = (Inr (), s\<lparr>world := calmArea fs (q # parents q @ ds)\<rparr>)"
proof -
  note adm = base_admits [OF assms(1)]
  have same: "s\<lparr>world := calmArea fs ds\<rparr> = s" using assms(2) by (metis Store.surjective Store.update_convs(1))
  show "p \<in> set basePaths \<Longrightarrow> map_of fs p = None \<Longrightarrow> onArea (areaRead memoryOperations p n) s = (Inr None, s)"
    "p \<in> set basePaths \<Longrightarrow> map_of fs p = Some d \<Longrightarrow> length d \<le> n \<Longrightarrow> onArea (areaRead memoryOperations p n) s = (Inr (Some d), s)"
    using adm(1) by (simp_all add: onArea_def assms(2) memoryOperations_def calm_admitted same)
  show "p \<in> set basePaths \<Longrightarrow> map_of fs p = None \<Longrightarrow>
      onArea (areaWriteExclusive memoryOperations p d) s = (Inr (), s\<lparr>world := calmArea ((p, d) # fs) ds\<rparr>)"
    "p \<in> set basePaths \<Longrightarrow> map_of fs p = None \<Longrightarrow>
      onArea (areaReplace memoryOperations p d None) s = (Inr (), s\<lparr>world := calmArea (AList.update p d fs) ds\<rparr>)"
    using adm(1) by (simp_all add: onArea_def assms(2) memoryOperations_def calm_admitted)
  show "q \<in> set baseDirectories \<Longrightarrow>
      onArea (areaEnsureDirectory memoryOperations q) s = (Inr (), s\<lparr>world := calmArea fs (q # parents q @ ds)\<rparr>)"
    using adm(2) base_paths(2) by (auto simp: onArea_def assms(2) memoryOperations_def calm_admitted)
qed

lemma baseArea_grows:
  assumes "baseArea fs ds"
  shows "p \<in> set basePaths \<Longrightarrow> baseArea ((p, d) # fs) ds" "p \<in> set basePaths \<Longrightarrow> baseArea (AList.update p d fs) ds"
    "q \<in> set baseDirectories \<Longrightarrow> baseArea fs (q # parents q @ ds)"
proof -
  have k: "fst ` set fs \<subseteq> set basePaths" "set ds \<subseteq> set baseDirectories" using assms by (simp_all add: baseArea_def)
  show "p \<in> set basePaths \<Longrightarrow> baseArea ((p, d) # fs) ds" "p \<in> set basePaths \<Longrightarrow> baseArea (AList.update p d fs) ds"
    using k by (simp_all add: baseArea_def dom_update)
  have "sampleID \<in> set baseDirectories" by (simp add: baseDirectories_def)
  moreover have "q \<in> set baseDirectories \<Longrightarrow> set (parents q) \<subseteq> {sampleID}" using base_paths(2) by blast
  ultimately show "q \<in> set baseDirectories \<Longrightarrow> baseArea fs (q # parents q @ ds)"
    using k by (simp add: baseArea_def) blast
qed

subsection \<open>The registration\<close>

definition baseFiles :: "(string \<times> string) list" where
  "baseFiles = [(operationPath sampleID, operationText), (planPath sampleID, planText), (indexPath, indexText)]"

lemma base_members:
  "planPath sampleID \<in> set basePaths" "operationPath sampleID \<in> set basePaths" "indexPath \<in> set basePaths"
  "sampleID \<in> set baseDirectories" "path_join [sampleID, ''blocks''] \<in> set baseDirectories" "path_join [sampleID, ''logs''] \<in> set baseDirectories"
  "planPath sampleID \<noteq> operationPath sampleID" "planPath sampleID \<noteq> indexPath" "operationPath sampleID \<noteq> indexPath"
  using base_paths(3) by (auto simp: basePaths_def baseDirectories_def)

text \<open>The writes, from an area with nothing in it.\<close>

lemma base_publish:
  assumes s: "world s = calmArea [] []" "expected s indexPath = Some None"
  shows "\<exists>t ds. publishRegistration memoryConfig sampleID planText operationText indexText s = (Inr (), t) \<and>
    baseArea baseFiles ds \<and> world t = calmArea baseFiles ds"
proof -
  note m = base_members
  let ?d1 = "sampleID # parents sampleID"
  let ?d2 = "path_join [sampleID, ''blocks''] # parents (path_join [sampleID, ''blocks'']) @ ?d1"
  let ?d3 = "path_join [sampleID, ''logs''] # parents (path_join [sampleID, ''logs'']) @ ?d2"
  let ?f1 = "[(planPath sampleID, planText)]" and ?f2 = "[(operationPath sampleID, operationText), (planPath sampleID, planText)]"
  have a0: "baseArea [] []" by (simp add: baseArea_def)
  have a1: "baseArea [] ?d1" using baseArea_grows(3) [OF a0 m(4)] by simp
  have a2: "baseArea [] ?d2" using baseArea_grows(3) [OF a1 m(5)] by simp
  have a3: "baseArea [] ?d3" using baseArea_grows(3) [OF a2 m(6)] by simp
  have a4: "baseArea ?f1 ?d3" by (rule baseArea_grows(1) [OF a3 m(1)])
  have a5: "baseArea ?f2 ?d3" by (rule baseArea_grows(1) [OF a4 m(2)])
  have a6: "baseArea baseFiles ?d3" using baseArea_grows(2) [OF a5 m(3), of indexText] m(8,9) by (simp add: baseFiles_def)
  have e1: "onArea (areaEnsureDirectory memoryOperations sampleID) s = (Inr (), s\<lparr>world := calmArea [] ?d1\<rparr>)"
    using base_calls(5) [OF a0 s(1) m(4)] by simp
  have e2: "onArea (areaEnsureDirectory memoryOperations (path_join [sampleID, ''blocks''])) (s\<lparr>world := calmArea [] ?d1\<rparr>) =
      (Inr (), s\<lparr>world := calmArea [] ?d2\<rparr>)"
    using base_calls(5) [OF a1 _ m(5), of "s\<lparr>world := calmArea [] ?d1\<rparr>"] by simp
  have e3: "onArea (areaEnsureDirectory memoryOperations (path_join [sampleID, ''logs''])) (s\<lparr>world := calmArea [] ?d2\<rparr>) =
      (Inr (), s\<lparr>world := calmArea [] ?d3\<rparr>)"
    using base_calls(5) [OF a2 _ m(6), of "s\<lparr>world := calmArea [] ?d2\<rparr>"] by simp
  have w1: "onArea (areaWriteExclusive memoryOperations (planPath sampleID) planText) (s\<lparr>world := calmArea [] ?d3\<rparr>) =
      (Inr (), s\<lparr>world := calmArea ?f1 ?d3\<rparr>)"
    using base_calls(3) [OF a3 _ m(1), of "s\<lparr>world := calmArea [] ?d3\<rparr>"] by simp
  have w2: "onArea (areaWriteExclusive memoryOperations (operationPath sampleID) operationText) (s\<lparr>world := calmArea ?f1 ?d3\<rparr>) =
      (Inr (), s\<lparr>world := calmArea ?f2 ?d3\<rparr>)"
    using base_calls(3) [OF a4 _ m(2), of "s\<lparr>world := calmArea ?f1 ?d3\<rparr>"] m(7) by simp
  let ?t = "s\<lparr>world := calmArea ?f2 ?d3, expected := (expected s)(operationPath sampleID \<mapsto> Some operationText)\<rparr>"
  have w3: "onArea (areaReplace memoryOperations indexPath indexText None) ?t = (Inr (), ?t\<lparr>world := calmArea baseFiles ?d3\<rparr>)"
    using base_calls(4) [OF a5 _ m(3), of ?t] m(8,9) by (simp add: baseFiles_def)
  have ens: "ensureOperation memoryConfig sampleID s = (Inr (), s\<lparr>world := calmArea [] ?d3\<rparr>)"
    using e1 e2 e3 by (simp add: ensureOperation_def action_simps memoryConfig_def)
  have x: "expected ?t indexPath = Some None" using s(2) m(9) by simp
  have "\<exists>t. publishRegistration memoryConfig sampleID planText operationText indexText s = (Inr (), t) \<and> world t = calmArea baseFiles ?d3"
    using ens w1 w2 w3 x
    by (simp add: publishRegistration_def action_simps memoryConfig_def del: fun_upd_apply)
  then show ?thesis using a6 by blast
qed

lemma empty_entries:
  assumes "world s = calmArea [] []"
  shows "onArea (areaEntries memoryOperations []) s = (Inr [], s)"
proof -
  have same: "s\<lparr>world := calmArea [] []\<rparr> = s" using assms by (metis Store.surjective Store.update_convs(1))
  have "AdmitTarget (calmArea [] []) [] False = None" "Entries (calmArea [] []) [] = []"
    by (code_simp)+
  then show ?thesis by (simp add: onArea_def assms memoryOperations_def calm_admitted same)
qed

lemma empty_held: "world s = calmArea [] [] \<Longrightarrow> Store.held memoryConfig [] i s = (Inr (0, 0), s)"
  using empty_entries [of s] heldUnder.simps(2) [of MaxEntries memoryConfig i "[]"]
  by (simp add: Store.held_def memoryConfig_def bindA_def returnA_def)

lemma base_register:
  "\<exists>t ds. Register memoryConfig baseOperation sampleBase sampleStore = (Inr (), t) \<and> baseArea baseFiles ds \<and> world t = calmArea baseFiles ds"
proof -
  let ?s = "sampleStore\<lparr>expected := (expected sampleStore)(indexPath \<mapsto> None)\<rparr>"
  have w: "world sampleStore = calmArea [] []" by (simp add: sampleStore_def NewStore_def)
  then have w': "world ?s = calmArea [] []" by simp
  have v: "validateRegistration baseOperation = None"
    using base_operation(1) by (simp add: validateRegistration_def baseOperation_def sampleOperation_def)
  have f: "PlanDigest baseOperation = baseDigest" "OpVerb baseOperation = Apply" "PlanVerb sampleBase = Apply" "OpID baseOperation = sampleID"
    "Predecessor baseOperation = []" "length (blocks sampleBase) = 1"
    by (simp_all add: baseOperation_def sampleOperation_def sampleBase_def)
  have p: "checkPredecessor baseOperation sampleBase = None"
    unfolding sampleBase_def base_block by (simp add: checkPredecessor_def sampleDefinition_def)
  have c: "Claimed memoryConfig sampleStore = (Inr [], sampleStore)"
    using empty_entries [OF w] by (simp add: Claimed_def memoryConfig_def action_simps)
  have o: "admitOperations 0 sampleBase = None" by (simp add: admitOperations_def AdmissionOperations_def f)
  have r: "onArea (areaRead memoryOperations indexPath MaxIndexBytes) sampleStore = (Inr None, sampleStore)"
    by (rule base_calls(1) [OF _ w base_members(3)]) (simp_all add: baseArea_def)
  then have x: "readIndex memoryConfig sampleStore = (Inr \<lparr>IndexVersion = 1, Current = []\<rparr>, ?s)"
    by (simp add: readIndex_def memoryConfig_def action_simps)
  have a: "admitArea memoryConfig sampleID sampleBase [] n ?s = (Inr (), ?s)" for n
    using empty_held [OF w'] by (simp add: admitArea_def action_simps stopWith_def AdmissionEntries_def AdmissionBytes_def FirstPassEntries_def f Let_def)
  obtain t ds where t: "publishRegistration memoryConfig sampleID planText operationText indexText ?s = (Inr (), t)"
    "baseArea baseFiles ds" "world t = calmArea baseFiles ds"
    using base_publish [OF w'] by auto
  have "Register memoryConfig baseOperation sampleBase sampleStore = (Inr (), t)"
    using v p c o x a t(1) base_digest(1) f plan_encoding operation_encoding index_encoding
    by (simp add: Register_def action_simps stopWith_def)
  then show ?thesis using t(2,3) by blast
qed

subsection \<open>What is read back\<close>

lemma base_area:
  assumes "baseArea baseFiles ds"
  shows "memoryInvar (calmArea baseFiles ds)"
proof -
  have "p \<notin> set baseDirectories" "set (parents p) \<subseteq> {sampleID}" if "p \<in> set basePaths" for p
    using base_paths(1) that by blast+
  moreover have "sampleID \<in> set baseDirectories" by (simp add: baseDirectories_def)
  moreover have "fst ` set baseFiles \<subseteq> set basePaths" "set ds \<subseteq> set baseDirectories" using assms by (simp_all add: baseArea_def)
  ultimately have "\<not> IsDirectory (calmArea baseFiles ds) p" if "p \<in> fst ` set baseFiles" for p
    using that unfolding IsDirectory_iff calm_simps by (metis singletonD subsetD)
  then show ?thesis
    using base_members(7-9) by (simp add: memoryInvar_def baseFiles_def)
qed

lemma base_written: "encode v n = Inr d \<Longrightarrow> length d \<le> n"
  by (auto simp: encode_def Encode_def split: option.splits if_splits)

text \<open>The files after a registration, where the operation and its plan are read.\<close>

lemma base_readOperation:
  assumes "baseArea baseFiles ds" and "world s = calmArea baseFiles ds"
  shows "readOperation memoryConfig sampleID s = (Inr (baseOperation, operationText), s)"
proof -
  have f: "map_of baseFiles (operationPath sampleID) = Some operationText" by (simp add: baseFiles_def)
  have r: "onArea (areaRead memoryOperations (operationPath sampleID) MaxOperationBytes) s = (Inr (Some operationText), s)"
    by (rule base_calls(2) [OF assms base_members(2) f base_written [OF operation_encoding]])
  obtain v where v: "decodeUnder (quoting memoryConfig) operationShape operationText MaxOperationBytes (runningBuild memoryConfig) = Inr v"
    "operationOf v = baseOperation"
    using decode_operation [OF base_operation operation_encoding, of "quoting memoryConfig" "runningBuild memoryConfig"]
    by (cases "decodeUnder (quoting memoryConfig) operationShape operationText MaxOperationBytes (runningBuild memoryConfig)") auto
  have "OpID baseOperation = sampleID" by (simp add: baseOperation_def)
  then show ?thesis
    using r v base_operation(1) sample_facts(1) by (simp add: readOperation_def decoded_def action_simps memoryConfig_def)
qed

lemma base_stored: "planStored sampleBase = sampleBase"
  unfolding sampleBase_def base_block by (simp add: planStored_def blockStored_def sampleDefinition_def)

lemma base_rebuilt: "NewPlan (PlanVerb sampleBase) (definitions sampleBase) = Inr sampleBase"
  using NewPlan_rebuild [OF conjunct1 [OF NewPlan_built [OF sample_base]]] by (simp add: definitions_def planDefs_def)

lemma base_ReadPlan:
  assumes "baseArea baseFiles ds" and "world s = calmArea baseFiles ds"
  shows "ReadPlan memoryConfig sampleID s = (Inr sampleBase, s)"
proof -
  have f: "map_of baseFiles (planPath sampleID) = Some planText" using base_members(7) by (simp add: baseFiles_def)
  have r: "onArea (areaRead memoryOperations (planPath sampleID) MaxPlanBytes) s = (Inr (Some planText), s)"
    by (rule base_calls(2) [OF assms base_members(1) f base_written [OF plan_encoding]])
  have v: "decodeUnder (quoting memoryConfig) planShape planText MaxPlanBytes (runningBuild memoryConfig) = Inr (readBack (planValue sampleBase))"
    by (rule decodeUnder_encode [OF plan_conforms plan_encoding])
  have p: "planOfValue (readBack (planValue sampleBase)) = sampleBase" by (simp only: plan_read base_stored)
  have c: "checkPredecessor baseOperation sampleBase = None"
    unfolding sampleBase_def base_block by (simp add: checkPredecessor_def sampleDefinition_def)
  have o: "PlanDigest baseOperation = baseDigest" "OpVerb baseOperation = PlanVerb sampleBase"
    by (simp_all add: baseOperation_def sampleOperation_def sampleBase_def)
  have d: "decoded memoryConfig planShape planText MaxPlanBytes s = (Inr (readBack (planValue sampleBase)), s)"
    using v by (simp add: decoded_def liftR_def returnA_def)
  have a: "onArea (areaRead (storeArea memoryConfig) (planPath sampleID) MaxPlanBytes) s = (Inr (Some planText), s)"
    using r by (simp add: memoryConfig_def)
  show ?thesis
    using a d base_rebuilt base_digest(1) base_readOperation [OF assms] c o p sample_facts(1)
    by (simp add: ReadPlan_def action_simps Let_def del: readBack.simps)
qed

text \<open>A lineage of the one apply.\<close>

lemma base_lineage:
  assumes "baseArea baseFiles ds" and "world s = calmArea baseFiles ds"
  shows "appliedLineage memoryConfig baseOperation s =
    (Inr [\<lparr>memberOperation = baseOperation, memberPlan = sampleBase, memberStates = Map.empty\<rparr>], s)"
proof -
  have "OpVerb baseOperation = Apply" "OpID baseOperation = sampleID" "Predecessor baseOperation = []"
    by (simp_all add: baseOperation_def sampleOperation_def)
  then show ?thesis
    using base_ReadPlan [OF assms] by (simp add: appliedLineage_def lineageOf_def lineageFrom.simps action_simps Let_def)
qed

text \<open>One store that a registration leaves.\<close>

lemma base_registered:
  "\<exists>s. Register memoryConfig baseOperation sampleBase sampleStore = (Inr (), s) \<and> memoryInvar (world s) \<and>
    ReadPlan memoryConfig sampleID s = (Inr sampleBase, s) \<and>
    appliedLineage memoryConfig baseOperation s =
      (Inr [\<lparr>memberOperation = baseOperation, memberPlan = sampleBase, memberStates = Map.empty\<rparr>], s)"
proof -
  obtain s ds where s: "Register memoryConfig baseOperation sampleBase sampleStore = (Inr (), s)"
    "baseArea baseFiles ds" "world s = calmArea baseFiles ds"
    using base_register by blast
  then show ?thesis
    using base_area base_ReadPlan base_lineage by (intro exI [of _ s]) simp
qed

end
