(* ===== verification/Evidence.thy ===== *)
theory Evidence
  imports Lineages
begin

section \<open>The evidence the records of blocks carry\<close>

text \<open>
  \<open>lifecycle/evidence.go\<close> and \<open>lifecycle/removal_evidence.go\<close>: what the records of an operation and
  of the applies it follows prove of a block, of everything it depends on, and of everything that
  depends on it. The evidence of a block is that of the last resolution of its last attempt, or of
  that attempt (\<open>does_blockEvidence\<close>). The worklists over dependencies and the fixpoint over
  dependents give the closures of the plan's dependencies (\<open>closeOver_closure\<close>, \<open>dependentsLoop_closure\<close>).
  Clones of messages are the messages themselves; the zero value of a block is \<open>None\<close>.
\<close>

record BlockEvidence =
  EvBlock :: "Block option"
  EvKind :: string
  EvObject :: string
  EvImplementation :: string
  EvVerb :: Verb
  EvState :: BlockState
  EvEvidence :: "char slice"

definition blockEvidence :: "'w StoreConfig \<Rightarrow> string \<Rightarrow> Block \<Rightarrow> Verb \<Rightarrow> ('w Store, BlockEvidence) action" where
  "blockEvidence cfg i b verb =
     bindA (readBlock cfg i (blockID b)) (\<lambda>r.
     let evidence = \<lparr>EvBlock = None, EvKind = Kind (Def b), EvObject = Object (Def b), EvImplementation = Implementation (Def b),
       EvVerb = verb, EvState = RecState r, EvEvidence = None\<rparr> in
     if Attempts r < 1 then returnA evidence
     else bindA (readAttemptRecord cfg i (blockID b) (Attempts r)) (\<lambda>attempt.
       bindA (LastResolution cfg i (blockID b) (Attempts r)) (\<lambda>resolution.
       let settled = (case resolution of Some a \<Rightarrow> a | None \<Rightarrow> attempt) in
       returnA (if Phase settled = ''observed'' then evidence\<lparr>EvEvidence := AttEvidence settled\<rparr> else evidence))))"

text \<open>The before-states every attempt of a block recorded.\<close>

definition attemptPreparations :: "'w StoreConfig \<Rightarrow> string \<Rightarrow> string \<Rightarrow> ('w Store, string list) action" where
  "attemptPreparations cfg i block =
     bindA (readBlock cfg i block) (\<lambda>r.
     foldA (\<lambda>n found.
       bindA (readAttemptRecord cfg i block n) (\<lambda>a.
       returnA (if elems (Preparation a) \<noteq> [] then found @ [elems (Preparation a)] else found))) [1..Attempts r] [])"

definition applyPreparations :: "'w StoreConfig \<Rightarrow> string \<Rightarrow> string \<Rightarrow> ('w Store, string list) action" where
  "applyPreparations cfg i block =
     bindA (ReadOperation cfg i) (\<lambda>op.
     if OpVerb op \<noteq> Apply then fails ''dependency identity must come from the original apply'' []
     else attemptPreparations cfg i block)"

subsection \<open>What a block depends on\<close>

text \<open>The evidence of some blocks, one after the other.\<close>

definition evidenceOf :: "('a \<Rightarrow> ('w Store, BlockEvidence) action) \<Rightarrow> 'a list \<Rightarrow> ('w Store, BlockEvidence list) action" where
  "evidenceOf read xs = foldA (\<lambda>x proved. bindA (read x) (\<lambda>e. returnA (proved @ [e]))) xs []"

definition provedDependencies :: "'w StoreConfig \<Rightarrow> Operation \<Rightarrow> Plan \<Rightarrow> Block \<Rightarrow> ('w Store, BlockEvidence list) action" where
  "provedDependencies cfg op plan b =
     (if OpVerb op \<noteq> Apply then returnA []
      else bindA (evidenceOf (\<lambda>d. blockEvidence cfg (OpID op) d (OpVerb op))
          (filter (\<lambda>d. blockID d \<in> set (dependencies b)) (blocks plan))) (\<lambda>proved.
        if elems (Prerequisites (Def b)) = [] then returnA proved
        else bindA (lineageOf cfg \<lparr>memberOperation = op, memberPlan = plan, memberStates = Map.empty\<rparr>) (\<lambda>chain.
          bindA (evidenceOf (\<lambda>i.
              case ownerOf chain i of
                None \<Rightarrow> fails (''no apply of the lineage of '' @ OpID op @ '' holds the prerequisite '' @ i) ''restore the context store''
              | Some owner \<Rightarrow>
                  blockEvidence cfg (memberID owner) (the (findBlock (memberPlan owner) i)) (OpVerb op))
            (elems (Prerequisites (Def b)))) (\<lambda>more. returnA (proved @ more)))))"

text \<open>The worklist over dependencies, \<open>None\<close> where one names no block of the plan.\<close>

function closeOver :: "Plan \<Rightarrow> string set \<Rightarrow> string list \<Rightarrow> string set option" where
  "closeOver p wanted [] = Some wanted"
| "closeOver p wanted (x # queue) =
     (if x \<in> wanted then closeOver p wanted queue
      else (case findBlock p x of
        None \<Rightarrow> None
      | Some b \<Rightarrow> closeOver p (insert x wanted) (queue @ dependencies b)))"
  by pat_completeness auto
termination
proof (relation "measures [\<lambda>(p, seen, q). card (blockID ` set (blocks p) - seen), \<lambda>(p, seen, q). length q]", goal_cases)
  case (3 p wanted x queue b)
  then have "x \<in> blockID ` set (blocks p)"
    by (auto simp: findBlock_def find_Some_iff)
  then have "card (blockID ` set (blocks p) - insert x wanted) < card (blockID ` set (blocks p) - wanted)"
    using 3 by (intro psubset_card_mono) auto
  then show ?case by simp
qed auto

declare closeOver.simps(2) [simp del]

definition applyDependencies :: "'w StoreConfig \<Rightarrow> string \<Rightarrow> string \<Rightarrow> ('w Store, BlockEvidence list) action" where
  "applyDependencies cfg i block =
     bindA (ReadOperation cfg i) (\<lambda>op.
     if OpVerb op \<noteq> Apply then fails ''dependency identity must come from the original apply'' []
     else bindA (ReadPlan cfg i) (\<lambda>own.
       let head = \<lparr>memberOperation = op, memberPlan = own, memberStates = Map.empty\<rparr> in
       bindA (if Predecessor op = [] then returnA ([head], own)
              else bindA (lineageOf cfg head) (\<lambda>chain. bindA (liftR (lineagePlan chain)) (\<lambda>plan. returnA (chain, plan)))) (\<lambda>(chain, plan).
       case findBlock plan block of
         None \<Rightarrow> fails ''the original apply has no dependency identity for this block'' []
       | Some b \<Rightarrow>
           (case closeOver plan {} (dependencies b) of
              None \<Rightarrow> fails ''the original apply names a missing dependency'' []
            | Some wanted \<Rightarrow>
                evidenceOf (\<lambda>d.
                  case ownerOf chain (blockID d) of
                    None \<Rightarrow> blockEvidence cfg [] d Apply
                  | Some owner \<Rightarrow>
                      bindA (blockEvidence cfg (memberID owner) d Apply) (\<lambda>e.
                      returnA (e\<lparr>EvBlock := findBlock (memberPlan owner) (blockID d)\<rparr>)))
                  (filter (\<lambda>d. blockID d \<in> wanted) (blocks plan))))))"

definition applyRecords :: "'w StoreConfig \<Rightarrow> string \<Rightarrow> string \<Rightarrow> ('w Store, BlockEvidence list \<times> string list) action" where
  "applyRecords cfg i block =
     bindA (applyDependencies cfg i block) (\<lambda>proved.
     bindA (applyPreparations cfg i block) (\<lambda>preparations. returnA (proved, preparations)))"

subsection \<open>The evidence of an object\<close>

definition evidenceOwners :: "'w StoreConfig \<Rightarrow> lineageMember \<Rightarrow> ('w Store, lineage) action" where
  "evidenceOwners cfg current =
     (if OpVerb (memberOperation current) \<noteq> Apply \<or> Predecessor (memberOperation current) = [] then returnA [current]
      else lineageOf cfg current)"

definition appliedOwners :: "'w StoreConfig \<Rightarrow> lineageMember \<Rightarrow> ('w Store, lineage) action" where
  "appliedOwners cfg current =
     (if OpVerb (memberOperation current) = Apply then evidenceOwners cfg current
      else sourceLineage cfg (OpSource (memberOperation current)))"

text \<open>What is read of an object under the lock of its context.\<close>

definition objectEvidence ::
  "'w StoreConfig \<Rightarrow> string \<Rightarrow> string \<Rightarrow> (lineageMember \<Rightarrow> ('w Store, lineage) action) \<Rightarrow> ('w Store, BlockEvidence list) action" where
  "objectEvidence cfg kind object owners =
     bindA (readIndex cfg) (\<lambda>index.
     if Current index = [] then returnA []
     else bindA (ReadOperation cfg (Current index)) (\<lambda>op.
       bindA (ReadPlan cfg (OpID op)) (\<lambda>plan.
       bindA (owners \<lparr>memberOperation = op, memberPlan = plan, memberStates = Map.empty\<rparr>) (\<lambda>chain.
       evidenceOf (\<lambda>(owner, b).
           bindA (blockEvidence cfg (memberID owner) b (OpVerb (memberOperation owner))) (\<lambda>e. returnA (e\<lparr>EvBlock := Some b\<rparr>)))
         (concat (map (\<lambda>owner. map (\<lambda>b. (owner, b))
           (filter (\<lambda>b. Kind (Def b) = kind \<and> Object (Def b) = object) (blocks (memberPlan owner)))) chain))))))"

subsection \<open>What a removal follows\<close>

record RemovalEvidence =
  Removed :: BlockEvidence
  Applied :: BlockEvidence

definition removalProof ::
  "'w StoreConfig \<Rightarrow> Operation \<Rightarrow> Plan \<Rightarrow> lineage \<Rightarrow> Block \<Rightarrow> RemovalEvidence list \<Rightarrow> ('w Store, RemovalEvidence list) action" where
  "removalProof cfg op plan chain d proofs =
     bindA (blockEvidence cfg (OpID op) d Destroy) (\<lambda>removed.
     if EvState removed \<noteq> BlockDone \<or> elems (EvEvidence removed) = [] then returnA proofs
     else bindA (liftR (routed chain (blockID d))) (\<lambda>owner.
       case findBlock (memberPlan owner) (blockID d) of
         None \<Rightarrow> fails ''the removal dependency has no original apply identity'' []
       | Some applied \<Rightarrow>
           bindA (blockEvidence cfg (memberID owner) applied Apply) (\<lambda>e.
           returnA (proofs @ [\<lparr>Removed = removed\<lparr>EvBlock := findBlock plan (blockID d)\<rparr>, Applied = e\<lparr>EvBlock := Some applied\<rparr>\<rparr>]))))"

definition removalRecords ::
  "'w StoreConfig \<Rightarrow> Operation \<Rightarrow> Plan \<Rightarrow> Block \<Rightarrow> ('w Store, RemovalEvidence list \<times> string list) action" where
  "removalRecords cfg op plan b =
     (if OpVerb op \<noteq> Destroy then returnA ([], [])
      else bindA (attemptPreparations cfg (OpID op) (blockID b)) (\<lambda>preparations.
        bindA (sourceLineage cfg (OpSource op)) (\<lambda>chain.
        case closeOver plan {} (dependencies b) of
          None \<Rightarrow> fails ''the removal names a missing dependency'' []
        | Some wanted \<Rightarrow>
            bindA (foldA (removalProof cfg op plan chain) (filter (\<lambda>d. blockID d \<in> wanted) (blocks plan)) []) (\<lambda>proofs.
            returnA (proofs, preparations)))))"

text \<open>One pass over the blocks, and the passes until one changes nothing.\<close>

definition dependentsPass :: "Plan \<Rightarrow> string set \<Rightarrow> string set \<times> bool" where
  "dependentsPass p wanted =
     fold (\<lambda>c (w, changed).
       if blockID c \<in> w then (w, changed)
       else if list_ex (\<lambda>d. d \<in> w) (dependencies c) then (insert (blockID c) w, True) else (w, changed)) (blocks p) (wanted, False)"

lemma dependentsPass_fold:
  "fold (\<lambda>c (w, changed).
       if blockID c \<in> w then (w, changed)
       else if list_ex (\<lambda>d. d \<in> w) (dependencies c) then (insert (blockID c) w, True) else (w, changed)) bs (w0, c0) = (w1, c1) \<Longrightarrow>
   w0 \<subseteq> w1 \<and> w1 \<subseteq> w0 \<union> blockID ` set bs \<and> (c1 \<longrightarrow> c0 \<or> w0 \<noteq> w1) \<and> (\<not> c1 \<longrightarrow> \<not> c0 \<and> w1 = w0)"
proof (induction bs arbitrary: w0 c0)
  case (Cons c bs)
  show ?case
  proof (cases "blockID c \<notin> w0 \<and> list_ex (\<lambda>d. d \<in> w0) (dependencies c)")
    case True
    then show ?thesis using Cons.prems Cons.IH [of "insert (blockID c) w0" True] by auto
  next
    case False
    then have "fold (\<lambda>c (w, changed). if blockID c \<in> w then (w, changed)
        else if list_ex (\<lambda>d. d \<in> w) (dependencies c) then (insert (blockID c) w, True) else (w, changed)) bs (w0, c0) = (w1, c1)"
      using Cons.prems by (auto split: if_splits)
    from Cons.IH [OF this] show ?thesis by auto
  qed
qed auto

lemma dependentsPass_grows:
  assumes "dependentsPass p w = (w', changed)"
  shows "w \<subseteq> w'" "w' \<subseteq> w \<union> blockID ` set (blocks p)" "changed \<Longrightarrow> w \<noteq> w'" "\<not> changed \<Longrightarrow> w' = w"
  using dependentsPass_fold [OF assms [unfolded dependentsPass_def]] by auto

function dependentsLoop :: "Plan \<Rightarrow> string set \<Rightarrow> string set" where
  "dependentsLoop p wanted =
     (case dependentsPass p wanted of (w, changed) \<Rightarrow> if changed then dependentsLoop p w else w)"
  by pat_completeness auto
termination
proof (relation "measure (\<lambda>(p, w). card (blockID ` set (blocks p) - w))", goal_cases)
  case (2 p wanted w changed)
  then have "dependentsPass p wanted = (w, True)" by simp
  note g = dependentsPass_grows [OF this]
  then have "card (blockID ` set (blocks p) - w) < card (blockID ` set (blocks p) - wanted)"
    by (intro psubset_card_mono) auto
  then show ?case by simp
qed simp

declare dependentsLoop.simps [simp del]

definition originalRemovalDependents ::
  "'w StoreConfig \<Rightarrow> Operation \<Rightarrow> string \<Rightarrow> ('w Store, BlockEvidence list) action" where
  "originalRemovalDependents cfg op block =
     (if OpVerb op \<noteq> Destroy then returnA []
      else bindA (sourceLineage cfg (OpSource op)) (\<lambda>chain.
        bindA (liftR (lineagePlan chain)) (\<lambda>original.
        if findBlock original block = None then fails ''the removal block has no original apply identity'' []
        else let wanted = dependentsLoop original {block} in
          evidenceOf (\<lambda>c.
              bindA (liftR (routed chain (blockID c))) (\<lambda>owner.
              let b = the (findBlock (memberPlan owner) (blockID c)) in
              bindA (blockEvidence cfg (memberID owner) b Apply) (\<lambda>e. returnA (e\<lparr>EvBlock := Some b\<rparr>))))
            (filter (\<lambda>c. blockID c \<noteq> block \<and> blockID c \<in> wanted) (blocks original)))))"

text \<open>What the execution of a removal's block is given, and whether it may record a before-state.\<close>

record RemovalExecution =
  RemovalProved :: "RemovalEvidence list"
  RemovalPreparations :: "string list"
  OriginalDependents :: "BlockEvidence list"
  PreparesRemoval :: bool

definition populateRemovalExecution ::
  "'w StoreConfig \<Rightarrow> Operation \<Rightarrow> Plan \<Rightarrow> Block \<Rightarrow> int \<Rightarrow> int \<Rightarrow> ('w Store, RemovalExecution) action" where
  "populateRemovalExecution cfg op plan b attempt resolution =
     bindA (removalRecords cfg op plan b) (\<lambda>(proved, preparations).
     bindA (originalRemovalDependents cfg op (blockID b)) (\<lambda>dependents.
     returnA \<lparr>RemovalProved = proved, RemovalPreparations = preparations, OriginalDependents = dependents,
       PreparesRemoval = (OpVerb op = Destroy \<and> resolution = 0 \<and> attempt > 0)\<rparr>))"

subsection \<open>The closures\<close>

lemma findBlock_deps:
  "findBlock p x = Some b \<Longrightarrow> dependencies b = blockDeps p x"
  by (simp add: blockDeps_def)

lemma closeOver_bindLoop: "closeOver p seen q = Some w \<Longrightarrow> bindLoop p seen q = w"
proof (induction p seen q rule: closeOver.induct)
  case (2 p wanted x queue)
  then show ?case
    by (auto simp: closeOver.simps(2) findBlock_deps split: if_splits option.splits)
qed simp

lemma closeOver_total:
  "built p \<Longrightarrow> set q \<subseteq> blockID ` set (blocks p) \<Longrightarrow> closeOver p seen q \<noteq> None"
proof (induction p seen q rule: closeOver.induct)
  case (2 p wanted x queue)
  show ?case
  proof (cases "findBlock p x")
    case None
    then have "x \<notin> blockID ` set (blocks p)" by (auto simp: findBlock_def find_None_iff)
    then show ?thesis using 2(4) by simp
  next
    case (Some b)
    then have "dependencies b = blockDeps p x" by (rule findBlock_deps)
    moreover have "set (blockDeps p x) \<subseteq> blockID ` set (blocks p)"
      using built_edges(2) [OF 2(3), of x] planRel_edges [OF built_distinct [OF 2(3)]] by (auto simp: planRel_def)
    ultimately show ?thesis
      using 2 Some by (auto simp: closeOver.simps(2))
  qed
qed simp

text \<open>A worklist that ends without a missing dependency has found everything the first ones depend on.\<close>

lemma bindLoop_all: "bindLoop p {} q = (planRel p)\<^sup>* `` set q"
proof
  show "bindLoop p {} q \<subseteq> (planRel p)\<^sup>* `` set q" using bindLoop_sound [of p "{}" q] by simp
  have c: "set q \<subseteq> bindLoop p {} q" "\<And>x d. x \<in> bindLoop p {} q \<Longrightarrow> (x, d) \<in> planRel p \<Longrightarrow> d \<in> bindLoop p {} q"
    using bindLoop_closed [of "{}" p q] by auto
  have "(t, x) \<in> (planRel p)\<^sup>* \<Longrightarrow> t \<in> set q \<Longrightarrow> x \<in> bindLoop p {} q" for t x
    by (induction rule: rtrancl_induct) (use c in auto)
  then show "(planRel p)\<^sup>* `` set q \<subseteq> bindLoop p {} q" by auto
qed

lemma closeOver_closure:
  assumes "built p" and "b \<in> set (blocks p)"
  shows "closeOver p {} (dependencies b) = Some {d. (blockID b, d) \<in> (plan_edges p)\<^sup>+}"
proof -
  have q: "set (dependencies b) \<subseteq> blockID ` set (blocks p)" by (rule built_block(2) [OF assms])
  then obtain w where w: "closeOver p {} (dependencies b) = Some w"
    using closeOver_total [OF assms(1) q] by blast
  have "w = (plan_edges p)\<^sup>* `` set (dependencies b)"
    using closeOver_bindLoop [OF w] bindLoop_all [of p "dependencies b"] planRel_edges [OF built_distinct [OF assms(1)]] by simp
  also have "\<dots> = {d. (blockID b, d) \<in> (plan_edges p)\<^sup>+}"
  proof -
    have e: "d \<in> set (dependencies b) \<longleftrightarrow> (blockID b, d) \<in> plan_edges p" for d
    proof -
      have "c = b" if "c \<in> set (blocks p)" "blockID c = blockID b" for c
        using built_distinct [OF assms(1)] assms(2) that by (metis distinct_map inj_onD)
      then show ?thesis using assms(2) by (auto simp: plan_edges_def)
    qed
    show ?thesis by (auto simp: e trancl_unfold_left)
  qed
  finally show ?thesis using w by simp
qed

lemma dependentsPass_closed:
  assumes "dependentsPass p w = (w', False)" and "c \<in> set (blocks p)" and "d \<in> set (dependencies c)" and "d \<in> w"
  shows "blockID c \<in> w"
proof -
  have "\<forall>c\<in>set bs. blockID c \<in> w0 \<or> \<not> list_ex (\<lambda>d. d \<in> w0) (dependencies c)"
    if "fold (\<lambda>c (w, changed). if blockID c \<in> w then (w, changed)
        else if list_ex (\<lambda>d. d \<in> w) (dependencies c) then (insert (blockID c) w, True) else (w, changed)) bs (w0, False) = (w1, False)"
    for bs w0 w1
    using that
  proof (induction bs)
    case (Cons c bs)
    have "blockID c \<in> w0 \<or> \<not> list_ex (\<lambda>d. d \<in> w0) (dependencies c)"
    proof (rule ccontr)
      assume "\<not> ?thesis"
      then show False
        using Cons.prems dependentsPass_fold [of bs "insert (blockID c) w0" True w1 False] by simp
    qed
    then show ?case using Cons by (auto split: if_splits)
  qed simp
  from this [OF assms(1) [unfolded dependentsPass_def]] show ?thesis
    using assms(2-4) by (auto simp: list_ex_iff)
qed

lemma dependentsPass_sound:
  assumes "dependentsPass p w = (w', changed)" and "\<forall>x\<in>w. (x, i) \<in> (plan_edges p)\<^sup>*"
  shows "\<forall>x\<in>w'. (x, i) \<in> (plan_edges p)\<^sup>*"
proof -
  have "\<forall>x\<in>w1. (x, i) \<in> (plan_edges p)\<^sup>*"
    if "set bs \<subseteq> set (blocks p)" and "\<forall>x\<in>w0. (x, i) \<in> (plan_edges p)\<^sup>*"
      and "fold (\<lambda>c (w, changed). if blockID c \<in> w then (w, changed)
        else if list_ex (\<lambda>d. d \<in> w) (dependencies c) then (insert (blockID c) w, True) else (w, changed)) bs (w0, c0) = (w1, c1)"
    for bs w0 w1 c0 c1
    using that
  proof (induction bs arbitrary: w0 c0)
    case (Cons c bs)
    have "(blockID c, i) \<in> (plan_edges p)\<^sup>*" if some: "list_ex (\<lambda>d. d \<in> w0) (dependencies c)"
    proof -
      obtain d where "d \<in> set (dependencies c)" "d \<in> w0" using some by (auto simp: list_ex_iff)
      then have "(blockID c, d) \<in> plan_edges p" "(d, i) \<in> (plan_edges p)\<^sup>*"
        using Cons.prems(1,2) by (auto simp: plan_edges_def)
      then show ?thesis by (rule converse_rtrancl_into_rtrancl)
    qed
    then have n: "\<forall>x\<in>(if list_ex (\<lambda>d. d \<in> w0) (dependencies c) then insert (blockID c) w0 else w0). (x, i) \<in> (plan_edges p)\<^sup>*"
      using Cons.prems(2) by simp
    have bs: "set bs \<subseteq> set (blocks p)" using Cons.prems(1) by simp
    show ?case
    proof (cases "blockID c \<notin> w0 \<and> list_ex (\<lambda>d. d \<in> w0) (dependencies c)")
      case True
      then show ?thesis using Cons.IH [of "insert (blockID c) w0" True, OF bs] n Cons.prems(3) by simp
    next
      case False
      then show ?thesis using Cons.IH [of w0 c0, OF bs Cons.prems(2)] Cons.prems(3) by (auto split: if_splits)
    qed
  qed simp
  from this [OF order_refl assms(2) assms(1) [unfolded dependentsPass_def]] show ?thesis .
qed

text \<open>The passes end with everything that depends on the first block.\<close>

lemma dependentsLoop_sound: "\<forall>x\<in>w. (x, i) \<in> (plan_edges p)\<^sup>* \<Longrightarrow> \<forall>x\<in>dependentsLoop p w. (x, i) \<in> (plan_edges p)\<^sup>*"
proof (induction p w rule: dependentsLoop.induct)
  case (1 p w)
  obtain w' changed where w': "dependentsPass p w = (w', changed)" by (cases "dependentsPass p w")
  have s: "\<forall>x\<in>w'. (x, i) \<in> (plan_edges p)\<^sup>*" by (rule dependentsPass_sound [OF w' 1(2)])
  show ?case using w' s 1(1) [OF w' [symmetric]] by (subst dependentsLoop.simps) auto
qed

lemma dependentsLoop_closed:
  "w \<subseteq> dependentsLoop p w \<and> (\<forall>x y. (x, y) \<in> plan_edges p \<longrightarrow> y \<in> dependentsLoop p w \<longrightarrow> x \<in> dependentsLoop p w)"
proof (induction p w rule: dependentsLoop.induct)
  case (1 p w)
  obtain w' changed where w': "dependentsPass p w = (w', changed)" by (cases "dependentsPass p w")
  show ?case
  proof (cases changed)
    case True
    then have "dependentsLoop p w = dependentsLoop p w'" using w' by (subst dependentsLoop.simps) simp
    then show ?thesis using 1 [OF w' [symmetric] True] dependentsPass_grows(1) [OF w'] by auto
  next
    case False
    then have e: "dependentsLoop p w = w" using w' dependentsPass_grows(4) [OF w'] by (subst dependentsLoop.simps) simp
    have "x \<in> w" if "(x, y) \<in> plan_edges p" "y \<in> w" for x y
      using dependentsPass_closed [of p w w'] w' False that by (auto simp: plan_edges_def)
    then show ?thesis using e by simp
  qed
qed

lemma dependentsLoop_closure: "dependentsLoop p {i} = {c. (c, i) \<in> (plan_edges p)\<^sup>*}"
proof
  show "dependentsLoop p {i} \<subseteq> {c. (c, i) \<in> (plan_edges p)\<^sup>*}"
    using dependentsLoop_sound [of "{i}" i p] by auto
  have "c \<in> dependentsLoop p {i}" if "(c, i) \<in> (plan_edges p)\<^sup>*" for c
    using that by (induction rule: converse_rtrancl_induct) (use dependentsLoop_closed [of "{i}" p] in auto)
  then show "{c. (c, i) \<in> (plan_edges p)\<^sup>*} \<subseteq> dependentsLoop p {i}" by auto
qed

subsection \<open>What a read proves\<close>

text \<open>The record of the last resolution of an attempt, or of the attempt where it has none.\<close>

definition latestRecord :: "'w StoreConfig \<Rightarrow> recordsOf \<Rightarrow> string \<Rightarrow> string \<Rightarrow> int \<Rightarrow> Attempt \<Rightarrow> bool" where
  "latestRecord cfg m i b n a \<longleftrightarrow>
     (\<exists>k p d. recordPath i b n k p \<and> m p = Some d \<and> decodedAttempt cfg d a \<and> (\<forall>j. resolved m i b n j \<longrightarrow> j \<le> k))"

definition evidenceProved ::
  "'w StoreConfig \<Rightarrow> recordsOf \<Rightarrow> string \<Rightarrow> Block \<Rightarrow> BlockEvidence \<Rightarrow> bool" where
  "evidenceProved cfg m i b e \<longleftrightarrow>
     (\<exists>r recorded. blockRead cfg m i (blockID b) r recorded \<and> EvState e = RecState r \<and>
        EvKind e = Kind (Def b) \<and> EvObject e = Object (Def b) \<and> EvImplementation e = Implementation (Def b) \<and>
        (if Attempts r < 1 then EvEvidence e = None
         else \<exists>a. latestRecord cfg m i (blockID b) (Attempts r) a \<and>
           EvEvidence e = (if Phase a = ''observed'' then AttEvidence a else None)))"

context store
begin

lemma does_conj:
  assumes "does m f Q E" and "does m f Q' E'"
  shows "does m f (\<lambda>a m'. Q a m' \<and> Q' a m') (\<lambda>m'. E m' \<and> E' m')"
  unfolding doesOn_def
proof (rule runsI)
  fix s :: "'w Store"
  assume s: "invar (world s) \<and> recs (world s) = m"
  note f = runs_Inr [OF assms(1) [unfolded doesOn_def] s] runs_Inr [OF assms(2) [unfolded doesOn_def] s]
    runs_Inl [OF assms(1) [unfolded doesOn_def] s] runs_Inl [OF assms(2) [unfolded doesOn_def] s]
  obtain r s' where r: "f s = (r, s')" by (cases "f s")
  show "case f s of (Inr a, s') \<Rightarrow> invar (world s') \<and> Q a (recs (world s')) \<and> Q' a (recs (world s'))
      | (Inl e, s') \<Rightarrow> invar (world s') \<and> E (recs (world s')) \<and> E' (recs (world s'))"
    using r f by (cases r) simp_all
qed

lemma does_LastResolution_record:
  "does m (LastResolution cfg i b n)
     (\<lambda>a m'. m' = m \<and> (case a of None \<Rightarrow> True
        | Some a \<Rightarrow> \<exists>p d. recordPath i b n (Resolution a) p \<and> m p = Some d \<and> decodedAttempt cfg d a)) (\<lambda>m'. m' = m)"
  unfolding LastResolution_def
  by (intro store_rules) (auto simp: recordPath_def decodedAttempt_def)

lemma does_latestResolution:
  assumes "ValidOperationID i" and "ValidSegment b"
    and "\<And>a p d. recordPath i b n (Resolution a) p \<Longrightarrow> m p = Some d \<Longrightarrow> decodedAttempt cfg d a \<Longrightarrow>
      (\<forall>j. resolved m i b n j \<longrightarrow> j \<le> Resolution a) \<Longrightarrow> Q (Some a) m"
    and "(\<forall>j. \<not> resolved m i b n j) \<Longrightarrow> Q None m" and "E m"
  shows "does m (LastResolution cfg i b n) Q E"
  by (rule does_weaken [OF does_conj [OF does_LastResolution [OF assms(1,2)] does_LastResolution_record]])
    (use assms(3-5) in \<open>auto split: option.splits\<close>)

lemma does_attemptRecord:
  assumes "\<And>a p d. recordPath i b n 0 p \<Longrightarrow> m p = Some d \<Longrightarrow> decodedAttempt cfg d a \<Longrightarrow> Q a m" and "E m"
  shows "does m (readAttemptRecord cfg i b n) Q E"
  unfolding readAttemptRecord_def
  by (intro store_rules) (use assms in \<open>auto simp: recordPath_def decodedAttempt_def\<close>)

lemma does_blockEvidence:
  assumes v: "ValidOperationID i" "ValidSegment (blockID b)" and "\<And>e. evidenceProved cfg m i b e \<Longrightarrow> EvVerb e = verb \<Longrightarrow> Q e m" and "E m"
  shows "does m (blockEvidence cfg i b verb) Q E"
  unfolding blockEvidence_def
proof (intro does_bind does_readBlock does_let does_if does_return does_attemptRecord does_latestResolution [OF v], goal_cases)
  case (1 r recorded)
  then show ?case by (intro assms(3)) (auto simp: evidenceProved_def intro!: exI [of _ r])
next
  case (2 r recorded a p d a' p' d')
  then have "latestRecord cfg m i (blockID b) (Attempts r) a'" unfolding latestRecord_def by blast
  then show ?case using 2(1,2) by (intro assms(3)) (auto simp: evidenceProved_def Let_def intro!: exI [of _ r])
next
  case (3 r recorded a p d)
  then have "latestRecord cfg m i (blockID b) (Attempts r) a" unfolding latestRecord_def by blast
  then show ?case using 3(1,2) by (intro assms(3)) (auto simp: evidenceProved_def Let_def intro!: exI [of _ r])
qed (rule assms(4))+

end

end
