(* ===== verification/Boundary.thy ===== *)
theory Boundary
  imports Evidence Logs
begin

section \<open>The logging boundary of an invocation\<close>

text \<open>
  \<open>lifecycle/logging.go\<close>. An invocation works on a store and, while a block runs, on the log and the
  retained output of its attempt; \<open>Run\<close> is that state. The first required log that fails latches the
  boundary: the invocation is cancelled, and the fault is recorded with the operation as far as it
  can be. Blocks that run together share one boundary; their calls are taken one after the other.
\<close>

record 'w Run =
  runStore :: "'w Store"
  runLog :: "Log option"
  runOutput :: "AdapterOutput option"
  runWarnings :: "Warning list"
  runFault :: "storeError option"
  runCancelled :: bool

definition onRun :: "('w Store, 'a) action \<Rightarrow> ('w Run, 'a) action" where
  "onRun f = (\<lambda>s. case f (runStore s) of (r, st) \<Rightarrow> (r, s\<lparr>runStore := st\<rparr>))"

text \<open>A call on the open log; there is none before it is opened.\<close>

definition onRunLog :: "('w Store \<times> Log, unit) action \<Rightarrow> ('w Run, unit) action" where
  "onRunLog f = (\<lambda>s. case runLog s of
     None \<Rightarrow> (Inr (), s)
   | Some l \<Rightarrow> (case f (runStore s, l) of (r, (st, l')) \<Rightarrow> (r, s\<lparr>runStore := st, runLog := Some l'\<rparr>)))"

definition logFault :: storeError where
  "logFault = Refused (failure ''runtime.log'' ''a required private operation log could not be maintained''
     (''restore the context store'' @ [CHR 0x27] @ ''s private log tree before repeating the operation''))"

definition markLogFault :: "'w StoreConfig \<Rightarrow> string \<Rightarrow> ('w Store, unit) action" where
  "markLogFault cfg i =
     bindA (ReadOperation cfg i) (\<lambda>op.
     if LogFault op then returnA () else UpdateOperation cfg (op\<lparr>LogFault := True\<rparr>))"

text \<open>What a call of the boundary makes of an error: the latched fault, and the latch where it is the first.\<close>

definition latch :: "'w StoreConfig \<Rightarrow> string \<Rightarrow> ('w Run, 'a) action" where
  "latch cfg i = (\<lambda>s. case runFault s of
     Some e \<Rightarrow> (Inl e, s)
   | None \<Rightarrow> (case markLogFault cfg i (runStore s) of (_, st) \<Rightarrow>
       (Inl logFault, s\<lparr>runStore := st, runFault := Some logFault, runCancelled := True\<rparr>)))"

definition required :: "'w StoreConfig \<Rightarrow> string \<Rightarrow> ('w Run, 'a) action \<Rightarrow> ('w Run, 'a) action" where
  "required cfg i f = (\<lambda>s. case f s of (Inr a, s') \<Rightarrow> (Inr a, s') | (Inl e, s') \<Rightarrow> latch cfg i s')"

definition openRequired :: "'w StoreConfig \<Rightarrow> string \<Rightarrow> string \<Rightarrow> ('w Run, unit) action" where
  "openRequired cfg i target =
     required cfg i (bindA (onRun (OpenLog cfg target)) (\<lambda>l. modifyA (\<lambda>s. s\<lparr>runLog := Some l\<rparr>)))"

definition logs :: "'w StoreConfig \<Rightarrow> string \<Rightarrow> string \<Rightarrow> string \<Rightarrow> string \<Rightarrow> ('w Run, unit) action" where
  "logs cfg i event block detail =
     required cfg i (onRunLog (AppendLog cfg
       \<lparr>LogTime = [], LogEvent = event, LogBlock = block, LogGroup = [], LogDetail = detail\<rparr>))"

definition closeRequired :: "'w StoreConfig \<Rightarrow> string \<Rightarrow> ('w Run, unit) action" where
  "closeRequired cfg i = required cfg i (onRunLog (CloseLog cfg))"

text \<open>A restoration proves the log of the operation before it clears the fault, on a boundary of its own.\<close>

definition newRun :: "'w Store \<Rightarrow> 'w Run" where
  "newRun st = \<lparr>runStore = st, runLog = None, runOutput = None, runWarnings = [], runFault = None, runCancelled = False\<rparr>"

definition restore :: "'w StoreConfig \<Rightarrow> Operation \<Rightarrow> ('w Store, Operation \<times> Log option) action" where
  "restore cfg op = (\<lambda>st.
     case openRequired cfg (OpID op) (OperationLogPath (OpID op)) (newRun st) of
       (Inl e, s) \<Rightarrow> (Inl e, runStore s)
     | (Inr _, s) \<Rightarrow>
         if \<not> LogFault op then (Inr (op, runLog s), runStore s)
         else (case onRun (UpdateOperation cfg (op\<lparr>LogFault := False\<rparr>)) s of
             (Inr _, s') \<Rightarrow> (Inr (op\<lparr>LogFault := False\<rparr>, runLog s'), runStore s')
           | (Inl e, s') \<Rightarrow> (Inl e, runStore (snd (closeRequired cfg (OpID op) s')))))"

subsection \<open>Files that are logs\<close>

text \<open>What is appended to a log or an output is none of the records of an operation, and removes no file.\<close>

definition logFile :: "string \<Rightarrow> bool" where
  "logFile p \<longleftrightarrow> (\<exists>i ss. ValidOperationID i \<and> ss \<noteq> [] \<and> (\<forall>s\<in>set ss. segment s) \<and> p = path_join (i # ''logs'' # ss))"

definition keepsRecords :: "recordsOf \<Rightarrow> recordsOf \<Rightarrow> bool" where
  "keepsRecords m m' \<longleftrightarrow> (\<forall>p. \<not> logFile p \<longrightarrow> m' p = m p) \<and> (\<forall>p. m p \<noteq> None \<longrightarrow> m' p \<noteq> None)"

lemma keepsRecords_refl [simp]: "keepsRecords m m" by (simp add: keepsRecords_def)

lemma keepsRecords_trans [trans]: "keepsRecords m m' \<Longrightarrow> keepsRecords m' m'' \<Longrightarrow> keepsRecords m m''"
  by (simp add: keepsRecords_def)

lemma logFile_records:
  assumes "logFile p"
  shows "p \<noteq> indexPath" "ValidOperationID j \<Longrightarrow> p \<noteq> operationPath j" "ValidOperationID j \<Longrightarrow> p \<noteq> planPath j"
    "ValidOperationID j \<Longrightarrow> ValidSegment b \<Longrightarrow> p \<noteq> blockPath j b"
    "ValidOperationID j \<Longrightarrow> ValidSegment b \<Longrightarrow> recordPath j b n k q \<Longrightarrow> p \<noteq> q"
proof -
  obtain i ss where p: "ValidOperationID i" "ss \<noteq> []" "\<forall>s\<in>set ss. segment s" "p = path_join (i # ''logs'' # ss)"
    using assms by (auto simp: logFile_def)
  have l: "segment ''logs''" by (simp add: segment_def)
  note sg = ValidOperationID_segment [OF p(1)] p(2,3) l
  show "p \<noteq> indexPath" using sg by (simp add: p(4) record_paths join_segments_eq)
  show "ValidOperationID j \<Longrightarrow> p \<noteq> operationPath j" "ValidOperationID j \<Longrightarrow> p \<noteq> planPath j"
    "ValidOperationID j \<Longrightarrow> ValidSegment b \<Longrightarrow> p \<noteq> blockPath j b"
    using sg by (simp_all add: p(4) record_paths join_segments_eq ValidOperationID_segment ValidSegment_segment)
  show "p \<noteq> q" if j: "ValidOperationID j" "ValidSegment b" and q: "recordPath j b n k q"
  proof -
    consider s where "FormatNumber n = Inr s" "q = attemptPath j b s"
      | s t where "FormatNumber n = Inr s" "FormatNumber k = Inr t" "q = resolutionPath j b s t"
      using q by (auto simp: recordPath_def)
    then show ?thesis
      using sg j
      by cases (simp_all add: p(4) record_paths join_segments_eq ValidOperationID_segment ValidSegment_segment
          attemptName_segment resolutionName_segment)
  qed
qed

lemma logFile_output:
  assumes "ValidOperationID i" and "\<forall>s\<in>set ss. segment s" and "p = path_join (i # ''logs'' # ss @ [name @ ''.jsonl''])"
    and "CHR ''/'' \<notin> set name" and "AdapterOutputPath p = Inr q"
  shows "logFile q"
proof -
  have sg: "segment (name @ ''.jsonl'')" "segment (name @ ''.output'')" "segment ''logs''"
    using assms(4) by (auto simp: segment_def)
  let ?front = "i # ''logs'' # ss"
  have all: "\<forall>s\<in>set (?front @ [name @ e]). segment s" if "segment (name @ e)" for e
    using assms(2) sg(3) ValidOperationID_segment [OF assms(1)] that by auto
  have j: "join ''/'' (?front @ [x]) = join ''/'' ?front @ ''/'' @ x" for x
    using join_append [of ?front "[x]" "''/''"] by (simp only: join.simps(2) list.distinct(2) not_False_eq_True simp_thms)
  have "p = join ''/'' (?front @ [name @ ''.jsonl''])"
    using path_join_segments [OF _ all [OF sg(1)]] assms(3) by simp
  then have "p = (join ''/'' ?front @ ''/'' @ name) @ ''.jsonl''" by (simp only: j append.assoc)
  then have "q = (join ''/'' ?front @ ''/'' @ name) @ ''.output''"
    using assms(5) by (auto simp: AdapterOutputPath_def cut_suffix_def split: if_splits)
  then have "q = join ''/'' (?front @ [name @ ''.output''])" by (simp only: j append.assoc)
  then have "q = path_join (?front @ [name @ ''.output''])"
    using path_join_segments [OF _ all [OF sg(2)]] by simp
  then show ?thesis
    using assms(1,2) sg(2) unfolding logFile_def by (intro exI [of _ i] exI [of _ "ss @ [name @ ''.output'']"]) auto
qed

lemma log_paths:
  assumes "ValidOperationID i"
  shows "logFile (OperationLogPath i)"
    and "ValidSegment b \<Longrightarrow> AttemptLogPath i b n k = Inr p \<Longrightarrow> logFile p"
    and "ValidSegment b \<Longrightarrow> AttemptLogPath i b n k = Inr p \<Longrightarrow> AdapterOutputPath p = Inr q \<Longrightarrow> logFile q"
proof -
  have o1: "segment ''operation.jsonl''" by (simp add: segment_def)
  show "logFile (OperationLogPath i)"
    using assms o1 unfolding logFile_def OperationLogPath_def by (intro exI [of _ i] exI [of _ "[''operation.jsonl'']"]) simp
next
  assume b: "ValidSegment b" and p: "AttemptLogPath i b n k = Inr p"
  have bl: "\<forall>s\<in>set [''blocks'', b]. segment s" using ValidSegment_segment [OF b] by simp
  obtain name where name: "p = path_join (i # ''logs'' # [''blocks'', b] @ [name @ ''.jsonl''])" "CHR ''/'' \<notin> set name"
  proof -
    have "\<exists>s r. FormatNumber n = Inr s \<and> (r = [] \<or> (\<exists>t. FormatNumber k = Inr t \<and> r = ''-resolution-'' @ t)) \<and>
        p = path_join [i, ''logs'', ''blocks'', b, ''attempt-'' @ s @ r @ ''.jsonl'']"
    proof (cases "k = 0")
      case True
      then obtain s where "FormatNumber n = Inr s" "p = path_join [i, ''logs'', ''blocks'', b, ''attempt-'' @ s @ [] @ ''.jsonl'']"
        using p by (auto simp: AttemptLogPath_def bindR_def split: sum.splits)
      then show ?thesis by blast
    next
      case False
      then obtain s t where "FormatNumber n = Inr s" "FormatNumber k = Inr t"
        "p = path_join [i, ''logs'', ''blocks'', b, ''attempt-'' @ s @ (''-resolution-'' @ t) @ ''.jsonl'']"
        using p by (auto simp: AttemptLogPath_def bindR_def split: sum.splits)
      then show ?thesis by blast
    qed
    then obtain s r where s: "FormatNumber n = Inr s" and r: "r = [] \<or> (\<exists>t. FormatNumber k = Inr t \<and> r = ''-resolution-'' @ t)"
      and "p = path_join [i, ''logs'', ''blocks'', b, ''attempt-'' @ s @ r @ ''.jsonl'']"
      by blast
    moreover have "CHR ''/'' \<notin> set (''attempt-'' @ s @ r)"
      using s r FormatNumber_digits digits_no_slash by fastforce
    ultimately show thesis using that [of "''attempt-'' @ s @ r"] by simp
  qed
  have "segment (name @ ''.jsonl'')" using name(2) by (auto simp: segment_def)
  then show "logFile p"
    using assms bl name(1) unfolding logFile_def by (intro exI [of _ i] exI [of _ "[''blocks'', b, name @ ''.jsonl'']"]) auto
  show "AdapterOutputPath p = Inr q \<Longrightarrow> logFile q" using logFile_output [OF assms bl name] by simp
qed

end
