(* ===== verification/Driver.thy ===== *)
theory Driver
  imports Boundary
begin

section \<open>The attempts and resolutions of a block\<close>

text \<open>
  \<open>lifecycle/attempts.go\<close>, \<open>capture\<close> and \<open>capturedAttempt\<close> of \<open>lifecycle/produced.go\<close> and
  \<open>observationFailure\<close> of \<open>lifecycle/unresolved.go\<close>: what runs around one effect or one observation of
  a block. What a capability does, the controller's Python runtime, the reservations, the custody of
  produced material and the reasons a capability gives are the environment \<open>Env\<close>, steps on the same
  state. The closures an execution hands to a capability are calls of the store and of the boundary
  on that state. An error is what the code reads of it: its diagnostics, and whether it is a
  cancellation. Events of progress and the warnings shown at once are output, and are left out, as is
  the release of material from memory. A function that returns a state and an error returns both.
\<close>

subsection \<open>The environment\<close>

record runError =
  Reports :: "Diagnostic list"
  Canceled :: bool

definition plainError :: "Failure \<Rightarrow> runError" where
  "plainError f = \<lparr>Reports = FailureDiagnostics f, Canceled = False\<rparr>"

record Execution =
  ExeOperation :: string
  ExeContext :: string
  ExeContinuation :: string
  ExeAttempt :: int
  ExeResolution :: int
  ExeBlock :: Block
  ExeApplyOperation :: string
  ExeApplyProved :: "BlockEvidence list"
  ExeApplyPreparations :: "string list"
  ExePrepares :: bool
  ExeReleased :: bool
  ExeProved :: "BlockEvidence list"
  ExeInStage :: bool
  ExeRemoval :: RemovalExecution
  ExeRetired :: bool

record EffectResult =
  ResOutcome :: Outcome
  ResEvidence :: "char slice"
  ResProduced :: "string list"

record Observation =
  ObsOutcome :: Outcome
  ObsEffect :: EffectState
  ObsEvidence :: "char slice"
  ObsProduced :: "string list"

type_synonym ('w, 'a) runStep = "'w Run \<Rightarrow> 'a \<times> 'w Run"

record 'w BlockCapability =
  CapApply :: "Execution \<Rightarrow> ('w, EffectResult \<times> runError option) runStep"
  CapDestroy :: "Execution \<Rightarrow> ('w, EffectResult \<times> runError option) runStep"
  CapObserve :: "Execution \<Rightarrow> ('w, Observation \<times> runError option) runStep"
  CapObserveRemoval :: "Execution \<Rightarrow> ('w, Observation \<times> runError option) runStep"
  CapOffline :: bool
  CapReplaySafe :: "Block \<Rightarrow> bool"

record 'w Env =
  EnvContext :: string
  EnvCatalog :: string
  EnvExecutable :: Executable
  EnvModified :: bool
  EnvResolve :: "string \<Rightarrow> string \<Rightarrow> 'w BlockCapability option"
  EnvAreaError :: "string \<Rightarrow> runError"
  EnvInterrupted :: "'w Run \<Rightarrow> bool"
  EnvInStage :: "runError \<Rightarrow> runError"
  EnvDeletion :: string
  EnvReleased :: "Block \<Rightarrow> bool"
  EnvClaim :: "Plan \<Rightarrow> Block \<Rightarrow> BlockEvidence list \<Rightarrow> ('w, runError option) runStep"
  EnvReprove :: "Block \<Rightarrow> ('w, runError option) runStep"
  EnvLaunch :: "('w, runError option) runStep"
  EnvLend :: "Operation \<Rightarrow> Plan \<Rightarrow> Execution \<Rightarrow> ('w, runError option) runStep"
  EnvKeep :: "Execution \<Rightarrow> ('w, runError option) runStep"
  EnvPublish :: "Block \<Rightarrow> string list \<Rightarrow> ('w, runError option) runStep"
  EnvExplain :: "Operation \<Rightarrow> Verb \<Rightarrow> Block \<Rightarrow> char slice \<Rightarrow> ('w, string \<times> string) runStep"

definition errorFrom :: "'w Env \<Rightarrow> storeError \<Rightarrow> runError" where
  "errorFrom env e = (case e of AreaError t \<Rightarrow> EnvAreaError env t | Refused f \<Rightarrow> plainError f | AtBound f \<Rightarrow> plainError f
     | IntoReserve f \<Rightarrow> plainError f)"

subsection \<open>Steps in sequence\<close>

definition seqS :: "('w, 'a) runStep \<Rightarrow> ('a \<Rightarrow> ('w, 'b) runStep) \<Rightarrow> ('w, 'b) runStep" where
  "seqS f g = (\<lambda>s. case f s of (x, s') \<Rightarrow> g x s')"

definition unitS :: "'a \<Rightarrow> ('w, 'a) runStep" where "unitS x = (\<lambda>s. (x, s))"

text \<open>An early return of what \<open>stop\<close> makes of the error of a call.\<close>

definition orReturn ::
  "'w Env \<Rightarrow> ('w Run, 'a) action \<Rightarrow> (runError \<Rightarrow> 'b) \<Rightarrow> ('a \<Rightarrow> ('w, 'b) runStep) \<Rightarrow> ('w, 'b) runStep" where
  "orReturn env f stop g = seqS f (\<lambda>r. case r of Inl e \<Rightarrow> unitS (stop (errorFrom env e)) | Inr a \<Rightarrow> g a)"

definition unlessFails :: "('w, runError option) runStep \<Rightarrow> (runError \<Rightarrow> 'b) \<Rightarrow> ('w, 'b) runStep \<Rightarrow> ('w, 'b) runStep" where
  "unlessFails f stop g = seqS f (\<lambda>r. case r of Some e \<Rightarrow> unitS (stop e) | None \<Rightarrow> g)"

text \<open>A deferred call runs after the rest, whatever the rest returns, and its own error is dropped.\<close>

definition deferring :: "('w, 'c) runStep \<Rightarrow> ('w, 'b) runStep \<Rightarrow> ('w, 'b) runStep" where
  "deferring after f = seqS f (\<lambda>x. seqS after (\<lambda>_. unitS x))"

abbreviation noState :: "runError \<Rightarrow> BlockState \<times> runError option" where "noState e \<equiv> ([], Some e)"

subsection \<open>Evidence and verdicts\<close>

definition ranUnder :: "'w Env \<Rightarrow> Block \<Rightarrow> Build" where
  "ranUnder env b =
     \<lparr>BuildAutomationDigest = EnvCatalog env, BuildContentDigest = ContentDigest (Def b), BuildExecutable = EnvExecutable env,
      Modified = EnvModified env\<rparr>"

definition stageReading :: "'w Env \<Rightarrow> runError option \<Rightarrow> Block \<Rightarrow> Verb \<Rightarrow> runError option" where
  "stageReading env e b verb =
     (if verb \<noteq> Apply \<or> BlockStage (Def b) \<noteq> StageController then e else map_option (EnvInStage env) e)"

text \<open>What a removal's own check of an apply's block proves of the apply's effect.\<close>

definition removalEffect :: "EffectState \<Rightarrow> EffectState" where
  "removalEffect observed =
     (if observed = EffectCompleted then EffectNoEffect
      else if observed = EffectNoEffect \<or> observed = EffectPartial then EffectPartial
      else EffectUnknown)"

definition observedEffect :: "Observation \<Rightarrow> runError option \<Rightarrow> bool \<Rightarrow> EffectState" where
  "observedEffect observation e removal =
     (let effect = (if \<not> ValidEffectState (ObsEffect observation) \<or> e \<noteq> None then EffectUnknown else ObsEffect observation) in
      if removal then removalEffect effect else effect)"

definition observedAs :: "string \<Rightarrow> Operation \<Rightarrow> Block \<Rightarrow> bool \<Rightarrow> Plan \<Rightarrow> (Block \<times> Verb) result" where
  "observedAs contextName op b removal removalPlan =
     (if \<not> removal then Inr (b, OpVerb op)
      else (case findBlock removalPlan (blockID b) of
        None \<Rightarrow> Inl (failure ''lifecycle.state'' (''this removal carries no block that takes back '' @ blockID b) (reviewStatus contextName))
      | Some taken \<Rightarrow> Inr (taken, Destroy)))"

definition noObservation :: Observation where
  "noObservation = \<lparr>ObsOutcome = [], ObsEffect = [], ObsEvidence = None, ObsProduced = []\<rparr>"

text \<open>\<open>strings.ToValidUTF8\<close> with U+FFFD in place of each run of bytes that are not valid.\<close>

function to_replaced :: "bool \<Rightarrow> string \<Rightarrow> string" where
  "to_replaced inside s =
     (if s = [] then []
      else if rune_size s = 0
      then (if inside then [] else [CHR 0xEF, CHR 0xBF, CHR 0xBD]) @ to_replaced True (tl s)
      else take (rune_size s) s @ to_replaced False (drop (rune_size s) s))"
  by pat_completeness auto
termination
  by (relation "measure (\<lambda>(w, s). length s)") auto

declare to_replaced.simps [simp del]

fun cutRune :: "string \<Rightarrow> nat \<Rightarrow> nat" where
  "cutRune t 0 = 0"
| "cutRune t (Suc n) = (if 128 \<le> byte_of (t ! Suc n) \<and> byte_of (t ! Suc n) < 192 then cutRune t n else Suc n)"

definition bounded :: "string \<Rightarrow> string" where
  "bounded text =
     (let valid = to_replaced False text in
      if length valid \<le> MaxFailureText then valid else take (cutRune valid MaxFailureText) valid)"

definition observationFailure :: "runError option \<Rightarrow> ObservationFailure option" where
  "observationFailure e =
     (case e of
        None \<Rightarrow> None
      | Some err \<Rightarrow>
          (case Reports err of
             [] \<Rightarrow> None
           | first # _ \<Rightarrow>
               if Code first = [] \<or> length (Code first) > MaxFailureCode \<or> \<not> utf8_valid (Code first) \<or> bounded (Message first) = []
               then None
               else Some \<lparr>FailureCode = Code first, FailureMessage = bounded (Message first),
                 FailureRemediation = bounded (Remediation first)\<rparr>))"

definition retriedEffect :: "EffectState \<Rightarrow> string" where
  "retriedEffect effect =
     (if effect = EffectPartial then ''the frozen effect is partly realized and owned by this context''
      else if effect = EffectInconclusive
      then ''the removal could not tell its postcondition from a target it could not read, so it is retried once, reading the target again first''
      else [])"

definition unresolvedFailure :: "string \<Rightarrow> string \<times> string \<Rightarrow> string \<Rightarrow> Failure" where
  "unresolvedFailure block unresolved command =
     failure ''lifecycle.unknown'' (''the outcome of '' @ block @ '' is still unknown: '' @ fst unresolved)
       (snd unresolved @ '', then repeat '' @ command @ '' to observe it again'')"

definition terminalFailure :: "string \<Rightarrow> Operation \<Rightarrow> Plan \<Rightarrow> BlockStates \<Rightarrow> Failure" where
  "terminalFailure contextName op plan states =
     (let command = continuationCommand contextName op plan states in
      if OpState op = OperationUnknown \<and> OpVerb op = Apply
      then failure ''lifecycle.unknown'' ''an effect has an unresolved outcome''
        (''resolve it with '' @ command @ '', which observes that effect before anything else starts, or take back what it started with ''
         @ contextCommand contextName Destroy [])
      else if OpState op = OperationUnknown
      then failure ''lifecycle.unknown'' ''an effect has an unresolved outcome'' (''resolve it with '' @ command)
      else if nextAction op plan states = Destroy
      then failure ''lifecycle.state'' ''the destroy did not complete''
        (''repeat '' @ command @ '', which replaces it with a fresh removal of what it has not proved gone'')
      else failure ''lifecycle.state'' (''the '' @ OpVerb op @ '' did not complete'') (''continue it with '' @ command))"

subsection \<open>Reads of the store\<close>

definition ownedApplyRecords :: "'w StoreConfig \<Rightarrow> Operation \<Rightarrow> string \<Rightarrow> ('w Store, BlockEvidence list \<times> string list) action" where
  "ownedApplyRecords cfg op block = bindA (ownerID cfg op block) (\<lambda>owner. applyRecords cfg owner block)"

definition rereads :: "'w StoreConfig \<Rightarrow> Operation \<Rightarrow> Block \<Rightarrow> ('w Store, bool) action" where
  "rereads cfg op b =
     (if OpVerb op \<noteq> Destroy then returnA False
      else bindA (readBlock cfg (OpID op) (blockID b)) (\<lambda>r.
        if Attempts r < 1 then returnA False
        else bindA (LastResolution cfg (OpID op) (blockID b) (Attempts r)) (\<lambda>last.
          returnA (case last of None \<Rightarrow> False | Some a \<Rightarrow> Effect a = EffectInconclusive))))"

definition replayable :: "'w StoreConfig \<Rightarrow> Operation \<Rightarrow> Block \<Rightarrow> 'w BlockCapability \<Rightarrow> int \<Rightarrow> ('w Store, bool) action" where
  "replayable cfg op b cap attempt =
     (if \<not> CapReplaySafe cap b \<or> OpVerb op \<noteq> Destroy then returnA False
      else bindA (ownerID cfg op (blockID b)) (\<lambda>owner.
        if owner = [] then returnA False
        else bindA (readBlock cfg owner (blockID b)) (\<lambda>applied.
          if Attempts applied < 1 then returnA False
          else foldA (\<lambda>n safe.
            if \<not> safe then returnA False
            else bindA (LastResolution cfg (OpID op) (blockID b) n) (\<lambda>earlier.
              returnA (case earlier of None \<Rightarrow> True | Some a \<Rightarrow> Effect a \<noteq> EffectInconclusive))) [1..attempt] True)))"

definition replayEffect ::
  "'w StoreConfig \<Rightarrow> Operation \<Rightarrow> Block \<Rightarrow> 'w BlockCapability \<Rightarrow> int \<Rightarrow> EffectState \<Rightarrow> ('w, EffectState) runStep" where
  "replayEffect cfg op b cap attempt effect =
     (if effect \<noteq> EffectInconclusive then unitS effect
      else seqS (onRun (replayable cfg op b cap attempt)) (\<lambda>r.
        unitS (if r = Inr True then effect else EffectUnknown)))"

definition admitAttempt ::
  "'w Env \<Rightarrow> 'w StoreConfig \<Rightarrow> Operation \<Rightarrow> Plan \<Rightarrow> string \<Rightarrow> bool \<Rightarrow> ('w Run, unit) action" where
  "admitAttempt env cfg op plan block removal =
     seqS (onRun (AdmitAttempt cfg op plan block removal)) (\<lambda>r. unitS (case r of
       Inl (IntoReserve f) \<Rightarrow>
         (case FailureDiagnostics f of
            [d] \<Rightarrow> Inl (Refused (failure (Code d) (Message d)
              (if OpVerb op = Apply \<and> \<not> removal
               then ''remove what the context owns with bootwright destroy --context '' @ EnvContext env @ '', which is this apply'' @ [CHR 0x27] @ ''s only way on''
               else EnvDeletion env)))
          | _ \<Rightarrow> r)
     | _ \<Rightarrow> r))"

definition release :: "string \<Rightarrow> ('w, storeError + unit) runStep" where
  "release block = onRun (releaseAttempt block)"

subsection \<open>The call of a capability\<close>

text \<open>What the run of an adapter left, recorded beside its attempt.\<close>

definition closeOutput :: "'w StoreConfig \<Rightarrow> Operation \<Rightarrow> Block \<Rightarrow> string \<Rightarrow> ('w, storeError + unit) runStep" where
  "closeOutput cfg op b target = (\<lambda>s.
     case runOutput s of
       None \<Rightarrow> (Inr (), s)
     | Some given \<Rightarrow>
         (case CloseOutput cfg (runStore s, given) of (_, (st, o1)) \<Rightarrow>
            let s' = s\<lparr>runStore := st, runOutput := Some o1\<rparr> in
            case Retained o1 of (bytes, truncated) \<Rightarrow>
              if bytes > 0
              then logs cfg (OpID op) ''adapter-output'' (blockID b)
                (path_base target @ '', '' @ signed_decimal bytes @ '' bytes'' @ (if truncated then '', truncated'' else [])) s'
              else (Inr (), s')))"

definition noRemoval :: RemovalExecution where
  "noRemoval = \<lparr>RemovalProved = [], RemovalPreparations = [], OriginalDependents = [], PreparesRemoval = False\<rparr>"

definition execution ::
  "'w Env \<Rightarrow> Operation \<Rightarrow> Plan \<Rightarrow> Block \<Rightarrow> BlockEvidence list \<Rightarrow> BlockEvidence list \<Rightarrow> string list \<Rightarrow> int \<Rightarrow> int \<Rightarrow> string \<Rightarrow> Execution" where
  "execution env op plan b proved applyProved preparations attempt resolution owner =
     \<lparr>ExeOperation = OpID op, ExeContext = EnvContext env,
      ExeContinuation =
        (if OpVerb op = Apply \<and> resolution = 0 then contextCommand (EnvContext env) Apply (authorizing plan) else []),
      ExeAttempt = attempt, ExeResolution = resolution, ExeBlock = b, ExeApplyOperation = owner, ExeApplyProved = applyProved,
      ExeApplyPreparations = preparations, ExePrepares = (OpVerb op = Apply \<and> resolution = 0 \<and> attempt > 0),
      ExeReleased = EnvReleased env b, ExeProved = proved, ExeInStage = (BlockStage (Def b) = StageController),
      ExeRemoval = noRemoval, ExeRetired = False\<rparr>"

text \<open>\<open>failed\<close> is what is returned where the call cannot be prepared for its log, \<open>undone\<close> where it never ran.\<close>

definition invoke ::
  "'w Env \<Rightarrow> 'w StoreConfig \<Rightarrow> Operation \<Rightarrow> Plan \<Rightarrow> Block \<Rightarrow> BlockEvidence list \<Rightarrow> BlockEvidence list \<Rightarrow> string list \<Rightarrow> int \<Rightarrow> int \<Rightarrow>
   'r \<Rightarrow> 'r \<Rightarrow> (Execution \<Rightarrow> ('w, 'r \<times> runError option) runStep) \<Rightarrow> ('w, 'r \<times> runError option) runStep" where
  "invoke env cfg op plan b proved applyProved preparations attempt resolution failed undone call = (\<lambda>s.
     case AdapterOutputPath (case runLog s of Some l \<Rightarrow> logPath l | None \<Rightarrow> []) of
       Inl f \<Rightarrow> ((failed, Some (plainError f)), s)
     | Inr target \<Rightarrow>
         deferring (closeOutput cfg op b target)
           (unlessFails (EnvLaunch env) (\<lambda>e. (undone, Some e))
           (orReturn env (onRun (ownerID cfg op (blockID b))) (\<lambda>e. (undone, Some e)) (\<lambda>owner.
           let exe = execution env op plan b proved applyProved preparations attempt resolution owner in
           orReturn env (onRun (populateRemovalExecution cfg op plan b attempt resolution)) (\<lambda>e. (undone, Some e)) (\<lambda>removal.
           let exe = exe\<lparr>ExeRemoval := removal\<rparr> in
           unlessFails (EnvLend env op plan exe) (\<lambda>e. (undone, Some e)) (call exe)))))
           (s\<lparr>runOutput := Some (OpenAdapterOutput target)\<rparr>))"

definition logReports :: "'w StoreConfig \<Rightarrow> Operation \<Rightarrow> string \<Rightarrow> Block \<Rightarrow> runError option \<Rightarrow> ('w, unit) runStep" where
  "logReports cfg op event b e = (\<lambda>s. ((),
     fold (\<lambda>d s. snd (logs cfg (OpID op) event (blockID b) (Code d @ '': '' @ Message d) s))
       (case e of None \<Rightarrow> [] | Some err \<Rightarrow> Reports err) s))"

definition capture :: "'w Env \<Rightarrow> 'w StoreConfig \<Rightarrow> Operation \<Rightarrow> Block \<Rightarrow> BlockState \<Rightarrow> string list \<Rightarrow> ('w, runError option) runStep" where
  "capture env cfg op b state produced =
     (if produced = [] \<or> OpVerb op \<noteq> Apply \<or> state \<noteq> BlockDone then unitS None
      else seqS (EnvPublish env b produced) (\<lambda>e. seqS (logReports cfg op ''custody-failed'' b e) (\<lambda>_. unitS e)))"

definition interrupted :: "'w Env \<Rightarrow> ('w, bool) runStep" where
  "interrupted env = (\<lambda>s. (EnvInterrupted env s, s))"

definition capturedAttempt ::
  "'w Env \<Rightarrow> 'w StoreConfig \<Rightarrow> Operation \<Rightarrow> Block \<Rightarrow> Outcome \<Rightarrow> string list \<Rightarrow> runError option \<Rightarrow> ('w, Outcome \<times> runError option) runStep" where
  "capturedAttempt env cfg op b outcome produced e =
     (case AttemptTransition outcome of
        Inl _ \<Rightarrow> unitS (outcome, e)
      | Inr (_, state) \<Rightarrow>
          seqS (capture env cfg op b state produced) (\<lambda>c.
          case c of
            None \<Rightarrow> unitS (outcome, e)
          | Some err \<Rightarrow> seqS (interrupted env) (\<lambda>stopped.
              unitS (if stopped \<or> Canceled err then OutcomeCanceled else OutcomeUnknown, Some err))))"

subsection \<open>An attempt\<close>

definition rereadBeforeRemoval ::
  "'w BlockCapability \<Rightarrow> Execution \<Rightarrow> ('w, (EffectResult \<times> runError option) option) runStep" where
  "rereadBeforeRemoval cap exe =
     seqS (CapObserveRemoval cap exe) (\<lambda>(observed, e). unitS
       (let unknown = \<lparr>ResOutcome = OutcomeUnknown, ResEvidence = None, ResProduced = []\<rparr> in
        case e of
          Some err \<Rightarrow> Some (unknown, Some err)
        | None \<Rightarrow>
            if ObsEffect observed = EffectCompleted
            then Some (\<lparr>ResOutcome = OutcomeUnchanged, ResEvidence = ObsEvidence observed, ResProduced = []\<rparr>, None)
            else if ObsEffect observed = EffectNoEffect \<or> ObsEffect observed = EffectPartial then None
            else Some (unknown, Some (plainError (failure ''lifecycle.state''
              ''the retried removal read its target again and still could not tell its postcondition, so it performed no effect'' [])))))"

definition performs ::
  "'w Env \<Rightarrow> 'w BlockCapability \<Rightarrow> Operation \<Rightarrow> (string \<Rightarrow> bool) \<Rightarrow> bool \<Rightarrow> Block \<Rightarrow> Execution \<Rightarrow> ('w, EffectResult \<times> runError option) runStep" where
  "performs env cap op retiring reread b exe =
     (if OpVerb op \<noteq> Destroy then CapApply cap exe
      else (let exe = exe\<lparr>ExeRetired := retiring (blockID b)\<rparr> in
        seqS (if reread then rereadBeforeRemoval cap exe else unitS None) (\<lambda>settled.
        case settled of
          Some result \<Rightarrow> unitS result
        | None \<Rightarrow>
            unlessFails (EnvKeep env exe) (\<lambda>e. (\<lparr>ResOutcome = OutcomeFailed, ResEvidence = None, ResProduced = []\<rparr>, Some e))
              (CapDestroy cap exe))))"

definition provedOutcome :: "EffectResult \<Rightarrow> runError option \<Rightarrow> Outcome" where
  "provedOutcome result e =
     (case e of
        Some err \<Rightarrow> if Canceled err then OutcomeCanceled
          else if ValidOutcome (ResOutcome result) then ResOutcome result else OutcomeUnknown
      | None \<Rightarrow> if ValidOutcome (ResOutcome result) then ResOutcome result else OutcomeUnknown)"

definition logFailedNow :: "('w, bool) runStep" where
  "logFailedNow = (\<lambda>s. (case runLog s of None \<Rightarrow> False | Some l \<Rightarrow> logFailed l \<noteq> None, s))"

text \<open>From the call of the capability to the record of its outcome.\<close>

definition runEffect ::
  "'w Env \<Rightarrow> 'w StoreConfig \<Rightarrow> Operation \<Rightarrow> Plan \<Rightarrow> Block \<Rightarrow> int \<Rightarrow> ('w, EffectResult \<times> runError option) runStep \<Rightarrow>
   ('w, BlockState \<times> runError option) runStep" where
  "runEffect env cfg op plan b n acts =
     seqS (\<lambda>s. acts (s\<lparr>runWarnings := []\<rparr>)) (\<lambda>(result, given).
     let e = stageReading env given b (OpVerb op) in
     seqS (capturedAttempt env cfg op b (provedOutcome result e) (ResProduced result) e) (\<lambda>(proved, e).
     seqS (logs cfg (OpID op) ''outcome'' (blockID b) proved) (\<lambda>_.
     seqS logFailedNow (\<lambda>lost.
     let outcome = (if lost \<and> proved = OutcomeFailed then OutcomeUnknown else proved) in
     case AttemptTransition outcome of
       Inl f \<Rightarrow> unitS (BlockUnknown, Some (plainError f))
     | Inr (effect, state) \<Rightarrow>
         seqS (\<lambda>s. (runWarnings s, s)) (\<lambda>warned.
         orReturn env (onRun (CompleteAttempt cfg (OpID op) (blockID b) n outcome effect state (ResEvidence result) warned))
           (\<lambda>e'. (BlockUnknown, Some e')) (\<lambda>_. unitS (state, e)))))))"

text \<open>An attempt whose required log cannot be opened is recorded unknown: its effect never ran.\<close>

definition loggedAttempt ::
  "'w Env \<Rightarrow> 'w StoreConfig \<Rightarrow> Operation \<Rightarrow> Block \<Rightarrow> int \<Rightarrow> string \<Rightarrow> ('w, BlockState \<times> runError option) runStep \<Rightarrow>
   ('w, BlockState \<times> runError option) runStep" where
  "loggedAttempt env cfg op b n target rest =
     seqS (openRequired cfg (OpID op) target) (\<lambda>opened.
     case opened of
       Inl _ \<Rightarrow>
         orReturn env (onRun (CompleteAttempt cfg (OpID op) (blockID b) n OutcomeUnknown EffectUnknown BlockUnknown None []))
           (\<lambda>e. (BlockUnknown, Some e)) (\<lambda>_. unitS (BlockUnknown, None))
     | Inr _ \<Rightarrow> deferring (closeRequired cfg (OpID op)) rest)"

definition attempt ::
  "'w Env \<Rightarrow> 'w StoreConfig \<Rightarrow> Operation \<Rightarrow> Plan \<Rightarrow> (string \<Rightarrow> bool) \<Rightarrow> Block \<Rightarrow> ('w, BlockState \<times> runError option) runStep" where
  "attempt env cfg op plan retiring b =
     (case EnvResolve env (Kind (Def b)) (Implementation (Def b)) of
        None \<Rightarrow> unitS (noState (plainError (failure ''lifecycle.state''
          ''this executable does not offer the implementation this block froze''
          ''install the executable that registered this operation'')))
      | Some cap \<Rightarrow>
          orReturn env (onRun (provedDependencies cfg op plan b)) noState (\<lambda>proved.
          unlessFails (EnvClaim env plan b proved) noState
          (orReturn env (onRun (ownedApplyRecords cfg op (blockID b))) noState (\<lambda>(applyProved, preparations).
          orReturn env (onRun (rereads cfg op b)) noState (\<lambda>reread.
          orReturn env (admitAttempt env cfg op plan (blockID b) False) noState (\<lambda>_.
          deferring (release (blockID b))
            (unlessFails (if OpVerb op = Destroy then EnvReprove env b else unitS None) noState
            (orReturn env (onRun (StartAttempt cfg (OpID op) (blockID b) (ranUnder env b))) noState (\<lambda>n.
            orReturn env (liftR (AttemptLogPath (OpID op) (blockID b) n 0)) (\<lambda>e. (BlockPending, Some e)) (\<lambda>target.
            loggedAttempt env cfg op b n target
              (runEffect env cfg op plan b n
                (invoke env cfg op plan b proved applyProved preparations n 0
                  \<lparr>ResOutcome = OutcomeFailed, ResEvidence = None, ResProduced = []\<rparr>
                  \<lparr>ResOutcome = OutcomeUnknown, ResEvidence = None, ResProduced = []\<rparr>
                  (performs env cap op retiring reread b)))))))))))))"

subsection \<open>A resolution\<close>

text \<open>The observation a block is resolved by, and whether it is the removal's own check.\<close>

definition resolutionReading ::
  "'w Env \<Rightarrow> 'w StoreConfig \<Rightarrow> Operation \<Rightarrow> Block \<Rightarrow> Block \<Rightarrow> Verb \<Rightarrow> bool \<Rightarrow> bool \<Rightarrow>
   (Block \<Rightarrow> Verb \<Rightarrow> ('w, Observation \<times> runError option) runStep) \<Rightarrow> ('w, Observation \<times> bool \<times> runError option) runStep" where
  "resolutionReading env cfg op b observed verb removal offline readAs =
     (if \<not> removal \<or> offline
      then seqS (readAs observed verb) (\<lambda>(observation, e). unitS (observation, removal \<and> offline, e))
      else seqS (readAs b (OpVerb op)) (\<lambda>(observation, e).
        if e = None \<and> ObsEffect observation = EffectCompleted then unitS (observation, False, e)
        else
          seqS (logReports cfg op ''observation-failed'' b e) (\<lambda>_.
          seqS (logs cfg (OpID op) ''apply-observation'' (blockID b) (observedEffect observation e False)) (\<lambda>_.
          seqS (interrupted env) (\<lambda>stopped.
          if stopped then unitS (noObservation, True, e)
          else seqS (readAs observed verb) (\<lambda>(observation, e). unitS (observation, True, e)))))))"

definition observes ::
  "'w Env \<Rightarrow> 'w StoreConfig \<Rightarrow> 'w BlockCapability \<Rightarrow> Operation \<Rightarrow> Plan \<Rightarrow> (string \<Rightarrow> bool) \<Rightarrow> BlockEvidence list \<Rightarrow> string list \<Rightarrow> int \<Rightarrow> int \<Rightarrow>
   Block \<Rightarrow> Verb \<Rightarrow> ('w, Observation \<times> runError option) runStep" where
  "observes env cfg cap op plan retiring applyProved preparations n k target verb =
     seqS (invoke env cfg op plan target [] applyProved preparations n k noObservation noObservation
         (\<lambda>exe. if verb = Destroy then CapObserveRemoval cap (exe\<lparr>ExeRetired := retiring (blockID target)\<rparr>) else CapObserve cap exe))
       (\<lambda>(observation, e). unitS (observation, stageReading env e target verb))"

text \<open>What a resolution returns once its outcome is recorded.\<close>

definition resolvedAnswer ::
  "'w Env \<Rightarrow> 'w StoreConfig \<Rightarrow> Operation \<Rightarrow> Plan \<Rightarrow> Block \<Rightarrow> Block \<Rightarrow> Verb \<Rightarrow> bool \<Rightarrow> string \<Rightarrow> EffectState \<Rightarrow> BlockState \<Rightarrow>
   char slice \<Rightarrow> runError option \<Rightarrow> runError option \<Rightarrow> ('w, BlockState \<times> runError option) runStep" where
  "resolvedAnswer env cfg op plan b observed verb removal command effect state evidence captured e =
     seqS (interrupted env) (\<lambda>stopped.
     if state = BlockDone then unitS (state, None)
     else if captured \<noteq> None then unitS (state, captured)
     else if e \<noteq> None \<and> (observationFailure e \<noteq> None \<or> stopped) then unitS (state, e)
     else if removal \<and> state = BlockFailed then unitS (state, None)
     else if effect = EffectNoEffect
     then unitS (state, Some (plainError (failure ''lifecycle.state'' ''the frozen effect was never performed''
       (resolutionRemedy (EnvContext env) (OpVerb op) plan False))))
     else if effect = EffectPartial \<or> effect = EffectInconclusive
     then unitS (state, Some (plainError (failure ''lifecycle.state'' (retriedEffect effect)
       (resolutionRemedy (EnvContext env) (OpVerb op) plan True))))
     else seqS (EnvExplain env op verb observed evidence) (\<lambda>unresolved.
       seqS (logs cfg (OpID op) ''unresolved'' (blockID b) (fst unresolved)) (\<lambda>_.
       unitS (state, Some (plainError (unresolvedFailure (blockID b) unresolved command))))))"

definition recordResolution ::
  "'w Env \<Rightarrow> 'w StoreConfig \<Rightarrow> 'w BlockCapability \<Rightarrow> Operation \<Rightarrow> Plan \<Rightarrow> Block \<Rightarrow> Block \<Rightarrow> Verb \<Rightarrow> bool \<Rightarrow> string \<Rightarrow> int \<Rightarrow> int \<Rightarrow>
   Observation \<Rightarrow> bool \<Rightarrow> runError option \<Rightarrow> ('w, BlockState \<times> runError option) runStep" where
  "recordResolution env cfg cap op plan b observed verb removal command n k observation byRemoval e =
     seqS (replayEffect cfg op b cap n (observedEffect observation e byRemoval)) (\<lambda>effect.
     case ResolutionTransition effect of
       Inl f \<Rightarrow> unitS (BlockUnknown, Some (plainError f))
     | Inr (resolvedEffect, resolvedState) \<Rightarrow>
         seqS (logReports cfg op ''observation-failed'' b e) (\<lambda>_.
         seqS (capture env cfg op b resolvedState (ObsProduced observation)) (\<lambda>captured.
         let effect = (if captured \<noteq> None then EffectUnknown else resolvedEffect);
             state = (if captured \<noteq> None then BlockUnknown else resolvedState) in
         seqS (logs cfg (OpID op) ''resolution'' (blockID b) effect) (\<lambda>_.
         orReturn env (onRun (CompleteResolution cfg (OpID op) (blockID b) n k (ResolutionOutcome effect (ObsOutcome observation)) effect state
             (ObsEvidence observation) (observationFailure e)))
           (\<lambda>e'. (BlockUnknown, Some e')) (\<lambda>_.
         resolvedAnswer env cfg op plan b observed verb removal command effect state (ObsEvidence observation) captured e)))))"

definition resolveUnknown ::
  "'w Env \<Rightarrow> 'w StoreConfig \<Rightarrow> Operation \<Rightarrow> Plan \<Rightarrow> Block \<Rightarrow> bool \<Rightarrow> Plan \<Rightarrow> (string \<Rightarrow> bool) \<Rightarrow> string \<Rightarrow>
   ('w, BlockState \<times> runError option) runStep" where
  "resolveUnknown env cfg op plan b removal removalPlan retiring command =
     (case EnvResolve env (Kind (Def b)) (Implementation (Def b)) of
        None \<Rightarrow> unitS (noState (plainError (failure ''lifecycle.state''
          ''this executable cannot observe the implementation this block froze''
          ''install the executable that registered this operation'')))
      | Some cap \<Rightarrow>
          orReturn env (liftR (observedAs (EnvContext env) op b removal removalPlan)) noState (\<lambda>(observed, verb).
          orReturn env (onRun (ownedApplyRecords cfg op (blockID b))) noState (\<lambda>(applyProved, preparations).
          orReturn env (onRun (LastAttempt cfg (OpID op) (blockID b))) noState (\<lambda>n.
          orReturn env (admitAttempt env cfg op plan (blockID b) removal) noState (\<lambda>_.
          deferring (release (blockID b))
            (orReturn env (onRun (StartResolution cfg (OpID op) (blockID b) n (ranUnder env b) removal)) noState (\<lambda>k.
            orReturn env (liftR (AttemptLogPath (OpID op) (blockID b) n k)) noState (\<lambda>target.
            seqS (openRequired cfg (OpID op) target) (\<lambda>opened.
            case opened of
              Inl _ \<Rightarrow> unitS ([], None)
            | Inr _ \<Rightarrow>
                deferring (closeRequired cfg (OpID op))
                  (seqS (resolutionReading env cfg op b observed verb removal (CapOffline cap)
                      (observes env cfg cap op plan retiring applyProved preparations n k)) (\<lambda>(observation, byRemoval, e).
                  recordResolution env cfg cap op plan b observed verb removal command n k observation byRemoval e)))))))))))"

end
