(* ===== verification/DriverLaws.thy ===== *)
theory DriverLaws
  imports Driver LogLaws
begin

section \<open>Laws of the drivers\<close>

text \<open>
  What the calls around an attempt and a resolution make of the records. \<open>drives\<close> is \<open>does\<close> for steps
  of a run, whose logs are log files, with a rule for each combinator of \<open>Driver\<close>. \<open>logged\<close> is what the
  boundary may do: append to logs, and record its fault with the operation.
\<close>

subsection \<open>Logs and outputs change nothing else\<close>

context store
begin

lemma does_keeps:
  "does (recs (world s)) f (\<lambda>_ m. m = recs (world s)) (\<lambda>m. m = recs (world s)) \<Longrightarrow> invar (world s) \<Longrightarrow> f s = (r, s') \<Longrightarrow>
   invar (world s') \<and> recs (world s') = recs (world s)"
  by (rule doesOn_any [where I = "\<lambda>m. m = recs (world s)" and f = f])

lemma append_other:
  assumes "invar (world s)" and "onArea (areaAppend (storeArea cfg) p d) s = (r, s')" and "logFile p"
  shows "invar (world s') \<and> keepsRecords (recs (world s)) (recs (world s'))"
  using append_keeps [OF assms(1,2)] assms(3) by (auto simp: keepsRecords_def)

lemma AppendLog_keeps:
  assumes a: "AppendLog cfg given (s, l) = (r, (s', l'))" and inv: "invar (world s)" and p: "logFile (logPath l)"
  shows "invar (world s') \<and> logPath l' = logPath l \<and> keepsRecords (recs (world s)) (recs (world s'))"
proof (cases "logClosed l \<or> logFailed l \<noteq> None")
  case True
  then have "s' = s" "l' = l"
    using a by (auto simp: AppendLog_def bindA_def getA_def failA_def split: option.splits if_splits)
  then show ?thesis using inv by simp
next
  case False
  then have f: "\<not> logClosed l" "logFailed l = None" by simp_all
  obtain t u where t: "now cfg s = (t, u)" by (cases "now cfg s")
  have u: "invar (world u)" "recs (world u) = recs (world s)" using now_keeps [OF inv t] by simp_all
  show ?thesis
  proof (cases "\<exists>stamp line. t = Inr stamp \<and> LogEvent (safeRecord given stamp) \<noteq> [] \<and>
      logLine (logRecordValue (safeRecord given stamp)) = Some line")
    case False
    then have "s' = u" "logPath l' = logPath l"
      using a f t
      by (auto simp: AppendLog_def bindA_def getA_def sticky_def failA_def Let_def split: option.splits if_splits sum.splits)
    then show ?thesis using u by simp
  next
    case True
    then obtain stamp line where st: "t = Inr stamp" "LogEvent (safeRecord given stamp) \<noteq> []"
      "logLine (logRecordValue (safeRecord given stamp)) = Some line" by blast
    have rest: "writeLine cfg l (safeRecord given stamp) line (u, l) = (r, (s', l'))"
      using a f t st by (simp add: AppendLog_def bindA_def getA_def sticky_def Let_def)
    obtain w v where w: "onArea (areaAppend (storeArea cfg) (logPath l) line) u = (w, v)"
      by (cases "onArea (areaAppend (storeArea cfg) (logPath l) line) u")
    have "s' = u \<or> s' = v" "logPath l' = logPath l"
      using rest w
      by (auto simp: writeLine_def thenA_def bindA_def sticky_def onLog_def modifyA_def Let_def split: sum.splits if_splits)
    then show ?thesis using append_other [OF u(1) w p] u by auto
  qed
qed

lemma CloseLog_keeps:
  assumes c: "CloseLog cfg (s, l) = (r, (s', l'))" and inv: "invar (world s)" and p: "logFile (logPath l)"
  shows "invar (world s') \<and> logPath l' = logPath l \<and> keepsRecords (recs (world s)) (recs (world s'))"
proof (cases "logClosed l \<or> logDropped l = 0 \<or> logFailed l \<noteq> None \<or> logLine (markerValue (logDropped l)) = None")
  case True
  then have "s' = s" "logPath l' = logPath l"
    using c by (auto simp: CloseLog_def bindA_def thenA_def getA_def returnA_def failA_def onLog_def modifyA_def split: option.splits if_splits)
  then show ?thesis using inv by simp
next
  case False
  then obtain line where line: "logLine (markerValue (logDropped l)) = Some line" by auto
  obtain w v where w: "onArea (areaAppend (storeArea cfg) (logPath l) line) s = (w, v)"
    by (cases "onArea (areaAppend (storeArea cfg) (logPath l) line) s")
  have "s' = v" "logPath l' = logPath l"
    using c False line w by (auto simp: CloseLog_def bindA_def thenA_def getA_def onLog_def modifyA_def onStore_def)
  then show ?thesis using append_other [OF inv w p] by simp
qed

lemma does_OpenLog:
  assumes "invar (world s)" and "OpenLog cfg target s = (r, s')" and "logFile target"
  shows "invar (world s') \<and> keepsRecords (recs (world s)) (recs (world s')) \<and> (\<forall>l. r = Inr l \<longrightarrow> logPath l = target)"
proof -
  obtain e u where e: "onArea (areaEnsureDirectory (storeArea cfg) (path_dir target)) s = (e, u)"
    by (cases "onArea (areaEnsureDirectory (storeArea cfg) (path_dir target)) s")
  have u: "invar (world u) \<and> recs (world u) = recs (world s)"
    by (rule does_keeps [where f = "onArea (areaEnsureDirectory (storeArea cfg) (path_dir target))", OF does_ensure assms(1) e]) simp_all
  obtain es v where es: "onArea (areaEntries (storeArea cfg) (path_dir target)) u = (es, v)"
    by (cases "onArea (areaEntries (storeArea cfg) (path_dir target)) u")
  have v: "invar (world v) \<and> recs (world v) = recs (world u)"
    by (rule does_keeps [where f = "onArea (areaEntries (storeArea cfg) (path_dir target))", OF does_entries conjunct1 [OF u] es]) simp_all
  show ?thesis
  proof (cases "\<exists>x. e = Inr x \<and> (\<exists>y. es = Inr y)")
    case False
    then have "(s' = u \<or> s' = v) \<and> (\<exists>x. r = Inl x)"
      using assms(2) e es by (cases e; cases es) (auto simp: OpenLog_def thenA_def bindA_def)
    then show ?thesis using u v by auto
  next
    case True
    then obtain y where y: "e = Inr ()" "es = Inr y" by auto
    obtain w l where w: "AppendLog cfg \<lparr>LogTime = [], LogEvent = ''opened'', LogBlock = [], LogGroup = [], LogDetail = []\<rparr>
        (v, openedLog target y) = (w, (s', l))" and r: "r = (case w of Inl x \<Rightarrow> Inl x | Inr _ \<Rightarrow> Inr l)"
      using assms(2) e es y by (auto simp: OpenLog_def thenA_def bindA_def split: prod.splits sum.splits)
    have "logPath (openedLog target y) = target" by (simp add: openedLog_def)
    then show ?thesis
      using AppendLog_keeps [OF w] v u assms(3) r by (auto split: sum.splits)
  qed
qed

lemma CloseOutput_keeps:
  assumes c: "CloseOutput cfg (s, o1) = (r, (s', o2))" and inv: "invar (world s)" and p: "logFile (outputPath o1)"
  shows "invar (world s') \<and> outputPath o2 = outputPath o1 \<and> keepsRecords (recs (world s)) (recs (world s'))"
proof -
  have publish: "invar (world t) \<and> outputPath q' = outputPath q \<and> keepsRecords (recs (world u)) (recs (world t))"
    if "publishOutput cfg (u, q) = (x, (t, q'))" "invar (world u)" "logFile (outputPath q)" for u q x t q'
  proof -
    obtain w v where w: "onArea (areaAppend (storeArea cfg) (outputPath q) (outputPending q)) u = (w, v)"
      by (cases "onArea (areaAppend (storeArea cfg) (outputPath q) (outputPending q)) u")
    have "world t = world v" "outputPath q' = outputPath q"
      using that(1) w
      by (auto simp: publishOutput_def bindA_def thenA_def getA_def onStore_def onLog_def modifyA_def appendOutput_def returnRoom_def
          split: sum.splits if_splits)
    then show ?thesis using append_other [OF that(2) w that(3)] by simp
  qed
  have flushed: "invar (world t) \<and> outputPath q' = outputPath q \<and> keepsRecords (recs (world u)) (recs (world t))"
    if f: "flush cfg (u, q) = (x, (t, q'))" and i: "invar (world u)" and l: "logFile (outputPath q)" for u q x t q'
  proof (cases "outputPending q = [] \<or> \<not> outputShared q")
    case True
    then show ?thesis
      using f publish [OF _ i l] i by (auto simp: flush_def bindA_def getA_def returnA_def split: if_splits)
  next
    case False
    obtain y v where y: "outputRoom cfg (int (length (outputPending q))) u = (y, v)"
      by (cases "outputRoom cfg (int (length (outputPending q))) u")
    have v: "invar (world v) \<and> recs (world v) = recs (world u)"
      by (rule does_keeps [where f = "outputRoom cfg (int (length (outputPending q)))", OF does_outputRoom i y]) simp_all
    show ?thesis
    proof (cases y)
      case (Inl e)
      then show ?thesis using f False y v by (auto simp: flush_def bindA_def getA_def onStore_def)
    next
      case (Inr taken)
      define q1 where "q1 = (if taken < int (length (outputPending q))
        then q\<lparr>outputPending := take (nat taken) (outputPending q), outputLimit := outputWritten q + taken, outputTruncated := True\<rparr> else q)"
      have q1: "outputPath q1 = outputPath q" by (simp add: q1_def)
      have "(if taken = 0 then returnA () else publishOutput cfg) (v, q1) = (x, (t, q'))"
        using f False y Inr unfolding q1_def
        by (simp add: flush_def bindA_def thenA_def getA_def onStore_def onLog_def modifyA_def split: if_splits)
      then show ?thesis
        using publish [of v q1 x t q'] v l q1 by (auto simp: returnA_def split: if_splits)
    qed
  qed
  show ?thesis
  proof (cases "outputClosed o1")
    case True
    then show ?thesis using c inv by (auto simp: CloseOutput_def bindA_def getA_def returnA_def)
  next
    case False
    then have "flush cfg (s, o1\<lparr>outputClosed := True\<rparr>) = (r, (s', o2))"
      using c by (simp add: CloseOutput_def bindA_def thenA_def getA_def onLog_def modifyA_def)
    from flushed [OF this inv] p show ?thesis by simp
  qed
qed

subsection \<open>Reads\<close>

lemma does_anyLastResolution [store_rules]: "(\<And>a. Q a m) \<Longrightarrow> E m \<Longrightarrow> does m (LastResolution cfg i b n) Q E"
  unfolding LastResolution_def by (intro store_rules) auto

lemma does_anyBlockEvidence [store_rules]: "(\<And>e. Q e m) \<Longrightarrow> E m \<Longrightarrow> does m (blockEvidence cfg i b verb) Q E"
  unfolding blockEvidence_def by (intro store_rules) auto

lemma does_reads:
  assumes "\<And>x acc. x \<in> set xs \<Longrightarrow> does m (f x acc) (\<lambda>_ m'. m' = m) (\<lambda>m'. m' = m)" and "\<And>a. Q a m" and "E m"
  shows "does m (foldA f xs acc) Q E"
proof (rule does_weaken)
  show "does m (foldA f xs acc) (\<lambda>_ m'. m' = m) (\<lambda>m'. m' = m)"
    by (rule does_fold [where I = "\<lambda>_ m'. m' = m"]) (use assms(1) in auto)
qed (use assms(2,3) in auto)

lemma does_evidenceOf:
  assumes "\<And>x. x \<in> set xs \<Longrightarrow> does m (f x) (\<lambda>_ m'. m' = m) (\<lambda>m'. m' = m)" and "\<And>a. Q a m" and "E m"
  shows "does m (evidenceOf f xs) Q E"
  unfolding evidenceOf_def
  by (rule does_reads) (use assms in \<open>auto intro!: does_bind does_return intro: does_weaken\<close>)

lemma does_attemptPreparations [store_rules]: "(\<And>a. Q a m) \<Longrightarrow> E m \<Longrightarrow> does m (attemptPreparations cfg i b) Q E"
  unfolding attemptPreparations_def by (intro store_rules does_reads) auto

lemma does_provedDependencies [store_rules]: "(\<And>a. Q a m) \<Longrightarrow> E m \<Longrightarrow> does m (provedDependencies cfg op plan b) Q E"
  unfolding provedDependencies_def by (intro store_rules does_evidenceOf) auto

lemma does_applyRecords [store_rules]: "(\<And>a. Q a m) \<Longrightarrow> E m \<Longrightarrow> does m (applyRecords cfg i b) Q E"
  unfolding applyRecords_def applyDependencies_def applyPreparations_def Let_def
  by (intro store_rules does_evidenceOf) auto

lemma does_removalRecords [store_rules]: "(\<And>a. Q a m) \<Longrightarrow> E m \<Longrightarrow> does m (removalRecords cfg op plan b) Q E"
  unfolding removalRecords_def removalProof_def by (intro store_rules does_reads) auto

lemma does_removalDependents [store_rules]: "(\<And>a. Q a m) \<Longrightarrow> E m \<Longrightarrow> does m (originalRemovalDependents cfg op b) Q E"
  unfolding originalRemovalDependents_def Let_def by (intro store_rules does_evidenceOf) auto

lemma does_populate [store_rules]: "(\<And>a. Q a m) \<Longrightarrow> E m \<Longrightarrow> does m (populateRemovalExecution cfg op plan b n k) Q E"
  unfolding populateRemovalExecution_def by (intro store_rules) auto

lemma does_ownedApplyRecords [store_rules]: "(\<And>a. Q a m) \<Longrightarrow> E m \<Longrightarrow> does m (ownedApplyRecords cfg op b) Q E"
  unfolding ownedApplyRecords_def by (intro store_rules) auto

lemma does_rereads [store_rules]: "(\<And>a. Q a m) \<Longrightarrow> E m \<Longrightarrow> does m (rereads cfg op b) Q E"
  unfolding rereads_def by (intro store_rules) auto

lemma does_replayable [store_rules]: "(\<And>a. Q a m) \<Longrightarrow> E m \<Longrightarrow> does m (replayable cfg op b cap n) Q E"
  unfolding replayable_def by (intro store_rules does_reads) auto

end

subsection \<open>Steps of a run\<close>

text \<open>A durable write of the protocol, or anything that leaves every record alone.\<close>

inductive driven :: "'w StoreConfig \<Rightarrow> recordsOf \<Rightarrow> recordsOf \<Rightarrow> bool" for cfg where
  recorded: "recordStep cfg m m' \<Longrightarrow> driven cfg m m'"
| aside: "keepsRecords m m' \<Longrightarrow> driven cfg m m'"

abbreviation drivenFrom :: "'w StoreConfig \<Rightarrow> recordsOf \<Rightarrow> recordsOf \<Rightarrow> bool" where
  "drivenFrom cfg \<equiv> (driven cfg)\<^sup>*\<^sup>*"

lemma publishes_driven: "publishes cfg m m' \<Longrightarrow> drivenFrom cfg m m'"
  by (rule mono_rtranclp [rule_format, of "recordStep cfg"]) (auto intro: driven.recorded)

lemma aside_driven: "keepsRecords m m' \<Longrightarrow> drivenFrom cfg m m'"
  by (rule r_into_rtranclp) (rule driven.aside)

definition logged :: "'w StoreConfig \<Rightarrow> string \<Rightarrow> recordsOf \<Rightarrow> recordsOf \<Rightarrow> bool" where
  "logged cfg i m m' \<longleftrightarrow> drivenFrom cfg m m' \<and> (\<forall>p. \<not> logFile p \<longrightarrow> p \<noteq> operationPath i \<longrightarrow> m' p = m p)"

lemma logged_refl [simp]: "logged cfg i m m" by (simp add: logged_def)

lemma logged_trans: "logged cfg i m m' \<Longrightarrow> logged cfg i m' m'' \<Longrightarrow> logged cfg i m m''"
  by (auto simp: logged_def)

lemma aside_logged: "keepsRecords m m' \<Longrightarrow> logged cfg i m m'"
  by (simp add: logged_def aside_driven keepsRecords_def)

definition runReady :: "('w \<Rightarrow> bool) \<Rightarrow> 'w Run \<Rightarrow> bool" where
  "runReady invar s \<longleftrightarrow> invar (world (runStore s)) \<and> (\<forall>l. runLog s = Some l \<longrightarrow> logFile (logPath l)) \<and>
     (\<forall>q. runOutput s = Some q \<longrightarrow> logFile (outputPath q))"

abbreviation runRecords :: "('w \<Rightarrow> recordsOf) \<Rightarrow> 'w Run \<Rightarrow> recordsOf" where "runRecords recs s \<equiv> recs (world (runStore s))"

definition drivesOn ::
  "('w \<Rightarrow> recordsOf) \<Rightarrow> ('w \<Rightarrow> bool) \<Rightarrow> recordsOf \<Rightarrow> ('w, 'a) runStep \<Rightarrow> ('a \<Rightarrow> recordsOf \<Rightarrow> bool) \<Rightarrow> bool" where
  "drivesOn recs invar m f Q \<longleftrightarrow>
     (\<forall>s. runReady invar s \<longrightarrow> runRecords recs s = m \<longrightarrow>
        runReady invar (snd (f s)) \<and> Q (fst (f s)) (runRecords recs (snd (f s))))"

named_theorems drive_rules \<open>what holds after the combinators of steps\<close>

lemma drivesOn_result:
  "drivesOn recs invar (runRecords recs s) f Q \<Longrightarrow> runReady invar s \<Longrightarrow> f s = (x, s') \<Longrightarrow> runReady invar s' \<and> Q x (runRecords recs s')"
  unfolding drivesOn_def by (metis fst_conv snd_conv)

lemma drivesOn_weaken:
  "drivesOn recs invar m f Q' \<Longrightarrow> (\<And>x m'. Q' x m' \<Longrightarrow> Q x m') \<Longrightarrow> drivesOn recs invar m f Q"
  by (simp add: drivesOn_def)

context store
begin

abbreviation "drives \<equiv> drivesOn recs invar"

lemma drives_seq [drive_rules]: "drives m f (\<lambda>x m'. drives m' (g x) Q) \<Longrightarrow> drives m (seqS f g) Q"
  unfolding drivesOn_def seqS_def by (simp add: split_beta)

lemma drives_unit [drive_rules]: "Q x m \<Longrightarrow> drives m (unitS x) Q"
  by (simp add: drivesOn_def unitS_def)

lemma drives_reads [drive_rules]: "(\<And>x. Q x m) \<Longrightarrow> drives m (\<lambda>s. (h s, s)) Q"
  by (simp add: drivesOn_def)

lemma drives_onRun: "does m f (\<lambda>a. Q (Inr a)) (\<lambda>m'. \<forall>e. Q (Inl e) m') \<Longrightarrow> drives m (onRun f) Q"
proof -
  assume d: "does m f (\<lambda>a. Q (Inr a)) (\<lambda>m'. \<forall>e. Q (Inl e) m')"
  show ?thesis
    unfolding drivesOn_def
  proof (intro allI impI)
    fix s :: "'w Run"
    assume s: "runReady invar s" "runRecords recs s = m"
    obtain r st where r: "f (runStore s) = (r, st)" by (cases "f (runStore s)")
    have i: "invar (world (runStore s)) \<and> recs (world (runStore s)) = m" using s by (simp add: runReady_def)
    show "runReady invar (snd (onRun f s)) \<and> Q (fst (onRun f s)) (runRecords recs (snd (onRun f s)))"
      using r s(1) runs_Inr [OF d [unfolded doesOn_def] i, of _ st] runs_Inl [OF d [unfolded doesOn_def] i, of _ st]
      by (cases r) (auto simp: onRun_def runReady_def)
  qed
qed

lemma drives_orReturn: "drives m f (\<lambda>r m'. case r of Inl e \<Rightarrow> Q (stop (errorFrom env e)) m' | Inr a \<Rightarrow> drives m' (g a) Q) \<Longrightarrow>
    drives m (orReturn env f stop g) Q"
  unfolding orReturn_def
  by (rule drives_seq, erule drivesOn_weaken) (auto split: sum.splits intro: drives_unit)

lemma drives_orReturn_run [drive_rules]:
  "does m f (\<lambda>a m'. drives m' (g a) Q) (\<lambda>m'. \<forall>e. Q (stop e) m') \<Longrightarrow> drives m (orReturn env (onRun f) stop g) Q"
  by (rule drives_orReturn, rule drives_onRun, erule does_weaken) auto

lemma drives_orReturn_lift [drive_rules]:
  "(\<And>e. Q (stop e) m) \<Longrightarrow> (\<And>a. r = Inr a \<Longrightarrow> drives m (g a) Q) \<Longrightarrow> drives m (orReturn env (liftR r) stop g) Q"
  by (rule drives_orReturn) (auto simp: liftR_def drivesOn_def failA_def returnA_def split: sum.splits)

lemma drives_unless: "drives m f (\<lambda>r m'. case r of Some e \<Rightarrow> Q (stop e) m' | None \<Rightarrow> drives m' g Q) \<Longrightarrow> drives m (unlessFails f stop g) Q"
  unfolding unlessFails_def
  by (rule drives_seq, erule drivesOn_weaken) (auto split: option.splits intro: drives_unit)

lemma drives_deferring: "drives m f (\<lambda>x m'. drives m' after (\<lambda>_. Q x)) \<Longrightarrow> drives m (deferring after f) Q"
  unfolding deferring_def
proof (rule drives_seq, rule drivesOn_weaken, assumption)
  show "drives m' (seqS after (\<lambda>_. unitS x)) Q" if "drives m' after (\<lambda>_. Q x)" for x m'
    by (rule drives_seq, rule drivesOn_weaken [OF that], erule drives_unit)
qed

lemma drives_if [drive_rules]: "(c \<Longrightarrow> drives m f Q) \<Longrightarrow> (\<not> c \<Longrightarrow> drives m g Q) \<Longrightarrow> drives m (if c then f else g) Q"
  by simp

lemma drives_let [drive_rules]: "drives m (f x) Q \<Longrightarrow> drives m (let y = x in f y) Q"
  by simp

lemma drives_prod [drive_rules]: "(\<And>a b. x = (a, b) \<Longrightarrow> drives m (f a b) Q) \<Longrightarrow> drives m (case x of (a, b) \<Rightarrow> f a b) Q"
  by (cases x) simp

lemma drives_option [drive_rules]:
  "(x = None \<Longrightarrow> drives m f Q) \<Longrightarrow> (\<And>a. x = Some a \<Longrightarrow> drives m (g a) Q) \<Longrightarrow> drives m (case x of None \<Rightarrow> f | Some a \<Rightarrow> g a) Q"
  by (cases x) simp_all

lemma drives_sum [drive_rules]:
  "(\<And>e. x = Inl e \<Longrightarrow> drives m (f e) Q) \<Longrightarrow> (\<And>a. x = Inr a \<Longrightarrow> drives m (g a) Q) \<Longrightarrow>
   drives m (case x of Inl e \<Rightarrow> f e | Inr a \<Rightarrow> g a) Q"
  by (cases x) simp_all

lemma drives_interrupted [drive_rules]: "(\<And>x. Q x m) \<Longrightarrow> drives m (interrupted env) Q"
  unfolding interrupted_def by (rule drives_reads)

lemma drives_logFailedNow [drive_rules]: "(\<And>x. Q x m) \<Longrightarrow> drives m logFailedNow Q"
  unfolding logFailedNow_def by (rule drives_reads)

lemma drives_release [drive_rules]: "(\<And>r. Q r m) \<Longrightarrow> drives m (release b) Q"
  unfolding release_def releaseAttempt_def by (rule drives_onRun, rule does_modify) simp_all

lemma drives_admit [drive_rules]: "(\<And>r. Q r m) \<Longrightarrow> drives m (admitAttempt env cfg op plan b removal) Q"
  unfolding admitAttempt_def
  by (rule drives_seq, rule drives_onRun, rule does_AdmitAttempt) (auto intro: drives_unit)

subsection \<open>The boundary\<close>

lemma does_UpdateOperation_only:
  assumes "\<And>d. recordStep cfg m (m(operationPath (OpID op) \<mapsto> d)) \<Longrightarrow> I (m(operationPath (OpID op) \<mapsto> d))" and "I m"
  shows "does m (UpdateOperation cfg op) (\<lambda>_. I) I"
  unfolding UpdateOperation_def
  by (intro store_rules; (rule assms(1), rule updated)?) (use assms(2) in auto)

lemma does_markLogFault: "does m (markLogFault cfg i) (\<lambda>_. logged cfg i m) (logged cfg i m)"
proof -
  have "logged cfg i m (m(operationPath i \<mapsto> d))" if "recordStep cfg m (m(operationPath i \<mapsto> d))" for d
    using that by (auto simp: logged_def intro: driven.recorded)
  then show ?thesis
    unfolding markLogFault_def by (intro store_rules does_UpdateOperation_only) auto
qed

lemma drives_latch: "drives m (latch cfg i) (\<lambda>_. logged cfg i m)"
  unfolding drivesOn_def
proof (intro allI impI)
  fix s :: "'w Run"
  assume s: "runReady invar s" "runRecords recs s = m"
  obtain r st where r: "markLogFault cfg i (runStore s) = (r, st)" by (cases "markLogFault cfg i (runStore s)")
  have "invar (world st) \<and> logged cfg i m (recs (world st))"
    by (rule doesOn_any [where f = "markLogFault cfg i" and I = "logged cfg i m" and s = "runStore s" and r = r])
      (use s r does_markLogFault in \<open>auto simp: runReady_def\<close>)
  then show "runReady invar (snd (latch cfg i s)) \<and> logged cfg i m (runRecords recs (snd (latch cfg i s)))"
    using s r by (auto simp: latch_def runReady_def split: option.splits)
qed

lemma drives_required:
  fixes f :: "('w, storeError + 'x) runStep"
  assumes "drives m f (\<lambda>_ m'. logged cfg i m m')"
  shows "drives m (required cfg i f) (\<lambda>_ m'. logged cfg i m m')"
  unfolding drivesOn_def
proof (intro allI impI)
  fix s :: "'w Run"
  assume s: "runReady invar s" "runRecords recs s = m"
  obtain r s' where r: "f s = (r, s')" by (cases "f s")
  have s': "runReady invar s'" "logged cfg i m (runRecords recs s')"
    using drivesOn_result [where f = f and recs = recs and invar = invar and s = s and x = r and s' = s'] assms s r by auto
  let ?latch = "latch cfg i :: ('w, storeError + 'x) runStep"
  have "drives (runRecords recs s') ?latch (\<lambda>_. logged cfg i (runRecords recs s'))" by (rule drives_latch)
  then have t: "runReady invar (snd (?latch s'))" "logged cfg i (runRecords recs s') (runRecords recs (snd (?latch s')))"
    using s'(1) by (simp_all add: drivesOn_def)
  show "runReady invar (snd (required cfg i f s)) \<and> logged cfg i m (runRecords recs (snd (required cfg i f s)))"
    using r s' t logged_trans by (cases r) (auto simp: required_def)
qed

lemma drives_runLog:
  assumes "\<And>st l r st' l'. invar (world st) \<Longrightarrow> logFile (logPath l) \<Longrightarrow> f (st, l) = (r, (st', l')) \<Longrightarrow>
    invar (world st') \<and> logPath l' = logPath l \<and> keepsRecords (recs (world st)) (recs (world st'))"
  shows "drives m (onRunLog f) (\<lambda>_. keepsRecords m)"
  unfolding drivesOn_def
proof (intro allI impI)
  fix s :: "'w Run"
  assume s: "runReady invar s" "runRecords recs s = m"
  show "runReady invar (snd (onRunLog f s)) \<and> keepsRecords m (runRecords recs (snd (onRunLog f s)))"
  proof (cases "runLog s")
    case None
    then show ?thesis using s by (simp add: onRunLog_def)
  next
    case (Some l)
    obtain r st l' where f: "f (runStore s, l) = (r, (st, l'))" by (cases "f (runStore s, l)") auto
    then show ?thesis
      using assms [OF _ _ f] s Some by (auto simp: onRunLog_def runReady_def)
  qed
qed

lemma drives_logs: "drives m (logs cfg i event b detail) (\<lambda>_. logged cfg i m)"
  unfolding logs_def
proof (rule drives_required, rule drivesOn_weaken, rule drives_runLog)
  fix st l r st' l'
  assume "invar (world st)" "logFile (logPath l)"
    "AppendLog cfg \<lparr>LogTime = [], LogEvent = event, LogBlock = b, LogGroup = [], LogDetail = detail\<rparr> (st, l) = (r, (st', l'))"
  then show "invar (world st') \<and> logPath l' = logPath l \<and> keepsRecords (recs (world st)) (recs (world st'))"
    using AppendLog_keeps by blast
qed (rule aside_logged)

lemma drives_closeRequired: "drives m (closeRequired cfg i) (\<lambda>_. logged cfg i m)"
  unfolding closeRequired_def
proof (rule drives_required, rule drivesOn_weaken, rule drives_runLog)
  fix st l r st' l'
  assume "invar (world st)" "logFile (logPath l)" "CloseLog cfg (st, l) = (r, (st', l'))"
  then show "invar (world st') \<and> logPath l' = logPath l \<and> keepsRecords (recs (world st)) (recs (world st'))"
    using CloseLog_keeps by blast
qed (rule aside_logged)

lemma drives_openRequired:
  assumes "logFile target"
  shows "drives m (openRequired cfg i target) (\<lambda>_. logged cfg i m)"
  unfolding openRequired_def
proof (rule drives_required, rule drivesOn_weaken)
  let ?open = "bindA (onRun (OpenLog cfg target)) (\<lambda>l. modifyA (\<lambda>s. s\<lparr>runLog := Some l\<rparr>))"
  show "drives m ?open (\<lambda>_. keepsRecords m)"
    unfolding drivesOn_def
  proof (intro allI impI)
    fix s :: "'w Run"
    assume s: "runReady invar s" "runRecords recs s = m"
    obtain r st where r: "OpenLog cfg target (runStore s) = (r, st)" by (cases "OpenLog cfg target (runStore s)")
    have "invar (world st) \<and> keepsRecords (recs (world (runStore s))) (recs (world st)) \<and> (\<forall>l. r = Inr l \<longrightarrow> logPath l = target)"
      using does_OpenLog [OF _ r assms] s by (simp add: runReady_def)
    then show "runReady invar (snd (?open s)) \<and> keepsRecords m (runRecords recs (snd (?open s)))"
      using s r assms by (cases r) (auto simp: bindA_def onRun_def modifyA_def runReady_def)
  qed
qed (rule aside_logged)

lemma drives_closeOutput: "drives m (closeOutput cfg op b target) (\<lambda>_. logged cfg (OpID op) m)"
  unfolding drivesOn_def
proof (intro allI impI)
  fix s :: "'w Run"
  assume s: "runReady invar s" "runRecords recs s = m"
  show "runReady invar (snd (closeOutput cfg op b target s)) \<and>
      logged cfg (OpID op) m (runRecords recs (snd (closeOutput cfg op b target s)))"
  proof (cases "runOutput s")
    case None
    then show ?thesis using s by (simp add: closeOutput_def)
  next
    case (Some q)
    obtain r st q' where c: "CloseOutput cfg (runStore s, q) = (r, (st, q'))" by (cases "CloseOutput cfg (runStore s, q)") auto
    let ?s = "s\<lparr>runStore := st, runOutput := Some q'\<rparr>"
    have k: "invar (world st) \<and> outputPath q' = outputPath q \<and> keepsRecords m (recs (world st))"
      using CloseOutput_keeps [OF c] s Some by (auto simp: runReady_def)
    then have t: "runReady invar ?s" "logged cfg (OpID op) m (runRecords recs ?s)"
      using s Some by (auto simp: runReady_def intro: aside_logged)
    let ?log = "\<lambda>d. logs cfg (OpID op) ''adapter-output'' (blockID b) d ?s"
    have "runReady invar (snd (?log d)) \<and> logged cfg (OpID op) m (runRecords recs (snd (?log d)))" for d
      using drives_logs [of "runRecords recs ?s" "OpID op" "''adapter-output''" "blockID b" d] t logged_trans
      unfolding drivesOn_def by blast
    then show ?thesis
      using Some c t by (auto simp: closeOutput_def Let_def split: prod.splits)
  qed
qed

lemma drives_logReports: "drives m (logReports cfg op event b e) (\<lambda>_. logged cfg (OpID op) m)"
proof -
  have "runReady invar s \<and> logged cfg (OpID op) m (runRecords recs s) \<Longrightarrow>
      runReady invar (fold (\<lambda>d s. snd (logs cfg (OpID op) event (blockID b) (Code d @ '': '' @ Message d) s)) ds s) \<and>
      logged cfg (OpID op) m (runRecords recs (fold (\<lambda>d s. snd (logs cfg (OpID op) event (blockID b) (Code d @ '': '' @ Message d) s)) ds s))"
    for ds s
  proof (induction ds arbitrary: s)
    case (Cons d ds)
    have "runReady invar (snd (logs cfg (OpID op) event (blockID b) (Code d @ '': '' @ Message d) s)) \<and>
        logged cfg (OpID op) m (runRecords recs (snd (logs cfg (OpID op) event (blockID b) (Code d @ '': '' @ Message d) s)))"
      using drives_logs [of "runRecords recs s" "OpID op" event "blockID b" "Code d @ '': '' @ Message d"] Cons.prems logged_trans
      unfolding drivesOn_def by blast
    then show ?case using Cons.IH by simp
  qed simp
  note walk = this
  show ?thesis
    unfolding drivesOn_def logReports_def snd_conv by (intro allI impI, rule walk) simp
qed

lemma logFile_adapter:
  assumes "logFile p" and q: "AdapterOutputPath p = Inr q"
  shows "logFile q"
proof -
  obtain i ss where i: "ValidOperationID i" "ss \<noteq> []" "\<forall>s\<in>set ss. segment s" "p = path_join (i # ''logs'' # ss)"
    using assms(1) by (auto simp: logFile_def)
  have front: "ss = butlast ss @ [last ss]" "segment (last ss)" using i by simp_all
  have all: "\<forall>s\<in>set (i # ''logs'' # ss). segment s"
    using i ValidOperationID_segment [OF i(1)] by (auto simp: segment_def)
  have p: "p = join ''/'' (i # ''logs'' # butlast ss) @ ''/'' @ last ss"
    using i(4) path_join_segments [OF _ all] join_append [of "i # ''logs'' # butlast ss" "[last ss]" "''/''"] front(1) by simp
  obtain trimmed where t: "p = trimmed @ ''.jsonl''"
  proof -
    have "drop (length p - 6) p = ''.jsonl''"
      using q by (auto simp: AdapterOutputPath_def cut_suffix_def eval_nat_numeral split: if_splits)
    then show thesis using that [of "take (length p - 6) p"] by (metis append_take_drop_id)
  qed
  have "\<exists>name. last ss = name @ ''.jsonl''"
  proof -
    from p t consider u where "''.jsonl'' = u @ ''/'' @ last ss" | u where "u @ ''.jsonl'' = ''/'' @ last ss"
      using append_eq_append_conv2 [of "join ''/'' (i # ''logs'' # butlast ss)" "''/'' @ last ss" trimmed "''.jsonl''"] by metis
    then show ?thesis
    proof cases
      case 1
      then have "CHR ''/'' \<in> set ''.jsonl''" by (metis Un_iff list.set_intros(1) set_append append_Cons)
      then show ?thesis by simp
    next
      case (2 u)
      then show ?thesis by (cases u) (auto dest: sym)
    qed
  qed
  then obtain name where name: "last ss = name @ ''.jsonl''" by blast
  show ?thesis
    by (rule logFile_output [OF i(1) _ _ _ q, of "butlast ss" name])
      (use i(3,4) front name in \<open>auto simp: segment_def dest: in_set_butlastD\<close>)
qed

end

end
