(* ===== verification/Attempting.thy ===== *)
theory Attempting
  imports DriverLaws
begin

section \<open>What an attempt makes of the records\<close>

text \<open>
  What holds of \<open>attempt\<close> and \<open>resolveUnknown\<close> in any environment whose own steps write no record
  but a log fault, and whose effects make only writes of the protocol: they are sequences of such writes and of
  log writes, an effect is called only while its attempt is durable and running, and a block that is
  answered done or failed is recorded so.
\<close>

subsection \<open>What is asked of the environment\<close>

text \<open>A step of the environment that writes no record but a log fault: what it appends to the attempt's log may latch one.\<close>

definition quietly :: "'w StoreConfig \<Rightarrow> string \<Rightarrow> ('w \<Rightarrow> recordsOf) \<Rightarrow> ('w \<Rightarrow> bool) \<Rightarrow> ('w, 'a) runStep \<Rightarrow> bool" where
  "quietly cfg i recs invar f \<longleftrightarrow> (\<forall>m. drivesOn recs invar m f (\<lambda>_. logged cfg i m))"

definition tracks :: "'w StoreConfig \<Rightarrow> ('w \<Rightarrow> recordsOf) \<Rightarrow> ('w \<Rightarrow> bool) \<Rightarrow> ('w, 'a) runStep \<Rightarrow> bool" where
  "tracks cfg recs invar f \<longleftrightarrow> (\<forall>m. drivesOn recs invar m f (\<lambda>_. drivenFrom cfg m))"

definition quietEnv :: "'w StoreConfig \<Rightarrow> string \<Rightarrow> ('w \<Rightarrow> recordsOf) \<Rightarrow> ('w \<Rightarrow> bool) \<Rightarrow> 'w Env \<Rightarrow> bool" where
  "quietEnv cfg i recs invar env \<longleftrightarrow>
     (\<forall>plan b proved. quietly cfg i recs invar (EnvClaim env plan b proved)) \<and> (\<forall>b. quietly cfg i recs invar (EnvReprove env b)) \<and>
     quietly cfg i recs invar (EnvLaunch env) \<and> (\<forall>op plan exe. quietly cfg i recs invar (EnvLend env op plan exe)) \<and>
     (\<forall>exe. quietly cfg i recs invar (EnvKeep env exe)) \<and> (\<forall>b produced. quietly cfg i recs invar (EnvPublish env b produced)) \<and>
     (\<forall>op verb b evidence. quietly cfg i recs invar (EnvExplain env op verb b evidence))"

text \<open>An effect may also record its preparation, so it is only asked to write as the protocol does.\<close>

definition capable :: "'w StoreConfig \<Rightarrow> string \<Rightarrow> ('w \<Rightarrow> recordsOf) \<Rightarrow> ('w \<Rightarrow> bool) \<Rightarrow> 'w BlockCapability \<Rightarrow> bool" where
  "capable cfg i recs invar cap \<longleftrightarrow>
     (\<forall>exe. tracks cfg recs invar (CapApply cap exe) \<and> tracks cfg recs invar (CapDestroy cap exe) \<and>
        quietly cfg i recs invar (CapObserve cap exe) \<and> quietly cfg i recs invar (CapObserveRemoval cap exe))"

definition working :: "'w StoreConfig \<Rightarrow> string \<Rightarrow> ('w \<Rightarrow> recordsOf) \<Rightarrow> ('w \<Rightarrow> bool) \<Rightarrow> 'w Env \<Rightarrow> bool" where
  "working cfg i recs invar env \<longleftrightarrow> quietEnv cfg i recs invar env \<and>
     (\<forall>kind implementation cap. EnvResolve env kind implementation = Some cap \<longrightarrow> capable cfg i recs invar cap)"

subsection \<open>Sequences of writes\<close>

named_theorems track_rules \<open>steps that make only writes of the protocol and of logs\<close>

lemma drives_tracks:
  assumes "\<And>m. drivesOn recs invar m f (\<lambda>_. P m)" and "\<And>m m'. P m m' \<Longrightarrow> drivenFrom cfg m m'"
  shows "tracks cfg recs invar f"
  unfolding tracks_def by (intro allI, rule drivesOn_weaken [OF assms(1)], rule assms(2))

lemma logged_driven: "logged cfg i m m' \<Longrightarrow> drivenFrom cfg m m'" by (simp add: logged_def)

lemma quietly_tracks: "quietly cfg i recs invar f \<Longrightarrow> tracks cfg recs invar f"
  unfolding quietly_def by (rule drives_tracks [where P = "logged cfg i"]) (auto intro: logged_driven)

lemma tracks_drives: "tracks cfg recs invar f \<Longrightarrow> drivesOn recs invar m f (\<lambda>_. drivenFrom cfg m)"
  by (simp add: tracks_def)

lemma tracksD:
  "tracks cfg recs invar f \<Longrightarrow> runReady invar s \<Longrightarrow>
   runReady invar (snd (f s)) \<and> drivenFrom cfg (runRecords recs s) (runRecords recs (snd (f s)))"
  by (auto simp: tracks_def drivesOn_def)

context store
begin

abbreviation "tracked \<equiv> tracks cfg recs invar"

lemma tracked_seq [track_rules]: "tracked f \<Longrightarrow> (\<And>x. tracked (g x)) \<Longrightarrow> tracked (seqS f g)"
  unfolding tracks_def
proof (intro allI, rule drives_seq, rule drivesOn_weaken)
  fix m x m'
  assume "\<forall>m. drives m f (\<lambda>_. drivenFrom cfg m)" "\<And>x. \<forall>m. drives m (g x) (\<lambda>_. drivenFrom cfg m)"
  then show "drives m f (\<lambda>_. drivenFrom cfg m)"
    and "drivenFrom cfg m m' \<Longrightarrow> drives m' (g x) (\<lambda>_. drivenFrom cfg m)"
    by (blast intro: drivesOn_weaken rtranclp_trans)+
qed

lemma tracked_unit [track_rules]: "tracked (unitS x)"
  by (simp add: tracks_def drives_unit)

lemma tracked_reads [track_rules]: "tracked (\<lambda>s. (h s, s))"
  by (simp add: tracks_def drives_reads)

lemma tracked_unless [track_rules]: "tracked f \<Longrightarrow> tracked g \<Longrightarrow> tracked (unlessFails f stop g)"
  unfolding unlessFails_def by (intro track_rules) (auto split: option.split intro: tracked_unit)

lemma tracked_orReturn: "tracked f \<Longrightarrow> (\<And>a. tracked (g a)) \<Longrightarrow> tracked (orReturn env f stop g)"
  unfolding orReturn_def by (intro track_rules) (auto split: sum.split intro: tracked_unit)

lemma tracked_deferring [track_rules]: "tracked f \<Longrightarrow> tracked after \<Longrightarrow> tracked (deferring after f)"
  unfolding deferring_def by (intro track_rules)

lemma tracked_if [track_rules]: "tracked f \<Longrightarrow> tracked g \<Longrightarrow> tracked (if c then f else g)" by simp

lemma tracked_let [track_rules]: "tracked (f x) \<Longrightarrow> tracked (let y = x in f y)" by simp

lemma tracked_prod [track_rules]: "(\<And>a b. x = (a, b) \<Longrightarrow> tracked (f a b)) \<Longrightarrow> tracked (case x of (a, b) \<Rightarrow> f a b)"
  by (cases x) simp

lemma tracked_option [track_rules]:
  "tracked f \<Longrightarrow> (\<And>a. x = Some a \<Longrightarrow> tracked (g a)) \<Longrightarrow> tracked (case x of None \<Rightarrow> f | Some a \<Rightarrow> g a)"
  by (cases x) simp_all

lemma tracked_sum [track_rules]:
  "(\<And>e. tracked (f e)) \<Longrightarrow> (\<And>a. x = Inr a \<Longrightarrow> tracked (g a)) \<Longrightarrow> tracked (case x of Inl e \<Rightarrow> f e | Inr a \<Rightarrow> g a)"
  by (cases x) simp_all

lemma tracked_onRun: "(\<And>m. does m f (\<lambda>_. drivenFrom cfg m) (drivenFrom cfg m)) \<Longrightarrow> tracked (onRun f)"
  unfolding tracks_def by (intro allI drives_onRun) (auto elim: does_weaken)

lemma tracked_write:
  assumes "\<And>m. does m f (\<lambda>_. publishes cfg m) (publishes cfg m)"
  shows "tracked (onRun f)"
  by (rule tracked_onRun, rule does_weaken [OF assms]) (auto intro: publishes_driven)

lemma tracked_orReturn_run [track_rules]:
  "tracked (onRun f) \<Longrightarrow> (\<And>a. tracked (g a)) \<Longrightarrow> tracked (orReturn env (onRun f) stop g)"
  by (rule tracked_orReturn)

lemma tracked_orReturn_lift [track_rules]: "(\<And>a. r = Inr a \<Longrightarrow> tracked (g a)) \<Longrightarrow> tracked (orReturn env (liftR r) stop g)"
  by (cases r) (simp_all add: orReturn_def liftR_def failA_def returnA_def seqS_def tracked_unit [unfolded unitS_def] unitS_def)

lemma tracked_logs [track_rules]: "tracked (logs cfg i event b detail)"
  by (rule drives_tracks, rule drives_logs) (rule logged_driven)

lemma tracked_close [track_rules]: "tracked (closeRequired cfg i)"
  by (rule drives_tracks, rule drives_closeRequired) (rule logged_driven)

lemma tracked_open: "logFile target \<Longrightarrow> tracked (openRequired cfg i target)"
  by (rule drives_tracks, rule drives_openRequired, assumption) (rule logged_driven)

lemma tracked_output [track_rules]: "tracked (closeOutput cfg op b target)"
  by (rule drives_tracks, rule drives_closeOutput) (rule logged_driven)

lemma tracked_reports [track_rules]: "tracked (logReports cfg op event b e)"
  by (rule drives_tracks, rule drives_logReports) (rule logged_driven)

lemma tracked_release [track_rules]: "tracked (release b)"
  by (simp add: tracks_def drives_release)

lemma tracked_admit [track_rules]:
  "(\<And>a. tracked (g a)) \<Longrightarrow> tracked (orReturn env (admitAttempt env cfg op plan b removal) stop g)"
  by (rule tracked_orReturn) (simp_all add: tracks_def drives_admit)

lemma tracked_readings [track_rules]:
  "tracked (onRun (provedDependencies cfg op plan b))" "tracked (onRun (ownedApplyRecords cfg op c))"
  "tracked (onRun (rereads cfg op b))" "tracked (onRun (ownerID cfg op c))" "tracked (onRun (LastAttempt cfg i c))"
  "tracked (onRun (populateRemovalExecution cfg op plan b n k))" "tracked (onRun (replayable cfg op b cap n))"
  by (rule tracked_onRun; (rule store_rules)?; simp)+

lemma quiet_env:
  assumes "quietEnv cfg i recs invar env"
  shows "tracked (EnvClaim env plan b proved)" "tracked (EnvReprove env b)" "tracked (EnvLaunch env)"
    "tracked (EnvLend env op plan exe)" "tracked (EnvKeep env exe)" "tracked (EnvPublish env b produced)"
    "tracked (EnvExplain env op verb b evidence)"
  using assms unfolding quietEnv_def by (blast intro: quietly_tracks)+

lemma tracked_interrupted [track_rules]: "tracked (interrupted env)"
  unfolding interrupted_def by (rule tracked_reads)

lemma tracked_logFailed [track_rules]: "tracked logFailedNow"
  unfolding logFailedNow_def by (rule tracked_reads)

lemma tracked_set:
  assumes "\<And>s. runReady invar s \<Longrightarrow> runReady invar (u s)" and "\<And>s. runStore (u s) = runStore s" and "tracked f"
  shows "tracked (\<lambda>s. f (u s))"
  unfolding tracks_def drivesOn_def
proof (intro allI impI)
  fix m and s :: "'w Run"
  assume s: "runReady invar s" "runRecords recs s = m"
  then have "runReady invar (u s)" "runRecords recs (u s) = m" using assms(1,2) by simp_all
  then show "runReady invar (snd (f (u s))) \<and> drivenFrom cfg m (runRecords recs (snd (f (u s))))"
    using assms(3) unfolding tracks_def drivesOn_def by blast
qed

lemma tracked_invoke:
  assumes q: "quietEnv cfg i recs invar env" and call: "\<And>exe. tracked (call exe)"
  shows "tracked (invoke env cfg op plan b proved applied preparations n k failed undone call)"
proof -
  let ?rest = "\<lambda>target. deferring (closeOutput cfg op b target)
      (unlessFails (EnvLaunch env) (\<lambda>e. (undone, Some e))
      (orReturn env (onRun (ownerID cfg op (blockID b))) (\<lambda>e. (undone, Some e)) (\<lambda>owner.
      let exe = execution env op plan b proved applied preparations n k owner in
      orReturn env (onRun (populateRemovalExecution cfg op plan b n k)) (\<lambda>e. (undone, Some e)) (\<lambda>removal.
      let exe = exe\<lparr>ExeRemoval := removal\<rparr> in
      unlessFails (EnvLend env op plan exe) (\<lambda>e. (undone, Some e)) (call exe)))))"
  have rest: "tracked (?rest target)" for target
    by (intro track_rules quiet_env [OF q] call)
  show ?thesis
    unfolding tracks_def drivesOn_def
  proof (intro allI impI)
    fix m and s :: "'w Run"
    assume s: "runReady invar s" "runRecords recs s = m"
    let ?log = "case runLog s of Some l \<Rightarrow> logPath l | None \<Rightarrow> []"
    let ?f = "invoke env cfg op plan b proved applied preparations n k failed undone call"
    show "runReady invar (snd (?f s)) \<and> drivenFrom cfg m (runRecords recs (snd (?f s)))"
    proof (cases "AdapterOutputPath ?log")
      case (Inl e)
      then show ?thesis using s by (simp add: invoke_def)
    next
      case (Inr target)
      then have "runLog s \<noteq> None"
        by (cases "runLog s") (auto simp: AdapterOutputPath_def cut_suffix_def split: if_splits)
      then have "logFile target" using Inr s(1) logFile_adapter by (auto simp: runReady_def)
      then have t: "runReady invar (s\<lparr>runOutput := Some (OpenAdapterOutput target)\<rparr>)"
        using s(1) by (simp add: runReady_def OpenAdapterOutput_def)
      have "?f s = ?rest target (s\<lparr>runOutput := Some (OpenAdapterOutput target)\<rparr>)"
        unfolding invoke_def using Inr by simp
      then show ?thesis
        using tracksD [OF rest t, of target] s(2) by simp
    qed
  qed
qed

lemma tracked_capturedAttempt:
  assumes "quietEnv cfg i recs invar env"
  shows "tracked (capture env cfg op b state produced)" "tracked (capturedAttempt env cfg op b outcome produced e)"
proof -
  show c: "tracked (capture env cfg op b state produced)" for state
    unfolding capture_def by (intro track_rules quiet_env [OF assms])
  show "tracked (capturedAttempt env cfg op b outcome produced e)"
    unfolding capturedAttempt_def by (intro track_rules c)
qed

lemma tracked_performs:
  assumes q: "quietEnv cfg i recs invar env" and c: "capable cfg i recs invar cap"
  shows "tracked (performs env cap op retiring reread b exe)"
proof -
  have cap: "tracked (CapApply cap exe)" "tracked (CapDestroy cap exe)" "tracked (CapObserveRemoval cap exe)" for exe
    using c by (auto simp: capable_def intro: quietly_tracks)
  show ?thesis
    unfolding performs_def rereadBeforeRemoval_def by (intro track_rules quiet_env [OF q] cap)
qed

lemma tracked_runEffect:
  assumes q: "quietEnv cfg i recs invar env" and v: "ValidOperationID (OpID op)" "ValidSegment (blockID b)" and acts: "tracked acts"
  shows "tracked (runEffect env cfg op plan b n acts)"
proof -
  have "tracked (\<lambda>s. acts (s\<lparr>runWarnings := []\<rparr>))"
    by (rule tracked_set [OF _ _ acts]) (simp_all add: runReady_def)
  then show ?thesis
    unfolding runEffect_def
    by (intro track_rules tracked_capturedAttempt [OF q] tracked_write does_CompleteAttempt v)
qed

lemma tracked_loggedAttempt:
  assumes v: "ValidOperationID (OpID op)" "ValidSegment (blockID b)" and "logFile target" and "tracked rest"
  shows "tracked (loggedAttempt env cfg op b n target rest)"
  unfolding loggedAttempt_def
  by (intro track_rules tracked_open tracked_write does_CompleteAttempt assms)

text \<open>An attempt makes only writes of the protocol, whatever becomes of its effect and of its logs.\<close>

lemma tracked_attempt:
  assumes w: "working cfg i recs invar env" and v: "ValidOperationID (OpID op)" "ValidSegment (blockID b)"
  shows "tracked (attempt env cfg op plan retiring b)"
proof -
  have q: "quietEnv cfg i recs invar env" and cap: "\<And>k j c. EnvResolve env k j = Some c \<Longrightarrow> capable cfg i recs invar c"
    using w by (auto simp: working_def)
  have start: "does m (StartAttempt cfg (OpID op) (blockID b) build) (\<lambda>_. publishes cfg m) (publishes cfg m)" for m build
    by (rule does_weaken [OF does_StartAttempt [OF v]]) simp_all
  show ?thesis
    unfolding attempt_def
    by (intro track_rules quiet_env [OF q] tracked_loggedAttempt [OF v] tracked_runEffect [OF q v] tracked_invoke [OF q]
        tracked_performs [OF q cap] tracked_write start)
      (auto dest!: log_paths(2) [OF v])
qed

lemma tracked_observes:
  assumes q: "quietEnv cfg i recs invar env" and c: "capable cfg i recs invar cap"
  shows "tracked (observes env cfg cap op plan retiring applied preparations n k target verb)"
proof -
  have "tracked (CapObserve cap exe)" "tracked (CapObserveRemoval cap exe)" for exe
    using c by (auto simp: capable_def intro: quietly_tracks)
  then show ?thesis
    unfolding observes_def by (intro track_rules tracked_invoke [OF q])
qed

lemma tracked_reading:
  assumes "\<And>target verb. tracked (readAs target verb)"
  shows "tracked (resolutionReading env cfg op b observed verb removal offline readAs)"
  unfolding resolutionReading_def by (intro track_rules assms)

lemma tracked_recordResolution:
  assumes q: "quietEnv cfg i recs invar env" and v: "ValidOperationID (OpID op)" "ValidSegment (blockID b)"
  shows "tracked (recordResolution env cfg cap op plan b observed verb removal command n k observation byRemoval e)"
  unfolding recordResolution_def resolvedAnswer_def replayEffect_def
  by (intro track_rules tracked_capturedAttempt(1) [OF q] quiet_env [OF q] tracked_write does_CompleteResolution v)

lemma tracked_resolveUnknown:
  assumes w: "working cfg i recs invar env" and v: "ValidOperationID (OpID op)" "ValidSegment (blockID b)"
  shows "tracked (resolveUnknown env cfg op plan b removal removalPlan retiring command)"
proof -
  have q: "quietEnv cfg i recs invar env" and cap: "\<And>k j c. EnvResolve env k j = Some c \<Longrightarrow> capable cfg i recs invar c"
    using w by (auto simp: working_def)
  have start: "does m (StartResolution cfg (OpID op) (blockID b) n build removal) (\<lambda>_. publishes cfg m) (publishes cfg m)" for m n build
    by (rule does_weaken [OF does_StartResolution [OF v]]) simp_all
  show ?thesis
    unfolding resolveUnknown_def
    by (intro track_rules tracked_open tracked_reading tracked_observes [OF q cap] tracked_recordResolution [OF q v]
        tracked_write start)
      (auto dest!: log_paths(2) [OF v])
qed

end

subsection \<open>What writes and logs keep\<close>

lemma aside_counts: "keepsRecords m m' \<Longrightarrow> countsAttempts cfg m \<Longrightarrow> countsAttempts cfg m'"
  unfolding countsAttempts_def blockRead_def keepsRecords_def
  by (metis (no_types, lifting) attempt_recordPath logFile_records(4,5))

lemma aside_index: "keepsRecords m m' \<Longrightarrow> indexNames cfg m \<Longrightarrow> indexNames cfg m'"
  unfolding indexNames_def keepsRecords_def using logFile_records(1) by metis

lemma driven_keeps:
  assumes "drivenFrom cfg m m'" and "countsAttempts cfg m" and "indexNames cfg m"
  shows "countsAttempts cfg m' \<and> indexNames cfg m'"
  using assms
proof (induction rule: rtranclp_induct)
  case (step m' m'')
  from step.hyps(2) show ?case
  proof cases
    case recorded
    then show ?thesis using step step_counts step_index by metis
  next
    case aside
    then show ?thesis using step aside_counts aside_index by metis
  qed
qed simp

lemma driven_observed:
  assumes "drivenFrom cfg m m'" and v: "ValidOperationID i" "ValidSegment b" and p: "recordPath i b n k p"
    and "m p = Some d" and "decodedAttempt cfg d a" and "Phase a \<noteq> ''running''"
  shows "m' p = Some d"
  using assms(1)
proof (induction rule: rtranclp_induct)
  case (step m' m'')
  from step.hyps(2) show ?case
  proof cases
    case recorded
    then show ?thesis using step_observed [OF recorded v p step.IH assms(6,7)] by simp
  next
    case aside
    have "\<not> logFile p" using logFile_records(5) [OF _ v p] by blast
    then show ?thesis using step.IH aside unfolding keepsRecords_def by metis
  qed
qed (rule assms(5))

subsection \<open>A block that is answered is recorded so\<close>

text \<open>The record of an observed attempt, and a block record that says what the attempt's outcome means.\<close>

definition recordedAs :: "'w StoreConfig \<Rightarrow> recordsOf \<Rightarrow> string \<Rightarrow> string \<Rightarrow> int \<Rightarrow> BlockState \<Rightarrow> bool" where
  "recordedAs cfg m i b n state \<longleftrightarrow>
     (\<exists>name d a e r. FormatNumber n = Inr name \<and> m (attemptPath i b name) = Some d \<and> encode (attemptValue a) MaxAttemptBytes = Inr d \<and>
        validateAttempt a = None \<and> AttBlock a = b \<and> Number a = n \<and> Resolution a = 0 \<and> Phase a = ''observed'' \<and>
        AttemptTransition (AttOutcome a) = Inr (Effect a, state) \<and>
        m (blockPath i b) = Some e \<and> decodedBlock cfg e r \<and> RecBlock r = b \<and> RecState r = state)"

definition answered :: "'w StoreConfig \<Rightarrow> recordsOf \<Rightarrow> string \<Rightarrow> string \<Rightarrow> BlockState \<times> runError option \<Rightarrow> bool" where
  "answered cfg m i b x \<longleftrightarrow> (fst x = BlockDone \<or> fst x = BlockFailed \<longrightarrow> (\<exists>n. recordedAs cfg m i b n (fst x)))"

lemma recordedAs_kept:
  assumes "ValidOperationID i" "ValidSegment b" and "logged cfg j m m'" "ValidOperationID j"
  shows "recordedAs cfg m i b n state \<Longrightarrow> recordedAs cfg m' i b n state"
proof -
  assume r: "recordedAs cfg m i b n state"
  have k: "m' p = m p" if "\<not> logFile p" "p \<noteq> operationPath j" for p
    using assms(3) that by (simp add: logged_def)
  have block: "m' (blockPath i b) = m (blockPath i b)"
    using k logFile_records(4) assms(1,2,4) blockPath_distinct(2) by metis
  have at: "m' (attemptPath i b name) = m (attemptPath i b name)" if "FormatNumber n = Inr name" for name
    using k logFile_records(5) [OF _ assms(1,2) attempt_recordPath [OF that]]
      recordPath_distinct(3) [OF assms(1,2) attempt_recordPath [OF that] assms(4) assms(2)] by metis
  show ?thesis using r block at unfolding recordedAs_def by metis
qed

lemma warnedRecord_outcome:
  assumes "warnedRecord a ws = Inr d"
  obtains a' where "validateAttempt a' = None" "encode (attemptValue a') MaxAttemptBytes = Inr d" "sameAttempt a a'"
    "Phase a' = Phase a" "AttOutcome a' = AttOutcome a" "Effect a' = Effect a"
proof -
  have "validateAttempt (a\<lparr>Warnings := Some ws\<rparr>) = None \<and> encode (attemptValue (a\<lparr>Warnings := Some ws\<rparr>)) MaxAttemptBytes = Inr d
      \<or> validateAttempt a = None \<and> encode (attemptValue a) MaxAttemptBytes = Inr d"
    using assms by (auto simp: warnedRecord_def guardR_def Let_def split: if_splits sum.splits option.splits)
  then show thesis
    using that [of "a\<lparr>Warnings := Some ws\<rparr>"] that [of a] by auto
qed

lemma recordedAs_written:
  assumes v: "ValidOperationID i" "ValidSegment (AttBlock u)" and s: "FormatNumber (Number u) = Inr s"
    and w: "warnedRecord (observedAttempt u outcome effect evidence None time) ws = Inr d" and u: "Resolution u = 0"
    and t: "AttemptTransition outcome = Inr (effect, state)"
    and e: "blockRead cfg m' i (AttBlock u) r recorded" "decodedBlock cfg e (r\<lparr>RecState := state\<rparr>)"
  shows "recordedAs cfg (m(attemptPath i (AttBlock u) s \<mapsto> d, blockPath i (RecBlock r) \<mapsto> e)) i (AttBlock u) (Number u) state"
proof -
  obtain a where a: "validateAttempt a = None" "encode (attemptValue a) MaxAttemptBytes = Inr d"
    "sameAttempt (observedAttempt u outcome effect evidence None time) a" "Phase a = ''observed''"
    "AttOutcome a = outcome" "Effect a = effect"
    using warnedRecord_outcome [OF w] unfolding observedAttempt_def by auto
  have "attemptPath i (AttBlock u) s \<noteq> blockPath i (AttBlock u)" using attemptPath_distinct(1) [OF v v s] .
  then show ?thesis
    unfolding recordedAs_def using s a t u e(2) blockRead_block [OF e(1)]
    by (intro exI [of _ s] exI [of _ d] exI [of _ a] exI [of _ e] exI [of _ "r\<lparr>RecState := state\<rparr>"]) (auto simp: observedAttempt_def)
qed

context store
begin

lemma does_CompleteAttempt_records:
  assumes "ValidOperationID i" "ValidSegment b" and "AttemptTransition outcome = Inr (effect, state)"
  shows "does m (CompleteAttempt cfg i b n outcome effect state evidence ws) (\<lambda>_ m'. recordedAs cfg m' i b n state) (\<lambda>_. True)"
  unfolding CompleteAttempt_def completeRecord_def
  by (intro store_rules) (use assms in \<open>auto intro!: recordedAs_written\<close>)

text \<open>A step whose answer and whose records satisfy \<open>Q\<close>, whatever the records were.\<close>

definition yields :: "('w, 'a) runStep \<Rightarrow> ('a \<Rightarrow> recordsOf \<Rightarrow> bool) \<Rightarrow> bool" where
  "yields f Q \<longleftrightarrow> (\<forall>m. drives m f Q)"

lemma yieldsI: "(\<And>m. drives m f Q) \<Longrightarrow> yields f Q" by (simp add: yields_def)

lemma yields_seq:
  assumes "tracked f" and "\<And>x. yields (g x) Q"
  shows "yields (seqS f g) Q"
  by (intro yieldsI drives_seq, rule drivesOn_weaken [OF tracks_drives [OF assms(1)]]) (use assms(2) in \<open>simp add: yields_def\<close>)

lemma yields_unit: "(\<And>m. Q x m) \<Longrightarrow> yields (unitS x) Q"
  by (simp add: yields_def drives_unit)

lemma yields_prod: "(\<And>a b. x = (a, b) \<Longrightarrow> yields (f a b) Q) \<Longrightarrow> yields (case x of (a, b) \<Rightarrow> f a b) Q"
  by (cases x) simp

lemma yields_sum:
  "(\<And>e. x = Inl e \<Longrightarrow> yields (f e) Q) \<Longrightarrow> (\<And>a. x = Inr a \<Longrightarrow> yields (g a) Q) \<Longrightarrow>
   yields (case x of Inl e \<Rightarrow> f e | Inr a \<Rightarrow> g a) Q"
  by (cases x) simp_all

lemma yields_option:
  "(x = None \<Longrightarrow> yields f Q) \<Longrightarrow> (\<And>a. x = Some a \<Longrightarrow> yields (g a) Q) \<Longrightarrow> yields (case x of None \<Rightarrow> f | Some a \<Rightarrow> g a) Q"
  by (cases x) simp_all

lemma yields_unless:
  assumes "tracked f" and "\<And>e m. Q (stop e) m" and "yields g Q"
  shows "yields (unlessFails f stop g) Q"
  unfolding unlessFails_def by (intro yields_seq yields_option yields_unit assms)

lemma yields_orReturn:
  assumes "tracked f" and "\<And>e m. Q (stop e) m" and "\<And>a. yields (g a) Q"
  shows "yields (orReturn env f stop g) Q"
  unfolding orReturn_def by (intro yields_seq yields_sum yields_unit assms)

lemma yields_lift:
  assumes "\<And>e m. Q (stop e) m" and "\<And>a. r = Inr a \<Longrightarrow> yields (g a) Q"
  shows "yields (orReturn env (liftR r) stop g) Q"
  by (intro yieldsI drives_orReturn_lift) (use assms in \<open>auto simp: yields_def\<close>)

lemma yields_deferring:
  assumes "yields f Q" and "\<And>x m. Q x m \<Longrightarrow> drives m after (\<lambda>_. Q x)"
  shows "yields (deferring after f) Q"
proof (rule yieldsI, rule drives_deferring, rule drivesOn_weaken)
  show "drives m f Q" for m using assms(1) by (simp add: yields_def)
qed (rule assms(2))

lemma runEffect_answers:
  assumes q: "quietEnv cfg i recs invar env" and v: "ValidOperationID (OpID op)" "ValidSegment (blockID b)" and acts: "tracked acts"
  shows "yields (runEffect env cfg op plan b n acts) (\<lambda>x m. answered cfg m (OpID op) (blockID b) x)"
proof -
  have set: "tracked (\<lambda>s. acts (s\<lparr>runWarnings := []\<rparr>))"
    by (rule tracked_set [OF _ _ acts]) (simp_all add: runReady_def)
  have complete: "yields (orReturn env (onRun (CompleteAttempt cfg (OpID op) (blockID b) n outcome effect state evidence warned))
      (\<lambda>e. (BlockUnknown, Some e)) (\<lambda>_. unitS (state, e))) (\<lambda>x m. answered cfg m (OpID op) (blockID b) x)"
    if "AttemptTransition outcome = Inr (effect, state)" for outcome effect state evidence warned e
    by (rule yieldsI, rule drives_orReturn_run, rule does_weaken [OF does_CompleteAttempt_records [OF v that]])
      (auto simp: answered_def intro!: drives_unit)
  show ?thesis
    unfolding runEffect_def Let_def
    by (intro yields_seq set yields_prod yields_sum complete tracked_logs tracked_logFailed tracked_reads tracked_capturedAttempt [OF q]
        yields_unit) (auto simp: answered_def)
qed

lemma answers_kept:
  assumes v: "ValidOperationID i" "ValidSegment b" and "ValidOperationID j" and "answered cfg m i b x" and "logged cfg j m m'"
  shows "answered cfg m' i b x"
  using assms(4) recordedAs_kept [OF v assms(5,3)] by (auto simp: answered_def)

lemma attempt_answers:
  assumes w: "working cfg i recs invar env" and v: "ValidOperationID (OpID op)" "ValidSegment (blockID b)"
  shows "yields (attempt env cfg op plan retiring b) (\<lambda>x m. answered cfg m (OpID op) (blockID b) x)"
proof -
  have q: "quietEnv cfg i recs invar env" and cap: "\<And>k j c. EnvResolve env k j = Some c \<Longrightarrow> capable cfg i recs invar c"
    using w by (auto simp: working_def)
  have start: "tracked (onRun (StartAttempt cfg (OpID op) (blockID b) build))" for build
    by (rule tracked_write, rule does_weaken [OF does_StartAttempt [OF v]]) simp_all
  have close: "drives m (closeRequired cfg (OpID op)) (\<lambda>_ m. answered cfg m (OpID op) (blockID b) x)"
    if "answered cfg m (OpID op) (blockID b) x" for m x
    by (rule drivesOn_weaken [OF drives_closeRequired]) (rule answers_kept [OF v v(1) that])
  have released: "drives m (release (blockID b)) (\<lambda>_ m. answered cfg m (OpID op) (blockID b) x)"
    if "answered cfg m (OpID op) (blockID b) x" for m x
    by (rule drives_release) (rule that)
  have nothing: "answered cfg m i c ([], e)" "answered cfg m i c (BlockPending, e)" "answered cfg m i c (BlockUnknown, e)" for m i c e
    by (simp_all add: answered_def)
  have logged: "yields (loggedAttempt env cfg op b n target rest) (\<lambda>x m. answered cfg m (OpID op) (blockID b) x)"
    if "AttemptLogPath (OpID op) (blockID b) n 0 = Inr target" "yields rest (\<lambda>x m. answered cfg m (OpID op) (blockID b) x)" for n target rest
    unfolding loggedAttempt_def
    by (intro yields_seq yields_sum yields_deferring close yields_orReturn yields_unit nothing tracked_write does_CompleteAttempt v
        tracked_open log_paths(2) [OF v that(1)] that(2)) (simp_all add: answered_def)
  have admit: "tracked (admitAttempt env cfg op plan c removal)" for c removal
    by (simp add: tracks_def drives_admit)
  show ?thesis
    unfolding attempt_def
    by (intro yields_option yields_unit yields_lift yields_unless yields_orReturn yields_prod yields_deferring released nothing
        logged runEffect_answers [OF q v] tracked_invoke [OF q] tracked_performs [OF q cap] quiet_env [OF q] tracked_readings start admit
        tracked_if tracked_unit)
      (simp_all add: answered_def)
qed

end

end
