(* ===== verification/Guarded.thy ===== *)
theory Guarded
  imports Attempting
begin

section \<open>When an effect is called\<close>

text \<open>
  An effect is called only where the record of its attempt is durable, running and not yet prepared,
  and its block's record counts that attempt and says it runs. \<open>guardedEnv\<close> puts that test before
  every call of an effect and calls anything else where it fails; \<open>attempt\<close> cannot tell the two
  environments apart.
\<close>

definition counted :: "'w StoreConfig \<Rightarrow> recordsOf \<Rightarrow> string \<Rightarrow> string \<Rightarrow> int \<Rightarrow> Build \<Rightarrow> bool" where
  "counted cfg m i b n build \<longleftrightarrow>
     (\<exists>name p d r. FormatNumber n = Inr name \<and> m (attemptPath i b name) = Some p \<and> startedRecord cfg b n build p \<and>
        m (blockPath i b) = Some d \<and> decodedBlock cfg d r \<and> RecBlock r = b \<and> Attempts r = n \<and> RecState r = BlockRunning)"

definition guarded ::
  "'w StoreConfig \<Rightarrow> ('w \<Rightarrow> recordsOf) \<Rightarrow> 'w Env \<Rightarrow> (Execution \<Rightarrow> ('w, 'a) runStep) \<Rightarrow> (Execution \<Rightarrow> ('w, 'a) runStep) \<Rightarrow> Execution \<Rightarrow> ('w, 'a) runStep" where
  "guarded cfg recs env other call exe = (\<lambda>s.
     if counted cfg (runRecords recs s) (ExeOperation exe) (blockID (ExeBlock exe)) (ExeAttempt exe) (ranUnder env (ExeBlock exe))
     then call exe s else other exe s)"

definition guardedCap ::
  "'w StoreConfig \<Rightarrow> ('w \<Rightarrow> recordsOf) \<Rightarrow> 'w Env \<Rightarrow> (Execution \<Rightarrow> ('w, EffectResult \<times> runError option) runStep) \<Rightarrow> 'w BlockCapability \<Rightarrow> 'w BlockCapability" where
  "guardedCap cfg recs env other cap =
     cap\<lparr>CapApply := guarded cfg recs env other (CapApply cap), CapDestroy := guarded cfg recs env other (CapDestroy cap)\<rparr>"

definition guardedEnv ::
  "'w StoreConfig \<Rightarrow> ('w \<Rightarrow> recordsOf) \<Rightarrow> (Execution \<Rightarrow> ('w, EffectResult \<times> runError option) runStep) \<Rightarrow> 'w Env \<Rightarrow> 'w Env" where
  "guardedEnv cfg recs other env =
     env\<lparr>EnvResolve := (\<lambda>kind implementation. map_option (guardedCap cfg recs env other) (EnvResolve env kind implementation))\<rparr>"

subsection \<open>What an environment resolves is used only to resolve\<close>

lemmas weak_congs =
  sum.case_cong_weak option.case_cong_weak storeError.case_cong_weak list.case_cong_weak prod.case_cong_weak if_weak_cong

lemma errorFrom_resolve [simp]: "errorFrom (env\<lparr>EnvResolve := R\<rparr>) = errorFrom env"
  by (rule ext) (simp add: errorFrom_def split: storeError.split)

lemma orReturn_resolve [simp]: "orReturn (env\<lparr>EnvResolve := R\<rparr>) = orReturn env"
  by (intro ext) (simp add: orReturn_def cong del: weak_congs)

lemma ranUnder_resolve [simp]: "ranUnder (env\<lparr>EnvResolve := R\<rparr>) = ranUnder env"
  by (rule ext) (simp add: ranUnder_def)

lemma stageReading_resolve [simp]: "stageReading (env\<lparr>EnvResolve := R\<rparr>) = stageReading env"
  by (intro ext) (simp add: stageReading_def cong del: weak_congs)

lemma execution_resolve [simp]: "execution (env\<lparr>EnvResolve := R\<rparr>) = execution env"
  by (intro ext) (simp add: execution_def cong del: weak_congs)

lemma admitAttempt_resolve [simp]: "admitAttempt (env\<lparr>EnvResolve := R\<rparr>) = admitAttempt env"
  by (intro ext) (simp add: admitAttempt_def cong del: weak_congs)

lemma invoke_resolve [simp]: "invoke (env\<lparr>EnvResolve := R\<rparr>) = invoke env"
  by (intro ext) (simp add: invoke_def cong del: weak_congs)

lemma capturedAttempt_resolve [simp]: "capturedAttempt (env\<lparr>EnvResolve := R\<rparr>) = capturedAttempt env"
  by (intro ext) (simp add: capturedAttempt_def capture_def interrupted_def cong del: weak_congs)

lemma performs_resolve [simp]: "performs (env\<lparr>EnvResolve := R\<rparr>) = performs env"
  by (intro ext) (simp add: performs_def cong del: weak_congs)

lemma runEffect_resolve [simp]: "runEffect (env\<lparr>EnvResolve := R\<rparr>) = runEffect env"
  by (intro ext) (simp add: runEffect_def cong del: weak_congs)

lemma loggedAttempt_resolve [simp]: "loggedAttempt (env\<lparr>EnvResolve := R\<rparr>) = loggedAttempt env"
  by (intro ext) (simp add: loggedAttempt_def cong del: weak_congs)

subsection \<open>Steps that agree\<close>

definition agreeOn :: "('w \<Rightarrow> recordsOf) \<Rightarrow> ('w \<Rightarrow> bool) \<Rightarrow> recordsOf \<Rightarrow> ('w, 'a) runStep \<Rightarrow> ('w, 'a) runStep \<Rightarrow> bool" where
  "agreeOn recs invar m f g \<longleftrightarrow> (\<forall>s. runReady invar s \<longrightarrow> runRecords recs s = m \<longrightarrow> f s = g s)"

context store
begin

abbreviation "agree \<equiv> agreeOn recs invar"

lemma agree_refl: "agree m f f" by (simp add: agreeOn_def)

lemma agree_first: "agree m f f' \<Longrightarrow> agree m (seqS f g) (seqS f' g)"
  by (simp add: agreeOn_def seqS_def)

lemma agree_deferring: "agree m f f' \<Longrightarrow> agree m (deferring after f) (deferring after f')"
  unfolding deferring_def by (rule agree_first)

lemma agree_seq:
  assumes "drives m f (\<lambda>x m'. agree m' (g x) (h x))"
  shows "agree m (seqS f g) (seqS f h)"
  using assms by (auto simp: agreeOn_def drivesOn_def seqS_def split: prod.split)

lemma agree_unless: "drives m f (\<lambda>_ m'. agree m' g h) \<Longrightarrow> agree m (unlessFails f stop g) (unlessFails f stop h)"
  unfolding unlessFails_def
  by (rule agree_seq, erule drivesOn_weaken) (auto split: option.split intro: agree_refl)

lemma agree_orReturn: "drives m f (\<lambda>r m'. \<forall>a. r = Inr a \<longrightarrow> agree m' (g a) (h a)) \<Longrightarrow> agree m (orReturn env f stop g) (orReturn env f stop h)"
  unfolding orReturn_def
  by (rule agree_seq, erule drivesOn_weaken) (auto split: sum.split intro: agree_refl)

lemma agree_lift: "(\<And>a. r = Inr a \<Longrightarrow> agree m (g a) (h a)) \<Longrightarrow> agree m (orReturn env (liftR r) stop g) (orReturn env (liftR r) stop h)"
  by (rule agree_orReturn) (auto simp: drivesOn_def liftR_def failA_def returnA_def split: sum.split)

lemma agree_prod: "(\<And>a b. x = (a, b) \<Longrightarrow> agree m (g a b) (h a b)) \<Longrightarrow> agree m (case x of (a, b) \<Rightarrow> g a b) (case x of (a, b) \<Rightarrow> h a b)"
  by (cases x) simp

text \<open>Steps that agree while a property of the records holds, which nothing outside the protocol can end.\<close>

definition agreeWhile :: "(recordsOf \<Rightarrow> bool) \<Rightarrow> ('w, 'a) runStep \<Rightarrow> ('w, 'a) runStep \<Rightarrow> bool" where
  "agreeWhile P f g \<longleftrightarrow> (\<forall>m. P m \<longrightarrow> agree m f g)"

lemma whileI: "(\<And>m. P m \<Longrightarrow> agree m f g) \<Longrightarrow> agreeWhile P f g" by (simp add: agreeWhile_def)

lemma whileD: "agreeWhile P f g \<Longrightarrow> P m \<Longrightarrow> agree m f g" by (simp add: agreeWhile_def)

lemma while_refl: "agreeWhile P f f" by (simp add: agreeWhile_def agree_refl)

lemma while_first: "agreeWhile P f f' \<Longrightarrow> agreeWhile P (seqS f g) (seqS f' g)"
  by (simp add: agreeWhile_def agree_first)

lemma while_deferring: "agreeWhile P f f' \<Longrightarrow> agreeWhile P (deferring after f) (deferring after f')"
  by (simp add: agreeWhile_def agree_deferring)

lemma while_seq:
  assumes "\<And>m. P m \<Longrightarrow> drives m f (\<lambda>_. P')" and "\<And>x. agreeWhile P' (g x) (h x)"
  shows "agreeWhile P (seqS f g) (seqS f h)"
  by (intro whileI agree_seq, rule drivesOn_weaken [OF assms(1)]) (auto intro: whileD [OF assms(2)])

lemma while_unless:
  assumes "\<And>m. P m \<Longrightarrow> drives m f (\<lambda>_. P')" and "agreeWhile P' g h"
  shows "agreeWhile P (unlessFails f stop g) (unlessFails f stop h)"
  unfolding unlessFails_def by (rule while_seq [OF assms(1)]) (auto split: option.split intro: while_refl assms(2))

lemma while_orReturn:
  assumes "\<And>m. P m \<Longrightarrow> drives m f (\<lambda>_. P')" and "\<And>a. agreeWhile P' (g a) (h a)"
  shows "agreeWhile P (orReturn env f stop g) (orReturn env f stop h)"
  unfolding orReturn_def by (rule while_seq [OF assms(1)]) (auto split: sum.split intro: while_refl assms(2))

lemma while_lift:
  "(\<And>a. r = Inr a \<Longrightarrow> agreeWhile P (g a) (h a)) \<Longrightarrow> agreeWhile P (orReturn env (liftR r) stop g) (orReturn env (liftR r) stop h)"
  by (cases r) (auto simp: agreeWhile_def agreeOn_def orReturn_def liftR_def failA_def returnA_def seqS_def)

text \<open>A read and a step of the environment keep what nothing outside the protocol can end.\<close>

definition lasting :: "string \<Rightarrow> (recordsOf \<Rightarrow> bool) \<Rightarrow> bool" where
  "lasting i P \<longleftrightarrow> (\<forall>m m'. P m \<longrightarrow> logged cfg i m m' \<longrightarrow> P m')"

lemma lasting_quiet: "lasting i P \<Longrightarrow> quietly cfg i recs invar f \<Longrightarrow> P m \<Longrightarrow> drives m f (\<lambda>_. P)"
  by (rule drivesOn_weaken [of recs invar m f "\<lambda>_. logged cfg i m"]) (auto simp: quietly_def lasting_def)

lemma drives_read: "does m f (\<lambda>_ m'. m' = m) (\<lambda>m'. m' = m) \<Longrightarrow> P m \<Longrightarrow> drives m (onRun f) (\<lambda>_. P)"
  by (rule drives_onRun, erule does_weaken) auto

subsection \<open>The guard always holds\<close>

lemma counted_kept:
  assumes v: "ValidOperationID i" "ValidSegment b" and "logged cfg j m m'" "ValidOperationID j"
  shows "counted cfg m i b n build \<Longrightarrow> counted cfg m' i b n build"
proof -
  assume c: "counted cfg m i b n build"
  have k: "m' p = m p" if "\<not> logFile p" "p \<noteq> operationPath j" for p
    using assms(3) that by (simp add: logged_def)
  have block: "m' (blockPath i b) = m (blockPath i b)"
    using k logFile_records(4) assms(1,2,4) blockPath_distinct(2) by metis
  have at: "m' (attemptPath i b name) = m (attemptPath i b name)" if "FormatNumber n = Inr name" for name
    using k logFile_records(5) [OF _ v attempt_recordPath [OF that]]
      recordPath_distinct(3) [OF v attempt_recordPath [OF that] assms(4) v(2)] by metis
  show ?thesis using c block at unfolding counted_def by metis
qed

lemma started_counted: "started cfg m i b build n m' \<Longrightarrow> counted cfg m' i b n build"
proof -
  assume "started cfg m i b build n m'"
  then obtain r recorded s p d where r: "blockRead cfg m i b r recorded" "n = Attempts r + 1" "FormatNumber n = Inr s"
    "m' (attemptPath i b s) = Some p" "startedRecord cfg b n build p" "m' (blockPath i b) = Some d"
    "decodedBlock cfg d (r\<lparr>Attempts := n, RecState := BlockRunning\<rparr>)"
    unfolding started_def by blast
  then show ?thesis
    using blockRead_block [OF r(1)] unfolding counted_def
    by (intro exI [of _ s] exI [of _ p] exI [of _ d] exI [of _ "r\<lparr>Attempts := n, RecState := BlockRunning\<rparr>"]) simp
qed

lemma counted_lasting: "ValidOperationID i \<Longrightarrow> ValidSegment b \<Longrightarrow> lasting i (\<lambda>m. counted cfg m i b n build)"
  unfolding lasting_def using counted_kept by blast

lemma reread_guarded: "rereadBeforeRemoval (guardedCap cfg recs env other cap) = rereadBeforeRemoval cap"
  by (rule ext) (simp add: rereadBeforeRemoval_def guardedCap_def)

lemma quietly_reread:
  assumes "capable cfg i recs invar cap"
  shows "quietly cfg i recs invar (rereadBeforeRemoval cap exe)"
  unfolding quietly_def rereadBeforeRemoval_def
proof (intro allI drives_seq, rule drivesOn_weaken)
  fix m
  show "drives m (CapObserveRemoval cap exe) (\<lambda>_. logged cfg i m)" using assms by (simp add: capable_def quietly_def)
qed (auto intro!: drives_unit)

lemma guarded_agree:
  "ExeOperation exe = OpID op \<Longrightarrow> ExeBlock exe = b \<Longrightarrow> ExeAttempt exe = n \<Longrightarrow>
   agreeWhile (\<lambda>m. counted cfg m (OpID op) (blockID b) n (ranUnder env b)) (call exe) (guarded cfg recs env other call exe)"
  by (simp add: agreeWhile_def agreeOn_def guarded_def)

lemma performs_agree:
  assumes q: "quietEnv cfg (OpID op) recs invar env" and c: "capable cfg (OpID op) recs invar cap"
    and v: "ValidOperationID (OpID op)" "ValidSegment (blockID b)" and exe: "ExeOperation exe = OpID op" "ExeBlock exe = b" "ExeAttempt exe = n"
  shows "agreeWhile (\<lambda>m. counted cfg m (OpID op) (blockID b) n (ranUnder env b))
    (performs env cap op retiring reread b exe) (performs env (guardedCap cfg recs env other cap) op retiring reread b exe)"
    (is "agreeWhile ?P _ _")
proof (cases "OpVerb op = Destroy")
  case False
  then show ?thesis
    using guarded_agree [of exe op b n env "CapApply cap" other] exe by (simp add: performs_def guardedCap_def)
next
  case True
  let ?exe = "exe\<lparr>ExeRetired := retiring (blockID b)\<rparr>"
  let ?cap = "guardedCap cfg recs env other cap"
  have call: "agreeWhile ?P (CapDestroy cap ?exe) (CapDestroy ?cap ?exe)"
    using guarded_agree [of ?exe op b n env "CapDestroy cap" other] exe by (simp add: guardedCap_def)
  note last = counted_lasting [OF v]
  have keep: "quietly cfg (OpID op) recs invar (EnvKeep env ?exe)" using q by (simp add: quietEnv_def)
  have first: "?P m \<Longrightarrow> drives m (if reread then rereadBeforeRemoval cap ?exe else unitS None) (\<lambda>_. ?P)" for m
    using lasting_quiet [OF last quietly_reread [OF c]] by (auto intro: drives_unit)
  have rest: "agreeWhile ?P (unlessFails (EnvKeep env ?exe) stop (CapDestroy cap ?exe)) (unlessFails (EnvKeep env ?exe) stop (CapDestroy ?cap ?exe))" for stop
    by (rule while_unless [OF lasting_quiet [OF last keep] call])
  have settled: "agreeWhile ?P
      (case x of Some result \<Rightarrow> unitS result | None \<Rightarrow> unlessFails (EnvKeep env ?exe) stop (CapDestroy cap ?exe))
      (case x of Some result \<Rightarrow> unitS result | None \<Rightarrow> unlessFails (EnvKeep env ?exe) stop (CapDestroy ?cap ?exe))" for x stop
    by (cases x) (auto intro: rest while_refl)
  have "agreeWhile ?P (seqS (if reread then rereadBeforeRemoval cap ?exe else unitS None) (\<lambda>x.
        case x of Some result \<Rightarrow> unitS result | None \<Rightarrow> unlessFails (EnvKeep env ?exe) stop (CapDestroy cap ?exe)))
      (seqS (if reread then rereadBeforeRemoval cap ?exe else unitS None) (\<lambda>x.
        case x of Some result \<Rightarrow> unitS result | None \<Rightarrow> unlessFails (EnvKeep env ?exe) stop (CapDestroy ?cap ?exe)))" for stop
    by (rule while_seq [OF first settled])
  then show ?thesis
    unfolding performs_def Let_def reread_guarded using True by simp
qed

lemma invoke_agree:
  assumes q: "quietEnv cfg i recs invar env" and last: "lasting i P"
    and call: "\<And>exe. ExeOperation exe = OpID op \<Longrightarrow> ExeBlock exe = b \<Longrightarrow> ExeAttempt exe = n \<Longrightarrow> agreeWhile P (call exe) (call' exe)"
  shows "agreeWhile P (invoke env cfg op plan b proved applied preparations n k failed undone call)
    (invoke env cfg op plan b proved applied preparations n k failed undone call')"
proof -
  define rest where "rest call target = deferring (closeOutput cfg op b target)
      (unlessFails (EnvLaunch env) (\<lambda>e. (undone, Some e))
      (orReturn env (onRun (ownerID cfg op (blockID b))) (\<lambda>e. (undone, Some e)) (\<lambda>owner.
      let exe = execution env op plan b proved applied preparations n k owner in
      orReturn env (onRun (populateRemovalExecution cfg op plan b n k)) (\<lambda>e. (undone, Some e)) (\<lambda>removal.
      let exe = exe\<lparr>ExeRemoval := removal\<rparr> in
      unlessFails (EnvLend env op plan exe) (\<lambda>e. (undone, Some e)) (call exe)))))" for call target
  have quiet: "quietly cfg i recs invar (EnvLaunch env)" "quietly cfg i recs invar (EnvLend env op plan exe)" for exe
    using q by (auto simp: quietEnv_def)
  have owner: "P m \<Longrightarrow> drives m (onRun (ownerID cfg op c)) (\<lambda>_. P)" for m c
    by (rule drives_read) (rule store_rules; simp)
  have removal: "P m \<Longrightarrow> drives m (onRun (populateRemovalExecution cfg op plan b n k)) (\<lambda>_. P)" for m
    by (rule drives_read) (rule store_rules; simp)
  have inner: "agreeWhile P (rest call target) (rest call' target)" for target
    unfolding rest_def Let_def
    by (intro while_deferring while_unless [OF lasting_quiet [OF last quiet(1)]] while_orReturn [OF owner] while_orReturn [OF removal]
        while_unless [OF lasting_quiet [OF last quiet(2)]] call) (simp_all add: execution_def)
  show ?thesis
  proof (intro whileI, unfold agreeOn_def, intro allI impI)
    fix m and s :: "'w Run"
    assume m: "P m" and s: "runReady invar s" "runRecords recs s = m"
    let ?log = "case runLog s of Some l \<Rightarrow> logPath l | None \<Rightarrow> []"
    let ?f = "invoke env cfg op plan b proved applied preparations n k failed undone"
    show "?f call s = ?f call' s"
    proof (cases "AdapterOutputPath ?log")
      case (Inl e)
      then show ?thesis by (simp add: invoke_def)
    next
      case (Inr target)
      let ?t = "s\<lparr>runOutput := Some (OpenAdapterOutput target)\<rparr>"
      have "runLog s \<noteq> None"
        using Inr by (cases "runLog s") (auto simp: AdapterOutputPath_def cut_suffix_def split: if_splits)
      then have "logFile target" using Inr s(1) logFile_adapter by (auto simp: runReady_def)
      then have "runReady invar ?t" "runRecords recs ?t = m"
        using s by (simp_all add: runReady_def OpenAdapterOutput_def)
      then have "rest call target ?t = rest call' target ?t"
        using whileD [OF inner m, of target] by (simp add: agreeOn_def)
      then show ?thesis using Inr by (simp add: invoke_def rest_def)
    qed
  qed
qed

lemma runEffect_agree:
  assumes "agreeWhile P acts acts'"
  shows "agreeWhile P (runEffect env cfg op plan b n acts) (runEffect env cfg op plan b n acts')"
  unfolding runEffect_def
proof (rule while_first, rule whileI)
  fix m
  assume "P m"
  from whileD [OF assms this] show "agree m (\<lambda>s. acts (s\<lparr>runWarnings := []\<rparr>)) (\<lambda>s. acts' (s\<lparr>runWarnings := []\<rparr>))"
    by (simp add: agreeOn_def runReady_def)
qed

lemma loggedAttempt_agree:
  assumes v: "ValidOperationID (OpID op)" "ValidSegment (blockID b)" and "logFile target"
    and rest: "agreeWhile (\<lambda>m. counted cfg m (OpID op) (blockID b) n build) rest rest'"
  shows "agreeWhile (\<lambda>m. counted cfg m (OpID op) (blockID b) n build)
    (loggedAttempt env cfg op b n target rest) (loggedAttempt env cfg op b n target rest')" (is "agreeWhile ?P _ _")
proof -
  have opened: "drives m (openRequired cfg (OpID op) target) (\<lambda>_. ?P)" if "?P m" for m
    by (rule drivesOn_weaken [OF drives_openRequired [OF assms(3)]]) (rule counted_kept [OF v _ v(1) that])
  show ?thesis
    unfolding loggedAttempt_def
    by (rule while_seq [OF opened]) (auto split: sum.split intro: while_refl while_deferring rest)
qed

abbreviation "alike \<equiv> agreeWhile (\<lambda>_. True)"

lemma tracked_free: "tracked f \<Longrightarrow> drives m f (\<lambda>_ _. True)"
  by (rule drivesOn_weaken [OF tracks_drives]) simp_all

lemma alike_run:
  assumes "tracked (onRun f)" and "\<And>a. alike (g a) (h a)"
  shows "alike (orReturn env (onRun f) stop g) (orReturn env (onRun f) stop h)"
  by (rule while_orReturn [OF tracked_free [OF assms(1)] assms(2)])

lemma alike_admit:
  assumes "\<And>a. alike (g a) (h a)"
  shows "alike (orReturn env (admitAttempt env' cfg op plan b removal) stop g) (orReturn env (admitAttempt env' cfg op plan b removal) stop h)"
  by (rule while_orReturn [OF tracked_free assms]) (simp add: tracks_def drives_admit)

lemma alike_unless:
  assumes "tracked f" and "alike g h"
  shows "alike (unlessFails f stop g) (unlessFails f stop h)"
  by (rule while_unless [OF tracked_free [OF assms(1)] assms(2)])

lemma while_prod: "(\<And>a b. x = (a, b) \<Longrightarrow> agreeWhile P (g a b) (h a b)) \<Longrightarrow>
    agreeWhile P (case x of (a, b) \<Rightarrow> g a b) (case x of (a, b) \<Rightarrow> h a b)"
  by (cases x) simp

lemma alike_start:
  assumes "ValidOperationID i" "ValidSegment b" and "\<And>n. agreeWhile (\<lambda>m. counted cfg m i b n build) (g n) (h n)"
  shows "alike (orReturn env (onRun (StartAttempt cfg i b build)) stop g) (orReturn env (onRun (StartAttempt cfg i b build)) stop h)"
proof (rule whileI, rule agree_orReturn, rule drives_onRun)
  fix m
  show "does m (StartAttempt cfg i b build) (\<lambda>a m'. \<forall>aa. Inr a = Inr aa \<longrightarrow> agree m' (g aa) (h aa))
      (\<lambda>m'. \<forall>e a. Inl e = Inr a \<longrightarrow> agree m' (g a) (h a))"
    by (rule does_weaken [OF does_StartAttempt [OF assms(1,2)]]) (auto intro: whileD [OF assms(3)] started_counted)
qed

lemma attempt_agrees:
  assumes w: "working cfg (OpID op) recs invar env" and v: "ValidOperationID (OpID op)" "ValidSegment (blockID b)"
  shows "alike (attempt env cfg op plan retiring b) (attempt (guardedEnv cfg recs other env) cfg op plan retiring b)"
proof -
  have q: "quietEnv cfg (OpID op) recs invar env" and cap: "\<And>k j c. EnvResolve env k j = Some c \<Longrightarrow> capable cfg (OpID op) recs invar c"
    using w by (auto simp: working_def)
  let ?P = "\<lambda>n m. counted cfg m (OpID op) (blockID b) n (ranUnder env b)"
  show ?thesis
  proof (cases "EnvResolve env (Kind (Def b)) (Implementation (Def b))")
    case None
    then show ?thesis by (simp add: attempt_def guardedEnv_def while_refl)
  next
    case (Some c)
    have acts: "agreeWhile (?P n)
        (invoke env cfg op plan b proved applied preparations n 0 failed undone (performs env c op retiring reread b))
        (invoke env cfg op plan b proved applied preparations n 0 failed undone (performs env (guardedCap cfg recs env other c) op retiring reread b))"
      for n proved applied preparations failed undone reread
      by (rule invoke_agree [OF q counted_lasting [OF v] performs_agree [OF q cap [OF Some] v]])
    show ?thesis
      unfolding attempt_def guardedEnv_def
      by (simp add: Some cong del: weak_congs split del: if_split,
          intro alike_start [OF v] alike_run alike_admit alike_unless while_prod while_deferring while_lift loggedAttempt_agree [OF v] log_paths(2) [OF v]
            runEffect_agree acts)
        (auto intro: quiet_env [OF q] tracked_if tracked_unit tracked_readings)
  qed
qed

end

end
