(* ===== verification/Verdicts.thy ===== *)
theory Verdicts
  imports Driver LogLaws
begin

section \<open>What an observation proves\<close>

text \<open>
  The verdict a resolution takes from an observation, and the failure it records: text cut at a rune
  boundary, which the store accepts beside the effect the verdict leaves unknown.
\<close>

subsection \<open>Text cut at a rune boundary\<close>

lemma rune_tail_bytes:
  assumes "0 < k" and "k < rune_size s"
  shows "128 \<le> byte_of (s ! k) \<and> byte_of (s ! k) < 192"
proof -
  define n where "n = rune_size s"
  obtain c r where s: "s = c # r" using assms by (cases s) (simp_all add: rune_size_def)
  have n: "tail_ok (byte_of c) (take (n - 1) r)" "n \<le> length s" "n \<noteq> 0"
    using assms by (auto simp: n_def s rune_size_def Let_def split: if_splits)
  have "list_all (\<lambda>c. 128 \<le> byte_of c \<and> byte_of c < 192) (take (n - 1) r)"
    using n(1) by (cases "take (n - 1) r") (auto simp: tail_ok_def second_ok_def cont_byte_def list_all_iff split: if_splits)
  moreover have "take (n - 1) r ! (k - 1) = s ! k" "k - 1 < length (take (n - 1) r)"
    using assms n(2) by (auto simp: s n_def)
  ultimately show ?thesis by (metis list_all_length)
qed

lemma utf8_cut:
  "utf8_valid s \<Longrightarrow> k < length s \<Longrightarrow> \<not> (128 \<le> byte_of (s ! k) \<and> byte_of (s ! k) < 192) \<Longrightarrow> utf8_valid (take k s)"
proof (induction s arbitrary: k rule: utf8_valid.induct)
  case (1 s)
  let ?n = "rune_size s"
  have s: "s \<noteq> []" using 1(3) by auto
  then have n: "?n \<noteq> 0" "utf8_valid (drop ?n s)" using 1(2) utf8_valid_drop by auto
  consider "k = 0" | "0 < k" "k < ?n" | "?n \<le> k" by linarith
  then show ?case
  proof cases
    case 2
    then show ?thesis using rune_tail_bytes 1(4) by blast
  next
    case 3
    have "utf8_valid (take (k - ?n) (drop ?n s))"
      by (rule 1(1) [OF s n]) (use 3 1(3,4) in auto)
    moreover have "take k s = take ?n s @ take (k - ?n) (drop ?n s)"
      using 3 by (metis le_add_diff_inverse take_add)
    ultimately show ?thesis using rune_head [OF n(1)] utf8_valid_append by simp
  qed simp
qed

lemma cutRune_boundary:
  "utf8_valid t \<Longrightarrow> n < length t \<Longrightarrow> utf8_valid (take (cutRune t n) t) \<and> cutRune t n \<le> n"
proof (induction n)
  case (Suc n)
  then show ?case using utf8_cut [of t "Suc n"] by (auto simp: le_SucI)
qed simp

lemma to_replaced_valid: "utf8_valid (to_replaced inside s)"
proof (induction inside s rule: to_replaced.induct)
  case (1 inside s)
  have "utf8_valid [CHR 0xEF, CHR 0xBF, CHR 0xBD]" using utf8_valid_replacement by (simp add: replacement_def)
  then have "utf8_valid (CHR 0xEF # CHR 0xBF # CHR 0xBD # r)" if "utf8_valid r" for r
    using utf8_valid_append [OF _ that] by fastforce
  then show ?case
    using 1 by (subst to_replaced.simps) (auto intro!: utf8_valid_append rune_head)
qed

lemma bounded_valid: "utf8_valid (bounded text) \<and> length (bounded text) \<le> MaxFailureText"
proof -
  let ?v = "to_replaced False text"
  have v: "utf8_valid ?v" by (rule to_replaced_valid)
  show ?thesis
  proof (cases "length ?v \<le> MaxFailureText")
    case True
    then show ?thesis using v by (simp add: bounded_def)
  next
    case False
    then have "utf8_valid (take (cutRune ?v MaxFailureText) ?v) \<and> cutRune ?v MaxFailureText \<le> MaxFailureText"
      by (intro cutRune_boundary v) simp
    then show ?thesis using False by (simp add: bounded_def Let_def)
  qed
qed

text \<open>Valid text within the bound is kept as it is.\<close>

lemma to_replaced_same: "utf8_valid s \<Longrightarrow> to_replaced False s = s"
proof (induction s rule: utf8_valid.induct)
  case (1 s)
  show ?case
  proof (cases "s = []")
    case False
    then have n: "rune_size s \<noteq> 0" "utf8_valid (drop (rune_size s) s)" using 1(2) utf8_valid_drop by auto
    then show ?thesis using 1(1) [OF False n] False by (subst to_replaced.simps) simp
  qed (simp add: to_replaced.simps)
qed

subsection \<open>Verdicts\<close>

lemma observedEffect_valid: "ValidEffectState (observedEffect observation e removal)"
  by (auto simp: observedEffect_def removalEffect_def Let_def ValidEffectState_def)

lemma failed_unknown: "e \<noteq> None \<Longrightarrow> observedEffect observation e removal = EffectUnknown"
  by (simp add: observedEffect_def removalEffect_def Let_def)

lemma observed_completed:
  "observedEffect observation e removal = EffectCompleted \<longleftrightarrow> \<not> removal \<and> e = None \<and> ObsEffect observation = EffectCompleted"
  by (auto simp: observedEffect_def removalEffect_def Let_def ValidEffectState_def)

lemma observed_failure:
  "observationFailure e = Some f \<Longrightarrow> Resolution r \<noteq> 0 \<Longrightarrow> Phase r = ''observed'' \<Longrightarrow> Effect r = EffectUnknown \<Longrightarrow> validFailure r f"
  using bounded_valid by (auto simp: observationFailure_def validFailure_def split: option.splits list.splits if_splits)

end
