(* ===== verification/DriverSamples.thy ===== *)
theory DriverSamples
  imports Guarded Verdicts StoreExamples
begin

section \<open>A concrete environment\<close>

text \<open>
  An environment over the in-memory area whose capability performs every effect and proves nothing it
  observes, and a run that begins on an empty area.
\<close>

definition sampleCapability :: "memoryArea BlockCapability" where
  "sampleCapability =
     \<lparr>CapApply = (\<lambda>_. unitS (\<lparr>ResOutcome = ''changed'', ResEvidence = None, ResProduced = []\<rparr>, None)),
      CapDestroy = (\<lambda>_. unitS (\<lparr>ResOutcome = ''changed'', ResEvidence = None, ResProduced = []\<rparr>, None)),
      CapObserve = (\<lambda>_. unitS (noObservation, None)), CapObserveRemoval = (\<lambda>_. unitS (noObservation, None)),
      CapOffline = False, CapReplaySafe = (\<lambda>_. False)\<rparr>"

definition sampleEnv :: "memoryArea Env" where
  "sampleEnv =
     \<lparr>EnvContext = ''lab'', EnvCatalog = ''d3'', EnvExecutable = \<lparr>ExeVersion = [], Commit = []\<rparr>, EnvModified = False,
      EnvResolve = (\<lambda>_ _. Some sampleCapability), EnvAreaError = (\<lambda>_. \<lparr>Reports = [], Canceled = False\<rparr>),
      EnvInterrupted = (\<lambda>_. False), EnvInStage = id, EnvDeletion = [], EnvReleased = (\<lambda>_. False),
      EnvClaim = (\<lambda>_ _ _. unitS None), EnvReprove = (\<lambda>_. unitS None), EnvLaunch = unitS None, EnvLend = (\<lambda>_ _ _. unitS None),
      EnvKeep = (\<lambda>_. unitS None), EnvPublish = (\<lambda>_ _. unitS None), EnvExplain = (\<lambda>_ _ _ _. unitS ([], []))\<rparr>"

lemma quietly_unit: "quietly cfg i recs invar (unitS x)"
  by (simp add: quietly_def drivesOn_def unitS_def)

lemma sample_working: "working memoryConfig i memoryRecords memoryInvar sampleEnv"
  by (simp add: working_def quietEnv_def capable_def sampleEnv_def sampleCapability_def quietly_unit quietly_tracks [OF quietly_unit])

definition sampleRun :: "memoryArea Run" where "sampleRun = newRun sampleStore"

lemma sample_ready: "runReady memoryInvar sampleRun" "runRecords memoryRecords sampleRun = Map.empty"
  using sample_fits by (simp_all add: sampleRun_def runReady_def newRun_def)

lemma sample_names: "ValidOperationID (OpID sampleOperation)" "blockID (frozen sampleMachine) = ''m1''" "ValidSegment ''m1''"
proof -
  show "ValidOperationID (OpID sampleOperation)" using validateOperation_references(1) [OF sample_operation] .
qed (use sample_facts in \<open>simp_all add: sampleMachine_def sampleDefinition_def frozen_def deliberate_def clone_def\<close>)

lemma sample_segment: "ValidSegment (blockID (frozen sampleMachine))"
  by (subst sample_names(2)) (rule sample_names(3))

subsection \<open>An effect that completes\<close>

text \<open>The area a start leaves, and what completing that attempt leaves of it, evaluated call by call.\<close>

definition runningRecord :: BlockRecord where "runningRecord = firstRecord\<lparr>Attempts := 1, RecState := BlockRunning\<rparr>"
definition doneRecord :: BlockRecord where "doneRecord = runningRecord\<lparr>RecState := BlockDone\<rparr>"
definition runningText :: string where "runningText = projr (encode (blockValue runningRecord) MaxAttemptBytes)"
definition doneText :: string where "doneText = projr (encode (blockValue doneRecord) MaxAttemptBytes)"
definition startedText :: string where "startedText = projr (encode (attemptValue sampleAttempt) MaxAttemptBytes)"

definition startedFiles :: "(string \<times> string) list" where
  "startedFiles = [(sampleBlockPath, runningText), (sampleAttemptPath, startedText)]"

definition doneFiles :: "(string \<times> string) list" where
  "doneFiles = [(sampleBlockPath, doneText), (sampleAttemptPath, observedText)]"

definition startedStore :: "memoryArea Store" where "startedStore = NewStore (calmArea startedFiles [])"

lemma encode_length: "encode v n = Inr d \<Longrightarrow> length d \<le> n"
  by (auto simp: encode_def Encode_def split: option.splits if_splits)

lemma done_lengths: "length (enc_string ''done'') = 6"
  by code_simp

lemma sample_texts:
  "encode (blockValue runningRecord) MaxAttemptBytes = Inr runningText"
  "encode (blockValue doneRecord) MaxAttemptBytes = Inr doneText"
  "encode (attemptValue sampleAttempt) MaxAttemptBytes = Inr startedText"
  "encode (attemptValue observedSample) MaxAttemptBytes = Inr observedText"
proof -
  show "encode (blockValue runningRecord) MaxAttemptBytes = Inr runningText"
    using sample_encodings(2) by (auto simp: runningText_def runningRecord_def)
  have "\<exists>d. encode (blockValue doneRecord) MaxAttemptBytes = Inr d"
    by (rule encode_bound,
        simp add: blockValue_def firstRecord_def runningRecord_def doneRecord_def,
        simp add: enc_object_def sample_lengths done_lengths)
  then show "encode (blockValue doneRecord) MaxAttemptBytes = Inr doneText" by (auto simp: doneText_def)
  show "encode (attemptValue sampleAttempt) MaxAttemptBytes = Inr startedText"
    using sample_encodings(3) by (auto simp: startedText_def)
  show "encode (attemptValue observedSample) MaxAttemptBytes = Inr observedText" by (rule observed_encoding)
qed

lemma present_read:
  assumes "sampleArea fs ds" and "world s = calmArea fs ds" and "p = sampleBlockPath \<or> p = sampleAttemptPath"
    and "map_of fs p = Some d" and "length d \<le> n"
  shows "onArea (areaRead memoryOperations p n) s = (Inr (Some d), s)"
proof -
  have same: "s\<lparr>world := calmArea fs ds\<rparr> = s" using assms(2) by (metis Store.surjective Store.update_convs(1))
  show ?thesis
    using sample_admit [OF assms(1)] assms(3-5) by (auto simp: onArea_def assms(2) memoryOperations_def calm_admitted same)
qed

lemma sample_decoded:
  "\<exists>u. decodeUnder (quoting memoryConfig) attemptShape startedText MaxAttemptBytes (runningBuild memoryConfig) = Inr u \<and> attemptOf u = attemptStored sampleAttempt"
  "\<exists>u. decodeUnder (quoting memoryConfig) attemptShape observedText MaxAttemptBytes (runningBuild memoryConfig) = Inr u \<and> attemptOf u = attemptStored observedSample"
  "r \<in> {runningRecord, doneRecord} \<Longrightarrow> encode (blockValue r) MaxAttemptBytes = Inr d \<Longrightarrow>
    \<exists>u. decodeUnder (quoting memoryConfig) blockShape d MaxAttemptBytes (runningBuild memoryConfig) = Inr u \<and> Codec.blockOf u = r"
proof -
  have "map_sum id attemptOf (decodeUnder (quoting memoryConfig) attemptShape startedText MaxAttemptBytes (runningBuild memoryConfig)) = Inr (attemptStored sampleAttempt)"
    by (rule decode_running [OF sample_records(2) _ _ sample_texts(3)]) (simp_all add: startedAttempt_def)
  then show "\<exists>u. decodeUnder (quoting memoryConfig) attemptShape startedText MaxAttemptBytes (runningBuild memoryConfig) = Inr u \<and> attemptOf u = attemptStored sampleAttempt"
    by (cases "decodeUnder (quoting memoryConfig) attemptShape startedText MaxAttemptBytes (runningBuild memoryConfig)") auto
  have "map_sum id attemptOf (decodeUnder (quoting memoryConfig) attemptShape observedText MaxAttemptBytes (runningBuild memoryConfig)) = Inr (attemptStored observedSample)"
    by (rule decode_attempt [OF observed_valid _ _ sample_texts(4)])
      (simp_all add: observedSample_def observedAttempt_def startedAttempt_def canonicalRaw_def)
  then show "\<exists>u. decodeUnder (quoting memoryConfig) attemptShape observedText MaxAttemptBytes (runningBuild memoryConfig) = Inr u \<and> attemptOf u = attemptStored observedSample"
    by (cases "decodeUnder (quoting memoryConfig) attemptShape observedText MaxAttemptBytes (runningBuild memoryConfig)") auto
  have "validateBlock r = None" if "r \<in> {runningRecord, doneRecord}" for r
    using that sample_facts(2) by (auto simp: runningRecord_def doneRecord_def firstRecord_def validateBlock_def ValidBlockState_def)
  then show "r \<in> {runningRecord, doneRecord} \<Longrightarrow> encode (blockValue r) MaxAttemptBytes = Inr d \<Longrightarrow>
      \<exists>u. decodeUnder (quoting memoryConfig) blockShape d MaxAttemptBytes (runningBuild memoryConfig) = Inr u \<and> Codec.blockOf u = r"
    using decode_block [of r d "quoting memoryConfig" "runningBuild memoryConfig"]
    by (cases "decodeUnder (quoting memoryConfig) blockShape d MaxAttemptBytes (runningBuild memoryConfig)") auto
qed

lemma sample_valid_records:
  "validateBlock runningRecord = None" "validateBlock doneRecord = None" "RecBlock runningRecord = ''m1''" "RecBlock doneRecord = ''m1''"
  using sample_facts(2) by (simp_all add: runningRecord_def doneRecord_def firstRecord_def validateBlock_def ValidBlockState_def)

lemma sample_readBlock:
  assumes "sampleArea fs ds" and "world s = calmArea fs ds" and "map_of fs sampleBlockPath = Some d"
    and r: "r \<in> {runningRecord, doneRecord}" and d: "encode (blockValue r) MaxAttemptBytes = Inr d"
  shows "readBlock memoryConfig sampleID ''m1'' s = (Inr r, s\<lparr>expected := (expected s)(sampleBlockPath \<mapsto> Some d)\<rparr>)"
proof -
  obtain u where "decodeUnder (quoting memoryConfig) blockShape d MaxAttemptBytes (runningBuild memoryConfig) = Inr u" "Codec.blockOf u = r"
    using sample_decoded(3) [OF r d] by blast
  moreover have "onArea (areaRead memoryOperations sampleBlockPath MaxAttemptBytes) s = (Inr (Some d), s)"
    by (rule present_read [OF assms(1,2) _ assms(3) encode_length [OF d]]) simp
  ultimately show ?thesis
    using r sample_valid_records
    by (auto simp: readBlock_def readBlockRecord_def decoded_def action_simps memoryConfig_def sampleBlockPath_def [symmetric])
qed

lemma sample_complete:
  "\<exists>t. CompleteAttempt memoryConfig sampleID ''m1'' 1 ''changed'' ''completed'' ''done'' None [] startedStore = (Inr (), t)"
proof -
  let ?s = startedStore and ?done = "[(sampleBlockPath, runningText), (sampleAttemptPath, observedText)]"
  have w: "world ?s = calmArea startedFiles []" by (simp add: startedStore_def NewStore_def)
  have fs: "sampleArea startedFiles []" "sampleArea ?done []" by (auto simp: sampleArea_def startedFiles_def)
  have p: "map_of startedFiles sampleAttemptPath = Some startedText" using sample_paths(4) by (simp add: startedFiles_def)
  have read: "onArea (areaRead memoryOperations sampleAttemptPath MaxAttemptBytes) ?s = (Inr (Some startedText), ?s)"
    by (rule present_read [OF fs(1) w _ p encode_length [OF sample_texts(3)]]) simp
  obtain u where u: "decodeUnder (quoting memoryConfig) attemptShape startedText MaxAttemptBytes (runningBuild memoryConfig) = Inr u"
    "attemptOf u = attemptStored sampleAttempt" using sample_decoded(1) by blast
  have o: "observedAttempt (attemptStored sampleAttempt) ''changed'' ''completed'' None None sampleTime = observedSample"
    by (simp add: observedSample_def observedAttempt_def attemptStored_def startedAttempt_def)
  have e: "warnedRecord observedSample [] = Inr observedText"
    using observed_valid sample_texts(4) by (simp add: warnedRecord_def guardR_def Let_def)
  have upd: "AList.update sampleAttemptPath observedText startedFiles = ?done" using sample_paths(4) by (simp add: startedFiles_def)
  have replace: "onArea (areaReplace memoryOperations sampleAttemptPath observedText (Some startedText)) ?s = (Inr (), ?s\<lparr>world := calmArea ?done []\<rparr>)"
    using calm_calls(3) [OF fs(1) w, of sampleAttemptPath "Some startedText" observedText] p upd by simp
  let ?t = "?s\<lparr>world := calmArea ?done []\<rparr>"
  have block: "readBlock memoryConfig sampleID ''m1'' ?t = (Inr runningRecord, ?t\<lparr>expected := (expected ?t)(sampleBlockPath \<mapsto> Some runningText)\<rparr>)"
    by (rule sample_readBlock [OF fs(2) _ _ _ sample_texts(1)]) simp_all
  let ?v = "?t\<lparr>expected := (expected ?t)(sampleBlockPath \<mapsto> Some runningText)\<rparr>"
  have publish: "\<exists>t. publishBlock memoryConfig sampleID doneRecord ?v = (Inr (), t)"
    using sample_publish [OF _ _ fs(2) sample_valid_records(2,4) sample_texts(2), of ?v] by simp
  have stored: "Phase (attemptStored sampleAttempt) = ''running''" "AttBlock (attemptStored sampleAttempt) = ''m1''"
    "Number (attemptStored sampleAttempt) = 1" "Resolution (attemptStored sampleAttempt) = 0"
    by (simp_all add: attemptStored_def startedAttempt_def)
  show ?thesis
    using read sample_now [OF w] u o e replace block publish sample_number stored
    by (simp add: CompleteAttempt_def completeRecord_def decoded_def action_simps memoryConfig_def sampleAttemptPath_def [symmetric]
        doneRecord_def [symmetric] Let_def)
qed

text \<open>The block of the sample plan, run from there.\<close>

definition startedOperation :: Operation where "startedOperation = sampleOperation\<lparr>OpID := sampleID\<rparr>"

definition startedRun :: "memoryArea Run" where "startedRun = newRun startedStore"

definition changes :: "(memoryArea, EffectResult \<times> runError option) runStep" where
  "changes = unitS (\<lparr>ResOutcome = ''changed'', ResEvidence = None, ResProduced = []\<rparr>, None)"

lemma started_facts:
  "ValidOperationID (OpID startedOperation)" "OpID startedOperation = sampleID" "OpVerb startedOperation = Apply"
  using sample_facts(1) by (simp_all add: startedOperation_def sampleOperation_def)

lemma sample_apart:
  "\<not> has_prefix sampleAttemptPath (sampleBlockPath @ ''/'')" "\<not> has_prefix sampleBlockPath (sampleAttemptPath @ ''/'')"
  "\<not> has_prefix sampleAttemptPath (sampleAttemptPath @ ''/'')" "\<not> has_prefix sampleBlockPath (sampleBlockPath @ ''/'')"
  by code_simp+

lemma started_ready: "runReady memoryInvar startedRun"
proof -
  have "memoryInvar (calmArea startedFiles [])"
    using sample_paths(4) sample_apart by (auto simp: memoryInvar_def startedFiles_def IsDirectory_def)
  then show ?thesis by (simp add: startedRun_def newRun_def runReady_def startedStore_def NewStore_def)
qed

lemma changes_tracked: "tracks memoryConfig memoryRecords memoryInvar changes"
  by (simp add: changes_def quietly_tracks [OF quietly_unit])

lemma started_effect:
  "\<exists>s'. runEffect sampleEnv memoryConfig startedOperation samplePlan (frozen sampleMachine) 1 changes startedRun = ((BlockDone, None), s')"
proof -
  obtain t where t: "CompleteAttempt memoryConfig sampleID ''m1'' 1 ''changed'' ''completed'' ''done'' None [] startedStore = (Inr (), t)"
    using sample_complete by blast
  have stage: "stageReading sampleEnv None b v = None" for b v by (simp add: stageReading_def)
  have proved: "provedOutcome \<lparr>ResOutcome = ''changed'', ResEvidence = None, ResProduced = []\<rparr> None = ''changed''"
    by (simp add: provedOutcome_def ValidOutcome_def)
  have next_state: "AttemptTransition ''changed'' = Inr (''completed'', ''done'')" by (simp add: AttemptTransition_def)
  show ?thesis
    using t stage proved next_state sample_names(2)
    by (simp add: runEffect_def changes_def startedRun_def newRun_def seqS_def unitS_def Let_def capturedAttempt_def capture_def logs_def
        required_def onRunLog_def logFailedNow_def orReturn_def onRun_def started_facts)
qed

subsection \<open>The evidence of a completed block\<close>

definition doneStore :: "memoryArea Store" where "doneStore = NewStore (calmArea doneFiles [])"

definition doneEvidence :: BlockEvidence where
  "doneEvidence = \<lparr>EvBlock = None, EvKind = Kind (Def (frozen sampleMachine)), EvObject = Object (Def (frozen sampleMachine)),
     EvImplementation = Implementation (Def (frozen sampleMachine)), EvVerb = Apply, EvState = BlockDone, EvEvidence = Some ''null''\<rparr>"

lemma done_fits: "memoryInvar (world doneStore)"
  using sample_paths(4) sample_apart by (auto simp: doneStore_def NewStore_def memoryInvar_def doneFiles_def IsDirectory_def)

definition stateFile :: string where "stateFile = ''state.json''"
definition attemptFile :: string where "attemptFile = ''attempt-000001.json''"

lemma done_paths:
  "cut_prefix sampleBlockPath (sampleDirectory @ ''/'') = Some stateFile"
  "cut_prefix sampleAttemptPath (sampleDirectory @ ''/'') = Some attemptFile"
  "cut_at ''/'' stateFile = (stateFile, [], False)" "cut_at ''/'' attemptFile = (attemptFile, [], False)"
  "cut_prefix stateFile (resolutionPrefix ''000001'') = None" "cut_prefix attemptFile (resolutionPrefix ''000001'') = None"
  "stateFile \<noteq> []" "attemptFile \<noteq> []"
  by code_simp+

lemma done_members: "insert_member attemptFile x (insert_member stateFile y []) = [(attemptFile, x), (stateFile, y)] \<or>
    insert_member attemptFile x (insert_member stateFile y []) = [(stateFile, y), (attemptFile, x)]"
  by (auto simp: attemptFile_def stateFile_def)

lemma done_evidence: "\<exists>t. blockEvidence memoryConfig sampleID (frozen sampleMachine) Apply doneStore = (Inr doneEvidence, t)"
proof -
  let ?s = "doneStore" and ?t = "doneStore\<lparr>expected := (expected doneStore)(sampleBlockPath \<mapsto> Some doneText)\<rparr>"
  have w: "world ?s = calmArea doneFiles []" "world ?t = calmArea doneFiles []" by (simp_all add: doneStore_def NewStore_def)
  have fs: "sampleArea doneFiles []" by (auto simp: sampleArea_def doneFiles_def)
  have at: "map_of doneFiles sampleAttemptPath = Some observedText" using sample_paths(4) by (simp add: doneFiles_def)
  have block: "readBlock memoryConfig sampleID ''m1'' ?s = (Inr doneRecord, ?t)"
    by (rule sample_readBlock [OF fs w(1) _ _ sample_texts(2)]) (simp_all add: doneFiles_def)
  have read: "onArea (areaRead memoryOperations sampleAttemptPath MaxAttemptBytes) ?t = (Inr (Some observedText), ?t)"
    by (rule present_read [OF fs w(2) _ at encode_length [OF sample_texts(4)]]) simp
  obtain u where u: "decodeUnder (quoting memoryConfig) attemptShape observedText MaxAttemptBytes (runningBuild memoryConfig) = Inr u"
    "attemptOf u = attemptStored observedSample" using sample_decoded(2) by blast
  have a: "AttBlock (attemptStored observedSample) = ''m1''" "Number (attemptStored observedSample) = 1"
    "Phase (attemptStored observedSample) = ''observed''" "AttEvidence (attemptStored observedSample) = Some ''null''"
    by (simp_all add: observedSample_def observedAttempt_def attemptStored_def startedAttempt_def)
  have v: "validateAttempt (attemptStored observedSample) = None"
    using observed_valid
    by (auto simp: validateAttempt_def phaseCheck_def attemptStored_def observedSample_def observedAttempt_def startedAttempt_def validWarnings_def)
  have attempt: "readAttemptRecord memoryConfig sampleID ''m1'' 1 ?t = (Inr (attemptStored observedSample), ?t)"
    using read u a v sample_number
    by (simp add: readAttemptRecord_def readAttempt_def decoded_def action_simps memoryConfig_def sampleAttemptPath_def [symmetric])
  have same: "?t\<lparr>world := calmArea doneFiles []\<rparr> = ?t" by (simp add: doneStore_def NewStore_def)
  have es: "lastResolution (resolutionPrefix ''000001'') (Entries (calmArea doneFiles []) sampleDirectory) 0 = Inr 0"
    using done_paths sample_paths(13) done_members [of "int (length observedText)" "int (length doneText)"]
    by (auto simp: Entries_def listFile_def Let_def doneFiles_def)
  have entries: "onArea (areaEntries memoryOperations sampleDirectory) ?t = (Inr (Entries (calmArea doneFiles []) sampleDirectory), ?t)"
    using sample_admit(3) [OF fs] by (simp add: onArea_def w(2) memoryOperations_def calm_admitted same)
  have last: "LastResolution memoryConfig sampleID ''m1'' 1 ?t = (Inr None, ?t)"
    using entries es sample_number
    by (simp add: LastResolution_def action_simps memoryConfig_def sampleDirectory_def [symmetric])
  have r: "Attempts doneRecord = 1" "RecState doneRecord = BlockDone" by (simp_all add: doneRecord_def runningRecord_def)
  show ?thesis
    using block attempt last r a sample_names(2)
    by (simp add: blockEvidence_def action_simps doneEvidence_def Let_def)
qed

subsection \<open>An observation that failed\<close>

definition lostError :: runError where
  "lostError = plainError (failure ''ssh.unreachable'' ''Machine m1 cannot be reached'' ''restore it'')"

definition lostFailure :: ObservationFailure where
  "lostFailure = \<lparr>FailureCode = ''ssh.unreachable'', FailureMessage = ''Machine m1 cannot be reached'', FailureRemediation = ''restore it''\<rparr>"

lemma lost_failure: "observationFailure (Some lostError) = Some lostFailure"
proof -
  have "bounded t = t" if "utf8_valid t" "length t \<le> MaxFailureText" for t
    using that to_replaced_same by (simp add: bounded_def)
  moreover have "utf8_valid ''ssh.unreachable''" "utf8_valid ''Machine m1 cannot be reached''" "utf8_valid ''restore it''"
    by code_simp+
  ultimately show ?thesis
    by (simp add: observationFailure_def lostError_def lostFailure_def plainError_def failure_def NewFailureWithRemediation_def)
qed

end
