(* ===== verification/Spec2Isabelle.thy ===== *)
theory Spec2Isabelle
  imports RunSamples Lineage SizeExact Frozen StoreExamples Turns LogExamples RegisterSamples DriverSamples
begin

text \<open>
  The reconciliation core of bootwright: how desired state becomes a frozen plan of effects, how
  a plan is compared, extended and taken back, and how an operation runs one.

  \<^bold>\<open>The program.\<close> An invocation compiles the desired state of a context into block definitions,
  one for each effect. \<open>reconciliation.NewPlan\<close> validates them, resolves what they require into
  dependencies, orders them by waves and freezes them under a digest. The plan is kept with an
  operation, whose records are written through the operation store; a scheduler starts its blocks
  in dependency order, attempting effects and observing those whose outcome is unproved, and the
  state of the operation follows from the states of its blocks. A later invocation compares a
  fresh plan with the frozen one (\<open>delta.go\<close>), adds blocks to it (\<open>lineage.go\<close>), continues,
  resolves, finalizes or removes it (\<open>lifecycle/transitions.go\<close>). A removal runs the inverse of
  the plan in phases (\<open>lifecycle/removal_phases.go\<close>). Paths below are under \<open>src/internal\<close>,
  and those without a directory under \<open>src/internal/reconciliation\<close>.

  \<^bold>\<open>The theories.\<close>
  \<^item> \<open>Prelude\<close>, \<open>GoStd\<close>, \<open>Sha256\<close>, \<open>Json\<close>, \<open>JsonLaws\<close>: errors, slices and strings of Go, and
    the parts of its standard library the source uses. Parsing JSON takes fuel of two units for
    each byte; \<open>p_value_fuel\<close> shows that more changes nothing.
  \<^item> \<open>CanonicalJson\<close> (\<open>canonicaljson/canonicaljson.go\<close>): \<open>ProveObject\<close> accepts exactly the
    canonical encodings of objects. \<open>Size\<close>, \<open>SizeExact\<close> (\<open>canonicaljson/size.go\<close>): the length
    predicted for an encoding is its length.
  \<^item> \<open>Diagnostics\<close> (\<open>diagnostics/diagnostic.go\<close>): the failures every refusal returns, with the
    message of the source, and the order they are reported in.
  \<^item> \<open>States\<close> (\<open>state.go\<close>, \<open>evidence.go\<close>): the states of operations, blocks and effects, their
    transition tables and the mutation record. \<open>Identity\<close> (\<open>identity.go\<close>): block, operation and
    run identities and attempt numbers.
  \<^item> \<open>Plan\<close>, \<open>Waves\<close>, \<open>Planning\<close> (\<open>plan.go\<close>): the plan. \<open>Plan\<close> has the definitions, in the
    order of the source; \<open>Waves\<close> the measurement of the dependency graph as a locale,
    interpreted on the maps that \<open>order\<close> and \<open>ScheduleOf\<close> build; \<open>Planning\<close> what a
    constructed plan guarantees.
  \<^item> \<open>Stage\<close> (\<open>stage.go\<close>): selections and the blocks that may start. \<open>Delta\<close> (\<open>delta.go\<close>) and
    \<open>Lineage\<close> (\<open>lineage.go\<close>): comparison, addition and the joined plan.
  \<^item> \<open>Inputs\<close>, \<open>Templates\<close> (\<open>lifecycle/planning.go\<close>, \<open>produced_inputs.go\<close>, \<open>stage_tails.go\<close>,
    \<open>claims.go\<close>, \<open>support.go\<close>): what planning adds to the definitions of the capabilities and
    what it refuses.
  \<^item> \<open>Records\<close> (\<open>operationstore/records.go\<close>): the records of an operation and their validation.
  \<^item> \<open>Marshal\<close>, \<open>MarshalLaws\<close>: \<open>encoding/json\<close> over the value reflection shows, with the round trip
    of the values that conform to a shape. \<open>Codec\<close>, \<open>CodecLaws\<close>, \<open>Conforming\<close>
    (\<open>canonicaljson.go\<close>, \<open>operationstore/records.go\<close>): the closed decode of a struct, the encoding and
    decoding of each record, and that a validated record reads back. \<open>Frozen\<close>
    (\<open>frozen.go\<close>): frozen requests and their versions.
  \<^item> \<open>Area\<close> (\<open>operationstore/contracts.go\<close>): paths, the area as the operations a store calls, and the
    contract of an area as the locale \<open>area\<close>: any call may fail, and an append that fails may have
    written a part. \<open>MemoryArea\<close> (\<open>areadouble/admit.go\<close>): the in-memory area of the repository's own
    tests, which keeps the contract, with injected failures.
  \<^item> \<open>Store\<close>, \<open>AttemptStore\<close> (\<open>operationstore/store.go\<close>): the store. \<open>StoreLaws\<close> extends the contract
    to the locale \<open>store\<close> and gives each operation a rule for what holds of the records after it;
    \<open>Publication\<close> and \<open>Resolutions\<close> have the publication protocol as the step relation \<open>recordStep\<close>
    and what each call publishes; \<open>StoreInvariants\<close> what holds after any sequence of calls, and the
    interpretation on the in-memory area.
  \<^item> \<open>Logs\<close>, \<open>LogLaws\<close>, \<open>LogSessions\<close> (\<open>operationstore/logs.go\<close>): private logs and retained output, and
    what bounds them. A log that is opened takes the size its area lists, which the locale
    \<open>sized_store\<close> adds to the contract. \<open>LogExamples\<close>: a log that is opened again when it is full, and
    passes its limit.
  \<^item> \<open>Lineages\<close>, \<open>Evidence\<close> (\<open>lifecycle/lineage.go\<close>, \<open>evidence.go\<close>, \<open>removal_evidence.go\<close>): what an
    operation reads of the applies it adds to or takes back, and what their records prove.
  \<^item> \<open>Boundary\<close> (\<open>lifecycle/logging.go\<close>): the state of an invocation and its required logs, the first
    failure of which is latched. \<open>Driver\<close> (\<open>lifecycle/attempts.go\<close>, parts of \<open>produced.go\<close> and
    \<open>unresolved.go\<close>): an attempt and a resolution, over an environment of capabilities. \<open>Verdicts\<close>: what
    an observation proves. \<open>DriverLaws\<close>, \<open>Attempting\<close>: what each call and the whole make of the records;
    \<open>Guarded\<close>: that an effect is called only while its attempt is durable.
  \<^item> \<open>Transitions\<close> (\<open>lifecycle/transitions.go\<close>, \<open>commands.go\<close>, \<open>authorization.go\<close>, parts of
    \<open>attempts.go\<close> and \<open>remedies.go\<close>): what an invocation does to a held operation and what
    authorizes it.
  \<^item> \<open>Phases\<close> (\<open>lifecycle/removal_phases.go\<close>): the phases of a removal.
  \<^item> \<open>Scheduler\<close>, \<open>Scheduling\<close> (\<open>lifecycle/scheduler.go\<close>, \<open>online_gates.go\<close>): the scheduler as
    functions on its state, and the step relation with the choices of its environment left open.
    \<open>Turns\<close> lists the moves a run of the loop makes and bounds them by the blocks.
  \<^item> \<open>Samples\<close>, \<open>RunSamples\<close>, \<open>StoreSamples\<close>, \<open>StoreExamples\<close>, \<open>RegisterSamples\<close>, \<open>DriverSamples\<close>: the
    concrete plan, run, removal, records, calls of the store, registration and environment the examples
    evaluate.

  \<^bold>\<open>State and operations.\<close> A struct is a record with the fields of the source, a string enumeration
  a string with its validity test (a record read back need not hold a named value), a slice
  \<open>'a list option\<close> because a nil slice encodes differently from an empty one. An operation that
  returns an error returns a sum or an option. A map is a partial function, and where the source
  ranges over one the order is an argument (\<open>NewPlanOrdered\<close>) or the result is shown not to
  depend on it. The entropy of identity allocation, the capabilities the resolver returns and the
  answers of the scheduler's environment are arguments: nothing is assumed of them. A call of the
  store is a function from its state to a result and its state; what a context keeps is the state
  of its area, the \<open>world\<close> of a store, and a failed call returns the state it left behind. Blocks
  publish their records at the same time, under the mutexes of the store; their calls are taken
  one after the other. What a capability does, the controller's Python runtime, reservations, the
  custody of produced material and the reasons a capability gives for an effect it could not prove
  are \<open>Env\<close>, steps on the state of the invocation. The theorems about drivers take environments
  that are \<open>working\<close>: their steps write logs and may latch a log fault, but no other record, and an
  effect writes as the protocol does, for it may record its preparation through the store; this is all an execution
  hands to a capability.

  \<^bold>\<open>Termination and fuel.\<close> The loop of \<open>waves\<close> takes one turn for each block and the walk of
  \<open>cycleOf\<close> one more; \<open>waves_complete\<close> and \<open>waves_cycle_named\<close> show both end before the fuel.
  The worklist of \<open>Bind\<close>, the loop of \<open>computePhases\<close> and the loop of the scheduler have
  termination proofs: the last because a block is observed at most once and attempted at most
  once, so that two turns for each block and one more are enough (\<open>converge_within\<close>). \<open>held\<close> descends one directory for each unit of its fuel, one
  more than the entries an area may have, and \<open>held_enough\<close> shows that more fuel changes no answer; an area
  nested deeper is an error of the model. The walk over predecessors has one unit for each operation
  a context may retain.

  \<^bold>\<open>What the theorems show.\<close> Plans: C-numbered properties of \<open>NewPlan\<close> (order independence,
  topological order, waves, cycles, requirements, rebuilding, removal, narrowing). Selections,
  comparison, lineages, states, identities, canonical JSON and diagnostics follow. The scheduler
  keeps its bounds, exclusivity, the separation of attempts and observations and the order of
  dependencies in every reachable state, ends for every environment, and its loop refines the
  step relation. Authorization, the phases of a removal, the refusal of template delimiters, the
  predicted size of encodings and validated records follow. The store: whatever is called and
  wherever it fails, the records change only by the writes of the protocol in its order, no counted
  attempt loses its record, nothing observed is rewritten, a registration and a start are durable
  when they return, resolutions number upwards, a record reads back as written, and a log that was
  opened with room for its marker keeps its bound. The drivers: an effect is called only after its start is durable, what is answered is
  recorded, nothing recovery relies on is lost however effects and logs fail, a check of a removal
  never proves an effect done. They hold of every area that keeps the contract; the examples use the in-memory one.

  \<^bold>\<open>Not modelled.\<close> The area over a file system (\<open>workspace/contextfs\<close>), of which \<open>area\<close> is the
  contract; progress and presentation; the settling of operations and the registration and removal
  drivers of \<open>lifecycle\<close>, desired
  state compilation, machines, networks, storage, clusters and services (their admission rules
  are within reach of the same method), and what is input and output only: the command line, the
  workspace, the controller runtime, image building, downloads, secrets and the protocol to
  Ansible.
\<close>

lemma sample_target: "findTarget ''c1.addon'' [] (blocks samplePlan) = Some ''c1''"
proof -
  have seg: "ValidSegment ''c1''" "ValidSegment ''addon''" "cut_at ''.'' ''c1.addon'' = (''c1'', ''addon'', True)"
    by code_simp+
  show ?thesis
    using seg by (simp add: samplePlan_def sampleResolved_def sampleService_def sampleMachine_def sampleDefinition_def
        untilTarget_def frozen_def deliberate_def clone_def)
qed

lemma sample_lineage: "Lineage [sampleBase] = Inr sampleBase"
  using NewPlan_built [OF sample_base]
  by (intro Lineage_single) (auto simp: sampleBase_def elems_frozen sampleMachine_def sampleDefinition_def)

lemma sample_compare:
  "Compare sampleBase samplePlan = changeOf (frozen sampleMachine) Same
     # map (\<lambda>b. changeOf b Added) (tl (blocks samplePlan))"
proof -
  have b: "blocks samplePlan = frozen sampleMachine # tl (blocks samplePlan)"
    by (simp add: samplePlan_def sampleResolved_def)
  have "effects (frozen sampleMachine) \<noteq> None"
    using NewPlan_built [OF sample_base] by (intro effects_built [of sampleBase]) (simp_all add: sampleBase_def)
  then have "classOf (blocks samplePlan) (frozen sampleMachine) = Same"
    by (subst b) (auto simp: classOf_def differentEffects_def)
  moreover have "filter (\<lambda>b. blockID b \<notin> {''m1''}) (blocks samplePlan) = tl (blocks samplePlan)"
    by (simp add: samplePlan_def sampleResolved_def sampleService_def sampleMachine_def sampleDefinition_def)
  ultimately show ?thesis
    using built_distinct [OF sample_built]
    by (simp add: Compare_spec sampleBase_def sampleMachine_def sampleDefinition_def)
qed

lemma sample_additive: "\<exists>q. Additive samplePlan [sampleBase] = Inr q"
proof -
  have first: "FirstChange (Compare sampleBase samplePlan) = Some (changeOf (hd (tl (blocks samplePlan))) Added)"
    unfolding sample_compare by (simp add: FirstChange_def changeOf_def samplePlan_def sampleResolved_def)
  have held: "blockID ` set (blocks sampleBase) = {''m1''}"
    by (simp add: sampleBase_def sampleMachine_def sampleDefinition_def)
  have "map (additiveDefinition {''m1''}) (filter (\<lambda>b. blockID b \<notin> {''m1''}) (blocks samplePlan)) = sampleAdded"
    by (simp add: samplePlan_def sampleResolved_def sampleService_def sampleMachine_def sampleDefinition_def sampleAdded_def
        additiveDefinition_def frozen_def deliberate_def clone_def orEmpty_def deleteS_def sortS_def appendS_def Let_def)
  then have "additiveLoop {''m1''} (blocks samplePlan) [] = Inr sampleAdded"
    using sample_no_prerequisites by (simp add: additiveLoop_Inr)
  moreover have "PlanVerb samplePlan = Apply" "sampleAdded \<noteq> []"
    by (simp_all add: samplePlan_def sampleAdded_def)
  ultimately show ?thesis
    using sampleAdded_plan by (simp add: Additive_def sample_lineage first held changeOf_def)
qed

subsection \<open>Plans\<close>

text \<open>C16: NewPlan gives the same plan for the same definitions in any order, so a digest identifies intent rather than iteration order.\<close>

theorem plan_permutation:
  assumes "mset ds = mset ds'" and "NewPlan v ds = Inr p"
  shows "NewPlan v ds' = Inr p"
  using assms by (rule NewPlan_perm)

theorem plan_permutation_witness:
  "NewPlan Apply [sampleMachine, sampleCluster, sampleService] = Inr samplePlan"
  using plan_permutation [OF _ sample_plan, of "[sampleMachine, sampleCluster, sampleService]"]
  by (simp add: add_mset_commute)

text \<open>The order in which Go visits the map of known blocks never changes the result of NewPlan, refusals included.\<close>

theorem plan_map_order:
  assumes "\<And>xs. mset (rng xs) = mset xs"
  shows "NewPlanOrdered rng v ds = NewPlan v ds"
  using assms by (intro NewPlanOrdered_rng) (simp add: key_order_def)

theorem plan_map_order_witness:
  "NewPlanOrdered rev Apply [sampleCluster, sampleService, sampleMachine] = Inr samplePlan"
  using plan_map_order [of rev Apply "[sampleCluster, sampleService, sampleMachine]"] sample_plan by simp

text \<open>C1: Every plan NewPlan returns names each block once and writes a block only after every block it depends on.\<close>

theorem plan_topological:
  assumes "NewPlan v ds = Inr p"
  shows "distinct (map blockID (blocks p)) \<and>
         (\<forall>n<length (blocks p). set (dependencies (blocks p ! n)) \<subseteq> blockID ` set (take n (blocks p)))"
  using NewPlan_topological [OF assms] by blast

theorem plan_topological_witness:
  "distinct (map blockID (blocks samplePlan)) \<and>
   set (dependencies (blocks samplePlan ! 2)) \<subseteq> blockID ` set (take 2 (blocks samplePlan))"
proof -
  have "2 < length (blocks samplePlan)"
    by (simp add: samplePlan_def sampleResolved_def)
  then show ?thesis
    using plan_topological [OF sample_plan] by blast
qed

text \<open>C17: waves measures every block exactly when every dependency is known and the dependencies have no cycle: with one turn per block the loop never stops early.\<close>

theorem waves_complete:
  assumes "distinct ids" and "dom known = set ids"
  shows "(\<exists>f. waves ids known = Inr f) \<longleftrightarrow>
         (\<forall>i\<in>set ids. set (knownDeps known i) \<subseteq> set ids) \<and> acyclic {(i, d). d \<in> set (knownDeps known i)}"
proof -
  have g: "dep_graph ids known"
    using assms by unfold_locales
  show ?thesis
    using dep_graph.waves_ok [OF g] by (simp add: dep_graph.closed_def [OF g] dep_rel_def)
qed

theorem waves_complete_witness:
  "(\<exists>f. waves [''a''] [''a'' \<mapsto> sampleDefinition ''a'' StageMachines ''a'' [] []] = Inr f)"
proof -
  let ?k = "[''a'' \<mapsto> sampleDefinition ''a'' StageMachines ''a'' [] []]"
  have deps: "knownDeps ?k i = []" for i
    by (simp add: knownDeps_def sampleDefinition_def)
  show ?thesis
    by (subst waves_complete) (simp_all add: deps wf_acyclic)
qed

text \<open>The wave of a block is zero when it waits for nothing and one more than the deepest wave it waits for otherwise, the reference definition of depth.\<close>

theorem waves_depth_exact:
  assumes "distinct ids" and "dom known = set ids" and "waves ids known = Inr f"
  shows "f i = (if knownDeps known i = [] then 0 else Suc (Max (f ` set (knownDeps known i))))"
proof -
  have "dep_graph ids known"
    using assms(1,2) by unfold_locales
  then have "wave_equation known f i"
    using assms(3) by (rule dep_graph.waves_depth)
  then show ?thesis
    unfolding wave_equation_def .
qed

theorem waves_depth_exact_witness:
  "waveOf sampleResolved ''c1'' = (if knownDeps (defMap sampleResolved) ''c1'' = [] then 0
     else Suc (Max (waveOf sampleResolved ` set (knownDeps (defMap sampleResolved) ''c1''))))"
proof -
  have d: "distinct (map ID sampleResolved)"
    by code_simp
  show ?thesis
    by (rule waves_depth_exact [OF d _ plannable_waves(1) [OF sample_plannable]]) simp
qed

text \<open>A plan whose dependencies form a cycle is refused, the walk that names the cycle ends, and what it names is a closed walk along dependency edges.\<close>

theorem waves_cycle_named:
  assumes "distinct ids" and "dom known = set ids" and "\<forall>i\<in>set ids. set (knownDeps known i) \<subseteq> set ids"
    and "\<not> acyclic {(i, d). d \<in> set (knownDeps known i)}"
  shows "\<exists>c. waves ids known = Inl (cycleFailure c) \<and> 2 \<le> length c \<and> hd c = last c \<and>
         (\<forall>k. Suc k < length c \<longrightarrow> c ! Suc k \<in> set (knownDeps known (c ! k)))"
proof -
  have g: "dep_graph ids known"
    using assms(1,2) by unfold_locales
  have "dep_graph.closed ids known" "\<not> acyclic (dep_rel known)"
    using assms(3,4) by (simp_all add: dep_graph.closed_def [OF g] dep_rel_def)
  then show ?thesis
    using dep_graph.waves_cycle [OF g] unfolding dep_cycle_def dep_path_def by blast
qed

theorem waves_cycle_named_witness:
  "\<exists>c. waves [''a''] [''a'' \<mapsto> sampleDefinition ''a'' StageMachines ''a'' [] [''a'']] = Inl (cycleFailure c) \<and>
     2 \<le> length c \<and> hd c = last c"
proof -
  let ?k = "[''a'' \<mapsto> sampleDefinition ''a'' StageMachines ''a'' [] [''a'']]"
  have "(''a'', ''a'') \<in> {(i, d). d \<in> set (knownDeps ?k i)}"
    by (simp add: knownDeps_def sampleDefinition_def)
  then have "\<not> acyclic {(i, d). d \<in> set (knownDeps ?k i)}"
    unfolding acyclic_def by blast
  then have "\<exists>c. waves [''a''] ?k = Inl (cycleFailure c) \<and> 2 \<le> length c \<and> hd c = last c \<and>
      (\<forall>k. Suc k < length c \<longrightarrow> c ! Suc k \<in> set (knownDeps ?k (c ! k)))"
    by (intro waves_cycle_named) (auto simp: knownDeps_def sampleDefinition_def)
  then show ?thesis by blast
qed

text \<open>An API object a block requires is realized by some block of the plan, and every block that realizes it other than the block itself becomes a dependency.\<close>

theorem plan_requirements:
  assumes "NewPlan v ds = Inr p" and "d \<in> set ds" and "r \<in> set (Requires d)"
  shows "(\<exists>e\<in>set ds. (r, ID e) \<in> set (realizations ds)) \<and>
         (\<forall>i. (r, i) \<in> set (realizations ds) \<and> i \<noteq> ID d \<longrightarrow>
            (\<exists>b\<in>set (blocks p). blockID b = ID d \<and> i \<in> set (dependencies b)))"
proof (intro conjI allI impI)
  show "\<exists>e\<in>set ds. (r, ID e) \<in> set (realizations ds)"
    by (rule NewPlan_requirements(1) [OF assms])
  fix i assume "(r, i) \<in> set (realizations ds) \<and> i \<noteq> ID d"
  then have "(ID d, i) \<in> plan_edges p"
    using NewPlan_requirements(2) [OF assms] by blast
  then show "\<exists>b\<in>set (blocks p). blockID b = ID d \<and> i \<in> set (dependencies b)"
    by (auto simp: plan_edges_def)
qed

theorem plan_requirements_witness:
  "\<exists>b\<in>set (blocks samplePlan). blockID b = ''c1'' \<and> ''m1'' \<in> set (dependencies b)"
proof -
  let ?ds = "[sampleCluster, sampleService, sampleMachine]"
  let ?r = "\<lparr>RefKind = ''Machine'', RefObject = ''m1'', RefFamily = []\<rparr>"
  have "?r \<in> set (Requires sampleCluster)" "(?r, ''m1'') \<in> set (realizations ?ds)" "ID sampleCluster = ''c1''"
    by (simp_all add: realizations_mem sampleCluster_def sampleMachine_def sampleDefinition_def)
  then show ?thesis
    using plan_requirements [OF sample_plan, of sampleCluster ?r] by simp
qed

text \<open>C35: A plan rebuilt from its own frozen definitions is the same plan, block for block and digest for digest.\<close>

theorem plan_rebuild:
  assumes "NewPlan v ds = Inr p"
  shows "NewPlan v (map Def (blocks p)) = Inr p"
  using NewPlan_built [OF assms] NewPlan_rebuild [of p] by (auto simp: planDefs_def)

theorem plan_rebuild_witness:
  "NewPlan Apply (map Def (blocks samplePlan)) = Inr samplePlan"
  by (rule plan_rebuild [OF sample_plan])

text \<open>C31: The removal plan of a constructed plan without prerequisites always exists, holds the same blocks under the destroy verb, and waits along every edge the other way.\<close>

theorem inverse_removal:
  assumes "NewPlan v ds = Inr p" and "\<forall>b\<in>set (blocks p). elems (Prerequisites (Def b)) = []"
  shows "\<exists>q. Inverse p = Inr q \<and> PlanVerb q = Destroy \<and> blockID ` set (blocks q) = blockID ` set (blocks p) \<and>
         plan_edges q = (plan_edges p)\<inverse>"
  using NewPlan_built [OF assms(1)] Inverse_spec [OF _ assms(2)] by blast

theorem inverse_removal_witness:
  "\<exists>q. Inverse samplePlan = Inr q \<and> PlanVerb q = Destroy \<and> blockID ` set (blocks q) = {''m1'', ''dns'', ''c1''} \<and>
       (''m1'', ''c1'') \<in> plan_edges q"
proof -
  obtain q where q: "Inverse samplePlan = Inr q" "PlanVerb q = Destroy"
    "blockID ` set (blocks q) = blockID ` set (blocks samplePlan)" "plan_edges q = (plan_edges samplePlan)\<inverse>"
    using inverse_removal [OF sample_plan sample_no_prerequisites] by blast
  have "blockID ` set (blocks samplePlan) = set (map blockID (blocks samplePlan))"
    by simp
  then show ?thesis
    using q unfolding sample_ids sample_edges by auto
qed

text \<open>Narrowing a constructed plan to some of its blocks always succeeds, keeps exactly the named blocks and exactly the edges between them.\<close>

theorem retain_narrowed:
  assumes "NewPlan v ds = Inr p"
  shows "\<exists>q. Retain p ids = Inr q \<and> PlanVerb q = v \<and>
         blockID ` set (blocks q) = blockID ` set (blocks p) \<inter> set ids \<and>
         plan_edges q = plan_edges p \<inter> (set ids \<times> set ids)"
  using NewPlan_built [OF assms] Retain_spec [of p ids] by auto

theorem retain_narrowed_witness:
  "\<exists>q. Retain samplePlan [''m1'', ''dns''] = Inr q \<and> PlanVerb q = Apply \<and>
       blockID ` set (blocks q) = {''m1'', ''dns''} \<and> plan_edges q = {(''dns'', ''m1'')}"
proof -
  obtain q where q: "Retain samplePlan [''m1'', ''dns''] = Inr q" "PlanVerb q = Apply"
    "blockID ` set (blocks q) = blockID ` set (blocks samplePlan) \<inter> set [''m1'', ''dns'']"
    "plan_edges q = plan_edges samplePlan \<inter> (set [''m1'', ''dns''] \<times> set [''m1'', ''dns''])"
    using retain_narrowed [OF sample_plan] by blast
  have "blockID ` set (blocks samplePlan) = set (map blockID (blocks samplePlan))"
    by simp
  then show ?thesis
    using q unfolding sample_ids sample_edges by auto
qed

subsection \<open>Selections\<close>

text \<open>C18: A selection that ends at an object binds to a plan exactly when one block, and no second, is a target of that object; bound, it reaches that block and everything the block depends on, directly or not, and admits the blocks reached whose stage it selects.\<close>

theorem until_closure:
  assumes "NewPlan v ds = Inr p" and "SelUntil s \<noteq> []" and "Bind s p = (s', found)"
  shows "(found \<longleftrightarrow> (\<exists>!t. t \<in> set (blocks p) \<and> untilTarget t \<and> Object (Def t) = SelUntil s)) \<and>
    (\<forall>t\<in>set (blocks p). found \<longrightarrow> untilTarget t \<longrightarrow> Object (Def t) = SelUntil s \<longrightarrow>
       within s' = (plan_edges p)\<^sup>* `` {blockID t} \<and>
       (\<forall>b. Admits s' b \<longleftrightarrow> Selects (SelStages s) (BlockStage (Def b)) \<and> blockID b \<in> (plan_edges p)\<^sup>* `` {blockID t}))"
proof -
  have p: "built p" using NewPlan_built [OF assms(1)] by simp
  show ?thesis
    using Bind_found [OF p assms(2)] Bind_admits [OF p assms(2)] assms(3) by auto
qed

theorem until_closure_witness:
  "\<exists>s' t. Bind \<lparr>SelStages = Some [StageMachines], SelUntil = ''c1.addon'', within = {}\<rparr> samplePlan = (s', True) \<and>
     t \<in> set (blocks samplePlan) \<and> Object (Def t) = ''c1.addon'' \<and>
     (\<forall>b. Admits s' b \<longleftrightarrow> BlockStage (Def b) = StageMachines \<and> blockID b \<in> (plan_edges samplePlan)\<^sup>* `` {blockID t})"
proof -
  let ?s = "\<lparr>SelStages = Some [StageMachines], SelUntil = ''c1.addon'', within = {}\<rparr>"
  have b: "Bind ?s samplePlan = (?s\<lparr>within := bindLoop samplePlan {} [''c1'']\<rparr>, True)" (is "_ = (?s', True)")
    using sample_target by (simp add: Bind_def Let_def del: bindLoop.simps)
  have u: "SelUntil ?s \<noteq> []" by simp
  note c = until_closure [OF sample_plan u b]
  obtain t where t: "t \<in> set (blocks samplePlan)" "untilTarget t" "Object (Def t) = SelUntil ?s"
    using conjunct1 [OF c] by blast
  from c t have "\<forall>x. Admits ?s' x \<longleftrightarrow> Selects (SelStages ?s) (BlockStage (Def x)) \<and> blockID x \<in> (plan_edges samplePlan)\<^sup>* `` {blockID t}"
    by blast
  then show ?thesis
    using b t by (intro exI [of _ ?s'] exI [of _ t]) (simp add: Selects_def del: bindLoop.simps)
qed

text \<open>A pending block of a constructed plan is either startable under a selection or has a deferral that explains why not, never both.\<close>

theorem startable_or_deferred_iff:
  assumes "NewPlan v ds = Inr p" and "b \<in> set (blocks p)" and "blockState sts (blockID b) = BlockPending"
  shows "b \<in> set (Startable p sts s) \<longleftrightarrow> Deferrals p sts s (blockID b) = None"
  using startable_or_deferred [OF _ assms(2,3)] NewPlan_built [OF assms(1)] by blast

theorem startable_or_deferred_iff_witness:
  "blocks samplePlan ! 0 \<in> set (Startable samplePlan Map.empty \<lparr>SelStages = None, SelUntil = [], within = {}\<rparr>) \<longleftrightarrow>
     Deferrals samplePlan Map.empty \<lparr>SelStages = None, SelUntil = [], within = {}\<rparr> (blockID (blocks samplePlan ! 0)) = None"
  by (rule startable_or_deferred_iff [OF sample_plan])
    (auto simp: samplePlan_def sampleResolved_def blockState_def)

text \<open>C36: While every block is pending or done, a selection that names no stage never strands work: if it admits a pending block, some block can start.\<close>

theorem no_stranded_block:
  assumes "NewPlan v ds = Inr p" and "elems (SelStages s) = []" and "Bind s p = (s', True)"
    and "\<And>c. c \<in> set (blocks p) \<Longrightarrow> blockState sts (blockID c) \<in> {BlockPending, BlockDone}"
    and "b \<in> set (blocks p)" and "Admits s' b" and "blockState sts (blockID b) = BlockPending"
  shows "Startable p sts s' \<noteq> []"
proof -
  have p: "built p"
    using NewPlan_built [OF assms(1)] by simp
  show ?thesis
    by (rule startable_exists [OF p Bind_dependencyClosed [OF p assms(2,3)] assms(4-)])
qed

theorem no_stranded_block_witness:
  "Startable samplePlan Map.empty \<lparr>SelStages = None, SelUntil = [], within = {}\<rparr> \<noteq> []"
proof -
  let ?s = "\<lparr>SelStages = None, SelUntil = [], within = {}\<rparr> :: Selection"
  show ?thesis
  proof (rule no_stranded_block [OF sample_plan, of ?s ?s Map.empty "blocks samplePlan ! 0"])
    show "blocks samplePlan ! 0 \<in> set (blocks samplePlan)"
      by (simp add: samplePlan_def sampleResolved_def)
  qed (simp_all add: Bind_def Let_def Admits_def Selects_def blockState_def)
qed

text \<open>ParseStages accepts exactly the recognized stage names and returns each once, in the order of the stages.\<close>

theorem parse_stages_canonical:
  "(\<forall>s. ParseStages vs = Inr s \<longrightarrow> set (elems s) = set vs \<and> distinct (elems s) \<and> sorted (map stageIndex (elems s))) \<and>
   ((\<exists>s. ParseStages vs = Inr s) \<longleftrightarrow> list_all ValidStage vs)"
  using ParseStages_Inr [of vs] ParseStages_ok [of vs] by blast

theorem parse_stages_canonical_witness:
  "\<exists>s. ParseStages [''machines'', ''controller''] = Inr s \<and> set (elems s) = {''machines'', ''controller''}"
  using parse_stages_canonical [of "[''machines'', ''controller'']"] by (auto simp: ValidStage_def Stages_def)

subsection \<open>Comparison and lineage\<close>

text \<open>Compare reports no change exactly when both plans hold the same blocks and no shared block has different effects.\<close>

theorem compare_unchanged:
  assumes "distinct (map blockID (blocks frz))" and "distinct (map blockID (blocks fresh))"
  shows "FirstChange (Compare frz fresh) = None \<longleftrightarrow>
     blockID ` set (blocks frz) = blockID ` set (blocks fresh) \<and>
     (\<forall>b\<in>set (blocks frz). \<forall>c\<in>set (blocks fresh). blockID b = blockID c \<longrightarrow> \<not> differentEffects b c)"
  using assms by (rule FirstChange_None)

theorem compare_unchanged_witness:
  "FirstChange (Compare \<lparr>PlanVerb = Apply, Blocks = Some []\<rparr> samplePlan) \<noteq> None"
  using compare_unchanged [of "\<lparr>PlanVerb = Apply, Blocks = Some []\<rparr>" samplePlan] built_distinct [OF sample_built]
  by (simp add: samplePlan_def sampleResolved_def)

text \<open>The summary by API object lists each object once, in the order it first occurs, with all its blocks and the class they share, or changed when they share none.\<close>

theorem objects_summary:
  "Objects d = map (summaryOf d) (firsts (map objectKey d))"
  by (rule Objects_summary)

text \<open>C37: An addition holds exactly the blocks of the fresh plan the lineage does not, keeps the edges among them and turns each dependency on a held block into a prerequisite.\<close>

theorem additive_addition:
  assumes "NewPlan Apply ds = Inr fresh" and "Lineage ps = Inr l" and "Additive fresh ps = Inr q"
  shows "blockID ` set (blocks q) = blockID ` set (blocks fresh) - blockID ` set (blocks l) \<and>
         blockID ` set (blocks l) \<subseteq> blockID ` set (blocks fresh) \<and>
         plan_edges q = {(i, j) \<in> plan_edges fresh. i \<notin> blockID ` set (blocks l) \<and> j \<notin> blockID ` set (blocks l)} \<and>
         (\<forall>b\<in>set (blocks q). set (elems (Prerequisites (Def b))) =
            {j. (blockID b, j) \<in> plan_edges fresh \<and> j \<in> blockID ` set (blocks l)})"
proof -
  have "built fresh"
    using NewPlan_built [OF assms(1)] by simp
  note spec = Additive_spec [OF this assms(2,3)]
  show ?thesis
    by (intro conjI ballI spec)
qed

theorem additive_addition_witness:
  "\<exists>l q. Lineage [sampleBase] = Inr l \<and> Additive samplePlan [sampleBase] = Inr q \<and>
     blockID ` set (blocks q) = blockID ` set (blocks samplePlan) - blockID ` set (blocks l)"
proof -
  obtain q where q: "Additive samplePlan [sampleBase] = Inr q"
    using sample_additive by blast
  show ?thesis
    using sample_lineage q conjunct1 [OF additive_addition [OF sample_plan sample_lineage q]]
    by (intro exI [of _ sampleBase] exI [of _ q] conjI)
qed

text \<open>A lineage exists only over apply plans in which no block is named twice and every prerequisite of a plan is a block of an earlier plan.\<close>

theorem lineage_held:
  assumes "Lineage ps = Inr l"
  shows "(\<forall>p\<in>set ps. PlanVerb p = Apply) \<and> distinct (map blockID (concat (map blocks ps))) \<and>
         (\<forall>i<length ps. \<forall>b\<in>set (blocks (ps ! i)). set (elems (Prerequisites (Def b))) \<subseteq>
            blockID ` set (concat (map blocks (take i ps)))) \<and>
         blockID ` set (blocks l) = blockID ` set (concat (map blocks ps))"
  using Lineage_ok [OF assms] unfolding lineage_ok_def by blast

theorem lineage_held_witness:
  "distinct (map blockID (concat (map blocks [sampleBase])))"
  using lineage_held [OF sample_lineage] by blast

subsection \<open>States, evidence and identities\<close>

text \<open>The state of an operation from the states of its blocks: an unrecognized state refuses, then unknown, failed, done, paused and running in that priority.\<close>

theorem next_operation_state:
  "NextOperationState ss boundary =
     (if \<not> list_all ValidBlockState ss then Inl (stateError ''lifecycle block state is not recognized'')
      else if BlockUnknown \<in> set ss then Inr OperationUnknown
      else if BlockFailed \<in> set ss then Inr OperationFailed
      else if \<forall>s\<in>set ss. s = BlockDone then Inr OperationDone
      else if boundary then Inr OperationPaused else Inr OperationRunning)"
  by (rule NextOperationState_spec)

theorem next_operation_state_witness:
  "NextOperationState [BlockDone, BlockPending] True = Inr OperationPaused"
  using next_operation_state [of "[BlockDone, BlockPending]" True] by (simp add: ValidBlockState_def)

text \<open>The mutation record a context carries is read back exactly as written, and nothing invalid is ever read.\<close>

theorem evidence_roundtrip:
  "(\<forall>e data. ValidEvidence e \<and> EvidenceBytes e = Inr data \<longrightarrow> ReadEvidence data = Some e) \<and>
   (\<forall>e data. ReadEvidence data = Some e \<longrightarrow> ValidEvidence e)"
  using ReadEvidence_Bytes ReadEvidence_valid by blast

theorem evidence_roundtrip_witness:
  "\<exists>data. EvidenceBytes PristineEvidence = Inr data \<and> ReadEvidence data = Some PristineEvidence"
proof -
  have "ValidEvidence PristineEvidence"
    by (simp add: ValidEvidence_def PristineEvidence_def)
  moreover from this obtain data where "EvidenceBytes PristineEvidence = Inr data"
    by (auto simp: EvidenceBytes_def)
  ultimately show ?thesis
    using evidence_roundtrip by blast
qed

text \<open>An attempt number is written in exactly one way: a text parses to a number exactly when it is what the number formats to, and only numbers from 1 to 999999 format.\<close>

theorem number_canonical:
  "(ParseNumber s = Inr n \<longleftrightarrow> FormatNumber n = Inr s) \<and> (okR (FormatNumber n) \<longleftrightarrow> 1 \<le> n \<and> n \<le> 999999)"
  using ParseNumber_Format [of n s] ParseNumber_sound [of s n] by (auto simp: FormatNumber_def)

text \<open>An operation identity is allocated only from entropy: what is allocated is well formed and not taken.\<close>

theorem allocation_fresh:
  assumes "AllocateOperationID entropy taken w = (Inr i, w')"
  shows "ValidOperationID i \<and> (\<exists>e t. entropy = Some e \<and> taken = Some t \<and> \<not> t i)"
  using assms allocateLoop_sound
  by (fastforce simp: AllocateOperationID_def allocateIdentity_def ValidOperationID_def split: option.splits)

theorem allocation_fresh_witness:
  "ValidOperationID (operationIDPrefix @ hex_encode (replicate 16 CHR ''x''))"
proof -
  let ?e = "\<lambda>w n. (replicate n CHR ''x'', False, w)"
  have r: "readFull ?e operationEntropy () = (Inr (replicate 16 CHR ''x''), ())"
    by (subst readFull.simps) (simp add: readFull.simps)
  have "allocateLoop n operationIDPrefix ?e (\<lambda>_. False) () = (Inr (operationIDPrefix @ hex_encode (replicate 16 CHR ''x'')), ())"
    if "n = Suc m" for n m
    unfolding that by (simp only: allocateLoop.simps r prod.case sum.case Let_def not_False_eq_True if_True)
  from this [of allocationAttempts 15]
  have "AllocateOperationID (Some ?e) (Some (\<lambda>_. False)) () = (Inr (operationIDPrefix @ hex_encode (replicate 16 CHR ''x'')), ())"
    by (simp add: AllocateOperationID_def allocateIdentity_def)
  from allocation_fresh [OF this] show ?thesis by simp
qed

text \<open>A block identity built from a prefix and a tail never exceeds the length of a segment, and is a valid segment when its text is alphanumeric or a hyphen with an alphanumeric first and last character.\<close>

theorem block_identity_bounded:
  assumes "prefix @ tail \<noteq> []" and "\<forall>c\<in>set (prefix @ tail). alphanumeric c \<or> c = CHR ''-''"
    and "alphanumeric (hd (prefix @ tail))" and "alphanumeric (last (prefix @ tail))"
  shows "length (BlockIdentity prefix tail) \<le> 63 \<and> ValidSegment (BlockIdentity prefix tail)"
  using BlockIdentity_length [of prefix tail] BlockIdentity_valid [OF assms(2-4) assms(1)] by simp

theorem block_identity_bounded_witness:
  "length (BlockIdentity ''machine-'' (replicate 80 CHR ''a'')) \<le> 63 \<and> ValidSegment (BlockIdentity ''machine-'' (replicate 80 CHR ''a''))"
proof -
  have "alphanumeric CHR ''a''" "alphanumeric CHR ''m''" "\<forall>c\<in>set ''machine-''. alphanumeric c \<or> c = CHR ''-''"
    by code_simp+
  then show ?thesis
    by (intro block_identity_bounded) auto
qed

subsection \<open>Encodings and diagnostics\<close>

text \<open>C33: ProveObject accepts exactly the encodings of well-formed JSON objects whose keys are sorted and unique at every level, so a digest of accepted bytes identifies their content.\<close>

theorem canonical_object:
  "proveObject data = None \<longleftrightarrow>
   (\<exists>ms. wf_json 0 (JObj ms) \<and> canonical (JObj ms) \<and> data = print_json (JObj ms))"
  by (rule proveObject_iff)

text \<open>Sorting diagnostics keeps them all and leaves them in the order of the comparison.\<close>

theorem diagnostics_sorted:
  "mset (SortDiagnostics ds) = mset ds \<and> sorted_wrt (\<lambda>a b. CompareDiagnostics a b \<le> 0) (SortDiagnostics ds)"
  by (simp add: sorted_SortDiagnostics)

subsection \<open>The scheduler\<close>

text \<open>C28: In every reachable state of the scheduler, whatever its environment does, the blocks in flight are distinct blocks of the plan, no more than the bound, and while an attempt runs no throttle group has more of them than the throttle.\<close>

theorem scheduler_bounds:
  assumes "reached c sts s" and "built (schedPlan c)" and "0 < bound c" and "0 < throttle c"
  shows "distinct (running s) \<and> set (running s) \<subseteq> blockID ` set (planOf c) \<and> int (length (running s)) \<le> bound c \<and>
         {(i, t). attempting s i \<and> t \<noteq> [] \<and> throttle c < int (length (filter (\<lambda>j. throttleOf c j = t) (running s)))} = {}"
proof -
  have ok: "schedulerOK c s"
    by (rule reached_OK [OF assms(1) built_distinct [OF assms(2)]])
  have "distinct (running s) \<and> set (running s) \<subseteq> blockID ` set (planOf c) \<and> int (length (running s)) \<le> bound c"
    using ok assms(3) by (simp add: schedulerOK_def flightsOK_def)
  moreover have "{(i, t). attempting s i \<and> t \<noteq> [] \<and> throttle c < int (length (filter (\<lambda>j. throttleOf c j = t) (running s)))} = {}"
    using schedulerOK_throttle [OF ok _ _ assms(4)] by (auto simp: not_less [symmetric])
  ultimately show ?thesis by blast
qed

theorem scheduler_bounds_witness:
  "running sampleStarted = [''m1''] \<and> int (length (running sampleStarted)) \<le> 8"
  using scheduler_bounds [OF sample_started sample_config(1)]
  by (simp add: sampleStarted_def start_running newScheduler_def sample_fields sampleMachine_def sampleDefinition_def)

text \<open>C9: In every reachable state, two attempts in flight never need the same exclusive resource.\<close>

theorem scheduler_exclusive:
  assumes "reached c sts s" and "built (schedPlan c)"
  shows "{(i, j). attempting s i \<and> attempting s j \<and> exclusiveOf c i \<inter> exclusiveOf c j \<noteq> {}} \<subseteq> Id"
  using schedulerOK_exclusive [OF reached_OK [OF assms(1) built_distinct [OF assms(2)]]] by blast

theorem scheduler_exclusive_witness:
  "attempting sampleStarted ''m1'' \<and>
   {(i, j). attempting sampleStarted i \<and> attempting sampleStarted j \<and> exclusiveOf sampleConfig i \<inter> exclusiveOf sampleConfig j \<noteq> {}} \<subseteq> Id"
  using scheduler_exclusive [OF sample_started sample_config(1)]
  by (simp add: sampleStarted_def start_flights sample_fields newScheduler_def unproved_def stateAt_def sampleMachine_def sampleDefinition_def)

text \<open>C10: No effect is attempted beside an unproved one: in every reachable state attempts and observations are never in flight together, and the next block admission chooses is an observation as long as any block of the plan is unproved.\<close>

theorem scheduler_separation:
  assumes "reached c sts s" and "built (schedPlan c)"
  shows "{(i, j). attempting s i \<and> observingNow s j} = {} \<and>
         {(b, x). b \<in> fst ` set_option (nextBlock c s) \<and> \<not> unproved (stateAt (states s) (blockID b)) \<and>
                  x \<in> set (planOf c) \<and> unproved (stateAt (states s) (blockID x))} = {}"
proof -
  have "schedulerOK c s"
    by (rule reached_OK [OF assms(1) built_distinct [OF assms(2)]])
  then have "{(i, j). attempting s i \<and> observingNow s j} = {}"
    unfolding schedulerOK_def separateOK_def by blast
  moreover have "{(b, x). b \<in> fst ` set_option (nextBlock c s) \<and> \<not> unproved (stateAt (states s) (blockID b)) \<and>
      x \<in> set (planOf c) \<and> unproved (stateAt (states s) (blockID x))} = {}"
    using nextBlock_unproved [of c s] by (fastforce simp: list_ex_iff)
  ultimately show ?thesis by blast
qed

theorem scheduler_separation_witness:
  "attempting sampleStarted ''m1'' \<and> {j. observingNow sampleStarted j} = {}"
proof -
  have "attempting sampleStarted ''m1''"
    by (simp add: sampleStarted_def start_flights sample_fields newScheduler_def unproved_def stateAt_def sampleMachine_def sampleDefinition_def)
  then show ?thesis
    using scheduler_separation [OF sample_started sample_config(1)] by blast
qed

text \<open>C8: When everything that already left pending stands on finished dependencies and no inverse runs before a stop, every reachable state keeps it so: a block that left pending, or is in flight, has only done dependencies, and no done block is ever started again.\<close>

theorem scheduler_dependencies:
  assumes "reached c sts s" and "built (schedPlan c)" and "preStop (phases c) = {}"
    and "\<And>b. b \<in> set (planOf c) \<Longrightarrow> blockState sts (blockID b) \<noteq> BlockPending \<Longrightarrow>
          \<forall>i\<in>set (dependencies b). blockState sts i = BlockDone"
  shows "(\<forall>b\<in>set (planOf c). blockState (states s) (blockID b) \<noteq> BlockPending \<or> blockID b \<in> set (running s) \<longrightarrow>
            (\<forall>i\<in>set (dependencies b). blockState (states s) i = BlockDone)) \<and>
         (\<forall>i\<in>set (running s). blockState (states s) i \<noteq> BlockDone)"
  using reached_dependencies [OF assms] unfolding dependenciesDone_def .

theorem scheduler_dependencies_witness:
  "''m1'' \<in> set (running sampleStarted) \<and> blockState (states sampleStarted) ''m1'' \<noteq> BlockDone"
proof -
  have "''m1'' \<in> set (running sampleStarted)"
    by (simp add: sampleStarted_def start_running newScheduler_def sample_fields sampleMachine_def sampleDefinition_def)
  then show ?thesis
    using scheduler_dependencies [OF sample_started sample_config(1,3)] by (simp add: blockState_def)
qed

text \<open>C11: The loop converge, whatever its environment reports, returns within two turns for each block and one more, with nothing left in flight, by a run of the step relation; and in every such run no block starts an observation twice or an attempt twice, so a run makes at most four moves for each block.\<close>

theorem scheduler_terminates:
  assumes "built (schedPlan c)"
  shows "convergeWithin (2 * length (planOf c) + 1) c env (newScheduler sts) = Some (converge c env (newScheduler sts)) \<and>
    running (converge c env (newScheduler sts)) = [] \<and> (\<exists>ms. moves c sts ms (converge c env (newScheduler sts))) \<and>
    (\<forall>ms s. moves c sts ms s \<longrightarrow> distinct (startsOf ms) \<and> length ms \<le> 4 * length (planOf c))"
proof -
  note d = built_distinct [OF assms]
  show ?thesis
    using converge_within [OF d] converge_reached [OF d reached.init] reached_moves moves_distinct [OF _ d] moves_bounded [OF _ d]
    by blast
qed

theorem scheduler_terminates_witness:
  "\<exists>ms s. convergeWithin 7 sampleConfig
     \<lparr>cancelled = (\<lambda>_. False), logFaulted = (\<lambda>_. False), quiescence = (\<lambda>_ _. None), ends = (\<lambda>_. []),
      reports = (\<lambda>_ _. \<lparr>reportState = BlockDone, reportErr = None, reportRecord = None, reportWarnings = []\<rparr>)\<rparr>
     (newScheduler Map.empty) = Some s \<and> running s = [] \<and> moves sampleConfig Map.empty ms s \<and> distinct (startsOf ms) \<and> length ms \<le> 12"
proof -
  have n: "length (planOf sampleConfig) = 3"
    by (simp add: sampleConfig_def samplePlan_def sampleResolved_def)
  show ?thesis
    using scheduler_terminates [OF sample_config(1), unfolded n] by fastforce
qed

text \<open>C29: The loop converge refines the step relation of the scheduler: from any reachable state it only goes to reachable states, so every invariant of the relation holds of the executable loop.\<close>

theorem scheduler_refinement:
  assumes "built (schedPlan c)" and "reached c sts s"
  shows "reached c sts (converge c env s)"
  using converge_reached [OF built_distinct [OF assms(1)] assms(2)] by blast

theorem scheduler_refinement_witness:
  "reached sampleConfig Map.empty (converge sampleConfig
     \<lparr>cancelled = (\<lambda>_. False), logFaulted = (\<lambda>_. False), quiescence = (\<lambda>_ _. None), ends = (\<lambda>_. []),
      reports = (\<lambda>_ _. \<lparr>reportState = BlockDone, reportErr = None, reportRecord = None, reportWarnings = []\<rparr>)\<rparr> sampleStarted)"
  by (rule scheduler_refinement [OF sample_config(1) sample_started])

subsection \<open>Transitions and authorization\<close>

text \<open>The verb a context chooses by itself is refused in one case only, a completed destroy that still holds a block not done; and continuing, resolving and finalizing are only ever classified for the verb of an operation that is not done.\<close>

theorem chosen_verb_admitted:
  "(classify (chosenVerb h) h = transitionRefuse) =
     (isHeld h \<and> heldState h = OperationDone \<and> heldVerb h = Destroy \<and> heldPending h) \<and>
   {v. classify v h \<in> {transitionContinue, transitionResolve, transitionFinalize}}
     \<subseteq> {v. isHeld h \<and> heldVerb h = v \<and> heldState h \<noteq> OperationDone}"
  using classify_chosen [of h] classify_own_verb [of _ h] by blast

text \<open>C30: authorize accepts exactly the tokens the plan consumes: every token supplied is required, every token required is supplied, and each is bound to the digest of its steps or, when the invocation is attended, to none.\<close>

theorem authorize_exact:
  "(authorize n v s p as u unattended = None) =
     (suppliedToken ` set as = set (requiredTokens p) \<and>
      list_all (\<lambda>t. if suppliedDigests as t = [] then \<not> unattended
                    else suppliedDigests as t = AuthorizationDigest p t) (requiredTokens p))"
  unfolding authorize_None_iff list_all_iff by blast

text \<open>The authorizations a remedy names for a constructed plan pass authorize against that plan, attended or not.\<close>

theorem authorizing_passes:
  assumes "NewPlan verb ds = Inr p"
  shows "authorize n v s p (flagValues (authorizing p)) u unattended = None"
  using authorizing_accepted NewPlan_built [OF assms] by blast

theorem authorizing_passes_witness:
  "authorize ''lab'' Apply sampleSelection samplePlan (flagValues (authorizing samplePlan)) [] True = None"
  by (rule authorizing_passes [OF sample_plan])

subsection \<open>The phases of a removal\<close>

text \<open>C27: A block a removal retires with its hosts leaves no machine behind: the block is bound to hosts, every one of them is taken away by a Machine block that depends on it in the same removal, none of them is deferred, the block is no online effect, and no consumer outlives it.\<close>

theorem phases_retired_safe:
  assumes "NewPlan Destroy ds = Inr p" and "b \<in> set (blocks p)" and "isTrue (retired (computePhases resolve p)) (blockID b)"
  shows "(\<exists>ms. hostsOf resolve b = Some ms \<and> ms \<noteq> [] \<and>
            (\<forall>m\<in>set ms. \<exists>x\<in>set (blocks p). Kind (Def x) = MachineKind \<and> Object (Def x) = m \<and>
               (blockID x, blockID b) \<in> (plan_edges p)\<^sup>+ \<and> asks RemovesHost resolve x)) \<and>
         \<not> hostsDeferred resolve b p (machines (computePhases resolve p)) \<and>
         blockID b \<notin> onlineEffects (computePhases resolve p) \<and> survivors (computePhases resolve p) (blockID b) = []"
proof -
  have p: "built p" "PlanVerb p = Destroy"
    using NewPlan_built [OF assms(1)] by simp_all
  obtain ret hosts surv where r: "retiredWithHosts resolve p = (ret, hosts, surv)"
    by (cases "retiredWithHosts resolve p")
  note st = computePhases_stable [OF p(2) r]
  have "isTrue ret (blockID b)"
    using st(1) assms(3) by (auto simp: isTrue_def map_le_def dom_def)
  note safe = retiredWithHosts_safe [OF p(1) r this assms(2)]
  have "\<not> hostsDeferred resolve b p (machines (computePhases resolve p))"
    using st(3,5) assms(2,3) by (simp add: unretired_empty)
  moreover have "blockID b \<notin> onlineEffects (computePhases resolve p)"
    using st(2) assms(3) by (auto simp: effectsOf_def)
  ultimately show ?thesis
    using safe st(4) by simp
qed

theorem phases_retired_safe_witness:
  "\<not> hostsDeferred sampleResolver (hd (blocks sampleRemoval)) sampleRemoval (machines (computePhases sampleResolver sampleRemoval)) \<and>
   survivors (computePhases sampleResolver sampleRemoval) ''dns'' = []"
  using phases_retired_safe [OF sampleRemoval_plan sampleRemoval_retired(1,2)] sampleRemoval_retired(3) by simp

text \<open>The one pass over the blocks of a removal finds exactly the Machines that must wait: those that probe quiescence, are no online effect themselves, and depend, directly or not, on an online effect.\<close>

theorem phases_deferred_exact:
  assumes "NewPlan Destroy ds = Inr p"
  shows "machines (computePhases resolve p) =
    blockID ` {b \<in> set (blocks p). BlockStage (Def b) = StageMachines \<and> probes resolve b \<and>
      blockID b \<notin> onlineEffects (computePhases resolve p) \<and>
      (\<exists>e\<in>onlineEffects (computePhases resolve p). (blockID b, e) \<in> (plan_edges p)\<^sup>+)}"
proof -
  have p: "built p" "PlanVerb p = Destroy"
    using NewPlan_built [OF assms] by simp_all
  obtain ret hosts surv where r: "retiredWithHosts resolve p = (ret, hosts, surv)"
    by (cases "retiredWithHosts resolve p")
  note st = computePhases_stable [OF p(2) r]
  show ?thesis
    unfolding st(2) by (subst st(3)) (rule deferral_machines [OF p(1)])
qed

theorem phases_deferred_exact_witness:
  "machines (computePhases sampleResolver sampleRemoval) = {}"
proof -
  have "onlineEffects (computePhases sampleResolver sampleRemoval) = {}"
    by (rule sampleRemoval_effects)
  then show ?thesis
    using phases_deferred_exact [OF sampleRemoval_plan, of sampleResolver] by simp
qed

subsection \<open>Requests and encodings\<close>

text \<open>C32: A definition that passes the shape check of its request and the refusal of template delimiters carries the text of one canonical object in which no string and no key contains a template delimiter and no key is reserved by ansible-core.\<close>

theorem requests_template_free:
  assumes "canonicalRequest (Request d) = None" and "RefuseTemplateDelimiters quote contextName ds = None" and "d \<in> set ds"
  shows "\<exists>ms. Request d = print_json (JObj ms) \<and> canonical (JObj ms) \<and> templateFree (JObj ms)"
proof (rule canonical_request_template_free [OF assms(1)])
  show "refuseTemplateValues quote contextName (contextCommand contextName ''plan'' []) [d] = None"
    using assms(2,3) by (simp add: RefuseTemplateDelimiters_def refuseTemplateValues_None)
qed

theorem requests_template_free_witness:
  "\<exists>ms. ''{}'' = print_json (JObj ms) \<and> templateFree (JObj ms)"
proof -
  have "parse_value ''{}'' = Some (JObj [], [])"
    by code_simp
  then have "RefuseTemplateDelimiters (\<lambda>s. s) ''lab'' [sampleMachine] = None"
    by (simp add: RefuseTemplateDelimiters_def refuseTemplateValues_None sampleMachine_def sampleDefinition_def)
  moreover have "canonicalRequest (Request sampleMachine) = None"
    using sample_request by (simp add: sampleMachine_def sampleDefinition_def)
  ultimately show ?thesis
    using requests_template_free [of sampleMachine "\<lambda>s. s" "''lab''" "[sampleMachine]"]
    by (auto simp: sampleMachine_def sampleDefinition_def)
qed

text \<open>C34: Size predicts the encoding exactly: for a value whose struct tags are well formed it answers just for the shapes it accepts, nested no deeper and encoding no longer than its limits, and the answer is the length of what json.Marshal writes.\<close>

theorem size_exact:
  assumes "wellTagged v" and "0 \<le> limit" and "0 \<le> most"
  shows "Size v limit most =
     (if predictable v \<and> int (nesting v) \<le> most \<and> int (length (textOf v)) \<le> limit
      then Some (int (length (textOf v))) else None)"
  using assms by (rule Size_exact)

theorem size_exact_witness:
  "Size (RSlice (Some [RBool True, RString ''<''])) 32 4 = Some 15"
proof -
  have "length (enc_string ''<'') = 8"
    by code_simp
  then show ?thesis
    using size_exact [of "RSlice (Some [RBool True, RString ''<''])" 32 4] by simp
qed

subsection \<open>Records\<close>

text \<open>C38: A validated operation record is well formed as part of a lineage: its identity and verb are valid, a destroy names the operation it removes, a replacement is a destroy that names neither itself nor its source, a predecessor belongs to an apply and is another operation, and its bindings are a sorted set.\<close>

theorem operation_references:
  assumes "validateOperation op = None"
  shows "ValidOperationID (OpID op) \<and> OpVerb op \<in> {Apply, Destroy} \<and>
         (OpVerb op = Destroy \<longrightarrow> ValidOperationID (OpSource op)) \<and>
         (Replaces op \<noteq> [] \<longrightarrow> OpVerb op = Destroy \<and> Replaces op \<noteq> OpID op \<and> Replaces op \<noteq> OpSource op) \<and>
         (Predecessor op \<noteq> [] \<longrightarrow> OpVerb op = Apply \<and> ValidOperationID (Predecessor op) \<and> Predecessor op \<noteq> OpID op) \<and>
         sorted (elems (Bindings op)) \<and> distinct (elems (Bindings op))"
  using validateOperation_references [OF assms] by blast

theorem operation_references_witness:
  "validateOperation sampleOperation = None \<and> ValidOperationID (OpID sampleOperation)"
  using operation_references [OF sample_operation] sample_operation by blast

subsection \<open>The operation store\<close>

text \<open>C2: Whatever calls are made of stores on an area that keeps its contract, and whichever call to the area fails, the records change only by the durable writes of the publication protocol in its order: a block record before its attempts, an attempt before the block counts it, a plan and an operation before the index names them, an attempt only while it is running.\<close>

theorem store_publishes_in_order:
  assumes "store cfg recs invar" and "invar w" and "(storeCall cfg)\<^sup>*\<^sup>* w w'"
  shows "invar w' \<and> (recordStep cfg)\<^sup>*\<^sup>* (recs w) (recs w')"
  by (rule store.calls_publish [OF assms(1,3,2)])

theorem store_publishes_in_order_witness:
  "(recordStep memoryConfig)\<^sup>*\<^sup>* Map.empty (memoryRecords (world sampleAfter))"
  using store_publishes_in_order [OF memory_store.store_axioms sample_fits(1) sample_call] sample_fits(2) by simp

text \<open>C4: After any sequence of calls on an area whose records were in order, on one that held none for example, every attempt a block record counts has a record, and an operation the index names has its plan and its record: an interruption at any write loses no attempt an effect may have run under.\<close>

theorem attempts_recorded:
  assumes "store cfg recs invar" and "invar w" and "(storeCall cfg)\<^sup>*\<^sup>* w w'"
    and "countsAttempts cfg (recs w)" and "indexNames cfg (recs w)"
  shows "countsAttempts cfg (recs w') \<and> indexNames cfg (recs w')"
  using store.calls_keep [OF assms(1,3,2), of "countsAttempts cfg"] store.calls_keep [OF assms(1,3,2), of "indexNames cfg"]
    assms(4,5) step_counts step_index by metis

theorem attempts_recorded_witness:
  "countsAttempts memoryConfig (memoryRecords (world sampleAfter)) \<and> indexNames memoryConfig (memoryRecords (world sampleAfter))"
  using attempts_recorded [OF memory_store.store_axioms sample_fits(1) sample_call, unfolded sample_fits(2), OF empty_records] .

text \<open>C7: A start that returns a number has published the record of that attempt, running and naming its build, and a block record that counts it and says it runs; the number is the one after those the block counted, and no other record changed.\<close>

theorem start_attempt_durable:
  assumes "store cfg recs invar" and "invar (world s)" and "ValidOperationID i" and "ValidSegment b"
    and "StartAttempt cfg i b build s = (Inr n, s')"
  shows "\<exists>r recorded name p d. blockRead cfg (recs (world s)) i b r recorded \<and> n = Attempts r + 1 \<and> FormatNumber n = Inr name \<and>
    recs (world s') (attemptPath i b name) = Some p \<and> startedRecord cfg b n build p \<and>
    recs (world s') (blockPath i b) = Some d \<and> decodedBlock cfg d (r\<lparr>Attempts := n, RecState := BlockRunning\<rparr>) \<and>
    (\<forall>q. q \<noteq> attemptPath i b name \<longrightarrow> q \<noteq> blockPath i b \<longrightarrow> recs (world s') q = recs (world s) q)"
  using doesOn_Inr [OF store.does_StartAttempt [OF assms(1,3,4)] assms(2,5)] by (simp only: started_def)

theorem start_attempt_durable_witness:
  "fst (StartAttempt memoryConfig sampleID ''m1'' sampleBuild sampleStore) = Inr 1 \<and>
   (\<exists>p. memoryRecords (world sampleAfter) (attemptPath sampleID ''m1'' ''000001'') = Some p \<and> startedRecord memoryConfig ''m1'' 1 sampleBuild p)"
proof -
  obtain name p where "FormatNumber 1 = Inr name" "memoryRecords (world sampleAfter) (attemptPath sampleID ''m1'' name) = Some p"
    "startedRecord memoryConfig ''m1'' 1 sampleBuild p"
    using start_attempt_durable [OF memory_store.store_axioms sample_fits(1) sample_facts(1,2) sample_run] by blast
  then show ?thesis using sample_run sample_number by auto
qed

text \<open>C12: The record of an attempt or of a resolution that was observed is never written again, whatever calls follow: what a recovery reasons from cannot be rewritten.\<close>

theorem observed_attempt_final:
  assumes "store cfg recs invar" and "invar w" and "(storeCall cfg)\<^sup>*\<^sup>* w w'"
    and "ValidOperationID i" and "ValidSegment b" and "recordPath i b n k p"
    and "recs w p = Some d" and "decodedAttempt cfg d a" and "Phase a \<noteq> ''running''"
  shows "recs w' p = Some d"
  by (rule store.calls_keep [OF assms(1,3,2), of "\<lambda>m. m p = Some d"])
    (use assms(7) step_observed [OF _ assms(4-6) _ assms(8,9)] in auto)

theorem observed_attempt_final_witness:
  "memoryRecords (world (snd (CompleteAttempt memoryConfig sampleID ''m1'' 1 ''failed'' ''unknown'' ''failed'' None [] (NewStore observedArea))))
     sampleAttemptPath = Some observedText"
  by (rule observed_attempt_final [OF memory_store.store_axioms observed_sample(1) observed_call sample_facts(1,2) observed_sample(2-5)])

text \<open>C25: No call removes a record, and none rewrites a frozen plan: what was written stays, and a plan stays byte for byte what its registration published.\<close>

theorem records_persist:
  assumes "store cfg recs invar" and "invar w" and "(storeCall cfg)\<^sup>*\<^sup>* w w'"
    and "ValidOperationID i" and "recs w (planPath i) = Some d"
  shows "dom (recs w) \<subseteq> dom (recs w') \<and> recs w' (planPath i) = Some d"
proof
  have k: "dom m \<subseteq> dom m'" if "recordStep cfg m m'" for m m'
    using step_kept [OF that] by (simp add: dom_def subset_iff)
  show "dom (recs w) \<subseteq> dom (recs w')"
    by (rule store.calls_keep [OF assms(1,3,2), of "\<lambda>m. dom (recs w) \<subseteq> dom m"]) (use k in \<open>blast+\<close>)
  show "recs w' (planPath i) = Some d"
    by (rule store.calls_keep [OF assms(1,3,2), of "\<lambda>m. m (planPath i) = Some d"]) (use assms(4,5) step_plan in auto)
qed

theorem records_persist_witness:
  "memoryRecords (world (snd (Reclaim memoryConfig (NewStore plannedArea)))) (planPath sampleID) = Some ''{}''"
  using records_persist [OF memory_store.store_axioms planned_sample(1,2) sample_facts(1) planned_sample(3)] by simp

text \<open>C13: A registration that returns has written exactly three records: the plan and the operation where there were none, and an index that reads back as naming the operation. One that fails has made only writes of the protocol. The witness is a registration that returns.\<close>

theorem register_publishes:
  assumes "store cfg recs invar" and "invar (world s)"
  shows "(\<forall>s'. Register cfg op plan s = (Inr (), s') \<longrightarrow> registeredAs cfg (recs (world s)) op plan (recs (world s'))) \<and>
    (\<forall>e s'. Register cfg op plan s = (Inl e, s') \<longrightarrow> (recordStep cfg)\<^sup>*\<^sup>* (recs (world s)) (recs (world s')))"
proof -
  have "doesOn recs invar (recs (world s)) (Register cfg op plan) (\<lambda>_. registeredAs cfg (recs (world s)) op plan)
      ((recordStep cfg)\<^sup>*\<^sup>* (recs (world s)))"
    by (rule store.does_weaken [OF assms(1) store.does_Register [OF assms(1)]]) simp_all
  from doesOn_case [where recs = recs and invar = invar and s = s, OF this assms(2)] show ?thesis
    by (intro conjI allI impI) simp_all
qed

theorem register_publishes_witness:
  "\<exists>s. Register memoryConfig baseOperation sampleBase sampleStore = (Inr (), s) \<and>
    registeredAs memoryConfig Map.empty baseOperation sampleBase (memoryRecords (world s))"
proof -
  obtain s where s: "Register memoryConfig baseOperation sampleBase sampleStore = (Inr (), s)"
    using base_registered by blast
  then show ?thesis
    using register_publishes [OF memory_store.store_axioms sample_fits(1), of baseOperation sampleBase] sample_fits(2) by auto
qed

text \<open>C19: A resolution that is started takes a number above every resolution record its attempt has, although it reads only the names of the directory, and the last resolution read back on the records it leaves is the one it started.\<close>

theorem resolution_numbered_after_all:
  assumes "store cfg recs invar" and "invar (world s)" and "ValidOperationID i" and "ValidSegment b"
    and "StartResolution cfg i b n build removal s = (Inr k, s')"
    and "invar (world t)" and "recs (world t) = recs (world s')" and "LastResolution cfg i b n t = (Inr found, t')"
  shows "{j. resolved (recs (world s)) i b n j} \<subseteq> {j. j < k} \<and> (\<exists>a. found = Some a \<and> Number a = n \<and> AttBlock a = b \<and> Resolution a = k)"
proof -
  let ?m = "recs (world s)" and ?m' = "recs (world s')"
  have k: "resolved ?m' i b n k" "\<forall>j. resolved ?m i b n j \<longrightarrow> j < k" "\<forall>j. resolved ?m' i b n j \<longrightarrow> resolved ?m i b n j \<or> j = k"
    using doesOn_Inr [OF store.does_StartResolution [OF assms(1,3,4)] assms(2,5)] by simp_all
  have "case found of None \<Rightarrow> \<forall>j. \<not> resolved ?m' i b n j
      | Some a \<Rightarrow> AttBlock a = b \<and> Number a = n \<and> resolved ?m' i b n (Resolution a) \<and> (\<forall>j. resolved ?m' i b n j \<longrightarrow> j \<le> Resolution a)"
    using doesOn_Inr [OF store.does_LastResolution [OF assms(1,3,4)] assms(6,8)] unfolding assms(7) by (rule conjunct2)
  then obtain a where a: "found = Some a" "AttBlock a = b" "Number a = n" "resolved ?m' i b n (Resolution a)" "k \<le> Resolution a"
    using k(1) by (cases found) auto
  then have "Resolution a = k" using k(2,3) by force
  then show ?thesis using a k(2) by auto
qed

theorem resolution_numbered_after_all_witness:
  "fst (StartResolution memoryConfig sampleID ''m1'' 1 sampleBuild False sampleStore) = Inr 1 \<and>
   map_sum id (map_option Resolution) (fst (LastResolution memoryConfig sampleID ''m1'' 1 sampleResolving)) = Inr (Some 1)"
proof -
  obtain a where l: "LastResolution memoryConfig sampleID ''m1'' 1 sampleResolving = (Inr (Some a), sampleResolving)"
    using sample_last by blast
  show ?thesis
    using resolution_numbered_after_all [OF memory_store.store_axioms sample_fits(1) sample_facts(1,2) sample_resolution resolving_fits refl l] l
      sample_resolution by simp
qed

text \<open>C26: A frozen plan that is read back is one this executable could have produced: the record of its operation decodes and is valid, names its identity and verb, and its digest is that of the plan and of the plan rebuilt from its definitions. Reading changes no record, also where it fails. The witness reads back the plan a registration froze.\<close>

theorem plan_read_back:
  assumes "store cfg recs invar" and "invar (world s)"
  shows "(\<forall>plan s'. ReadPlan cfg i s = (Inr plan, s') \<longrightarrow> recs (world s') = recs (world s) \<and> (\<exists>d v rebuilt. let op = operationOf v in
        recs (world s) (operationPath i) = Some d \<and> decodeUnder (quoting cfg) operationShape d MaxOperationBytes (runningBuild cfg) = Inr v \<and>
        OpID op = i \<and> validateOperation op = None \<and> OpVerb op = PlanVerb plan \<and> checkPredecessor op plan = None \<and>
        NewPlan (PlanVerb plan) (definitions plan) = Inr rebuilt \<and>
        Digest rebuilt = Inr (PlanDigest op) \<and> Digest plan = Inr (PlanDigest op))) \<and>
    (\<forall>e s'. ReadPlan cfg i s = (Inl e, s') \<longrightarrow> recs (world s') = recs (world s))"
proof -
  have "doesOn recs invar (recs (world s)) (ReadPlan cfg i)
      (\<lambda>plan m. m = recs (world s) \<and> (\<exists>d v rebuilt. let op = operationOf v in
        recs (world s) (operationPath i) = Some d \<and> decodeUnder (quoting cfg) operationShape d MaxOperationBytes (runningBuild cfg) = Inr v \<and>
        OpID op = i \<and> validateOperation op = None \<and> OpVerb op = PlanVerb plan \<and> checkPredecessor op plan = None \<and>
        NewPlan (PlanVerb plan) (definitions plan) = Inr rebuilt \<and>
        Digest rebuilt = Inr (PlanDigest op) \<and> Digest plan = Inr (PlanDigest op))) (\<lambda>m. m = recs (world s))"
    by (rule store.does_ReadPlan [OF assms(1)]) (unfold Let_def, blast, rule refl)
  from doesOn_case [where recs = recs and invar = invar and s = s, OF this assms(2)] show ?thesis
    by (intro conjI allI impI) simp_all
qed

theorem plan_read_back_witness:
  "\<exists>s. Register memoryConfig baseOperation sampleBase sampleStore = (Inr (), s) \<and> ReadPlan memoryConfig sampleID s = (Inr sampleBase, s) \<and>
    (\<exists>d v rebuilt. let op = operationOf v in
        memoryRecords (world s) (operationPath sampleID) = Some d \<and> decodeUnder (quoting memoryConfig) operationShape d MaxOperationBytes (runningBuild memoryConfig) = Inr v \<and>
        OpID op = sampleID \<and> validateOperation op = None \<and> OpVerb op = PlanVerb sampleBase \<and> checkPredecessor op sampleBase = None \<and>
        NewPlan (PlanVerb sampleBase) (definitions sampleBase) = Inr rebuilt \<and>
        Digest rebuilt = Inr (PlanDigest op) \<and> Digest sampleBase = Inr (PlanDigest op))"
proof -
  obtain s where s: "Register memoryConfig baseOperation sampleBase sampleStore = (Inr (), s)" "memoryInvar (world s)"
    "ReadPlan memoryConfig sampleID s = (Inr sampleBase, s)"
    using base_registered by blast
  note p = plan_read_back [OF memory_store.store_axioms s(2), of sampleID, THEN conjunct1, rule_format, OF s(3), THEN conjunct2]
  show ?thesis using s(1,3) p by (intro exI [of _ s] conjI)
qed

subsection \<open>Records and logs\<close>

text \<open>C14: The record of a block, of an attempt whose evidence and preparation are canonical JSON texts, and of an operation whose identifiers are UTF-8, that was validated and encoded, is accepted by its decoder and reads back as it was written: an attempt with absent evidence as null and empty preparation and warnings as absent. Validation asks for neither: evidence that is not compact reads back compacted, and invalid UTF-8 replaced.\<close>

theorem records_read_back:
  assumes "validateBlock r = None" and "encode (blockValue r) MaxAttemptBytes = Inr block"
    and "validateAttempt a = None" and "canonicalRaw (AttEvidence a)" and "canonicalRaw (Preparation a)"
    and "encode (attemptValue a) MaxAttemptBytes = Inr tried"
    and "validateOperation op = None" and "textual op" and "encode (operationValue op) MaxOperationBytes = Inr operation"
  shows "map_sum id Codec.blockOf (decodeUnder quote blockShape block MaxAttemptBytes executable) = Inr r \<and>
    map_sum id attemptOf (decodeUnder quote attemptShape tried MaxAttemptBytes executable) = Inr (attemptStored a) \<and>
    map_sum id operationOf (decodeUnder quote operationShape operation MaxOperationBytes executable) = Inr op"
  using decode_block [OF assms(1,2)] decode_attempt [OF assms(3,4) disjI2 [OF assms(5)] assms(6)] decode_operation [OF assms(7-9)]
  by simp

theorem records_read_back_witness:
  "map_sum id attemptOf (decodeUnder id attemptShape (projr (encode (attemptValue sampleAttempt) MaxAttemptBytes)) MaxAttemptBytes None) =
   Inr (attemptStored sampleAttempt)"
proof -
  obtain d e o1 where d: "encode (blockValue firstRecord) MaxAttemptBytes = Inr d"
    "encode (attemptValue sampleAttempt) MaxAttemptBytes = Inr e" "encode (operationValue sampleOperation) MaxOperationBytes = Inr o1"
    using sample_encodings sample_operation_encoding by auto
  have r: "canonicalRaw (AttEvidence sampleAttempt)" "canonicalRaw (Preparation sampleAttempt)"
    by (simp_all add: startedAttempt_def canonicalRaw_def)
  show ?thesis
    using records_read_back [OF sample_records(1) d(1) sample_records(2) r d(2) sample_operation sample_textual d(3), of id None] d(2)
    by simp
qed

text \<open>C15: A decoder accepts bytes only as the encoding of the value it returns: no two texts read as one record, and a record that is read and written unchanged keeps its bytes.\<close>

theorem record_canonical:
  assumes "decodeUnder quote sh data maximum executable = Inr v"
  shows "encode v maximum = Inr data \<and> data \<noteq> [] \<and> length data \<le> maximum"
  using decodeUnder_sound [OF assms] decodeUnder_result [OF assms] by simp

theorem record_canonical_witness:
  "encode (projr (decodeUnder id blockShape (projr (encode (blockValue firstRecord) MaxAttemptBytes)) MaxAttemptBytes None)) MaxAttemptBytes =
   encode (blockValue firstRecord) MaxAttemptBytes"
proof -
  obtain d where d: "encode (blockValue firstRecord) MaxAttemptBytes = Inr d" using sample_encodings by auto
  have "map_sum id Codec.blockOf (decodeUnder id blockShape d MaxAttemptBytes None) = Inr firstRecord"
    by (rule decode_block [OF sample_records(1) d])
  then obtain v where v: "decodeUnder id blockShape d MaxAttemptBytes None = Inr v"
    by (cases "decodeUnder id blockShape d MaxAttemptBytes None") auto
  then show ?thesis using record_canonical [OF v] d by simp
qed

text \<open>C39: A request frozen under a version thaws as it was frozen; and any text that thaws under a version, whoever wrote it, names that version and is exactly the frozen text of the value it thaws to.\<close>

theorem frozen_thaws:
  assumes "conforms sh 0 (RStruct fvs)" and "Freeze (RStruct fvs) subject = Inr data"
    and "(f, RString want) \<in> set fvs" and "jsonName f = ''version''" and "fieldAction f (RString want) = Write"
  shows "ThawVersion sh data subject want = Inr (readBack (RStruct fvs)) \<and> Freeze (readBack (RStruct fvs)) subject = Inr data \<and>
    (\<forall>shape text version v. ThawVersion shape text subject version = Inr v \<longrightarrow>
       Freeze v subject = Inr text \<and> (\<exists>ms. raw_members text = Some ms \<and> namedVersion ms = (True, version)))"
  using ThawVersion_Freeze [OF assms(1,2) refl assms(3-5)] ThawVersion_canonical ThawVersion_names by blast

theorem frozen_thaws_witness:
  "ThawVersion (SStruct [(field ''version'', SString)]) ''{\"version\":\"v1\"}'' ''sample'' ''v1'' = Inr (RStruct [(field ''version'', RString ''v1'')]) \<and>
   (\<exists>ms. raw_members ''{\"version\":\"v1\"}'' = Some ms \<and> namedVersion ms = (True, ''v1''))"
proof -
  have f: "Freeze (RStruct [(field ''version'', RString ''v1'')]) ''sample'' = Inr ''{\"version\":\"v1\"}''"
    by code_simp
  have c: "conforms (SStruct [(field ''version'', SString)]) 0 (RStruct [(field ''version'', RString ''v1'')])"
    by (simp add: utf8_ascii)
  have v: "(field ''version'', RString ''v1'') \<in> set [(field ''version'', RString ''v1'')]" "jsonName (field ''version'') = ''version''"
    "fieldAction (field ''version'') (RString ''v1'') = Write" by simp_all
  note t = frozen_thaws [OF c f v]
  have "ThawVersion (SStruct [(field ''version'', SString)]) ''{\"version\":\"v1\"}'' ''sample'' ''v1'' =
      Inr (readBack (RStruct [(field ''version'', RString ''v1'')]))" by (rule conjunct1 [OF t])
  moreover have "\<exists>ms. raw_members ''{\"version\":\"v1\"}'' = Some ms \<and> namedVersion ms = (True, ''v1'')"
    using t by blast
  ultimately show ?thesis by simp
qed

text \<open>C40: From opening to closing, whatever is appended between (fewer than 10^29 records) and whichever calls fail, the log of an invocation ends within its limit, that of an attempt or that of an invocation, if it was opened with room for a truncation marker, and never more than the 64 bytes kept for a marker above what it held before; nothing but the log changes. A full log that is opened again and again does pass its limit, one marker each time: that is the lemma reopened_log_exceeds.\<close>

theorem log_bounded:
  assumes "sized_store cfg recs invar" and "invar (world s)" and "logTarget target"
    and "OpenLog cfg target s = (Inr l, u)" and "appendAll cfg events (u, l) = (v, k)" and "int (length events) < 10 ^ 29"
    and "CloseLog cfg (v, k) = (r, (w, k'))"
  shows "logLimit l = (if attemptLog target then AttemptLogBytes else MaxLogBytes) \<and> logClosed k' \<and>
    recordSize (recs (world w)) target \<le> max (logLimit l) (recordSize (recs (world s)) target + truncationMarkerBytes) \<and>
    (\<forall>p. p \<noteq> target \<longrightarrow> recs (world w) p = recs (world s) p)"
  using sized_store.session_bounded [OF assms] sized_store.open_log_within [OF assms(1-4)] by blast

theorem log_bounded_witness:
"\<exists>l u v k r r' w k'. OpenLog memoryConfig firstLog sampleStore = (Inr l, u) \<and> recordSize (memoryRecords (world u)) firstLog = 49 \<and>
    AppendLog memoryConfig sampleEvent (u, l) = (r, (v, k)) \<and> CloseLog memoryConfig (v, k) = (r', (w, k')) \<and>
    logClosed k' \<and> recordSize (memoryRecords (world w)) firstLog \<le> AttemptLogBytes"
proof -
  obtain l u where o: "OpenLog memoryConfig firstLog sampleStore = (Inr l, u)" "recordSize (memoryRecords (world u)) firstLog = 49"
    using new_log by blast
  obtain r v k where a: "AppendLog memoryConfig sampleEvent (u, l) = (r, (v, k))" by (metis surj_pair)
  obtain r' w k' where c: "CloseLog memoryConfig (v, k) = (r', (w, k'))" by (metis surj_pair)
  have e: "appendAll memoryConfig [sampleEvent] (u, l) = (v, k)" using a by simp
  have "int (length [sampleEvent]) < 10 ^ 29" by simp
  note b = log_bounded [OF memory_sized.sized_store_axioms sample_fits(1) log_target o(1) e this c]
  have n: "recordSize (memoryRecords (world sampleStore)) firstLog = 0"
    by (simp only: sample_fits(2)) (simp add: recordSize_def)
  have l: "logLimit l = AttemptLogBytes" using b firstLog_paths(7) by simp
  have "logClosed k' \<and> recordSize (memoryRecords (world w)) firstLog \<le> AttemptLogBytes"
    using b unfolding l n by simp
  then show ?thesis using o a c by blast
qed

text \<open>Every text a log records is valid UTF-8 of at most the bound without control characters, and plain text within the bound is recorded as it is.\<close>

theorem log_text_safe:
  shows "utf8_valid (safeLogText v limit) \<and> length (safeLogText v limit) \<le> limit \<and>
    list_all (\<lambda>c. 32 \<le> byte_of c \<and> byte_of c \<noteq> 127) (safeLogText v limit) \<and>
    (safeLogText v limit = v \<longleftrightarrow> utf8_valid v \<and> length v \<le> limit \<and> list_all (\<lambda>c. 32 \<le> byte_of c \<and> byte_of c \<noteq> 127) v)"
  using safeLogText_safe [of v limit] safeLogText_plain [of v limit] by metis

subsection \<open>Attempts and resolutions\<close>

text \<open>C3: An effect is called only while the record of its attempt is durable, running and not yet prepared, names the build that runs it, and its block counts that attempt as running: guarding every call of an effect by that test, with anything else where the test fails, changes nothing an attempt returns or leaves, in any environment whose own steps write no record but a log fault.\<close>

theorem effect_after_durable_start:
  assumes "store cfg recs invar" and "working cfg (OpID op) recs invar env"
    and "ValidOperationID (OpID op)" and "ValidSegment (blockID b)" and "runReady invar s"
  shows "attempt (guardedEnv cfg recs other env) cfg op plan retiring b s = attempt env cfg op plan retiring b s"
  using store.whileD [OF assms(1) store.attempt_agrees [OF assms(1-4)], of "runRecords recs s"] assms(5)
  by (simp add: agreeOn_def)

theorem effect_after_durable_start_witness:
  "attempt (guardedEnv memoryConfig memoryRecords (\<lambda>_. unitS (\<lparr>ResOutcome = [], ResEvidence = None, ResProduced = []\<rparr>, None)) sampleEnv)
      memoryConfig sampleOperation samplePlan (\<lambda>_. False) (frozen sampleMachine) sampleRun
    = attempt sampleEnv memoryConfig sampleOperation samplePlan (\<lambda>_. False) (frozen sampleMachine) sampleRun"
  by (rule effect_after_durable_start [OF memory_store.store_axioms sample_working sample_names(1) sample_segment sample_ready(1)])

text \<open>C6: A block that an attempt, or the part of it from the effect on, answers done or failed is recorded so: the attempt has a record, observed, with an outcome whose transition gives that state and the recorded effect, and the block record says that state, whatever the deferred closing of logs and outputs does.\<close>

theorem attempt_recorded:
  assumes "store cfg recs invar" and "working cfg (OpID op) recs invar env"
    and "ValidOperationID (OpID op)" and "ValidSegment (blockID b)" and "runReady invar s"
    and "f = attempt env cfg op plan retiring b \<or> f = runEffect env cfg op plan b k acts \<and> tracks cfg recs invar acts"
    and "f s = ((state, e), s')" and "state = BlockDone \<or> state = BlockFailed"
  shows "\<exists>n. recordedAs cfg (runRecords recs s') (OpID op) (blockID b) n state"
proof -
  have q: "quietEnv cfg (OpID op) recs invar env" using assms(2) by (simp add: working_def)
  have "store.yields recs invar f (\<lambda>x m. answered cfg m (OpID op) (blockID b) x)"
    using assms(6) store.attempt_answers [OF assms(1-4)] store.runEffect_answers [OF assms(1) q assms(3,4)] by blast
  then have "drivesOn recs invar (runRecords recs s) f (\<lambda>x m. answered cfg m (OpID op) (blockID b) x)"
    by (simp add: store.yields_def [OF assms(1)])
  from drivesOn_result [where f = f and recs = recs and invar = invar and s = s, OF this assms(5,7)]
  show ?thesis using assms(8) by (auto simp: answered_def)
qed

theorem attempt_recorded_witness:
  "\<exists>s' n. runEffect sampleEnv memoryConfig startedOperation samplePlan (frozen sampleMachine) 1 changes startedRun = ((BlockDone, None), s') \<and>
     recordedAs memoryConfig (runRecords memoryRecords s') sampleID ''m1'' n BlockDone"
proof -
  obtain s' where s': "runEffect sampleEnv memoryConfig startedOperation samplePlan (frozen sampleMachine) 1 changes startedRun = ((BlockDone, None), s')"
    using started_effect by blast
  show ?thesis
    using attempt_recorded [OF memory_store.store_axioms sample_working started_facts(1) sample_segment started_ready
        disjI2 [OF conjI [OF refl changes_tracked]] s' disjI1 [OF refl], unfolded started_facts(2) sample_names(2)] s'
    by blast
qed

text \<open>C5: An attempt and a resolution, however their effects, observations, logs and outputs fail, keep what recovery relies on: every counted attempt has a record, the index names an operation that is there, and the record of an attempt or of a resolution that was observed is not written again.\<close>

theorem drivers_keep_records:
  assumes "store cfg recs invar" and "working cfg (OpID op) recs invar env"
    and "ValidOperationID (OpID op)" and "ValidSegment (blockID b)" and "runReady invar s"
    and "f = attempt env cfg op plan retiring b \<or> f = resolveUnknown env cfg op plan b removal removalPlan retiring command"
    and "countsAttempts cfg (runRecords recs s)" and "indexNames cfg (runRecords recs s)"
  shows "countsAttempts cfg (runRecords recs (snd (f s))) \<and> indexNames cfg (runRecords recs (snd (f s))) \<and>
    (\<forall>i c n k p d a. ValidOperationID i \<longrightarrow> ValidSegment c \<longrightarrow> recordPath i c n k p \<longrightarrow> runRecords recs s p = Some d \<longrightarrow>
       decodedAttempt cfg d a \<longrightarrow> Phase a \<noteq> ''running'' \<longrightarrow> runRecords recs (snd (f s)) p = Some d)"
proof -
  have "tracks cfg recs invar f"
    using assms(6) store.tracked_attempt [OF assms(1-4)] store.tracked_resolveUnknown [OF assms(1-4)] by blast
  note d = conjunct2 [OF tracksD [OF this assms(5)]]
  show ?thesis using driven_keeps [OF d assms(7,8)] driven_observed [OF d] by blast
qed

theorem drivers_keep_records_witness:
  "countsAttempts memoryConfig (runRecords memoryRecords
     (snd (resolveUnknown sampleEnv memoryConfig sampleOperation samplePlan (frozen sampleMachine) False samplePlan (\<lambda>_. False) [] sampleRun)))"
  by (rule conjunct1 [OF drivers_keep_records [OF memory_store.store_axioms sample_working sample_names(1) sample_segment sample_ready(1) disjI2 [OF refl]]])
    (simp_all add: sample_ready(2) empty_records)

text \<open>C22: An observation proves an effect completed exactly when it did not fail, reported completed and was not the check of a removal: the check of a removal never proves a block done, a failed observation proves nothing, and every verdict is a named effect.\<close>

theorem resolution_verdict:
  "(observedEffect observation e removal = EffectCompleted \<longleftrightarrow> \<not> removal \<and> e = None \<and> ObsEffect observation = EffectCompleted) \<and>
   (e \<noteq> None \<longrightarrow> observedEffect observation e removal = EffectUnknown) \<and> ValidEffectState (observedEffect observation e removal)"
  by (intro conjI impI observed_completed failed_unknown observedEffect_valid)

theorem resolution_verdict_witness:
  "observedEffect (noObservation\<lparr>ObsEffect := EffectCompleted\<rparr>) (Some \<lparr>Reports = [], Canceled = False\<rparr>) False = EffectUnknown"
  using resolution_verdict [of "noObservation\<lparr>ObsEffect := EffectCompleted\<rparr>" "Some \<lparr>Reports = [], Canceled = False\<rparr>" False] by simp

text \<open>C23: The failure a resolution records beside an observation that failed is one the store accepts: its texts are valid UTF-8 cut at a rune boundary within the bound, and the effect recorded beside it is unknown.\<close>

theorem failure_accepted:
  assumes "observationFailure e = Some f" and "Resolution r \<noteq> 0"
  shows "validFailure (observedAttempt r outcome (observedEffect observation e removal) evidence (Some f) t) f"
proof -
  have "e \<noteq> None" using assms(1) by (cases e) (simp_all add: observationFailure_def)
  then show ?thesis
    by (intro observed_failure [OF assms(1)]) (simp_all add: observedAttempt_def assms(2) failed_unknown)
qed

theorem failure_accepted_witness:
  "validFailure (observedAttempt (startedAttempt ''m1'' 1 1 False sampleBuild []) [] (observedEffect noObservation (Some lostError) False) None (Some lostFailure) [])
     lostFailure"
  by (rule failure_accepted [OF lost_failure]) (simp add: startedAttempt_def)

subsection \<open>Lineages and the evidence of other operations\<close>

text \<open>C21: A lineage that is read is a chain of applies, each naming the one before it and the first none, no operation twice, no longer than what a context retains, and it ends at the apply the operation is or takes back; reading it changes no record, also where it fails. The witness reads the lineage of an apply that was registered.\<close>

theorem lineage_read:
  assumes "store cfg recs invar" and "invar (world s)"
  shows "(\<forall>chain s'. appliedLineage cfg op s = (Inr chain, s') \<longrightarrow> recs (world s') = recs (world s) \<and>
        (OpVerb op \<noteq> Apply \<and> OpSource op = [] \<and> chain = [] \<or>
         (\<exists>applied. lineageEnds chain applied \<and> (if OpVerb op = Apply then applied = op else OpID applied = OpSource op)))) \<and>
    (\<forall>e s'. appliedLineage cfg op s = (Inl e, s') \<longrightarrow> recs (world s') = recs (world s))"
proof -
  have "doesOn recs invar (recs (world s)) (appliedLineage cfg op)
      (\<lambda>chain m. m = recs (world s) \<and> (OpVerb op \<noteq> Apply \<and> OpSource op = [] \<and> chain = [] \<or>
        (\<exists>applied. lineageEnds chain applied \<and> (if OpVerb op = Apply then applied = op else OpID applied = OpSource op))))
      (\<lambda>m. m = recs (world s))"
    by (rule store.does_appliedLineage [OF assms(1)]) auto
  from doesOn_case [where recs = recs and invar = invar and s = s, OF this assms(2)] show ?thesis
    by (intro conjI allI impI) simp_all
qed

theorem lineage_read_witness:
  "\<exists>s chain. Register memoryConfig baseOperation sampleBase sampleStore = (Inr (), s) \<and>
    appliedLineage memoryConfig baseOperation s = (Inr chain, s) \<and> map memberPlan chain = [sampleBase] \<and> lineageEnds chain baseOperation"
proof -
  let ?chain = "[\<lparr>memberOperation = baseOperation, memberPlan = sampleBase, memberStates = Map.empty\<rparr>]"
  obtain s where s: "Register memoryConfig baseOperation sampleBase sampleStore = (Inr (), s)" "memoryInvar (world s)"
    "appliedLineage memoryConfig baseOperation s = (Inr ?chain, s)"
    using base_registered by blast
  have v: "OpVerb baseOperation = Apply" by (simp add: baseOperation_def sampleOperation_def)
  have "lineageEnds ?chain baseOperation"
    using lineage_read [OF memory_store.store_axioms s(2), of baseOperation, THEN conjunct1, rule_format, OF s(3), THEN conjunct2] v by auto
  then show ?thesis using s(1,3) by (intro exI [of _ s] exI [of _ ?chain]) simp
qed

text \<open>C20: The evidence read of a block is what its latest record proves: the state of its record, and, where it counts an attempt, what the last resolution of the last attempt observed, or the attempt where no resolution exists; a record that is still running gives none.\<close>

theorem evidence_latest:
  assumes "store cfg recs invar" and "invar (world s)" and "ValidOperationID i" and "ValidSegment (blockID b)"
    and "blockEvidence cfg i b verb s = (Inr e, s')"
  shows "evidenceProved cfg (recs (world s)) i b e \<and> EvVerb e = verb \<and> recs (world s') = recs (world s)"
proof -
  have "doesOn recs invar (recs (world s)) (blockEvidence cfg i b verb)
      (\<lambda>e m. evidenceProved cfg (recs (world s)) i b e \<and> EvVerb e = verb \<and> m = recs (world s)) (\<lambda>_. True)"
    by (rule store.does_blockEvidence [OF assms(1,3,4)]) simp_all
  then show ?thesis by (rule doesOn_Inr [where recs = recs and invar = invar and s = s and f = "blockEvidence cfg i b verb" and s' = s' and a = e, OF _ assms(2,5)])
qed

theorem evidence_latest_witness:
  "evidenceProved memoryConfig (memoryRecords (world doneStore)) sampleID (frozen sampleMachine) doneEvidence"
proof -
  obtain t where t: "blockEvidence memoryConfig sampleID (frozen sampleMachine) Apply doneStore = (Inr doneEvidence, t)"
    using done_evidence by blast
  from evidence_latest [OF memory_store.store_axioms done_fits sample_facts(1) sample_segment t] show ?thesis by simp
qed

text \<open>C24: The worklist over the dependencies of a block of a constructed plan never misses one and finds exactly the blocks it depends on, directly or not; the passes over dependents end and find exactly the blocks that depend on it.\<close>

theorem evidence_reach:
  assumes "built p" and "b \<in> set (blocks p)"
  shows "closeOver p {} (dependencies b) = Some {d. (blockID b, d) \<in> (plan_edges p)\<^sup>+} \<and>
    dependentsLoop p {blockID b} = {c. (c, blockID b) \<in> (plan_edges p)\<^sup>*}"
  using closeOver_closure [OF assms] dependentsLoop_closure by blast

theorem evidence_reach_witness:
  "dependentsLoop samplePlan {''m1''} = {c. (c, ''m1'') \<in> (plan_edges samplePlan)\<^sup>*} \<and> ''c1'' \<in> dependentsLoop samplePlan {''m1''}"
proof -
  have "frozen sampleMachine \<in> set (blocks samplePlan)" by (simp add: samplePlan_def sampleResolved_def)
  from evidence_reach [OF sample_built this, unfolded sample_names(2)]
  have "dependentsLoop samplePlan {''m1''} = {c. (c, ''m1'') \<in> (plan_edges samplePlan)\<^sup>*}" by (rule conjunct2)
  moreover have "(''c1'', ''m1'') \<in> (plan_edges samplePlan)\<^sup>*" by (rule r_into_rtrancl) (simp add: sample_edges)
  ultimately show ?thesis by simp
qed

end
